(* ===== verification/Ck_Prelude.thy ===== *)
theory Ck_Prelude
  imports Main "HOL-Library.Char_ord" "HOL-Library.List_Lexorder" "HOL-Library.Sublist"
begin

text \<open>
  What every component shares. A \<open>std::string\<close> (or a \<open>std::string_view\<close>) is a list of
  8-bit characters, the type \<^typ>\<open>string\<close>; a C++ comparison of bytes is the order of
  \<open>Char_ord\<close>, which compares the byte values, and the order of strings is the
  lexicographic order of bytes, as \<open>std::string::operator<\<close> has it.

  The theory holds
  \<^item> the errors the code throws, with their message, and the monad of results;
  \<^item> the part of \<open>std::string_view\<close> and of \<open><charconv>\<close> that the code uses: searching,
    prefixes and suffixes, splitting at a separator, reading and printing decimals;
  \<^item> the lemmas on these that the component proofs share;
  \<^item> the locales that state the contracts several components share: a codec, a canonical
    codec and a machine whose operations keep an invariant.
\<close>

section \<open>Results and errors\<close>

text \<open>The exceptions of the code, with their messages.\<close>

datatype ck_error =
    Invalid_Argument string   \<comment> \<open>\<open>std::invalid_argument\<close>\<close>
  | Runtime_Error string      \<comment> \<open>\<open>std::runtime_error\<close>\<close>
  | Length_Error string       \<comment> \<open>\<open>std::length_error\<close>\<close>

type_synonym 'a result = "ck_error + 'a"

definition bindE :: "'e + 'a \<Rightarrow> ('a \<Rightarrow> 'e + 'b) \<Rightarrow> 'e + 'b" where
  "bindE m f = (case m of Inl e \<Rightarrow> Inl e | Inr x \<Rightarrow> f x)"

definition require :: "bool \<Rightarrow> ck_error \<Rightarrow> unit result" where
  "require b e = (if b then Inr () else Inl e)"

definition ok_of :: "'e + 'a \<Rightarrow> 'a option" where
  "ok_of r = (case r of Inl _ \<Rightarrow> None | Inr x \<Rightarrow> Some x)"

fun mapE :: "('a \<Rightarrow> 'e + 'b) \<Rightarrow> 'a list \<Rightarrow> 'e + 'b list" where
  "mapE f [] = Inr []"
| "mapE f (x # xs) = bindE (f x) (\<lambda>y. bindE (mapE f xs) (\<lambda>ys. Inr (y # ys)))"

text \<open>A loop with variables that may throw.\<close>

fun foldE :: "('s \<Rightarrow> 'a \<Rightarrow> 'e + 's) \<Rightarrow> 's \<Rightarrow> 'a list \<Rightarrow> 'e + 's" where
  "foldE f s [] = Inr s"
| "foldE f s (x # xs) = bindE (f s x) (\<lambda>s'. foldE f s' xs)"

lemma foldE_append: "foldE f s (xs @ ys) = bindE (foldE f s xs) (\<lambda>s'. foldE f s' ys)"
  by (induction xs arbitrary: s) (auto simp: bindE_def split: sum.splits)

named_theorems result_simps "equations that run a result or say when it succeeds"
named_theorems char_class "unfolding of the character classes"

lemma bindE_Inr [simp]: "bindE (Inr x) f = f x"
  and bindE_Inl [simp]: "bindE (Inl e) f = Inl e"
  by (simp_all add: bindE_def)

lemma bindE_eq_Inr [result_simps]: "bindE m f = Inr y \<longleftrightarrow> (\<exists>x. m = Inr x \<and> f x = Inr y)"
  by (cases m) auto

text \<open>A computation that succeeded passed each of its steps and none of its guards: the rules that take it apart.\<close>

lemma bindE_InrE: "bindE m f = Inr y \<Longrightarrow> (\<And>x. m = Inr x \<Longrightarrow> f x = Inr y \<Longrightarrow> P) \<Longrightarrow> P"
  unfolding bindE_eq_Inr by blast

lemma guard_InrE: "(if b then Inl e else m) = Inr y \<Longrightarrow> (\<not> b \<Longrightarrow> m = Inr y \<Longrightarrow> P) \<Longrightarrow> P"
  by (cases b) simp_all

lemma option_InrE: "(case m of None \<Rightarrow> Inl e | Some x \<Rightarrow> f x) = Inr y \<Longrightarrow> (\<And>x. m = Some x \<Longrightarrow> f x = Inr y \<Longrightarrow> P) \<Longrightarrow> P"
  by (cases m) simp_all

lemmas result_elims = bindE_InrE guard_InrE option_InrE

lemma require_eq_Inr [result_simps]: "require b e = Inr u \<longleftrightarrow> b"
  by (simp add: require_def)

lemma require_True [simp]: "b \<Longrightarrow> require b e = Inr ()"
  and require_False [simp]: "\<not> b \<Longrightarrow> require b e = Inl e"
  by (simp_all add: require_def)

lemma ok_of_simps [simp]: "ok_of (Inr x) = Some x" "ok_of (Inl e) = None"
  by (simp_all add: ok_of_def)

lemma ok_of_eq_Some [simp]: "ok_of r = Some x \<longleftrightarrow> r = Inr x"
  by (cases r) auto

lemma mapE_eq_Inr: "mapE f xs = Inr ys \<longleftrightarrow> list_all2 (\<lambda>x y. f x = Inr y) xs ys"
  by (induction xs arbitrary: ys) (auto simp: result_simps list_all2_Cons1)

lemma mapE_map:
  assumes "\<And>x. x \<in> set xs \<Longrightarrow> f (g x) = Inr x"
  shows "mapE f (map g xs) = Inr xs"
  using assms by (induction xs) auto

section \<open>Characters\<close>

abbreviation byte :: "char \<Rightarrow> nat" where
  "byte c \<equiv> of_char c"

abbreviation newline :: char where
  "newline \<equiv> CHR 0x0A"

abbreviation tab :: char where
  "tab \<equiv> CHR 0x09"

abbreviation carriage_return :: char where
  "carriage_return \<equiv> CHR 0x0D"

definition is_digit :: "char \<Rightarrow> bool" where
  "is_digit c \<longleftrightarrow> CHR ''0'' \<le> c \<and> c \<le> CHR ''9''"

definition is_lower :: "char \<Rightarrow> bool" where
  "is_lower c \<longleftrightarrow> CHR ''a'' \<le> c \<and> c \<le> CHR ''z''"

definition is_upper :: "char \<Rightarrow> bool" where
  "is_upper c \<longleftrightarrow> CHR ''A'' \<le> c \<and> c \<le> CHR ''Z''"

text \<open>\<open>std::isalnum\<close> in the C locale, which the programs never leave.\<close>

definition is_alnum :: "char \<Rightarrow> bool" where
  "is_alnum c \<longleftrightarrow> is_upper c \<or> is_lower c \<or> is_digit c"

definition is_lower_hex :: "char \<Rightarrow> bool" where
  "is_lower_hex c \<longleftrightarrow> is_digit c \<or> (CHR ''a'' \<le> c \<and> c \<le> CHR ''f'')"

text \<open>\<open>character < 0x20 || character == 0x7f\<close>.\<close>

definition is_control :: "char \<Rightarrow> bool" where
  "is_control c \<longleftrightarrow> byte c < 0x20 \<or> byte c = 0x7F"

lemmas char_classes [char_class] =
  is_digit_def is_lower_def is_upper_def is_alnum_def is_lower_hex_def is_control_def

lemma byte_less_256 [simp]: "byte c < 256"
  by (rule nat_of_char_less_256)

lemma char_of_byte [simp]: "char_of (byte c) = c"
  by simp

lemma byte_char_of: "n < 256 \<Longrightarrow> byte (char_of n) = n"
  by simp

lemma eq_char_of: "c = char_of (n :: nat) \<longleftrightarrow> byte c = n mod 256"
  by (metis char_of_byte char_of_mod_256 of_char_of)

lemma char_le_byte: "c \<le> d \<longleftrightarrow> byte c \<le> byte d"
  by (simp add: less_eq_char_def)

lemma byte_eq_iff: "byte c = byte d \<longleftrightarrow> c = d"
  by simp

text \<open>The classes as ranges of byte values.\<close>

lemma is_digit_byte: "is_digit c \<longleftrightarrow> 48 \<le> byte c \<and> byte c \<le> 57"
  by (simp add: is_digit_def char_le_byte)

lemma is_lower_byte: "is_lower c \<longleftrightarrow> 97 \<le> byte c \<and> byte c \<le> 122"
  by (simp add: is_lower_def char_le_byte)

lemma is_upper_byte: "is_upper c \<longleftrightarrow> 65 \<le> byte c \<and> byte c \<le> 90"
  by (simp add: is_upper_def char_le_byte)

lemma is_alnum_byte:
  "is_alnum c \<longleftrightarrow> 65 \<le> byte c \<and> byte c \<le> 90 \<or> 97 \<le> byte c \<and> byte c \<le> 122
     \<or> 48 \<le> byte c \<and> byte c \<le> 57"
  by (simp add: is_alnum_def is_digit_byte is_lower_byte is_upper_byte)

lemma is_lower_hex_byte:
  "is_lower_hex c \<longleftrightarrow> 48 \<le> byte c \<and> byte c \<le> 57 \<or> 97 \<le> byte c \<and> byte c \<le> 102"
  by (simp add: is_lower_hex_def is_digit_byte char_le_byte)

lemma is_lower_hex_alnum: "is_lower_hex c \<Longrightarrow> is_alnum c"
  by (auto simp: is_lower_hex_byte is_alnum_byte)

lemma is_digit_alnum: "is_digit c \<Longrightarrow> is_alnum c"
  by (simp add: is_alnum_def)

section \<open>Strings\<close>

text \<open>\<open>text.rfind(p, 0) == 0\<close> and \<open>text.starts_with(p)\<close>; \<open>text.ends_with(p)\<close>.\<close>

definition starts_with :: "string \<Rightarrow> string \<Rightarrow> bool" where
  "starts_with s p \<longleftrightarrow> take (length p) s = p"

definition ends_with :: "string \<Rightarrow> string \<Rightarrow> bool" where
  "ends_with s p \<longleftrightarrow> length p \<le> length s \<and> drop (length s - length p) s = p"

text \<open>\<open>text.find(sub) != npos\<close>.\<close>

fun contains :: "string \<Rightarrow> string \<Rightarrow> bool" where
  "contains sub [] \<longleftrightarrow> sub = []"
| "contains sub (c # s) \<longleftrightarrow> starts_with (c # s) sub \<or> contains sub s"

text \<open>
  A search for one character splits the text in what precedes its first occurrence and, when
  there is one, what follows it: \<open>text.substr(0, at)\<close> and \<open>text.substr(at + 1)\<close> for
  \<open>at = text.find(c)\<close>.
\<close>

definition before :: "char \<Rightarrow> string \<Rightarrow> string" where
  "before c s = takeWhile (\<lambda>x. x \<noteq> c) s"

definition after :: "char \<Rightarrow> string \<Rightarrow> string option" where
  "after c s = (case dropWhile (\<lambda>x. x \<noteq> c) s of [] \<Rightarrow> None | _ # r \<Rightarrow> Some r)"

text \<open>The same for the last occurrence, \<open>text.rfind(c)\<close>.\<close>

definition before_last :: "char \<Rightarrow> string \<Rightarrow> string option" where
  "before_last c s = map_option rev (after c (rev s))"

definition after_last :: "char \<Rightarrow> string \<Rightarrow> string" where
  "after_last c s = rev (before c (rev s))"

text \<open>
  \<open>text.find(sub)\<close> with what precedes the first occurrence of \<open>sub\<close> and what follows it.
\<close>

fun cut :: "string \<Rightarrow> string \<Rightarrow> (string \<times> string) option" where
  "cut sub [] = (if sub = [] then Some ([], []) else None)"
| "cut sub (c # s) =
     (if starts_with (c # s) sub then Some ([], drop (length sub) (c # s))
      else map_option (\<lambda>(a, b). (c # a, b)) (cut sub s))"

text \<open>
  The splitting loops of the code read up to the next separator, and go on after it until
  there is none left: the pieces between the separators, at least one.
\<close>

fun split_on :: "char \<Rightarrow> string \<Rightarrow> string list" where
  "split_on c [] = [[]]"
| "split_on c (x # xs) =
     (if x = c then [] # split_on c xs
      else (case split_on c xs of [] \<Rightarrow> [[x]] | y # ys \<Rightarrow> (x # y) # ys))"

fun join :: "char \<Rightarrow> string list \<Rightarrow> string" where
  "join c [] = []"
| "join c [x] = x"
| "join c (x # y # ys) = x @ c # join c (y # ys)"

text \<open>Dropping characters at the end: \<open>while (p(text.back())) text.remove_suffix(1)\<close>.\<close>

definition strip_right :: "(char \<Rightarrow> bool) \<Rightarrow> string \<Rightarrow> string" where
  "strip_right p s = rev (dropWhile p (rev s))"

lemma starts_with_append [simp]: "starts_with (p @ s) p"
  by (simp add: starts_with_def)

lemma starts_with_iff: "starts_with s p \<longleftrightarrow> (\<exists>r. s = p @ r)"
  by (metis starts_with_def append_take_drop_id append_eq_conv_conj)

lemma starts_with_drop: "starts_with s p \<Longrightarrow> p @ drop (length p) s = s"
  by (metis starts_with_def append_take_drop_id)

lemma ends_with_iff: "ends_with s p \<longleftrightarrow> (\<exists>r. s = r @ p)"
proof
  assume "ends_with s p"
  then show "\<exists>r. s = r @ p"
    by (metis ends_with_def append_take_drop_id)
qed (auto simp: ends_with_def)

lemma contains_iff: "contains sub s \<longleftrightarrow> (\<exists>a b. s = a @ sub @ b)"
proof (induction s)
  case (Cons c s)
  show ?case
  proof
    assume "contains sub (c # s)"
    then consider "starts_with (c # s) sub" | "contains sub s" by auto
    then show "\<exists>a b. c # s = a @ sub @ b"
    proof cases
      case 1
      then show ?thesis by (metis append_Nil starts_with_iff)
    next
      case 2
      then show ?thesis using Cons.IH by (metis append_Cons)
    qed
  next
    assume "\<exists>a b. c # s = a @ sub @ b"
    then obtain a b where eq: "c # s = a @ sub @ b" by blast
    show "contains sub (c # s)"
    proof (cases a)
      case Nil
      with eq have "starts_with (c # s) sub" by (auto simp: starts_with_iff)
      then show ?thesis by simp
    next
      case (Cons d a')
      with eq have "s = a' @ sub @ b" by simp
      then show ?thesis using Cons.IH by auto
    qed
  qed
qed auto

lemma contains_char: "contains [c] s \<longleftrightarrow> c \<in> set s"
  by (auto simp: contains_iff in_set_conv_decomp)

lemma cut_Some: "cut sub s = Some (a, b) \<Longrightarrow> s = a @ sub @ b"
  by (induction s arbitrary: a) (auto simp: starts_with_drop split: if_splits)

lemma cut_first: "cut sub s = Some (a, b) \<Longrightarrow> sub \<noteq> [] \<Longrightarrow> \<not> contains sub a"
proof (induction s arbitrary: a)
  case (Cons c s)
  show ?case
  proof (cases "starts_with (c # s) sub")
    case True
    with Cons.prems show ?thesis by simp
  next
    case False
    with Cons.prems obtain a' where a: "a = c # a'" "cut sub s = Some (a', b)" by auto
    have "\<not> starts_with (c # a') sub"
    proof
      assume "starts_with (c # a') sub"
      then obtain r where "c # a' = sub @ r" by (auto simp: starts_with_iff)
      then have "c # s = sub @ r @ sub @ b" using cut_Some [OF a(2)] by (metis append_Cons append_assoc)
      with False show False by (auto simp: starts_with_iff)
    qed
    with Cons a show ?thesis by simp
  qed
qed simp

lemma cut_None: "cut sub s = None \<longleftrightarrow> \<not> contains sub s"
  by (induction s) auto

text \<open>A text without the first character of the pattern cannot hold the start of an occurrence.\<close>

lemma cut_append: "c \<notin> set a \<Longrightarrow> cut (c # p) (a @ (c # p) @ b) = Some (a, b)"
proof (induction a)
  case Nil
  show ?case by (simp add: starts_with_def)
next
  case (Cons x a)
  then have "\<not> starts_with (x # a @ (c # p) @ b) (c # p)" by (auto simp: starts_with_def)
  with Cons show ?case by simp
qed

lemma after_None: "after c s = None \<longleftrightarrow> c \<notin> set s"
  by (induction s) (auto simp: after_def)

lemma after_no_sep [simp]: "c \<notin> set s \<Longrightarrow> after c s = None"
  by (simp add: after_None)

lemma after_None_no_sep: "after c s = None \<Longrightarrow> c \<notin> set s"
  by (simp add: after_None)

lemma after_Some: "after c s = Some r \<longleftrightarrow> s = before c s @ c # r"
proof
  assume "after c s = Some r"
  then obtain x where x: "dropWhile (\<lambda>x. x \<noteq> c) s = x # r"
    by (auto simp: after_def split: list.splits)
  then have "x = c" by (metis (full_types) dropWhile_eq_Cons_conv)
  with x show "s = before c s @ c # r"
    by (metis before_def takeWhile_dropWhile_id)
next
  assume "s = before c s @ c # r"
  then have "dropWhile (\<lambda>x. x \<noteq> c) s = c # r"
    by (metis before_def same_append_eq takeWhile_dropWhile_id)
  then show "after c s = Some r" by (simp add: after_def)
qed

lemma before_no_sep [simp]: "c \<notin> set (before c s)"
  by (auto simp: before_def dest: set_takeWhileD)

lemma before_subset: "set (before c s) \<subseteq> set s"
  by (auto simp: before_def dest: set_takeWhileD)

lemma before_append [simp]: "c \<notin> set s \<Longrightarrow> before c (s @ c # r) = s"
  by (induction s) (auto simp: before_def)

lemma after_append [simp]: "c \<notin> set s \<Longrightarrow> after c (s @ c # r) = Some r"
  by (simp add: after_Some)

lemma before_id [simp]: "c \<notin> set s \<Longrightarrow> before c s = s"
  by (simp add: before_def takeWhile_eq_all_conv) auto

lemma after_length: "after c s = Some r \<Longrightarrow> length r < length s"
  by (metis after_Some length_append length_Cons less_add_Suc2 add_Suc_right)

lemma strip_right_id: "s = [] \<or> \<not> p (last s) \<Longrightarrow> strip_right p s = s"
  by (cases s rule: rev_cases) (auto simp: strip_right_def)

lemma strip_right_decomp: "\<exists>t. s = strip_right p s @ t \<and> (\<forall>c \<in> set t. p c)"
proof -
  have "s = strip_right p s @ rev (takeWhile p (rev s))"
    by (simp add: strip_right_def flip: rev_append)
  then show ?thesis by (metis set_rev set_takeWhileD)
qed

lemma strip_right_last: "strip_right p s \<noteq> [] \<Longrightarrow> \<not> p (last (strip_right p s))"
  by (simp add: strip_right_def last_rev hd_dropWhile)

lemma set_strip_right: "set (strip_right p s) \<subseteq> set s"
  by (auto simp: strip_right_def dest: set_dropWhileD)

section \<open>Splitting and joining\<close>

lemma split_on_nonempty [simp]: "split_on c s \<noteq> []"
  by (cases s) (auto split: list.splits)

lemma join_split_on [simp]: "join c (split_on c s) = s"
proof (induction s)
  case (Cons x xs)
  obtain y ys where y: "split_on c xs = y # ys" by (metis split_on_nonempty list.exhaust)
  with Cons show ?case by (cases ys) auto
qed simp

lemma split_on_no_sep: "\<forall>p \<in> set (split_on c s). c \<notin> set p"
proof (induction s)
  case (Cons x xs)
  then show ?case by (auto split: list.splits)
qed simp

lemma split_on_append: "c \<notin> set s \<Longrightarrow> split_on c (s @ c # r) = s # split_on c r"
  by (induction s) auto

lemma split_on_single [simp]: "c \<notin> set s \<Longrightarrow> split_on c s = [s]"
  by (induction s) auto

lemma split_on_join:
  assumes "xs \<noteq> []" and "\<forall>x \<in> set xs. c \<notin> set x"
  shows "split_on c (join c xs) = xs"
  using assms
proof (induction c xs rule: join.induct)
  case (3 c x y ys)
  then show ?case by (simp add: split_on_append)
qed auto

lemma split_on_before:
  "split_on c s = (case after c s of None \<Rightarrow> [s] | Some r \<Rightarrow> before c s # split_on c r)"
proof (cases "after c s")
  case None
  then have "c \<notin> set s" by (rule after_None_no_sep)
  then show ?thesis by simp
next
  case (Some r)
  then have "s = before c s @ c # r" by (simp add: after_Some)
  then have "split_on c s = before c s # split_on c r"
    by (metis before_no_sep split_on_append)
  with Some show ?thesis by simp
qed

lemma set_split_on: "p \<in> set (split_on c s) \<Longrightarrow> set p \<subseteq> set s"
proof (induction s arbitrary: p)
  case (Cons x xs)
  then show ?case by (auto split: if_splits list.splits) (metis Cons.IH list.set_intros subset_iff)+
qed simp

lemma join_inj:
  assumes "xs \<noteq> []" "ys \<noteq> []" "\<forall>x \<in> set xs. c \<notin> set x" "\<forall>y \<in> set ys. c \<notin> set y"
    and "join c xs = join c ys"
  shows "xs = ys"
  by (metis assms split_on_join)

lemma set_join: "set (join c xs) \<subseteq> insert c (\<Union> (set ` set xs))"
  by (induction c xs rule: join.induct) auto

section \<open>Contracts\<close>

text \<open>
  A codec prints the values it accepts so that it can read them back. Every pair of a
  \<open>format...\<close> and a \<open>parse...\<close> function of the code promises at least this.
\<close>

locale codec =
  fixes enc :: "'a \<Rightarrow> string"
    and dec :: "string \<Rightarrow> 'a option"
    and valid :: "'a \<Rightarrow> bool"
  assumes dec_enc: "valid x \<Longrightarrow> dec (enc x) = Some x"
begin

lemma enc_inj: "valid x \<Longrightarrow> valid y \<Longrightarrow> enc x = enc y \<Longrightarrow> x = y"
  by (metis dec_enc option.inject)

lemma inj_on_enc: "inj_on enc (Collect valid)"
  by (auto intro!: inj_onI dest: enc_inj)

lemma enc_rejected: "dec (enc x) \<noteq> Some x \<Longrightarrow> \<not> valid x"
  using dec_enc by blast

end

text \<open>
  A canonical codec also accepts nothing but what it prints: a value has exactly one text, so
  a text can be compared, hashed or signed in place of the value.
\<close>

locale canonical_codec = codec +
  assumes dec_canonical: "dec s = Some x \<Longrightarrow> valid x \<and> enc x = s"
begin

lemma dec_iff: "dec s = Some x \<longleftrightarrow> valid x \<and> enc x = s"
  using dec_enc dec_canonical by blast

lemma dec_inj: "dec s = Some x \<Longrightarrow> dec t = Some x \<Longrightarrow> s = t"
  using dec_canonical by blast

lemma dec_None: "dec s = None \<longleftrightarrow> (\<forall>x. valid x \<longrightarrow> enc x \<noteq> s)"
  by (metis dec_iff not_Some_eq)

end

text \<open>
  A machine: an object whose operations keep its invariant, whatever they return or throw.
\<close>

locale machine =
  fixes step :: "'op \<Rightarrow> 's \<Rightarrow> 's"
    and inv :: "'s \<Rightarrow> bool"
  assumes step_inv: "inv s \<Longrightarrow> inv (step op s)"
begin

lemma run_inv: "inv s \<Longrightarrow> inv (fold step ops s)"
  by (induction ops arbitrary: s) (auto intro: step_inv)

lemma prefix_inv: "inv s \<Longrightarrow> ops = ops1 @ ops2 \<Longrightarrow> inv (fold step ops1 s)"
  by (rule run_inv)

end

text \<open>
  A machine with a quantity no operation lowers (bytes accounted, attempts used, a flag that
  stays set).
\<close>

locale monotone_machine = machine +
  fixes level :: "'s \<Rightarrow> nat"
  assumes step_level: "inv s \<Longrightarrow> level s \<le> level (step op s)"
begin

lemma run_level: "inv s \<Longrightarrow> level s \<le> level (fold step ops s)"
proof (induction ops arbitrary: s)
  case (Cons op ops)
  then have "level s \<le> level (step op s)" by (simp add: step_level)
  also have "\<dots> \<le> level (fold step ops (step op s))"
    using Cons step_inv by simp
  finally show ?case by simp
qed simp

end

end
