(* ===== verification/Ck_Charconv.thy ===== *)
theory Ck_Charconv
  imports Ck_Prelude
begin

text \<open>
  The numbers of the protocols: \<open>std::to_string\<close> on unsigned values and \<open>std::from_chars\<close> on
  the unsigned types, as \<open><charconv>\<close> specifies them. \<open>std::from_chars\<close> reads the longest run
  of digits; no digit is an error, and so is a value beyond the type's maximum, which is an
  argument here. The code always asks next whether the whole text was read.

  The theory shows that reading what was printed gives the number back and, for the canonical
  spellings (no leading zero), that nothing else reads as it.
\<close>

section \<open>Printing\<close>

definition digit_char :: "nat \<Rightarrow> char" where
  "digit_char d = char_of (48 + d)"

fun to_dec :: "nat \<Rightarrow> string" where
  "to_dec n = (if n < 10 then [digit_char n] else to_dec (n div 10) @ [digit_char (n mod 10)])"

declare to_dec.simps [simp del]

section \<open>Reading\<close>

definition digit_value :: "char \<Rightarrow> nat" where
  "digit_value c = byte c - 48"

definition digits_value :: "string \<Rightarrow> nat" where
  "digits_value s = foldl (\<lambda>v c. 10 * v + digit_value c) 0 s"

text \<open>The value and the text after it, or \<open>None\<close> for an error code.\<close>

definition from_chars :: "nat \<Rightarrow> string \<Rightarrow> (nat \<times> string) option" where
  "from_chars maximum s =
     (let digits = takeWhile is_digit s; rest = dropWhile is_digit s
      in if digits = [] \<or> maximum < digits_value digits then None
         else Some (digits_value digits, rest))"

text \<open>\<open>error == std::errc{} && end == text.data() + text.size()\<close>.\<close>

definition whole_number :: "nat \<Rightarrow> string \<Rightarrow> nat option" where
  "whole_number maximum s =
     (case from_chars maximum s of Some (v, []) \<Rightarrow> Some v | _ \<Rightarrow> None)"

definition u64_max :: nat where
  "u64_max = 18446744073709551615"

definition u32_max :: nat where
  "u32_max = 4294967295"

text \<open>The narrowing \<open>static_cast<unsigned>(...)\<close>, which keeps the low 32 bits.\<close>

definition to_u32 :: "nat \<Rightarrow> nat" where
  "to_u32 n = n mod 2 ^ 32"

lemma u64_max_eq: "u64_max = 2 ^ 64 - 1"
  by (simp add: u64_max_def)

lemma u32_max_eq: "u32_max = 2 ^ 32 - 1"
  by (simp add: u32_max_def)

lemma to_u32_id [simp]: "n \<le> u32_max \<Longrightarrow> to_u32 n = n"
  by (simp add: to_u32_def u32_max_def)

lemma to_u32_le: "to_u32 n \<le> u32_max"
proof -
  have "to_u32 n < 2 ^ 32" by (simp add: to_u32_def)
  then show ?thesis by (simp add: u32_max_def)
qed

section \<open>Digits\<close>

lemma byte_digit_char: "d < 10 \<Longrightarrow> byte (digit_char d) = 48 + d"
  by (simp add: digit_char_def)

lemma digit_char_simps:
  "digit_char 0 = CHR ''0''" "digit_char (Suc 0) = CHR ''1''" "digit_char 1 = CHR ''1''"
  "digit_char 2 = CHR ''2''" "digit_char 3 = CHR ''3''" "digit_char 4 = CHR ''4''"
  "digit_char 5 = CHR ''5''" "digit_char 6 = CHR ''6''" "digit_char 7 = CHR ''7''"
  "digit_char 8 = CHR ''8''" "digit_char 9 = CHR ''9''"
  by (simp_all add: digit_char_def eq_char_of [symmetric] eq_commute [of "char_of _"] eq_char_of)

text \<open>What evaluates a printed or a read number in a closed term.\<close>

lemmas decimal_eval =
  to_dec.simps digit_char_simps whole_number_def from_chars_def is_digit_def digits_value_def
  digit_value_def u64_max_def u32_max_def

lemma is_digit_digit_char: "d < 10 \<Longrightarrow> is_digit (digit_char d)"
  by (simp add: is_digit_byte byte_digit_char)

lemma digit_value_char [simp]: "d < 10 \<Longrightarrow> digit_value (digit_char d) = d"
  by (simp add: digit_value_def byte_digit_char)

lemma digit_char_value [simp]: "is_digit c \<Longrightarrow> digit_char (digit_value c) = c"
  by (simp add: is_digit_byte digit_char_def digit_value_def)

lemma digit_value_less: "is_digit c \<Longrightarrow> digit_value c < 10"
  by (auto simp: is_digit_byte digit_value_def)

lemma digit_value_0: "is_digit c \<Longrightarrow> digit_value c = 0 \<longleftrightarrow> c = CHR ''0''"
  using byte_eq_iff [of c "CHR ''0''"] by (auto simp: is_digit_byte digit_value_def)

lemma digits_value_snoc [simp]:
  "digits_value (s @ [c]) = 10 * digits_value s + digit_value c"
  by (simp add: digits_value_def)

lemma digits_value_Nil [simp]: "digits_value [] = 0"
  by (simp add: digits_value_def)

lemma digits_value_single [simp]: "digits_value [c] = digit_value c"
  by (simp add: digits_value_def)

section \<open>Reading what was printed\<close>

lemma to_dec_nonempty [simp]: "to_dec n \<noteq> []"
  by (subst to_dec.simps) simp

lemma set_to_dec: "\<forall>c \<in> set (to_dec n). is_digit c"
proof (induction n rule: to_dec.induct)
  case (1 n)
  then show ?case by (subst to_dec.simps) (auto simp: is_digit_digit_char)
qed

lemma to_dec_digit: "c \<in> set (to_dec n) \<Longrightarrow> is_digit c"
  using set_to_dec by blast

lemma digits_value_to_dec [simp]: "digits_value (to_dec n) = n"
proof (induction n rule: to_dec.induct)
  case (1 n)
  then show ?case by (subst to_dec.simps) (auto simp: not_less)
qed

lemma to_dec_inj [simp]: "to_dec m = to_dec n \<longleftrightarrow> m = n"
  by (metis digits_value_to_dec)

lemma takeWhile_to_dec:
  "r = [] \<or> \<not> is_digit (hd r) \<Longrightarrow> takeWhile is_digit (to_dec n @ r) = to_dec n"
  using set_to_dec by (cases r) (auto simp: takeWhile_append2 takeWhile_eq_all_conv)

lemma dropWhile_to_dec:
  "r = [] \<or> \<not> is_digit (hd r) \<Longrightarrow> dropWhile is_digit (to_dec n @ r) = r"
  using set_to_dec by (cases r) (auto simp: dropWhile_append2 dropWhile_eq_Nil_conv)

lemma from_chars_to_dec:
  "n \<le> maximum \<Longrightarrow> r = [] \<or> \<not> is_digit (hd r) \<Longrightarrow> from_chars maximum (to_dec n @ r) = Some (n, r)"
  by (simp add: from_chars_def takeWhile_to_dec dropWhile_to_dec Let_def)

lemma whole_number_iff:
  "whole_number maximum s = Some v \<longleftrightarrow>
     s \<noteq> [] \<and> (\<forall>c \<in> set s. is_digit c) \<and> v = digits_value s \<and> v \<le> maximum"
proof
  assume "whole_number maximum s = Some v"
  then have d: "dropWhile is_digit s = []" and n: "takeWhile is_digit s \<noteq> []"
    and v: "v = digits_value (takeWhile is_digit s)" "v \<le> maximum"
    by (auto simp: whole_number_def from_chars_def Let_def
        split: option.splits if_splits list.splits prod.splits)
  from d have "takeWhile is_digit s = s" by (metis append_Nil2 takeWhile_dropWhile_id)
  with d n v show "s \<noteq> [] \<and> (\<forall>c \<in> set s. is_digit c) \<and> v = digits_value s \<and> v \<le> maximum"
    by (simp add: dropWhile_eq_Nil_conv)
next
  assume a: "s \<noteq> [] \<and> (\<forall>c \<in> set s. is_digit c) \<and> v = digits_value s \<and> v \<le> maximum"
  then have t: "takeWhile is_digit s = s" and d: "dropWhile is_digit s = []"
    by (simp_all add: takeWhile_eq_all_conv dropWhile_eq_Nil_conv)
  from a show "whole_number maximum s = Some v"
    by (simp add: whole_number_def from_chars_def Let_def t d)
qed

lemma whole_number_to_dec [simp]:
  "whole_number maximum (to_dec n) = (if n \<le> maximum then Some n else None)"
proof (cases "n \<le> maximum")
  case True
  then show ?thesis using set_to_dec by (simp add: whole_number_iff)
next
  case False
  then have "whole_number maximum (to_dec n) \<noteq> Some v" for v
    by (auto simp: whole_number_iff)
  with False show ?thesis by auto
qed

section \<open>Canonical spellings\<close>

definition canonical_digits :: "string \<Rightarrow> bool" where
  "canonical_digits s \<longleftrightarrow>
     s \<noteq> [] \<and> (\<forall>c \<in> set s. is_digit c) \<and> (length s = 1 \<or> hd s \<noteq> CHR ''0'')"

lemma digits_value_pos:
  assumes "s \<noteq> []" "\<forall>c \<in> set s. is_digit c" "hd s \<noteq> CHR ''0''"
  shows "0 < digits_value s"
  using assms
proof (induction s rule: rev_induct)
  case (snoc c s)
  then show ?case
    by (cases "s = []") (auto simp: digit_value_0 simp flip: neq0_conv)
qed simp

lemma to_dec_digits_value: "canonical_digits s \<Longrightarrow> to_dec (digits_value s) = s"
proof (induction s rule: rev_induct)
  case Nil
  then show ?case by (simp add: canonical_digits_def)
next
  case (snoc c s)
  then have c: "is_digit c" by (simp add: canonical_digits_def)
  show ?case
  proof (cases "s = []")
    case True
    with c show ?thesis by (subst to_dec.simps) (simp add: digit_value_less)
  next
    case False
    with snoc.prems have s: "canonical_digits s" "hd s \<noteq> CHR ''0''" "\<forall>c \<in> set s. is_digit c"
      by (auto simp: canonical_digits_def)
    then have "0 < digits_value s" using False digits_value_pos by blast
    moreover have "(10 * digits_value s + digit_value c) div 10 = digits_value s"
      and "(10 * digits_value s + digit_value c) mod 10 = digit_value c"
      using digit_value_less [OF c] by auto
    ultimately show ?thesis
      using snoc.IH [OF s(1)] c by (subst to_dec.simps) simp
  qed
qed

lemma hd_to_dec: "10 \<le> n \<Longrightarrow> hd (to_dec n) \<noteq> CHR ''0''"
proof (induction n rule: to_dec.induct)
  case (1 n)
  show ?case
  proof (cases "n div 10 < 10")
    case True
    with "1.prems" have "hd (to_dec n) = digit_char (n div 10)" "0 < n div 10"
      by (simp_all add: to_dec.simps [of n] to_dec.simps [of "n div 10"])
    with True show ?thesis
      by (metis digit_value_char digit_value_0 is_digit_digit_char less_not_refl)
  next
    case False
    with "1" show ?thesis by (simp add: to_dec.simps [of n] not_less)
  qed
qed

lemma canonical_to_dec: "canonical_digits (to_dec n)"
proof (cases "n < 10")
  case True
  then show ?thesis
    by (simp add: canonical_digits_def to_dec.simps is_digit_digit_char)
next
  case False
  then show ?thesis
    using hd_to_dec [of n] by (simp add: canonical_digits_def set_to_dec)
qed

lemma canonical_iff: "canonical_digits s \<longleftrightarrow> (\<exists>n. s = to_dec n)"
  using canonical_to_dec to_dec_digits_value by metis

lemma length_to_dec: "n < 10 ^ k \<Longrightarrow> 0 < k \<Longrightarrow> length (to_dec n) \<le> k"
proof (induction n arbitrary: k rule: to_dec.induct)
  case (1 n)
  show ?case
  proof (cases "n < 10")
    case True
    with "1.prems" show ?thesis by (simp add: to_dec.simps)
  next
    case False
    with "1.prems" obtain j where k: "k = Suc j" by (cases k) auto
    with False "1.prems" have "0 < j" by (cases j) auto
    moreover from k "1.prems" have "n div 10 < 10 ^ j" by (simp add: less_mult_imp_div_less mult.commute)
    ultimately have "length (to_dec (n div 10)) \<le> j" using "1.IH" False by blast
    with False k show ?thesis by (simp add: to_dec.simps [of n])
  qed
qed

lemma length_to_dec_u64: "n \<le> u64_max \<Longrightarrow> length (to_dec n) \<le> 20"
  by (rule length_to_dec) (simp_all add: u64_max_def)

lemma length_to_dec_u32: "n \<le> u32_max \<Longrightarrow> length (to_dec n) \<le> 10"
  by (rule length_to_dec) (simp_all add: u32_max_def)

text \<open>Numbers between separators: a separator is no digit.\<close>

lemma to_dec_no [simp]:
  "CHR '','' \<notin> set (to_dec n)" "CHR '' '' \<notin> set (to_dec n)" "newline \<notin> set (to_dec n)"
  "CHR ''-'' \<notin> set (to_dec n)" "CHR ''='' \<notin> set (to_dec n)"
  by (auto dest!: to_dec_digit simp: is_digit_def)

interpretation decimal: canonical_codec to_dec
    "\<lambda>s. if canonical_digits s then Some (digits_value s) else None" "\<lambda>_. True"
  by unfold_locales (auto simp: canonical_to_dec to_dec_digits_value split: if_splits)

end
