(* ===== verification/Ck_Text.thy ===== *)
theory Ck_Text
  imports Ck_Charconv
begin

unbundle bit_operations_syntax

text \<open>
  The text helpers of \<open>src/common/text.cpp\<close>: the clock rendering of durations, the strict UTF-8
  check, the lowercase hexadecimal codec of every record and protocol field that carries free
  text, and the control-character test.

  The loop of \<open>isValidUtf8\<close> over an index is a recursion over the bytes from that index on. Code
  points stay below \<open>2 ^ 21\<close>, so the 32-bit arithmetic of the code never wraps and they are
  natural numbers here.

  The specification of UTF-8 is the encoding of scalar values of RFC 3629, \<open>utf8_encode\<close>; the check
  accepts exactly the concatenations of such encodings. The hexadecimal codec is canonical.
\<close>

section \<open>Durations\<close>

text \<open>\<open>%02llu\<close> of a value below 100.\<close>

definition pad2 :: "nat \<Rightarrow> string" where
  "pad2 n = (if n < 10 then CHR ''0'' # to_dec n else to_dec n)"

definition formatDuration :: "nat \<Rightarrow> string" where
  "formatDuration seconds =
     (let hours = seconds div 3600; minutes = (seconds mod 3600) div 60; secs = seconds mod 60
      in if 0 < hours then to_dec hours @ '':'' @ pad2 minutes @ '':'' @ pad2 secs
         else to_dec minutes @ '':'' @ pad2 secs)"

section \<open>UTF-8\<close>

text \<open>The width and the payload bits of a lead byte.\<close>

definition utf8_lead :: "nat \<Rightarrow> (nat \<times> nat) option" where
  "utf8_lead first =
     (if 0xC2 \<le> first \<and> first \<le> 0xDF then Some (2, first AND 0x1F)
      else if 0xE0 \<le> first \<and> first \<le> 0xEF then Some (3, first AND 0x0F)
      else if 0xF0 \<le> first \<and> first \<le> 0xF4 then Some (4, first AND 0x07)
      else None)"

fun utf8_continuation :: "nat \<Rightarrow> nat \<Rightarrow> string \<Rightarrow> nat option" where
  "utf8_continuation 0 code_point s = Some code_point"
| "utf8_continuation (Suc k) code_point [] = None"
| "utf8_continuation (Suc k) code_point (b # s) =
     (if byte b AND 0xC0 \<noteq> 0x80 then None
      else utf8_continuation k (push_bit 6 code_point OR (byte b AND 0x3F)) s)"

definition utf8_refused :: "nat \<Rightarrow> nat \<Rightarrow> bool" where
  "utf8_refused width code_point \<longleftrightarrow>
     (width = 3 \<and> code_point < 0x800) \<or> (width = 4 \<and> code_point < 0x10000)
     \<or> (0xD800 \<le> code_point \<and> code_point \<le> 0xDFFF) \<or> 0x10FFFF < code_point"

function isValidUtf8 :: "string \<Rightarrow> bool" where
  "isValidUtf8 [] = True"
| "isValidUtf8 (c # s) =
     (if byte c \<le> 0x7F then isValidUtf8 s
      else case utf8_lead (byte c) of None \<Rightarrow> False
        | Some (width, bits) \<Rightarrow>
            if Suc (length s) < width then False
            else case utf8_continuation (width - 1) bits s of None \<Rightarrow> False
              | Some code_point \<Rightarrow>
                  if utf8_refused width code_point then False
                  else isValidUtf8 (drop (width - 1) s))"
  by pat_completeness auto
termination
  by (relation "measure length") auto

text \<open>The specification: the UTF-8 encoding of a Unicode scalar value.\<close>

definition scalar_value :: "nat \<Rightarrow> bool" where
  "scalar_value cp \<longleftrightarrow> cp < 0xD800 \<or> (0xE000 \<le> cp \<and> cp \<le> 0x10FFFF)"

definition utf8_encode :: "nat \<Rightarrow> string" where
  "utf8_encode cp =
     (if cp < 0x80 then [char_of cp]
      else if cp < 0x800 then [char_of (0xC0 + cp div 64), char_of (0x80 + cp mod 64)]
      else if cp < 0x10000 then
        [char_of (0xE0 + cp div 4096), char_of (0x80 + cp div 64 mod 64), char_of (0x80 + cp mod 64)]
      else
        [char_of (0xF0 + cp div 262144), char_of (0x80 + cp div 4096 mod 64),
         char_of (0x80 + cp div 64 mod 64), char_of (0x80 + cp mod 64)])"

section \<open>Hexadecimal\<close>

definition hex_digits :: string where
  "hex_digits = ''0123456789abcdef''"

fun hexEncode :: "string \<Rightarrow> string" where
  "hexEncode [] = []"
| "hexEncode (b # bytes) = hex_digits ! drop_bit 4 (byte b) # hex_digits ! (byte b AND 0x0F) # hexEncode bytes"

definition nibble :: "char \<Rightarrow> nat option" where
  "nibble c =
     (if CHR ''0'' \<le> c \<and> c \<le> CHR ''9'' then Some (byte c - byte CHR ''0'')
      else if CHR ''a'' \<le> c \<and> c \<le> CHR ''f'' then Some (byte c - byte CHR ''a'' + 10)
      else None)"

fun hex_pairs :: "string \<Rightarrow> string option" where
  "hex_pairs [] = Some []"
| "hex_pairs [_] = None"
| "hex_pairs (h # l # rest) =
     (case (nibble h, nibble l) of
        (Some high, Some low) \<Rightarrow> map_option (Cons (char_of (push_bit 4 high OR low))) (hex_pairs rest)
      | _ \<Rightarrow> None)"

definition hexDecode :: "string \<Rightarrow> nat \<Rightarrow> string option" where
  "hexDecode hex maximum_bytes =
     (if length hex mod 2 \<noteq> 0 \<or> maximum_bytes < length hex div 2 then None else hex_pairs hex)"

definition hasControlCharacter :: "string \<Rightarrow> bool" where
  "hasControlCharacter value \<longleftrightarrow> (\<exists>c \<in> set value. byte c < 0x20 \<or> byte c = 0x7F)"

section \<open>Bits as arithmetic\<close>

lemma nat_and_mask: "(n :: nat) AND (2 ^ k - 1) = n mod 2 ^ k"
  by (metis mask_eq_exp_minus_1 take_bit_eq_mask take_bit_eq_mod)

lemma and_lows:
  "(n :: nat) AND 0x07 = n mod 8" "n AND 0x0F = n mod 16" "n AND 0x1F = n mod 32" "n AND 0x3F = n mod 64"
  using nat_and_mask [of n 3] nat_and_mask [of n 4] nat_and_mask [of n 5] nat_and_mask [of n 6] by simp_all

lemma or_shifted:
  fixes a b :: nat
  assumes "b < 2 ^ k"
  shows "push_bit k a OR b = a * 2 ^ k + b"
proof -
  have "push_bit k a AND b = 0"
    by (rule bit_eqI) (use assms in \<open>auto simp: bit_simps\<close>,
      metis take_bit_nat_eq_self bit_take_bit_iff not_le)
  then have "push_bit k a OR b = push_bit k a + b"
    by (simp add: disjunctive_add_eq_or)
  then show ?thesis by (simp add: push_bit_eq_mult)
qed

lemma or_6 [simp]: "b < 64 \<Longrightarrow> push_bit 6 a OR b = a * 64 + (b :: nat)"
  using or_shifted [of b 6 a] by simp

lemma or_4 [simp]: "b < 16 \<Longrightarrow> push_bit 4 a OR b = a * 16 + (b :: nat)"
  using or_shifted [of b 4 a] by simp

lemma and_pushed: "(n :: nat) AND push_bit k m = push_bit k (drop_bit k n AND m)"
  by (rule bit_eqI) (auto simp: bit_simps)

lemma continuation_byte: "byte c AND 0xC0 = 0x80 \<longleftrightarrow> 0x80 \<le> byte c \<and> byte c < 0xC0"
proof -
  have "byte c AND push_bit 6 3 = push_bit 6 (byte c div 64 AND 3)"
    by (simp only: and_pushed drop_bit_eq_div) simp
  also have "byte c div 64 AND 3 = byte c div 64 mod 4"
    using nat_and_mask [of "byte c div 64" 2] by simp
  finally have "byte c AND 0xC0 = 64 * (byte c div 64 mod 4)" by (simp add: push_bit_eq_mult)
  moreover have "byte c div 64 < 4" using byte_less_256 [of c] by linarith
  ultimately show ?thesis by auto
qed

section \<open>The UTF-8 check accepts the encodings\<close>

lemma block_mod: "n = k * m + x \<Longrightarrow> x < m \<Longrightarrow> n mod m = (x :: nat)"
  by simp

lemma utf8_continuation_Suc:
  "utf8_continuation (Suc k) cp s = Some v \<longleftrightarrow>
     (\<exists>b s' x. s = b # s' \<and> byte b = 0x80 + x \<and> x < 64 \<and> utf8_continuation k (cp * 64 + x) s' = Some v)"
proof (cases s)
  case (Cons b s')
  show ?thesis
  proof (cases "0x80 \<le> byte b \<and> byte b < 0xC0")
    case True
    define x where "x = byte b - 0x80"
    with True have x: "byte b = 0x80 + x" "x < 64" by auto
    then have "byte b mod 64 = x" using block_mod [of "byte b" 2 64 x] by simp
    moreover have "byte b AND 0xC0 = 0x80" using True by (simp add: continuation_byte)
    ultimately show ?thesis using x Cons by (auto simp: and_lows)
  next
    case False
    with Cons show ?thesis by (auto simp: continuation_byte)
  qed
qed simp

lemma utf8_lead_Some:
  "utf8_lead n = Some (w, b) \<longleftrightarrow>
     w = 2 \<and> n = 0xC0 + b \<and> 2 \<le> b \<and> b < 32 \<or> w = 3 \<and> n = 0xE0 + b \<and> b < 16 \<or> w = 4 \<and> n = 0xF0 + b \<and> b < 5"
proof -
  have "n mod 32 = n - 0xC0" if "0xC2 \<le> n" "n \<le> 0xDF"
    using that block_mod [of n 6 32 "n - 0xC0"] by simp
  moreover have "n mod 16 = n - 0xE0" if "0xE0 \<le> n" "n \<le> 0xEF"
    using that block_mod [of n 14 16 "n - 0xE0"] by simp
  moreover have "n mod 8 = n - 0xF0" if "0xF0 \<le> n" "n \<le> 0xF4"
    using that block_mod [of n 30 8 "n - 0xF0"] by simp
  ultimately show ?thesis by (auto simp: utf8_lead_def and_lows)
qed

lemma isValidUtf8_wide:
  assumes "0x7F < byte c"
  shows "isValidUtf8 (c # s) \<longleftrightarrow>
    (\<exists>w bits cp. utf8_lead (byte c) = Some (w, bits) \<and> w \<le> Suc (length s)
      \<and> utf8_continuation (w - 1) bits s = Some cp \<and> \<not> utf8_refused w cp
      \<and> isValidUtf8 (drop (w - 1) s))"
proof (cases "utf8_lead (byte c)")
  case None
  with assms show ?thesis by simp
next
  case (Some p)
  then obtain w bits where p: "utf8_lead (byte c) = Some (w, bits)" by (cases p) auto
  with assms show ?thesis
    by (cases "utf8_continuation (w - 1) bits s") (simp_all add: not_less)
qed

lemma base64_div:
  fixes a b c d :: nat
  assumes "b < 64" "c < 64" "d < 64"
  shows "(a * 64 + b) div 64 = a" "(a * 64 + b) mod 64 = b"
    "((a * 64 + b) * 64 + c) div 4096 = a"
    "(((a * 64 + b) * 64 + c) * 64 + d) div 262144 = a"
    "(((a * 64 + b) * 64 + c) * 64 + d) div 4096 = a * 64 + b"
  using assms by simp_all

lemma base64_nest:
  fixes n :: nat
  shows "n div 64 * 64 + n mod 64 = n"
    "n div 4096 * 64 + n div 64 mod 64 = n div 64"
    "n div 262144 * 64 + n div 4096 mod 64 = n div 4096"
  using div_mult_mod_eq [of "n div 64" 64] div_mult_mod_eq [of "n div 4096" 64]
  by (simp_all flip: div_mult2_eq)

lemma base64_sum:
  fixes n :: nat
  shows "4096 * (n div 4096) + n div 64 mod 64 * 64 + n mod 64 = n"
    "262144 * (n div 262144) + n div 4096 mod 64 * 4096 + n div 64 mod 64 * 64 + n mod 64 = n"
  using base64_nest [of n] by linarith+

lemma char_of_eqI: "byte c = n \<Longrightarrow> char_of n = c"
  by auto

lemma utf8_encode_step:
  assumes "scalar_value cp" "0x80 \<le> cp"
  shows "0x7F < byte (hd (utf8_encode cp)) \<and> \<not> utf8_refused (length (utf8_encode cp)) cp \<and>
    (\<exists>bits. utf8_lead (byte (hd (utf8_encode cp))) = Some (length (utf8_encode cp), bits)
      \<and> utf8_continuation (length (utf8_encode cp) - 1) bits (tl (utf8_encode cp) @ s) = Some cp)"
proof -
  note defs = utf8_encode_def utf8_lead_Some utf8_continuation_Suc utf8_refused_def base64_nest
  consider "cp < 0x800" | "0x800 \<le> cp" "cp < 0x10000" | "0x10000 \<le> cp" "cp \<le> 0x10FFFF"
    using assms by (fastforce simp: scalar_value_def)
  then show ?thesis
  proof cases
    case 1
    with assms have "2 \<le> cp div 64" "cp div 64 < 32" by simp_all
    with 1 assms show ?thesis by (simp add: defs del: utf8_continuation.simps(2,3))
  next
    case 2
    then have "cp div 4096 < 16" by simp
    with 2 assms base64_sum(1) [of cp] show ?thesis
      by (auto simp: defs numeral_2_eq_2 scalar_value_def simp del: utf8_continuation.simps(2,3))
  next
    case 3
    then have "cp div 262144 < 5" by simp
    with 3 assms base64_sum(2) [of cp] show ?thesis
      by (auto simp: defs numeral_3_eq_3 scalar_value_def simp del: utf8_continuation.simps(2,3))
  qed
qed

lemma utf8_encode_nonempty [simp]: "utf8_encode cp \<noteq> []"
  by (simp add: utf8_encode_def)

lemma isValidUtf8_encode:
  assumes "scalar_value cp"
  shows "isValidUtf8 (utf8_encode cp @ s) = isValidUtf8 s"
proof (cases "cp < 0x80")
  case True
  then show ?thesis by (simp add: utf8_encode_def)
next
  case False
  obtain c t where e: "utf8_encode cp = c # t" by (cases "utf8_encode cp") auto
  with False assms utf8_encode_step [of cp s] have "0x7F < byte c" "\<not> utf8_refused (Suc (length t)) cp"
    "\<exists>bits. utf8_lead (byte c) = Some (Suc (length t), bits)
      \<and> utf8_continuation (length t) bits (t @ s) = Some cp"
    by auto
  then show ?thesis by (auto simp: e isValidUtf8_wide simp del: isValidUtf8.simps)
qed

lemma utf8_decode_step:
  assumes "utf8_lead (byte c) = Some (w, bits)" "utf8_continuation (w - 1) bits s = Some cp"
    and "\<not> utf8_refused w cp"
  shows "scalar_value cp \<and> c # take (w - 1) s = utf8_encode cp"
proof -
  consider "w = 2" | "w = 3" | "w = 4" using assms(1) by (auto simp: utf8_lead_Some)
  then show ?thesis
  proof cases
    case 1
    with assms have c: "byte c = 0xC0 + bits" "2 \<le> bits" "bits < 32" by (auto simp: utf8_lead_Some)
    from 1 assms obtain b s' x where "s = b # s'" "byte b = 0x80 + x" "x < 64" "cp = bits * 64 + x"
      by (auto simp: utf8_continuation_Suc)
    with 1 c show ?thesis
      by (simp add: utf8_encode_def scalar_value_def base64_div char_of_eqI)
  next
    case 2
    with assms have c: "byte c = 0xE0 + bits" "bits < 16" by (auto simp: utf8_lead_Some)
    from 2 assms obtain b1 b2 s' x y where s: "s = b1 # b2 # s'" "byte b1 = 0x80 + x" "x < 64"
      "byte b2 = 0x80 + y" "y < 64" "cp = (bits * 64 + x) * 64 + y"
      by (auto simp: utf8_continuation_Suc numeral_2_eq_2)
    with 2 assms(3) have "0x800 \<le> cp" "cp < 0x10000" "\<not> (0xD800 \<le> cp \<and> cp \<le> 0xDFFF)"
      using c by (auto simp: utf8_refused_def)
    moreover have "cp div 4096 = bits" "cp div 64 mod 64 = x" "cp mod 64 = y"
      using s(3,5) base64_div [of x y y bits] base64_div [of y y y "bits * 64 + x"]
      by (simp_all only: s(6))
    ultimately show ?thesis
      using 2 c(1) s(1,2,4) by (auto simp: utf8_encode_def scalar_value_def char_of_eqI)
  next
    case 3
    with assms have c: "byte c = 0xF0 + bits" "bits < 5" by (auto simp: utf8_lead_Some)
    from 3 assms obtain b1 b2 b3 s' x y z where s: "s = b1 # b2 # b3 # s'" "byte b1 = 0x80 + x" "x < 64"
      "byte b2 = 0x80 + y" "y < 64" "byte b3 = 0x80 + z" "z < 64"
      "cp = ((bits * 64 + x) * 64 + y) * 64 + z"
      by (auto simp: utf8_continuation_Suc numeral_3_eq_3)
    with 3 assms(3) have "0x10000 \<le> cp" "cp \<le> 0x10FFFF" by (auto simp: utf8_refused_def)
    moreover have "cp div 262144 = bits" "cp div 4096 mod 64 = x" "cp div 64 mod 64 = y" "cp mod 64 = z"
      using s(3,5,7) base64_div [of x y z bits] base64_div [of z z z "(bits * 64 + x) * 64 + y"]
        base64_div [of y y y "bits * 64 + x"]
      by (simp_all only: s(8))
    ultimately show ?thesis
      using 3 c(1) s(1,2,4,6) by (auto simp: utf8_encode_def scalar_value_def char_of_eqI)
  qed
qed

lemma utf8_first:
  assumes "isValidUtf8 s" "s \<noteq> []"
  obtains cp r where "scalar_value cp" "s = utf8_encode cp @ r" "isValidUtf8 r"
proof -
  obtain c t where s: "s = c # t" using assms(2) by (cases s) auto
  show thesis
  proof (cases "byte c \<le> 0x7F")
    case True
    with assms s show thesis
      by (intro that [of "byte c" t]) (auto simp: scalar_value_def utf8_encode_def)
  next
    case False
    then have "0x7F < byte c" by simp
    with assms s obtain w bits cp where e: "utf8_lead (byte c) = Some (w, bits)"
      "utf8_continuation (w - 1) bits t = Some cp" "\<not> utf8_refused w cp" "isValidUtf8 (drop (w - 1) t)"
      using isValidUtf8_wide [of c t] by auto
    from utf8_decode_step [OF e(1-3)] have "scalar_value cp" "utf8_encode cp = c # take (w - 1) t"
      by simp_all
    with e(4) s show thesis by (intro that [of cp "drop (w - 1) t"]) simp_all
  qed
qed

lemma utf8_decompose:
  "isValidUtf8 s \<Longrightarrow> \<exists>cps. (\<forall>cp \<in> set cps. scalar_value cp) \<and> s = concat (map utf8_encode cps)"
proof (induction s rule: length_induct)
  case (1 s)
  show ?case
  proof (cases "s = []")
    case True
    then show ?thesis by (intro exI [of _ "[]"]) simp
  next
    case False
    with "1.prems" obtain cp r where r: "scalar_value cp" "s = utf8_encode cp @ r" "isValidUtf8 r"
      by (rule utf8_first)
    then have "length r < length s" by (simp add: neq_Nil_conv)
    with "1.IH" r obtain cps where "\<forall>cp \<in> set cps. scalar_value cp" "r = concat (map utf8_encode cps)"
      by blast
    with r show ?thesis by (intro exI [of _ "cp # cps"]) simp
  qed
qed

lemma isValidUtf8_concat: "list_all scalar_value cps \<Longrightarrow> isValidUtf8 (concat (map utf8_encode cps))"
  by (induction cps) (simp_all add: isValidUtf8_encode)

text \<open>
  The strict UTF-8 check accepts exactly the texts that are concatenations of the UTF-8
  encodings of Unicode scalar values: no overlong form, no surrogate, nothing above U+10FFFF and
  no truncated sequence passes, and everything else does.
\<close>

theorem isValidUtf8_iff:
  "isValidUtf8 s \<longleftrightarrow> (\<exists>cps. list_all scalar_value cps \<and> s = concat (map utf8_encode cps))"
proof
  assume "isValidUtf8 s"
  then show "\<exists>cps. list_all scalar_value cps \<and> s = concat (map utf8_encode cps)"
    using utf8_decompose by (simp add: list_all_iff)
next
  assume "\<exists>cps. list_all scalar_value cps \<and> s = concat (map utf8_encode cps)"
  then show "isValidUtf8 s" using isValidUtf8_concat by blast
qed

section \<open>The hexadecimal codec\<close>

lemma hex_digit_nth:
  "n < 16 \<Longrightarrow> nibble (hex_digits ! n) = Some n"
proof -
  have "list_all (\<lambda>n. nibble (hex_digits ! n) = Some n) [0..<16]" by code_simp
  then show "n < 16 \<Longrightarrow> ?thesis" by (simp add: list_all_iff)
qed

lemma hex_digit_lower: "n < 16 \<Longrightarrow> is_lower_hex (hex_digits ! n)"
proof -
  have "list_all (\<lambda>n. is_lower_hex (hex_digits ! n)) [0..<16]" by code_simp
  then show "n < 16 \<Longrightarrow> ?thesis" by (simp add: list_all_iff)
qed

lemma nibble_Some: "nibble c = Some n \<longleftrightarrow> is_lower_hex c \<and> n < 16 \<and> c = hex_digits ! n"
proof
  assume a: "nibble c = Some n"
  then have r: "is_lower_hex c" "n < 16"
    by (auto simp: nibble_def is_lower_hex_byte char_le_byte split: if_splits)
  moreover from a r have "byte (hex_digits ! n) = byte c"
    using hex_digit_nth [OF r(2)] hex_digit_lower [OF r(2)]
    by (auto simp: nibble_def is_lower_hex_byte char_le_byte simp del: of_char_eq_iff split: if_splits)
  then have "hex_digits ! n = c" by (simp only: byte_eq_iff)
  ultimately show "is_lower_hex c \<and> n < 16 \<and> c = hex_digits ! n" by simp
qed (auto simp: hex_digit_nth)

lemma nibbles_of_byte: "drop_bit 4 (byte b) < 16" "byte b AND 0x0F < 16"
  using byte_less_256 [of b] by (simp_all add: drop_bit_eq_div and_lows less_mult_imp_div_less)

lemma byte_of_nibbles: "push_bit 4 (drop_bit 4 (byte b)) OR (byte b AND 0x0F) = byte b"
  using nibbles_of_byte [of b] by (simp add: drop_bit_eq_div and_lows)

lemma length_hexEncode [simp]: "length (hexEncode s) = 2 * length s"
  by (induction s) auto

lemma hex_pairs_hexEncode: "hex_pairs (hexEncode s) = Some s"
  by (induction s) (simp_all add: hex_digit_nth nibbles_of_byte byte_of_nibbles del: or_4)

lemma hex_pairs_Some: "hex_pairs h = Some s \<Longrightarrow> hexEncode s = h"
proof (induction h arbitrary: s rule: hex_pairs.induct)
  case (3 h l rest)
  then obtain high low t where n: "nibble h = Some high" "nibble l = Some low" "hex_pairs rest = Some t"
    "s = char_of (push_bit 4 high OR low) # t"
    by (auto split: option.splits)
  then have b: "high < 16" "low < 16" "hex_digits ! high = h" "hex_digits ! low = l"
    by (auto simp: nibble_Some)
  have "hexEncode t = rest" using n by (intro "3.IH" [OF refl]) auto
  with n b show ?case by (simp add: drop_bit_eq_div and_lows)
qed auto

lemma set_hexEncode: "\<forall>c \<in> set (hexEncode s). is_lower_hex c"
  using nibbles_of_byte by (induction s) (auto intro: hex_digit_lower)

lemma hexEncode_no [simp]:
  "CHR '','' \<notin> set (hexEncode s)" "newline \<notin> set (hexEncode s)" "CHR '' '' \<notin> set (hexEncode s)"
  "CHR ''-'' \<notin> set (hexEncode s)" "carriage_return \<notin> set (hexEncode s)"
  using set_hexEncode [of s] by (auto simp: is_lower_hex_def is_digit_def)

lemma hexEncode_append: "hexEncode (s @ t) = hexEncode s @ hexEncode t"
  by (induction s) auto

lemma hexEncode_Nil_iff [simp]: "hexEncode s = [] \<longleftrightarrow> s = []"
  by (cases s) auto

lemma hexDecode_hexEncode [simp]: "length s \<le> m \<Longrightarrow> hexDecode (hexEncode s) m = Some s"
  by (simp add: hexDecode_def hex_pairs_hexEncode)

lemma hexDecode_Some: "hexDecode h m = Some s \<Longrightarrow> length s \<le> m \<and> hexEncode s = h"
proof -
  assume a: "hexDecode h m = Some s"
  then have "hexEncode s = h" by (auto simp: hexDecode_def hex_pairs_Some split: if_splits)
  moreover from this a have "length s \<le> m" by (auto simp: hexDecode_def split: if_splits)
  ultimately show ?thesis by simp
qed

interpretation hex: canonical_codec hexEncode "\<lambda>h. hexDecode h m" "\<lambda>s. length s \<le> m" for m
  by unfold_locales (auto dest: hexDecode_Some)

text \<open>
  The hexadecimal codec is a bijection between the texts of at most \<open>m\<close> bytes and the
  accepted tokens: decoding inverts encoding, and every token has one spelling.
\<close>

theorem hexDecode_iff: "hexDecode h m = Some s \<longleftrightarrow> length s \<le> m \<and> hexEncode s = h"
  by (rule hex.dec_iff)

section \<open>Control characters\<close>

lemma hasControlCharacter_iff: "hasControlCharacter s \<longleftrightarrow> (\<exists>c \<in> set s. is_control c)"
  by (simp add: hasControlCharacter_def is_control_def)

section \<open>Durations are read unambiguously\<close>

lemma pad2_inj: "pad2 m = pad2 n \<Longrightarrow> m < 100 \<Longrightarrow> n < 100 \<Longrightarrow> m = n"
  using hd_to_dec [of m] hd_to_dec [of n] by (auto simp: pad2_def not_less split: if_splits) (metis list.sel(1))+

lemma pad2_no_colon: "CHR '':'' \<notin> set (pad2 n)"
  by (auto simp: pad2_def is_digit_def dest!: to_dec_digit)

lemma formatDuration_join:
  "formatDuration s = join CHR '':''
     (if 0 < s div 3600 then [to_dec (s div 3600), pad2 (s mod 3600 div 60), pad2 (s mod 60)]
      else [to_dec (s mod 3600 div 60), pad2 (s mod 60)])"
  by (simp add: formatDuration_def Let_def)

text \<open>No two durations are rendered alike.\<close>

theorem formatDuration_inj: "inj formatDuration"
proof (rule injI)
  fix s t
  assume assms: "formatDuration s = formatDuration t"
  define parts where "parts u = (if 0 < u div 3600
      then [to_dec (u div 3600), pad2 (u mod 3600 div 60), pad2 (u mod 60)]
      else [to_dec (u mod 3600 div 60), pad2 (u mod 60)])" for u :: nat
  have colon: "CHR '':'' \<notin> set (to_dec n)" for n
    by (auto simp: is_digit_def dest!: to_dec_digit)
  have no: "parts u \<noteq> []" "\<forall>x \<in> set (parts u). CHR '':'' \<notin> set x" for u
    by (simp_all add: parts_def colon pad2_no_colon)
  have "join CHR '':'' (parts s) = join CHR '':'' (parts t)"
    using assms by (simp add: formatDuration_join parts_def)
  then have eq: "parts s = parts t" using join_inj no by blast
  have "s mod 3600 div 60 < 100" "t mod 3600 div 60 < 100" "s mod 60 < 100" "t mod 60 < 100"
    by (simp_all add: less_mult_imp_div_less)
  with eq have "s div 3600 = t div 3600 \<and> s mod 3600 div 60 = t mod 3600 div 60 \<and> s mod 60 = t mod 60"
    by (auto simp: parts_def dest: pad2_inj split: if_splits)
  moreover have "u = 3600 * (u div 3600) + 60 * (u mod 3600 div 60) + u mod 60" for u :: nat
    using mod_mult2_eq [of u 60 60] div_mult_mod_eq [of u 3600] by simp
  ultimately show "s = t" by metis
qed

end
