(* ===== verification/Ck_Validation.thy ===== *)
theory Ck_Validation
  imports Ck_Charconv
begin

text \<open>
  The validators of \<open>src/common/validation.cpp\<close>, with which every component checks what it takes
  from a client, a workflow or a record: SSH clone targets, project names, client ids, object ids
  and digests, branch names, relative paths, and the labels of CI runners.

  A loop that reads a text component by component is a recursion over the rest of the text, or,
  where it always reads every component, a check of the pieces of \<open>split_on\<close>.

  Shown here: an accepted path is a list of ordinary components, so that no step of resolving it
  leaves the directory it is resolved in; accepted project names and branch names are such paths;
  label lists are kept sorted, distinct and bounded, and read back from their printed form.
\<close>

section \<open>Clone targets, project names and client ids\<close>

definition ssh_target_safe :: "string \<Rightarrow> bool" where
  "ssh_target_safe component \<longleftrightarrow>
     hd component \<noteq> CHR ''-'' \<and> hd component \<noteq> CHR ''.'' \<and> last component \<noteq> CHR ''.'' \<and>
     (\<forall>b \<in> set component. is_lower b \<or> is_upper b \<or> is_digit b \<or> b = CHR ''-'' \<or> b = CHR ''_'' \<or> b = CHR ''.'')"

definition isValidSshCloneTarget :: "string \<Rightarrow> bool" where
  "isValidSshCloneTarget value =
     (case after CHR ''@'' value of
        None \<Rightarrow> False
      | Some rest \<Rightarrow>
          if value = [] \<or> 255 < length value \<or> before CHR ''@'' value = [] \<or> rest = []
             \<or> CHR ''@'' \<in> set rest
          then False
          else ssh_target_safe (before CHR ''@'' value) \<and> ssh_target_safe rest)"

definition isAsciiProjectCharacter :: "char \<Rightarrow> bool" where
  "isAsciiProjectCharacter c \<longleftrightarrow> is_alnum c \<or> c = CHR ''.'' \<or> c = CHR ''_'' \<or> c = CHR ''-''"

text \<open>\<open>std::tolower\<close> in the C locale.\<close>

definition to_lower :: "char \<Rightarrow> char" where
  "to_lower c = (if is_upper c then char_of (byte c + 32) else c)"

definition isReservedName :: "string \<Rightarrow> bool" where
  "isReservedName name =
     (let lower = map to_lower name
      in lower = ''con'' \<or> lower = ''prn'' \<or> lower = ''aux'' \<or> lower = ''nul''
         \<or> (length lower = 4 \<and> starts_with lower ''com'' \<and> CHR ''1'' \<le> lower ! 3 \<and> lower ! 3 \<le> CHR ''9'')
         \<or> (length lower = 4 \<and> starts_with lower ''lpt'' \<and> CHR ''1'' \<le> lower ! 3 \<and> lower ! 3 \<le> CHR ''9''))"

definition projectNameError :: "string \<Rightarrow> string" where
  "projectNameError name =
     (if name = [] \<or> 64 < length name then ''must contain 1 to 64 characters''
      else if hd name = CHR ''.'' then ''must not begin with a dot''
      else if contains ''..'' name then ''must not contain consecutive dots''
      else if 4 \<le> length name \<and> ends_with name ''.git'' then ''must not end in .git''
      else if isReservedName name then ''is a reserved device name''
      else if \<exists>c \<in> set name. \<not> isAsciiProjectCharacter c
        then ''may contain only ASCII letters, digits, dot, underscore, and hyphen''
      else [])"

definition isValidProjectName :: "string \<Rightarrow> bool" where
  "isValidProjectName name \<longleftrightarrow> projectNameError name = []"

definition isValidClientId :: "string \<Rightarrow> bool" where
  "isValidClientId client_id =
     (if client_id = [] \<or> 64 < length client_id \<or> hd client_id = CHR ''-'' then False
      else \<forall>c \<in> set client_id. is_alnum c \<or> c = CHR ''-'' \<or> c = CHR ''_'')"

section \<open>Object ids and digests\<close>

definition isLowercaseHex :: "string \<Rightarrow> bool" where
  "isLowercaseHex value \<longleftrightarrow> (\<forall>c \<in> set value. is_lower_hex c)"

definition isValidObjectId :: "string \<Rightarrow> bool" where
  "isValidObjectId object_id \<longleftrightarrow>
     (length object_id = 40 \<or> length object_id = 64) \<and> isLowercaseHex object_id"

definition isValidSha256Hex :: "string \<Rightarrow> bool" where
  "isValidSha256Hex digest \<longleftrightarrow> length digest = 64 \<and> isLowercaseHex digest"

section \<open>Branch names\<close>

definition branch_byte_refused :: "char \<Rightarrow> bool" where
  "branch_byte_refused c \<longleftrightarrow>
     byte c \<le> 0x20 \<or> byte c = 0x7F \<or> byte c = 0x5C \<or> c = CHR ''~'' \<or> c = CHR ''^'' \<or> c = CHR '':''
     \<or> c = CHR ''?'' \<or> c = CHR ''*'' \<or> c = CHR ''[''"

definition branch_component_refused :: "string \<Rightarrow> bool" where
  "branch_component_refused component \<longleftrightarrow>
     component = [] \<or> component = ''.'' \<or> (5 \<le> length component \<and> ends_with component ''.lock'')"

function branch_components_ok :: "string \<Rightarrow> bool" where
  "branch_components_ok rest =
     (if rest = [] then True
      else if branch_component_refused (before CHR ''/'' rest) then False
      else case after CHR ''/'' rest of None \<Rightarrow> True | Some next_part \<Rightarrow> branch_components_ok next_part)"
  by pat_completeness auto
termination
  by (relation "measure length") (auto dest: after_length)

declare branch_components_ok.simps [simp del]

definition isValidBranchName :: "string \<Rightarrow> bool" where
  "isValidBranchName branch =
     (if branch = [] \<or> 255 < length branch \<or> hd branch = CHR ''-'' \<or> hd branch = CHR ''/''
         \<or> last branch = CHR ''/'' \<or> last branch = CHR ''.'' \<or> contains ''..'' branch
         \<or> contains [CHR ''@'', CHR ''{''] branch \<or> contains ''//'' branch
      then False
      else if \<exists>c \<in> set branch. branch_byte_refused c then False
      else branch_components_ok branch)"

section \<open>Relative paths\<close>

definition kMaximumSafeRelativePathBytes :: nat where
  "kMaximumSafeRelativePathBytes = 1024"

fun drop_trailing_slashes :: "string \<Rightarrow> string" where
  "drop_trailing_slashes path =
     (if 1 < length path \<and> last path = CHR ''/'' then drop_trailing_slashes (butlast path) else path)"

declare drop_trailing_slashes.simps [simp del]

definition path_component_ok :: "string \<Rightarrow> bool" where
  "path_component_ok component \<longleftrightarrow>
     \<not> (component = [] \<or> component = ''.'' \<or> component = ''..'') \<and>
     (\<forall>c \<in> set component. \<not> (byte c < 0x20 \<or> byte c = 0x7F \<or> byte c = 0x5C))"

definition isSafeRelativePath :: "string \<Rightarrow> bool" where
  "isSafeRelativePath path =
     (let path = drop_trailing_slashes path
      in if path = [] \<or> kMaximumSafeRelativePathBytes < length path \<or> hd path = CHR ''/'' then False
         else list_all path_component_ok (split_on CHR ''/'' path))"

section \<open>Runner labels\<close>

definition kMaximumCiLabelBytes :: nat where
  "kMaximumCiLabelBytes = 32"

definition kMaximumCiLabels :: nat where
  "kMaximumCiLabels = 16"

definition lower_or_digit :: "char \<Rightarrow> bool" where
  "lower_or_digit b \<longleftrightarrow> is_lower b \<or> is_digit b"

definition isValidCiLabel :: "string \<Rightarrow> bool" where
  "isValidCiLabel label =
     (if label = [] \<or> kMaximumCiLabelBytes < length label then False
      else if \<not> lower_or_digit (hd label) then False
      else \<forall>b \<in> set label. lower_or_digit b \<or> b = CHR ''.'' \<or> b = CHR ''_'' \<or> b = CHR ''-'')"

definition parseCiLabelList :: "string \<Rightarrow> string list option" where
  "parseCiLabelList text =
     (if text = [] then Some []
      else if \<not> list_all isValidCiLabel (split_on CHR '','' text) then None
      else let labels = remdups_adj (sort (split_on CHR '','' text))
           in if kMaximumCiLabels < length labels then None else Some labels)"

definition formatCiLabelList :: "string list \<Rightarrow> string" where
  "formatCiLabelList labels =
     foldl (\<lambda>text label. text @ (if text = [] then [] else '','') @ label) [] labels"

definition ciRunnerMatches :: "string \<Rightarrow> string list \<Rightarrow> string list \<Rightarrow> bool" where
  "ciRunnerMatches name labels runs_on =
     (if runs_on = [] \<and> (''windows'' \<in> set labels \<or> name = ''macos-vm'' \<or> ''macos-vm'' \<in> set labels)
      then False
      else \<forall>wanted \<in> set runs_on. wanted = name \<or> wanted \<in> set labels)"

section \<open>Character sets of the validators\<close>

lemma isValidProjectName_chars:
  "isValidProjectName n \<Longrightarrow> c \<in> set n \<Longrightarrow> is_alnum c \<or> c = CHR ''.'' \<or> c = CHR ''_'' \<or> c = CHR ''-''"
  by (auto simp: isValidProjectName_def projectNameError_def isAsciiProjectCharacter_def split: if_splits)

lemma isValidProjectName_bounds:
  "isValidProjectName n \<Longrightarrow> n \<noteq> [] \<and> length n \<le> 64 \<and> hd n \<noteq> CHR ''.'' \<and> \<not> contains ''..'' n"
  by (auto simp: isValidProjectName_def projectNameError_def split: if_splits)

lemma isValidClientId_chars:
  "isValidClientId n \<Longrightarrow> c \<in> set n \<Longrightarrow> is_alnum c \<or> c = CHR ''-'' \<or> c = CHR ''_''"
  by (auto simp: isValidClientId_def split: if_splits)

lemma isValidClientId_bounds: "isValidClientId n \<Longrightarrow> n \<noteq> [] \<and> length n \<le> 64"
  by (auto simp: isValidClientId_def split: if_splits)

lemma isValidSha256Hex_chars: "isValidSha256Hex n \<Longrightarrow> c \<in> set n \<Longrightarrow> is_lower_hex c"
  by (auto simp: isValidSha256Hex_def isLowercaseHex_def)

lemma isValidObjectId_chars: "isValidObjectId n \<Longrightarrow> c \<in> set n \<Longrightarrow> is_lower_hex c"
  by (auto simp: isValidObjectId_def isLowercaseHex_def)

lemma isValidCiLabel_chars:
  "isValidCiLabel n \<Longrightarrow> c \<in> set n \<Longrightarrow> is_lower c \<or> is_digit c \<or> c = CHR ''.'' \<or> c = CHR ''_'' \<or> c = CHR ''-''"
  by (auto simp: isValidCiLabel_def lower_or_digit_def split: if_splits)

text \<open>
  The texts a validator accepts hold no separator of any protocol: no blank, comma, newline,
  slash, colon or quote.
\<close>

definition plain_char :: "char \<Rightarrow> bool" where
  "plain_char c \<longleftrightarrow> is_alnum c \<or> c = CHR ''.'' \<or> c = CHR ''_'' \<or> c = CHR ''-''"

definition plain :: "string \<Rightarrow> bool" where
  "plain s \<longleftrightarrow> (\<forall>c \<in> set s. plain_char c)"

named_theorems plainI "which texts are plain"

lemma plain_separators:
  "plain_char c \<Longrightarrow> c \<noteq> CHR '' '' \<and> c \<noteq> CHR '','' \<and> c \<noteq> newline \<and> c \<noteq> CHR ''/'' \<and> c \<noteq> CHR '':''
     \<and> c \<noteq> carriage_return \<and> c \<noteq> CHR ''='' \<and> c \<noteq> CHR 0x27 \<and> c \<noteq> CHR ''\"''"
  by (auto simp: plain_char_def char_class)

lemma plain_no [simp]:
  assumes "plain s"
  shows "CHR '' '' \<notin> set s" "CHR '','' \<notin> set s" "newline \<notin> set s" "CHR ''/'' \<notin> set s"
    "CHR '':'' \<notin> set s" "carriage_return \<notin> set s" "CHR ''='' \<notin> set s" "CHR 0x27 \<notin> set s"
  using assms plain_separators by (auto simp: plain_def)

lemma plain_project [plainI]: "isValidProjectName n \<Longrightarrow> plain n"
  using isValidProjectName_chars by (auto simp: plain_def plain_char_def)

lemma plain_client [plainI]: "isValidClientId n \<Longrightarrow> plain n"
  using isValidClientId_chars by (auto simp: plain_def plain_char_def)

lemma plain_sha256 [plainI]: "isValidSha256Hex n \<Longrightarrow> plain n"
  using isValidSha256Hex_chars by (auto simp: plain_def plain_char_def is_lower_hex_alnum)

lemma plain_object [plainI]: "isValidObjectId n \<Longrightarrow> plain n"
  using isValidObjectId_chars by (auto simp: plain_def plain_char_def is_lower_hex_alnum)

lemma plain_label [plainI]: "isValidCiLabel n \<Longrightarrow> plain n"
  by (auto simp: plain_def plain_char_def is_alnum_def dest!: isValidCiLabel_chars)

lemma plain_to_dec [plainI]: "plain (to_dec n)"
  by (auto simp: plain_def plain_char_def is_digit_alnum dest: to_dec_digit)

section \<open>Paths\<close>

lemma drop_trailing_slashes_replicate:
  "\<exists>n. path = drop_trailing_slashes path @ replicate n CHR ''/''"
proof (induction path rule: drop_trailing_slashes.induct)
  case (1 path)
  show ?case
  proof (cases "1 < length path \<and> last path = CHR ''/''")
    case True
    then have eq: "drop_trailing_slashes path = drop_trailing_slashes (butlast path)"
      by (simp add: drop_trailing_slashes.simps [of path])
    from 1 True obtain n where "butlast path = drop_trailing_slashes (butlast path) @ replicate n CHR ''/''"
      by blast
    moreover have "path = butlast path @ [CHR ''/'']"
      using True by (metis append_butlast_last_id list.size(3) not_one_less_zero)
    ultimately have "path = drop_trailing_slashes path @ replicate (Suc n) CHR ''/''"
      by (metis eq append_assoc replicate_append_same replicate_Suc)
    then show ?thesis by blast
  next
    case False
    then have "drop_trailing_slashes path = path" by (auto simp: drop_trailing_slashes.simps [of path])
    then show ?thesis by (intro exI [of _ 0]) simp
  qed
qed

lemma drop_trailing_slashes_append:
  "p \<noteq> [] \<Longrightarrow> last p \<noteq> CHR ''/'' \<Longrightarrow> drop_trailing_slashes (p @ replicate n CHR ''/'') = p"
proof (induction n)
  case 0
  then show ?case by (simp add: drop_trailing_slashes.simps)
next
  case (Suc n)
  have "p @ replicate (Suc n) CHR ''/'' = (p @ replicate n CHR ''/'') @ [CHR ''/'']"
    by (simp add: replicate_append_same)
  with Suc show ?case
    by (simp add: drop_trailing_slashes.simps [of "(p @ replicate n CHR ''/'') @ [CHR ''/'']"]
        del: append_assoc)
qed

lemma path_component_no_slash: "list_all path_component_ok (split_on CHR ''/'' p) \<Longrightarrow>
    \<forall>c \<in> set (split_on CHR ''/'' p). path_component_ok c \<and> CHR ''/'' \<notin> set c"
  using split_on_no_sep by (auto simp: list_all_iff)

lemma join_nonempty: "xs \<noteq> [] \<Longrightarrow> hd xs \<noteq> [] \<Longrightarrow> join c xs \<noteq> []"
  by (induction c xs rule: join.induct) auto

lemma join_hd: "xs \<noteq> [] \<Longrightarrow> hd xs \<noteq> [] \<Longrightarrow> hd (join c xs) = hd (hd xs)"
  by (induction c xs rule: join.induct) auto

lemma join_last: "xs \<noteq> [] \<Longrightarrow> [] \<notin> set xs \<Longrightarrow> last (join c xs) = last (last xs)"
proof (induction c xs rule: join.induct)
  case (3 c x y ys)
  then show ?case using join_nonempty [of "y # ys" c] by auto
qed auto

definition path_component :: "string \<Rightarrow> bool" where
  "path_component c \<longleftrightarrow> path_component_ok c \<and> CHR ''/'' \<notin> set c"

lemma path_component_nonempty: "path_component c \<Longrightarrow> c \<noteq> [] \<and> c \<noteq> ''.'' \<and> c \<noteq> ''..''"
  by (simp add: path_component_def path_component_ok_def)

lemma path_component_ends: "path_component c \<Longrightarrow> hd c \<noteq> CHR ''/'' \<and> last c \<noteq> CHR ''/''"
  by (metis path_component_def path_component_nonempty hd_in_set last_in_set)

lemma join_components:
  assumes "cs \<noteq> []" "list_all path_component cs"
  shows "join CHR ''/'' cs \<noteq> []" "hd (join CHR ''/'' cs) \<noteq> CHR ''/''" "last (join CHR ''/'' cs) \<noteq> CHR ''/''"
    "split_on CHR ''/'' (join CHR ''/'' cs) = cs"
proof -
  have c: "path_component c" if "c \<in> set cs" for c using that assms(2) by (simp add: list_all_iff)
  then have ne: "[] \<notin> set cs" using path_component_nonempty by blast
  have "path_component (hd cs)" "path_component (last cs)" using assms(1) c by simp_all
  then show "join CHR ''/'' cs \<noteq> []" "hd (join CHR ''/'' cs) \<noteq> CHR ''/''" "last (join CHR ''/'' cs) \<noteq> CHR ''/''"
    using assms(1) ne path_component_ends path_component_nonempty
    by (simp_all add: join_nonempty join_hd join_last)
  show "split_on CHR ''/'' (join CHR ''/'' cs) = cs"
    by (rule split_on_join) (use assms(1) c in \<open>auto simp: path_component_def\<close>)
qed

text \<open>
  The accepted paths are exactly the lists of ordinary components (not empty, not \<open>.\<close> or
  \<open>..\<close>, no control byte or backslash) printed with one slash between them, at most 1024 bytes,
  and any number of slashes at the end.
\<close>

theorem isSafeRelativePath_iff:
  "isSafeRelativePath p \<longleftrightarrow>
     (\<exists>cs n. cs \<noteq> [] \<and> list_all path_component cs \<and> length (join CHR ''/'' cs) \<le> 1024
        \<and> p = join CHR ''/'' cs @ replicate n CHR ''/'')"
proof
  assume s: "isSafeRelativePath p"
  define q where "q = drop_trailing_slashes p"
  define cs where "cs = split_on CHR ''/'' q"
  from s have q: "length q \<le> 1024" "list_all path_component_ok cs"
    unfolding isSafeRelativePath_def Let_def q_def [symmetric] cs_def kMaximumSafeRelativePathBytes_def
    by (simp_all split: if_splits)
  then have "list_all path_component cs"
    using path_component_no_slash [of q] unfolding cs_def path_component_def list_all_iff by blast
  moreover obtain n where "p = q @ replicate n CHR ''/''"
    using drop_trailing_slashes_replicate [of p] unfolding q_def by blast
  moreover have "q = join CHR ''/'' cs" "cs \<noteq> []" by (simp_all add: cs_def)
  ultimately show "\<exists>cs n. cs \<noteq> [] \<and> list_all path_component cs \<and> length (join CHR ''/'' cs) \<le> 1024
        \<and> p = join CHR ''/'' cs @ replicate n CHR ''/''"
    using q(1) by metis
next
  assume "\<exists>cs n. cs \<noteq> [] \<and> list_all path_component cs \<and> length (join CHR ''/'' cs) \<le> 1024
        \<and> p = join CHR ''/'' cs @ replicate n CHR ''/''"
  then obtain cs n where c: "cs \<noteq> []" "list_all path_component cs" "length (join CHR ''/'' cs) \<le> 1024"
    "p = join CHR ''/'' cs @ replicate n CHR ''/''"
    by blast
  note j = join_components [OF c(1,2)]
  have "drop_trailing_slashes p = join CHR ''/'' cs"
    using c(4) j(1,3) drop_trailing_slashes_append by simp
  moreover have "list_all path_component_ok cs" using c(2) by (simp add: list_all_iff path_component_def)
  ultimately show "isSafeRelativePath p"
    using c(3) j by (simp add: isSafeRelativePath_def kMaximumSafeRelativePathBytes_def)
qed

text \<open>
  What resolving a path does, component by component, to the list of directories it starts from:
  an empty component and \<open>.\<close> stay, \<open>..\<close> goes up.
\<close>

definition resolve_step :: "string list \<Rightarrow> string \<Rightarrow> string list" where
  "resolve_step dirs c =
     (if c = [] \<or> c = ''.'' then dirs else if c = ''..'' then butlast dirs else dirs @ [c])"

definition resolve_path :: "string list \<Rightarrow> string list \<Rightarrow> string list" where
  "resolve_path root components = foldl resolve_step root components"

lemma resolve_components:
  "list_all path_component cs \<Longrightarrow> resolve_path root cs = root @ cs"
  by (induction cs arbitrary: root)
    (auto simp: resolve_path_def resolve_step_def dest: path_component_nonempty)

lemma split_on_slashes:
  "xs \<noteq> [] \<Longrightarrow> split_on CHR ''/'' (s @ replicate n CHR ''/'') = split_on CHR ''/'' s @ replicate n []"
  if "xs = split_on CHR ''/'' s" for xs
proof (induction s arbitrary: xs)
  case Nil
  show ?case by (induction n) auto
next
  case (Cons c s)
  obtain y ys where y: "split_on CHR ''/'' s = y # ys" by (metis split_on_nonempty list.exhaust)
  show ?case using Cons.IH [of "split_on CHR ''/'' s"] y by auto
qed

lemma resolve_empty: "resolve_path dirs (replicate n []) = dirs"
  by (induction n arbitrary: dirs) (auto simp: resolve_path_def resolve_step_def)

lemma list_all_take: "list_all P xs \<Longrightarrow> list_all P (take k xs)"
  by (auto simp: list_all_iff dest: in_set_takeD)

text \<open>
  C39: an accepted path never leaves the directory it is resolved in, not even on the way: after
  every component the directories reached are the root followed by accepted components.
\<close>

theorem safe_path_contained:
  assumes "isSafeRelativePath p"
  shows "\<exists>cs. list_all path_component cs \<and> resolve_path root (take k (split_on CHR ''/'' p)) = root @ cs"
proof -
  obtain cs n where c: "cs \<noteq> []" "list_all path_component cs" "p = join CHR ''/'' cs @ replicate n CHR ''/''"
    using assms isSafeRelativePath_iff by blast
  then have "split_on CHR ''/'' p = cs @ replicate n []"
    using split_on_slashes [OF refl] join_components by simp
  then have "resolve_path root (take k (split_on CHR ''/'' p))
      = resolve_path (resolve_path root (take k cs)) (replicate (min n (k - length cs)) [])"
    by (simp add: resolve_path_def min.commute)
  also have "\<dots> = root @ take k cs"
    using c(2) by (simp add: resolve_empty resolve_components list_all_take)
  finally show ?thesis using c(2) list_all_take by blast
qed

theorem safe_path_contained_witness:
  "\<exists>cs. list_all path_component cs \<and> resolve_path [''srv''] (take 2 (split_on CHR ''/'' ''docs/a.md'')) = [''srv''] @ cs"
proof -
  have "isSafeRelativePath ''docs/a.md''" by code_simp
  then show ?thesis by (rule safe_path_contained)
qed

section \<open>Names are paths\<close>

lemma path_componentI:
  assumes "c \<noteq> []" "c \<noteq> ''.''" "c \<noteq> ''..''"
    and "\<And>x. x \<in> set c \<Longrightarrow> 0x20 \<le> byte x \<and> byte x \<noteq> 0x7F \<and> byte x \<noteq> 0x5C \<and> x \<noteq> CHR ''/''"
  shows "path_component c"
  using assms by (fastforce simp: path_component_def path_component_ok_def)

lemma plain_char_bytes: "plain_char x \<Longrightarrow> 0x20 \<le> byte x \<and> byte x \<noteq> 0x7F \<and> byte x \<noteq> 0x5C \<and> x \<noteq> CHR ''/''"
  by (auto simp: plain_char_def is_alnum_byte)

lemma plain_path_component:
  "plain c \<Longrightarrow> c \<noteq> [] \<Longrightarrow> c \<noteq> ''.'' \<Longrightarrow> c \<noteq> ''..'' \<Longrightarrow> path_component c"
  using plain_char_bytes by (intro path_componentI) (auto simp: plain_def)

lemma project_path_component: "isValidProjectName n \<Longrightarrow> path_component n"
  using isValidProjectName_bounds [of n] plain_project [of n]
  by (intro plain_path_component) auto

lemma branch_components_list:
  "branch_components_ok s \<Longrightarrow> s \<noteq> [] \<Longrightarrow> last s \<noteq> CHR ''/''
     \<Longrightarrow> \<forall>c \<in> set (split_on CHR ''/'' s). \<not> branch_component_refused c"
proof (induction s rule: branch_components_ok.induct)
  case (1 s)
  note b = branch_components_ok.simps [of s]
  from "1.prems" b have r: "\<not> branch_component_refused (before CHR ''/'' s)"
    by (auto split: if_splits)
  show ?case
  proof (cases "after CHR ''/'' s")
    case None
    with r show ?thesis by (simp add: after_None_no_sep)
  next
    case (Some t)
    then have s: "s = before CHR ''/'' s @ CHR ''/'' # t" by (simp add: after_Some)
    with "1.prems"(3) have t: "t \<noteq> []" "last t \<noteq> CHR ''/''"
      by (metis last_append last_ConsL last_ConsR list.distinct(1))+
    from "1.prems" b Some r have "branch_components_ok t" by (simp split: if_splits)
    with "1.IH" [OF _ r Some] "1.prems" t show ?thesis
      using Some r by (simp add: split_on_before [of _ s])
  qed
qed

lemma contains_Nil [simp]: "contains [] s"
  by (cases s) (simp_all add: starts_with_def)

lemma split_on_contains:
  "c \<in> set (split_on x s) \<Longrightarrow> contains sub c \<Longrightarrow> contains sub s"
proof (induction s arbitrary: c)
  case (Cons a s)
  have sub: "contains sub (a # s)" if "contains sub s" using that by simp
  show ?case
  proof (cases "a = x")
    case True
    with Cons show ?thesis by (cases "c = []") auto
  next
    case False
    obtain y ys where y: "split_on x s = y # ys" by (metis split_on_nonempty list.exhaust)
    with False Cons.prems(1) have "c = a # y \<or> c \<in> set ys" by auto
    then show ?thesis
    proof
      assume "c \<in> set ys"
      then show ?thesis using Cons.IH [of c] Cons.prems(2) y sub by simp
    next
      assume c: "c = a # y"
      from Cons.prems(2) c consider "starts_with (a # y) sub" | "contains sub y" by auto
      then show ?thesis
      proof cases
        case 1
        obtain r where "s = y @ r" using y join_split_on [of x s] by (cases ys) auto
        with 1 have "starts_with (a # s) sub" by (auto simp: starts_with_iff) (metis append.assoc append_Cons)
        then show ?thesis by simp
      next
        case 2
        then show ?thesis using Cons.IH [of y] y sub by simp
      qed
    qed
  qed
qed simp

text \<open>
  Every accepted branch name is a safe relative path, so a ref below \<open>refs/heads/\<close> can never
  name a file outside of it; and no accepted name can be taken for an option.
\<close>

theorem branch_name_safe_path:
  assumes "isValidBranchName b"
  shows "isSafeRelativePath b \<and> hd b \<noteq> CHR ''-''
    \<and> list_all (\<lambda>c. path_component c \<and> \<not> ends_with c ''.lock'') (split_on CHR ''/'' b)"
proof -
  let ?cs = "split_on CHR ''/'' b"
  from assms have b: "b \<noteq> []" "length b \<le> 255" "hd b \<noteq> CHR ''-''" "last b \<noteq> CHR ''/''"
    "\<not> contains ''..'' b" "\<forall>c \<in> set b. \<not> branch_byte_refused c" "branch_components_ok b"
    by (auto simp: isValidBranchName_def split: if_splits)
  have dots: "contains ''..'' ''..''" by code_simp
  have c: "path_component c \<and> \<not> ends_with c ''.lock''" if "c \<in> set ?cs" for c
  proof -
    have "\<not> branch_component_refused c" using branch_components_list b that by blast
    moreover have "c \<noteq> ''..''" using split_on_contains [OF that, of "''..''"] b(5) dots by metis
    moreover have "x \<noteq> CHR ''/''" if "x \<in> set c" for x
      using \<open>c \<in> set ?cs\<close> split_on_no_sep that by blast
    moreover have "0x20 \<le> byte x \<and> byte x \<noteq> 0x7F \<and> byte x \<noteq> 0x5C" if "x \<in> set c" for x
    proof -
      have "\<not> branch_byte_refused x" using \<open>c \<in> set ?cs\<close> set_split_on b(6) that by blast
      then show ?thesis by (simp add: branch_byte_refused_def)
    qed
    ultimately have "path_component c"
      by (intro path_componentI) (simp_all add: branch_component_refused_def)
    moreover have "\<not> ends_with c ''.lock''"
      using \<open>\<not> branch_component_refused c\<close>
      by (auto simp: branch_component_refused_def ends_with_def)
    ultimately show ?thesis ..
  qed
  have "length b \<le> 1024" using b(2) by simp
  then have "isSafeRelativePath b"
    unfolding isSafeRelativePath_iff using c
    by (intro exI [of _ ?cs] exI [of _ 0]) (simp add: list_all_iff)
  with b(3) c show ?thesis by (simp add: list_all_iff)
qed

theorem branch_name_safe_path_witness:
  "isSafeRelativePath ''feature/login'' \<and> hd ''feature/login'' \<noteq> CHR ''-''
    \<and> list_all (\<lambda>c. path_component c \<and> \<not> ends_with c ''.lock'') (split_on CHR ''/'' ''feature/login'')"
proof -
  have "isValidBranchName ''feature/login''" by code_simp
  then show ?thesis by (rule branch_name_safe_path)
qed

section \<open>Label lists\<close>

definition canonical_labels :: "string list \<Rightarrow> bool" where
  "canonical_labels ls \<longleftrightarrow>
     sorted ls \<and> distinct ls \<and> list_all isValidCiLabel ls \<and> length ls \<le> kMaximumCiLabels"

lemma isValidCiLabel_nonempty: "isValidCiLabel l \<Longrightarrow> l \<noteq> []"
  by (auto simp: isValidCiLabel_def)

lemma formatCiLabelList_foldl:
  "list_all isValidCiLabel ls \<Longrightarrow> t \<noteq> [] \<Longrightarrow>
     foldl (\<lambda>text label. text @ (if text = [] then [] else '','') @ label) t ls
       = join CHR '','' (t # ls)"
proof (induction ls arbitrary: t)
  case (Cons l ls)
  then show ?case using Cons.IH [of "t @ CHR '','' # l"] by (cases ls) simp_all
qed simp

lemma formatCiLabelList_join: "list_all isValidCiLabel ls \<Longrightarrow> formatCiLabelList ls = join CHR '','' ls"
  by (cases ls) (auto simp: formatCiLabelList_def formatCiLabelList_foldl dest: isValidCiLabel_nonempty)

lemma split_labels:
  assumes "list_all isValidCiLabel ls" "ls \<noteq> []"
  shows "split_on CHR '','' (formatCiLabelList ls) = ls"
proof -
  have "CHR '','' \<notin> set l" if "l \<in> set ls" for l
    using assms(1) that plain_label plain_no(2) by (auto simp: list_all_iff)
  then show ?thesis using assms by (simp add: formatCiLabelList_join split_on_join)
qed

lemma remdups_adj_sorted: "sorted xs \<Longrightarrow> distinct (remdups_adj xs) \<and> sorted (remdups_adj xs)"
proof (induction xs rule: remdups_adj.induct)
  case (3 x y xs)
  then show ?case by (auto simp: order_le_less)
qed auto

lemma remdups_adj_id: "distinct xs \<Longrightarrow> remdups_adj xs = xs"
  by (induction xs rule: remdups_adj.induct) auto

lemma parseCiLabelList_Some:
  assumes "parseCiLabelList text = Some ls"
  shows "canonical_labels ls \<and> set ls = (if text = [] then {} else set (split_on CHR '','' text))"
proof (cases "text = []")
  case True
  with assms show ?thesis by (simp add: parseCiLabelList_def canonical_labels_def)
next
  case False
  let ?parts = "split_on CHR '','' text"
  from assms False have p: "list_all isValidCiLabel ?parts" "ls = remdups_adj (sort ?parts)"
    "length ls \<le> kMaximumCiLabels"
    by (auto simp: parseCiLabelList_def Let_def split: if_splits)
  moreover have "set ls = set ?parts" using p(2) by simp
  moreover have "distinct ls \<and> sorted ls" unfolding p(2) by (rule remdups_adj_sorted) simp
  ultimately show ?thesis using False by (simp add: canonical_labels_def list_all_iff)
qed

interpretation labels: codec formatCiLabelList parseCiLabelList canonical_labels
proof
  fix ls :: "string list"
  assume c: "canonical_labels ls"
  show "parseCiLabelList (formatCiLabelList ls) = Some ls"
  proof (cases "ls = []")
    case True
    then show ?thesis by (simp add: parseCiLabelList_def formatCiLabelList_def)
  next
    case False
    from c have v: "list_all isValidCiLabel ls" "sorted ls" "distinct ls" "length ls \<le> kMaximumCiLabels"
      by (simp_all add: canonical_labels_def)
    have "hd ls \<noteq> []" using False v(1) isValidCiLabel_nonempty by (cases ls) auto
    then have "formatCiLabelList ls \<noteq> []"
      using False v(1) by (simp add: formatCiLabelList_join join_nonempty)
    with v False show ?thesis
      by (simp add: parseCiLabelList_def split_labels sorted_sort_id remdups_adj_id Let_def)
  qed
qed

text \<open>
  What a label list parses to is sorted, without duplicates, valid and bounded, holds exactly
  the labels written, and prints to a text that parses to it again.
\<close>

theorem parseCiLabelList_canonical:
  assumes "parseCiLabelList text = Some ls"
  shows "sorted ls \<and> distinct ls \<and> list_all isValidCiLabel ls \<and> length ls \<le> kMaximumCiLabels
    \<and> set ls = (if text = [] then {} else set (split_on CHR '','' text))
    \<and> parseCiLabelList (formatCiLabelList ls) = Some ls"
  using parseCiLabelList_Some [OF assms] labels.dec_enc [of ls] unfolding canonical_labels_def by blast

theorem parseCiLabelList_canonical_witness:
  "sorted [''arm64'', ''big-disk''] \<and> distinct [''arm64'', ''big-disk'']
    \<and> list_all isValidCiLabel [''arm64'', ''big-disk'']
    \<and> length [''arm64'', ''big-disk''] \<le> kMaximumCiLabels
    \<and> set [''arm64'', ''big-disk'']
        = (if ''big-disk,arm64,big-disk'' = [] then {} else set (split_on CHR '','' ''big-disk,arm64,big-disk''))
    \<and> parseCiLabelList (formatCiLabelList [''arm64'', ''big-disk'']) = Some [''arm64'', ''big-disk'']"
proof -
  have "parseCiLabelList ''big-disk,arm64,big-disk'' = Some [''arm64'', ''big-disk'']" by code_simp
  then show ?thesis by (rule parseCiLabelList_canonical)
qed

text \<open>Giving a runner more labels never takes a job from it that asks for labels itself.\<close>

lemma ciRunnerMatches_mono:
  "ciRunnerMatches n ls r \<Longrightarrow> r \<noteq> [] \<Longrightarrow> set ls \<subseteq> set ls' \<Longrightarrow> ciRunnerMatches n ls' r"
  by (auto simp: ciRunnerMatches_def split: if_splits)

lemma ciRunnerMatches_unlabelled:
  "ciRunnerMatches n ls [] \<longleftrightarrow> ''windows'' \<notin> set ls \<and> ''macos-vm'' \<notin> set ls \<and> n \<noteq> ''macos-vm''"
  by (auto simp: ciRunnerMatches_def)

end
