(* ===== verification/Ck_Ci_Types.thy ===== *)
theory Ck_Ci_Types
  imports Ck_Text Ck_Validation
begin

text \<open>
  The small types of the CI side, \<open>src/common/ci_types.cpp\<close> with the declarations of
  \<open>include/ckgit/ci_store.hpp\<close> and \<open>ci_results.hpp\<close>: run statuses and upload kinds with their
  names, the validators of run ids, artifact names and release tags, and the execution report a
  runner sends with a result, a line of eight comma-separated fields.

  A report that was printed reads back as itself, whatever its fields hold: a report whose fields
  are out of range, or contain a comma, is refused when it is printed.
\<close>

section \<open>Statuses and upload kinds\<close>

datatype CiRunStatus = Pending | Running | Success | Failure | Timeout | Error | Skipped | Cancelled

datatype CiUploadKind = kArtifact | kAsset | kPages

fun ciUploadKindName :: "CiUploadKind \<Rightarrow> string" where
  "ciUploadKindName kArtifact = ''artifact''"
| "ciUploadKindName kAsset = ''asset''"
| "ciUploadKindName kPages = ''pages''"

definition ciUploadKindFromName :: "string \<Rightarrow> CiUploadKind option" where
  "ciUploadKindFromName name =
     (if name = ''artifact'' then Some kArtifact
      else if name = ''asset'' then Some kAsset
      else if name = ''pages'' then Some kPages
      else None)"

fun ciRunStatusName :: "CiRunStatus \<Rightarrow> string" where
  "ciRunStatusName Pending = ''pending''"
| "ciRunStatusName Running = ''running''"
| "ciRunStatusName Success = ''success''"
| "ciRunStatusName Failure = ''failure''"
| "ciRunStatusName Timeout = ''timeout''"
| "ciRunStatusName Error = ''error''"
| "ciRunStatusName Skipped = ''skipped''"
| "ciRunStatusName Cancelled = ''cancelled''"

definition ciRunStatusFromName :: "string \<Rightarrow> CiRunStatus option" where
  "ciRunStatusFromName name =
     (if name = ''pending'' then Some Pending
      else if name = ''running'' then Some Running
      else if name = ''success'' then Some Success
      else if name = ''failure'' then Some Failure
      else if name = ''timeout'' then Some Timeout
      else if name = ''error'' then Some Error
      else if name = ''skipped'' then Some Skipped
      else if name = ''cancelled'' then Some Cancelled
      else None)"

definition ciRunStatusIsActive :: "CiRunStatus \<Rightarrow> bool" where
  "ciRunStatusIsActive status \<longleftrightarrow> status = Pending \<or> status = Running"

fun ciRunStatusIcon :: "CiRunStatus \<Rightarrow> string" where
  "ciRunStatusIcon Pending = [CHR 0xE2, CHR 0x8F, CHR 0xB3]"
| "ciRunStatusIcon Running = [CHR 0xF0, CHR 0x9F, CHR 0x94, CHR 0x84]"
| "ciRunStatusIcon Success = [CHR 0xE2, CHR 0x9C, CHR 0x85]"
| "ciRunStatusIcon Failure = [CHR 0xE2, CHR 0x9D, CHR 0x8C]"
| "ciRunStatusIcon Timeout = [CHR 0xE2, CHR 0x8F, CHR 0xB1, CHR 0xEF, CHR 0xB8, CHR 0x8F]"
| "ciRunStatusIcon Error = [CHR 0xE2, CHR 0x9A, CHR 0xA0, CHR 0xEF, CHR 0xB8, CHR 0x8F]"
| "ciRunStatusIcon Skipped = [CHR 0xE2, CHR 0x8F, CHR 0xAD, CHR 0xEF, CHR 0xB8, CHR 0x8F]"
| "ciRunStatusIcon Cancelled = [CHR 0xE2, CHR 0x9B, CHR 0x94]"

instantiation CiRunStatus :: linorder
begin

text \<open>The order of the enumerators.\<close>

fun status_rank :: "CiRunStatus \<Rightarrow> nat" where
  "status_rank Pending = 0"
| "status_rank Running = 1"
| "status_rank Success = 2"
| "status_rank Failure = 3"
| "status_rank Timeout = 4"
| "status_rank Error = 5"
| "status_rank Skipped = 6"
| "status_rank Cancelled = 7"

definition less_eq_CiRunStatus :: "CiRunStatus \<Rightarrow> CiRunStatus \<Rightarrow> bool" where
  "a \<le> b \<longleftrightarrow> status_rank a \<le> status_rank b"

definition less_CiRunStatus :: "CiRunStatus \<Rightarrow> CiRunStatus \<Rightarrow> bool" where
  "a < b \<longleftrightarrow> status_rank a < status_rank b"

instance
proof
  fix a b c :: CiRunStatus
  show "a < b \<longleftrightarrow> a \<le> b \<and> \<not> b \<le> a" by (auto simp: less_eq_CiRunStatus_def less_CiRunStatus_def)
  show "a \<le> a" by (simp add: less_eq_CiRunStatus_def)
  show "a \<le> b \<Longrightarrow> b \<le> c \<Longrightarrow> a \<le> c" by (simp add: less_eq_CiRunStatus_def)
  show "a \<le> b \<Longrightarrow> b \<le> a \<Longrightarrow> a = b"
    by (cases a; cases b) (simp_all add: less_eq_CiRunStatus_def)
  show "a \<le> b \<or> b \<le> a" by (auto simp: less_eq_CiRunStatus_def)
qed

end

section \<open>Names and ids\<close>

definition kMaximumCiArtifactNameBytes :: nat where "kMaximumCiArtifactNameBytes = 64"
definition kMaximumCiIdBytes :: nat where "kMaximumCiIdBytes = 64"
definition kMaximumReleaseTagBytes :: nat where "kMaximumReleaseTagBytes = 128"
definition kMaximumCiDetailBytes :: nat where "kMaximumCiDetailBytes = 512"
definition kMaximumCiSteps :: nat where "kMaximumCiSteps = 4096"

definition isValidCiArtifactName :: "string \<Rightarrow> bool" where
  "isValidCiArtifactName name \<longleftrightarrow>
     name \<noteq> [] \<and> length name \<le> kMaximumCiArtifactNameBytes \<and>
     (\<forall>c \<in> set name. is_upper c \<or> is_lower c \<or> is_digit c \<or> c = CHR ''.'' \<or> c = CHR ''_'' \<or> c = CHR ''-'')"

definition isValidCiId :: "string \<Rightarrow> bool" where
  "isValidCiId ident \<longleftrightarrow>
     ident \<noteq> [] \<and> length ident \<le> kMaximumCiIdBytes \<and>
     (\<forall>c \<in> set ident. is_upper c \<or> is_lower c \<or> is_digit c \<or> c = CHR ''-'')"

definition isValidReleaseTag :: "string \<Rightarrow> bool" where
  "isValidReleaseTag tag \<longleftrightarrow>
     tag \<noteq> [] \<and> length tag \<le> kMaximumReleaseTagBytes \<and> tag \<noteq> ''.'' \<and> tag \<noteq> ''..'' \<and>
     (\<forall>c \<in> set tag. is_upper c \<or> is_lower c \<or> is_digit c \<or> c = CHR ''.'' \<or> c = CHR ''_'' \<or> c = CHR ''-'')"

section \<open>Execution reports\<close>

record CiExecutionReport =
  er_platform :: string
  er_architecture :: string
  er_isolation :: string
  er_network :: string
  er_memory_bytes :: nat
  er_process_limit :: nat
  er_timeout_seconds :: nat

text \<open>The loop over the eight fields: a comma after each of them but the last.\<close>

fun report_fields :: "nat \<Rightarrow> string \<Rightarrow> string list option" where
  "report_fields 0 t = Some []"
| "report_fields (Suc n) t =
     (case after CHR '','' t of
        None \<Rightarrow> if n = 0 then Some [t] else None
      | Some rest \<Rightarrow> if n = 0 then None else map_option (Cons (before CHR '','' t)) (report_fields n rest))"

definition report_number :: "string \<Rightarrow> nat \<Rightarrow> nat result" where
  "report_number value maximum =
     (case whole_number u64_max value of
        None \<Rightarrow> Inl (Invalid_Argument ''invalid execution resource limit'')
      | Some n \<Rightarrow> if maximum < n then Inl (Invalid_Argument ''invalid execution resource limit'') else Inr n)"

definition report_values_known :: "string list \<Rightarrow> bool" where
  "report_values_known f \<longleftrightarrow>
     f ! 0 = ''1''
     \<and> (f ! 1 = ''windows'' \<or> f ! 1 = ''linux'' \<or> f ! 1 = ''macos'')
     \<and> (f ! 2 = ''x64'' \<or> f ! 2 = ''arm64'' \<or> f ! 2 = ''x86'')
     \<and> (f ! 3 = ''lpac'' \<or> f ! 3 = ''hyperv-hcs'' \<or> f ! 3 = ''linux-namespaces'' \<or> f ! 3 = ''seatbelt'' \<or> f ! 3 = ''none'')
     \<and> (f ! 4 = ''denied'' \<or> f ! 4 = ''loopback-only'' \<or> f ! 4 = ''unrestricted'')"

definition report_isolation_mismatch :: "string list \<Rightarrow> bool" where
  "report_isolation_mismatch f \<longleftrightarrow>
     ((f ! 3 = ''lpac'' \<or> f ! 3 = ''hyperv-hcs'') \<and> f ! 1 \<noteq> ''windows'')
     \<or> (f ! 3 = ''linux-namespaces'' \<and> f ! 1 \<noteq> ''linux'')
     \<or> (f ! 3 = ''seatbelt'' \<and> f ! 1 \<noteq> ''macos'')"

definition parseCiExecutionReport :: "string \<Rightarrow> CiExecutionReport result" where
  "parseCiExecutionReport t =
     (if 256 < length t then Inl (Invalid_Argument ''execution report too large'')
      else case report_fields 8 t of
        None \<Rightarrow> Inl (Invalid_Argument ''malformed execution report'')
      | Some f \<Rightarrow>
          if \<not> report_values_known f then Inl (Invalid_Argument ''unknown execution report value'')
          else if report_isolation_mismatch f
            then Inl (Invalid_Argument ''execution isolation does not match platform'')
          else
            bindE (report_number (f ! 5) u64_max) (\<lambda>memory.
            bindE (report_number (f ! 6) u32_max) (\<lambda>processes.
            bindE (report_number (f ! 7) u32_max) (\<lambda>seconds.
              Inr \<lparr>er_platform = f ! 1, er_architecture = f ! 2, er_isolation = f ! 3, er_network = f ! 4,
                   er_memory_bytes = memory, er_process_limit = to_u32 processes,
                   er_timeout_seconds = to_u32 seconds\<rparr>))))"

definition report_line :: "CiExecutionReport \<Rightarrow> string" where
  "report_line report =
     ''1,'' @ er_platform report @ '','' @ er_architecture report @ '','' @ er_isolation report @ '',''
       @ er_network report @ '','' @ to_dec (er_memory_bytes report) @ '','' @ to_dec (er_process_limit report)
       @ '','' @ to_dec (er_timeout_seconds report)"

definition formatCiExecutionReport :: "CiExecutionReport \<Rightarrow> string result" where
  "formatCiExecutionReport report =
     bindE (parseCiExecutionReport (report_line report)) (\<lambda>_. Inr (report_line report))"

section \<open>Lemmas\<close>

lemma ciUploadKind_roundtrip [simp]: "ciUploadKindFromName (ciUploadKindName k) = Some k"
  by (cases k) (simp_all add: ciUploadKindFromName_def)

lemma ciUploadKindFromName_Some: "ciUploadKindFromName n = Some k \<longleftrightarrow> n = ciUploadKindName k"
  by (cases k) (auto simp: ciUploadKindFromName_def split: if_splits)

lemma ciRunStatus_roundtrip [simp]: "ciRunStatusFromName (ciRunStatusName s) = Some s"
  by (cases s) (simp_all add: ciRunStatusFromName_def)

lemma ciRunStatusFromName_Some: "ciRunStatusFromName n = Some s \<longleftrightarrow> n = ciRunStatusName s"
  by (cases s) (auto simp: ciRunStatusFromName_def split: if_splits)

interpretation status_name: canonical_codec ciRunStatusName ciRunStatusFromName "\<lambda>_. True"
  by unfold_locales (auto simp: ciRunStatusFromName_Some)

interpretation upload_kind_name: canonical_codec ciUploadKindName ciUploadKindFromName "\<lambda>_. True"
  by unfold_locales (auto simp: ciUploadKindFromName_Some)

lemma plain_status [plainI]: "plain (ciRunStatusName s)"
  by (cases s) (simp_all add: plain_def plain_char_def char_class)

lemma plain_kind [plainI]: "plain (ciUploadKindName k)"
  by (cases k) (simp_all add: plain_def plain_char_def char_class)

lemma status_icon_utf8: "isValidUtf8 (ciRunStatusIcon s)"
proof -
  have "ciRunStatusIcon s = concat (map utf8_encode (case s of Pending \<Rightarrow> [0x23F3] | Running \<Rightarrow> [0x1F504]
      | Success \<Rightarrow> [0x2705] | Failure \<Rightarrow> [0x274C] | Timeout \<Rightarrow> [0x23F1, 0xFE0F] | Error \<Rightarrow> [0x26A0, 0xFE0F]
      | Skipped \<Rightarrow> [0x23ED, 0xFE0F] | Cancelled \<Rightarrow> [0x26D4]))"
    by (cases s) (simp_all add: utf8_encode_def eq_char_of)
  then show ?thesis
    by (simp only:) (rule isValidUtf8_concat, cases s, simp_all add: scalar_value_def)
qed

lemma plain_ci_id [plainI]: "isValidCiId n \<Longrightarrow> plain n"
  by (auto simp: isValidCiId_def plain_def plain_char_def is_alnum_def)

lemma plain_artifact_name [plainI]: "isValidCiArtifactName n \<Longrightarrow> plain n"
  by (auto simp: isValidCiArtifactName_def plain_def plain_char_def is_alnum_def)

lemma plain_release_tag [plainI]: "isValidReleaseTag n \<Longrightarrow> plain n"
  by (auto simp: isValidReleaseTag_def plain_def plain_char_def is_alnum_def)

lemma ci_id_path_component: "isValidCiId n \<Longrightarrow> path_component n"
  by (intro plain_path_component plain_ci_id) (auto simp: isValidCiId_def is_upper_def is_lower_def is_digit_def)

lemma release_tag_path_component: "isValidReleaseTag n \<Longrightarrow> path_component n"
  by (intro plain_path_component plain_release_tag) (auto simp: isValidReleaseTag_def)

lemma report_fields_split:
  "0 < n \<Longrightarrow> report_fields n t = (if length (split_on CHR '','' t) = n then Some (split_on CHR '','' t) else None)"
proof (induction n arbitrary: t)
  case (Suc n)
  show ?case
  proof (cases "after CHR '','' t")
    case None
    then have "split_on CHR '','' t = [t]" by (simp add: after_None_no_sep)
    with None show ?thesis by auto
  next
    case (Some r)
    then have "split_on CHR '','' t = before CHR '','' t # split_on CHR '','' r" by (simp add: split_on_before)
    with Some Suc.IH [of r] show ?thesis by (cases "n = 0") auto
  qed
qed simp

lemma report_number_Inr [result_simps]:
  "report_number v m = Inr n \<longleftrightarrow> whole_number u64_max v = Some n \<and> n \<le> m"
  by (auto simp: report_number_def split: option.splits)

lemma report_line_join:
  "report_line r = join CHR '','' [''1'', er_platform r, er_architecture r, er_isolation r, er_network r,
     to_dec (er_memory_bytes r), to_dec (er_process_limit r), to_dec (er_timeout_seconds r)]"
  by (simp add: report_line_def)

lemma count_join:
  "xs \<noteq> [] \<Longrightarrow> count_list (join c xs) c = length xs - 1 + sum_list (map (\<lambda>x. count_list x c) xs)"
  by (induction c xs rule: join.induct) auto

lemma length_split_on: "length (split_on c s) = Suc (count_list s c)"
  by (induction s) (auto split: list.splits)

text \<open>When as many fields are read as were joined, no joined field holds a separator.\<close>

lemma split_on_join_length:
  assumes "xs \<noteq> []" "length (split_on c (join c xs)) = length xs"
  shows "split_on c (join c xs) = xs"
proof -
  have "length (split_on c (join c xs)) = Suc (length xs - 1 + sum_list (map (\<lambda>x. count_list x c) xs))"
    by (simp only: length_split_on count_join [OF assms(1)])
  with assms(2) have "Suc (length xs - 1 + sum_list (map (\<lambda>x. count_list x c) xs)) = length xs" by argo
  then have "sum_list (map (\<lambda>x. count_list x c) xs) = 0"
    using length_greater_0_conv [of xs] assms(1) by linarith
  then have "\<forall>x \<in> set xs. c \<notin> set x"
    by (simp only: sum_list_eq_0_iff set_map) (auto simp: count_list_0_iff)
  then show ?thesis using assms(1) split_on_join by blast
qed

lemma report_roundtrip:
  assumes "formatCiExecutionReport r = Inr s"
    and "er_memory_bytes r \<le> u64_max" "er_process_limit r \<le> u32_max" "er_timeout_seconds r \<le> u32_max"
  shows "parseCiExecutionReport s = Inr r"
proof -
  let ?f = "[''1'', er_platform r, er_architecture r, er_isolation r, er_network r,
     to_dec (er_memory_bytes r), to_dec (er_process_limit r), to_dec (er_timeout_seconds r)]"
  from assms(1) obtain r' where s: "s = report_line r" "parseCiExecutionReport (report_line r) = Inr r'"
    by (auto simp: formatCiExecutionReport_def result_simps)
  then obtain f where "report_fields 8 (report_line r) = Some f"
    by (auto simp: parseCiExecutionReport_def split: if_splits option.splits)
  then have "length (split_on CHR '','' (join CHR '','' ?f)) = length ?f"
    by (simp only: report_fields_split report_line_join) (simp split: if_splits)
  then have "split_on CHR '','' (join CHR '','' ?f) = ?f" by (intro split_on_join_length) simp_all
  then have f: "report_fields 8 (report_line r) = Some ?f"
    by (simp only: report_fields_split report_line_join) simp
  have "u32_max \<le> u64_max" by (simp add: u32_max_def u64_max_def)
  with s(2) assms(2-4) show ?thesis
    unfolding s(1) by (simp add: parseCiExecutionReport_def f report_number_def split: if_splits)
      (cases r, simp)
qed

text \<open>
  A report that is printed at all reads back as itself, although the printer escapes nothing.
  The bounds are those of the fields' types.
\<close>

theorem execution_report_roundtrip:
  assumes "formatCiExecutionReport r = Inr s"
    and "er_memory_bytes r \<le> u64_max" "er_process_limit r \<le> u32_max" "er_timeout_seconds r \<le> u32_max"
  shows "parseCiExecutionReport s = Inr r"
  using assms by (rule report_roundtrip)

theorem execution_report_roundtrip_witness:
  "parseCiExecutionReport ''1,linux,x64,linux-namespaces,denied,0,64,1800''
     = Inr \<lparr>er_platform = ''linux'', er_architecture = ''x64'', er_isolation = ''linux-namespaces'',
            er_network = ''denied'', er_memory_bytes = 0, er_process_limit = 64, er_timeout_seconds = 1800\<rparr>"
proof -
  have "formatCiExecutionReport \<lparr>er_platform = ''linux'', er_architecture = ''x64'',
      er_isolation = ''linux-namespaces'', er_network = ''denied'', er_memory_bytes = 0,
      er_process_limit = 64, er_timeout_seconds = 1800\<rparr>
    = Inr ''1,linux,x64,linux-namespaces,denied,0,64,1800''"
    by (simp add: formatCiExecutionReport_def report_line_def parseCiExecutionReport_def
        report_fields_split report_values_known_def report_isolation_mismatch_def report_number_def
        decimal_eval)
  then show ?thesis by (rule execution_report_roundtrip) (simp_all add: u32_max_def u64_max_def)
qed

lemma parse_report_fields:
  assumes "parseCiExecutionReport s = Inr r"
  obtains f where "f = split_on CHR '','' s" "length f = 8" "report_values_known f"
    "\<not> report_isolation_mismatch f" "er_platform r = f ! 1" "er_isolation r = f ! 3"
    "\<exists>n. whole_number u64_max (f ! 5) = Some n" "\<exists>n. whole_number u64_max (f ! 6) = Some n"
    "\<exists>n. whole_number u64_max (f ! 7) = Some n"
  using assms
  by (auto simp: parseCiExecutionReport_def report_fields_split result_simps
      split: if_splits option.splits)

lemma execution_report_isolation:
  assumes "parseCiExecutionReport s = Inr r"
  shows "er_isolation r = ''seatbelt'' \<Longrightarrow> er_platform r = ''macos''"
    "er_isolation r = ''linux-namespaces'' \<Longrightarrow> er_platform r = ''linux''"
    "er_isolation r = ''lpac'' \<or> er_isolation r = ''hyperv-hcs'' \<Longrightarrow> er_platform r = ''windows''"
  using parse_report_fields [OF assms] unfolding report_isolation_mismatch_def by metis+

lemma execution_report_chars:
  assumes "parseCiExecutionReport s = Inr r"
  shows "newline \<notin> set s"
proof -
  from assms obtain f where f: "f = split_on CHR '','' s" "length f = 8" "report_values_known f"
    "\<exists>n. whole_number u64_max (f ! 5) = Some n" "\<exists>n. whole_number u64_max (f ! 6) = Some n"
    "\<exists>n. whole_number u64_max (f ! 7) = Some n"
    by (rule parse_report_fields)
  then have s: "s = join CHR '','' f" by simp
  have nums: "newline \<notin> set v" if "whole_number u64_max v = Some n" for v n
    using that by (auto simp: whole_number_iff is_digit_def)
  from f(2) obtain f0 f1 f2 f3 f4 f5 f6 f7 where l: "f = [f0, f1, f2, f3, f4, f5, f6, f7]"
    by (auto simp: numeral_eq_Suc length_Suc_conv)
  have known: "newline \<notin> set (v :: string)" if "v \<in> set vs" "\<forall>v \<in> set vs. newline \<notin> set v" for v vs
    using that by blast
  have "f0 \<in> set [''1'']" "f1 \<in> set [''windows'', ''linux'', ''macos'']" "f2 \<in> set [''x64'', ''arm64'', ''x86'']"
    "f3 \<in> set [''lpac'', ''hyperv-hcs'', ''linux-namespaces'', ''seatbelt'', ''none'']"
    "f4 \<in> set [''denied'', ''loopback-only'', ''unrestricted'']"
    using f(3) unfolding report_values_known_def l by simp_all
  from this [THEN known]
  have "newline \<notin> set f0" "newline \<notin> set f1" "newline \<notin> set f2" "newline \<notin> set f3" "newline \<notin> set f4"
    by simp_all
  moreover have "newline \<notin> set f5" "newline \<notin> set f6" "newline \<notin> set f7"
    using f(4-6) nums unfolding l by auto
  ultimately show ?thesis unfolding s l by simp
qed

text \<open>A report that was read can be printed.\<close>

lemma parsed_report_printable:
  assumes "parseCiExecutionReport s = Inr r"
  shows "\<exists>t. formatCiExecutionReport r = Inr t" "er_memory_bytes r \<le> u64_max" "er_process_limit r \<le> u32_max"
    "er_timeout_seconds r \<le> u32_max"
proof -
  from assms obtain f where f: "report_values_known f" "\<not> report_isolation_mismatch f"
    "er_platform r = f ! 1" "er_architecture r = f ! 2" "er_isolation r = f ! 3" "er_network r = f ! 4"
    "er_memory_bytes r \<le> u64_max" "er_process_limit r \<le> u32_max" "er_timeout_seconds r \<le> u32_max"
    by (auto simp: parseCiExecutionReport_def result_simps split: if_splits option.splits)
  then show "er_memory_bytes r \<le> u64_max" "er_process_limit r \<le> u32_max" "er_timeout_seconds r \<le> u32_max" by simp_all
  let ?f = "[''1'', er_platform r, er_architecture r, er_isolation r, er_network r,
     to_dec (er_memory_bytes r), to_dec (er_process_limit r), to_dec (er_timeout_seconds r)]"
  have known: "CHR '','' \<notin> set v \<and> length v \<le> 16" if "v \<in> set vs" "\<forall>v \<in> set vs. CHR '','' \<notin> set v \<and> length v \<le> 16" for v :: string and vs
    using that by blast
  have "f ! 1 \<in> set [''windows'', ''linux'', ''macos'']" "f ! 2 \<in> set [''x64'', ''arm64'', ''x86'']"
    "f ! 3 \<in> set [''lpac'', ''hyperv-hcs'', ''linux-namespaces'', ''seatbelt'', ''none'']"
    "f ! 4 \<in> set [''denied'', ''loopback-only'', ''unrestricted'']"
    using f(1) unfolding report_values_known_def by simp_all
  from this [THEN known] have k: "CHR '','' \<notin> set (f ! 1) \<and> length (f ! 1) \<le> 16" "CHR '','' \<notin> set (f ! 2) \<and> length (f ! 2) \<le> 16"
    "CHR '','' \<notin> set (f ! 3) \<and> length (f ! 3) \<le> 16" "CHR '','' \<notin> set (f ! 4) \<and> length (f ! 4) \<le> 16"
    by simp_all
  have "split_on CHR '','' (join CHR '','' ?f) = ?f" using k f(3-6) by (intro split_on_join) simp_all
  then have fields: "report_fields 8 (report_line r) = Some ?f"
    by (simp only: report_fields_split report_line_join) simp
  have "length (to_dec (er_memory_bytes r)) \<le> 20" "length (to_dec (er_process_limit r)) \<le> 10"
    "length (to_dec (er_timeout_seconds r)) \<le> 10"
    using f(7-9) length_to_dec_u64 length_to_dec_u32 by simp_all
  then have len: "length (report_line r) \<le> 256" using k f(3-6) by (simp add: report_line_def)
  have "report_values_known ?f" using f(1,3-6) unfolding report_values_known_def by simp
  moreover have "\<not> report_isolation_mismatch ?f" using f(2,3,5) unfolding report_isolation_mismatch_def by simp
  moreover have "u32_max \<le> u64_max" by (simp add: u32_max_def u64_max_def)
  ultimately show "\<exists>t. formatCiExecutionReport r = Inr t"
    using f(7-9) len by (simp add: formatCiExecutionReport_def parseCiExecutionReport_def fields report_number_def)
qed

end
