(* ===== verification/Ck_Checkout_Path.thy ===== *)
theory Ck_Checkout_Path
  imports Ck_Text Ck_Validation
begin

text \<open>
  \<open>src/common/checkout_path.cpp\<close>: the token under which a client reports the directory of a
  checkout (the path in hexadecimal), and the test of whether two reports name one checkout.
  The token codec is exact: \<open>checkout_token\<close> interprets the canonical codec contract with it.
\<close>

definition kMaximumReportedPathBytes :: nat where
  "kMaximumReportedPathBytes = 256"

definition isSafeReportedPath :: "string \<Rightarrow> bool" where
  "isSafeReportedPath path \<longleftrightarrow>
     path \<noteq> [] \<and> length path \<le> kMaximumReportedPathBytes \<and> isValidUtf8 path
     \<and> (\<forall>c \<in> set path. 0x20 \<le> byte c \<and> byte c \<noteq> 0x7F)"

definition decodeCheckoutPath :: "string \<Rightarrow> string option" where
  "decodeCheckoutPath token =
     (if token = [] \<or> length token > kMaximumReportedPathBytes * 2 \<or> length token mod 2 \<noteq> 0 then None
      else case hex_pairs token of
          None \<Rightarrow> None
        | Some decoded \<Rightarrow> if isSafeReportedPath decoded then Some decoded else None)"

definition encodeCheckoutPath :: "string \<Rightarrow> string result" where
  "encodeCheckoutPath path =
     (if \<not> isSafeReportedPath path
      then Inl (Invalid_Argument ''reported checkout path must be printable, valid UTF-8, and at most 256 bytes'')
      else Inr (hexEncode path))"

definition isValidCheckoutPathToken :: "string \<Rightarrow> bool" where
  "isValidCheckoutPathToken token \<longleftrightarrow> decodeCheckoutPath token \<noteq> None"

definition decodeCheckoutPathToken :: "string \<Rightarrow> string option" where
  "decodeCheckoutPathToken token = decodeCheckoutPath token"

section \<open>Comparing reports\<close>

text \<open>\<open>C:\\\<close> or \<open>C:/\<close> at the start.\<close>

fun is_drive_path :: "string \<Rightarrow> bool" where
  "is_drive_path (a # b # c # _) \<longleftrightarrow>
     (is_upper a \<or> is_lower a) \<and> b = CHR '':'' \<and> (c = CHR 0x5C \<or> c = CHR ''/'')"
| "is_drive_path _ \<longleftrightarrow> False"

definition normalized_checkout :: "string \<Rightarrow> string" where
  "normalized_checkout input =
     drop_trailing_slashes
       (if is_drive_path input \<or> starts_with input [CHR 0x5C, CHR 0x5C]
        then map (\<lambda>c. if c = CHR 0x5C then CHR ''/'' else c) input else input)"

definition final_component :: "string \<Rightarrow> string" where
  "final_component value = after_last CHR ''/'' value"

definition sameReportedCheckout :: "string \<Rightarrow> string \<Rightarrow> bool" where
  "sameReportedCheckout left right =
     (let a = normalized_checkout left; b = normalized_checkout right;
          a_is_name = (CHR ''/'' \<notin> set a); b_is_name = (CHR ''/'' \<notin> set b)
      in a = b \<or> (a_is_name \<noteq> b_is_name \<and> a \<noteq> [] \<and> b \<noteq> [] \<and> final_component a = final_component b))"

section \<open>The token\<close>

lemma safe_reported_length: "isSafeReportedPath p \<Longrightarrow> p \<noteq> [] \<and> length p \<le> 256"
  by (simp add: isSafeReportedPath_def kMaximumReportedPathBytes_def)

lemma hexEncode_injective: "hexEncode p = hexEncode q \<longleftrightarrow> p = q"
  using hex_pairs_hexEncode by (metis option.inject)

lemma decodeCheckoutPath_iff: "decodeCheckoutPath t = Some p \<longleftrightarrow> isSafeReportedPath p \<and> t = hexEncode p"
proof
  assume "decodeCheckoutPath t = Some p"
  then have "hex_pairs t = Some p \<and> isSafeReportedPath p"
    by (auto simp: decodeCheckoutPath_def split: if_splits option.splits)
  then show "isSafeReportedPath p \<and> t = hexEncode p" using hex_pairs_Some by blast
next
  assume p: "isSafeReportedPath p \<and> t = hexEncode p"
  then have "hexEncode p \<noteq> []" "length (hexEncode p) \<le> 512"
    using safe_reported_length [of p] by (auto simp: length_hexEncode hexEncode_Nil_iff)
  with p show "decodeCheckoutPath t = Some p"
    by (simp add: decodeCheckoutPath_def hex_pairs_hexEncode length_hexEncode kMaximumReportedPathBytes_def)
qed

interpretation checkout_token: canonical_codec hexEncode decodeCheckoutPath isSafeReportedPath
  by unfold_locales (auto simp: decodeCheckoutPath_iff)

lemma checkout_token_chars:
  assumes "isValidCheckoutPathToken t"
  shows "t \<noteq> []" "length t \<le> 512" "\<forall>c \<in> set t. is_lower_hex c"
proof -
  from assms obtain p where p: "isSafeReportedPath p" "t = hexEncode p"
    by (auto simp: isValidCheckoutPathToken_def decodeCheckoutPath_iff)
  then show "t \<noteq> []" "length t \<le> 512"
    using safe_reported_length [of p] by (auto simp: length_hexEncode hexEncode_Nil_iff)
  show "\<forall>c \<in> set t. is_lower_hex c" using p(2) set_hexEncode by blast
qed

lemma encodeCheckoutPath_token:
  "encodeCheckoutPath p = Inr t \<Longrightarrow> isValidCheckoutPathToken t \<and> decodeCheckoutPathToken t = Some p"
  by (auto simp: encodeCheckoutPath_def isValidCheckoutPathToken_def decodeCheckoutPathToken_def
      decodeCheckoutPath_iff split: if_splits)

section \<open>The comparison\<close>

lemma sameReportedCheckout_refl: "sameReportedCheckout p p"
  by (simp add: sameReportedCheckout_def Let_def)

lemma sameReportedCheckout_sym: "sameReportedCheckout p q = sameReportedCheckout q p"
  unfolding sameReportedCheckout_def Let_def by metis

text \<open>Two full paths that differ are never taken for one checkout.\<close>

lemma sameReportedCheckout_paths:
  assumes "CHR ''/'' \<in> set (normalized_checkout p)" "CHR ''/'' \<in> set (normalized_checkout q)"
  shows "sameReportedCheckout p q \<longleftrightarrow> normalized_checkout p = normalized_checkout q"
  using assms by (simp add: sameReportedCheckout_def Let_def)

end
