(* ===== verification/Ck_Control_Rpc.thy ===== *)
theory Ck_Control_Rpc
  imports Ck_Charconv Ck_Ci_Types Ck_Checkout_Path
begin

text \<open>
  \<open>src/common/control_rpc.cpp\<close>: the table of version-1 control operations, the validation of an
  operation with its arguments and the parser of a request line; and the request and reply framing
  of \<open>forwardControlRpc\<close> in \<open>src/common/control_transport_posix.cpp\<close>. The socket calls of the
  transport are not modelled: the reply bytes are an argument.
\<close>

definition kMaximumControlArguments :: nat where "kMaximumControlArguments = 4"
definition kMaximumControlRequestBytes :: nat where "kMaximumControlRequestBytes = 768"
definition kMaximumControlResponseBytes :: nat where "kMaximumControlResponseBytes = 256 * 1024"

section \<open>The operation table\<close>

datatype ArgumentKind = AkProject | AkBranch | AkCheckoutPath | AkCiRunId | AkStepIndex | AkByteOffset

text \<open>An entry: its name and the kinds of its positional arguments (their number is the arity).\<close>

definition kOperations :: "(string \<times> ArgumentKind list) list" where
  "kOperations =
    [(''ping'', []),
     (''version'', []),
     (''versions'', []),
     (''list-projects'', []),
     (''checkouts'', []),
     (''ci-overview'', []),
     (''refs'', [AkProject]),
     (''refresh'', [AkProject]),
     (''forget-checkout'', [AkProject]),
     (''releases'', [AkProject]),
     (''ci-status'', [AkProject]),
     (''default-branch'', [AkProject]),
     (''create'', [AkProject, AkBranch]),
     (''set-default-branch'', [AkProject, AkBranch]),
     (''register'', [AkProject, AkCheckoutPath]),
     (''replace-checkout'', [AkProject, AkCheckoutPath]),
     (''ci-run'', [AkProject, AkCiRunId]),
     (''ci-cancel'', [AkProject, AkCiRunId]),
     (''ci-placement'', [AkProject, AkCiRunId]),
     (''ci-execution'', [AkProject, AkCiRunId]),
     (''ci-jobs'', [AkProject, AkCiRunId]),
     (''ci-log'', [AkProject, AkCiRunId, AkStepIndex, AkByteOffset])]"

definition isCanonicalDecimal :: "string \<Rightarrow> nat \<Rightarrow> bool" where
  "isCanonicalDecimal value maximum_digits \<longleftrightarrow>
     value \<noteq> [] \<and> length value \<le> maximum_digits \<and> (length value = 1 \<or> hd value \<noteq> CHR ''0'')
     \<and> (\<forall>c \<in> set value. CHR ''0'' \<le> c \<and> c \<le> CHR ''9'')"

fun isValidArgument :: "ArgumentKind \<Rightarrow> string \<Rightarrow> bool" where
  "isValidArgument AkProject v = isValidProjectName v"
| "isValidArgument AkBranch v = isValidBranchName v"
| "isValidArgument AkCheckoutPath v = isValidCheckoutPathToken v"
| "isValidArgument AkCiRunId v = isValidCiId v"
| "isValidArgument AkStepIndex v =
     (isCanonicalDecimal v 4 \<and>
      (case from_chars u64_max v of Some (step, _) \<Rightarrow> step \<le> kMaximumCiSteps | None \<Rightarrow> False))"
| "isValidArgument AkByteOffset v = (isCanonicalDecimal v 20 \<and> whole_number u64_max v \<noteq> None)"

definition isValidControlOperation :: "string \<Rightarrow> string list \<Rightarrow> bool" where
  "isValidControlOperation operation arguments =
     (case map_of kOperations operation of
        None \<Rightarrow> False
      | Some kinds \<Rightarrow> length arguments = length kinds \<and> list_all2 isValidArgument kinds arguments)"

section \<open>Request lines\<close>

record ControlRequest =
  cr_client_id :: string
  cr_operation :: string
  cr_arguments :: "string list"

definition control_prefix :: string where
  "control_prefix = ''CKGIT-CONTROL/1 ''"

text \<open>The token loop; \<open>n\<close> is the number of tokens already read.\<close>

fun control_tokens :: "nat \<Rightarrow> string list \<Rightarrow> string list option" where
  "control_tokens n [] = Some []"
| "control_tokens n (token # rest) =
     (if token = [] \<or> n = 2 + kMaximumControlArguments then None
      else map_option ((#) token) (control_tokens (Suc n) rest))"

definition parseControlRequest :: "string \<Rightarrow> ControlRequest option" where
  "parseControlRequest line =
     (if line = [] \<or> length line > kMaximumControlRequestBytes \<or> last line \<noteq> newline
         \<or> newline \<in> set (butlast line) then None
      else if \<exists>c \<in> set (butlast line). byte c < 0x20 \<or> byte c > 0x7E then None
      else let content = butlast line in
        if \<not> starts_with content control_prefix then None
        else case control_tokens 0 (split_on CHR '' '' (drop (length control_prefix) content)) of
            None \<Rightarrow> None
          | Some tokens \<Rightarrow>
              if length tokens < 2 \<or> \<not> isValidClientId (tokens ! 0) then None
              else let request = \<lparr>cr_client_id = tokens ! 0, cr_operation = tokens ! 1, cr_arguments = drop 2 tokens\<rparr>
                in if isValidControlOperation (cr_operation request) (cr_arguments request)
                   then Some request else None)"

section \<open>Forwarding\<close>

definition control_line :: "ControlRequest \<Rightarrow> string" where
  "control_line r = control_prefix @ cr_client_id r @ '' '' @ cr_operation r
     @ concat (map (\<lambda>argument. CHR '' '' # argument) (cr_arguments r)) @ [newline]"

definition forward_request :: "ControlRequest \<Rightarrow> string result" where
  "forward_request r =
     (if \<not> isValidClientId (cr_client_id r) \<or> \<not> isValidControlOperation (cr_operation r) (cr_arguments r)
      then Inl (Invalid_Argument ''invalid control operation or argument'')
      else if length (control_line r) > kMaximumControlRequestBytes
      then Inl (Invalid_Argument ''control request exceeds its size limit'')
      else Inr (control_line r))"

text \<open>The reply, as the peer has sent it before closing, and whether it reports success.\<close>

definition forward_reply :: "string \<Rightarrow> bool result" where
  "forward_reply reply =
     (if length reply > kMaximumControlResponseBytes
      then Inl (Runtime_Error ''control response exceeds its size limit'')
      else if reply = [] \<or> last reply \<noteq> newline \<or> carriage_return \<in> set reply \<or> CHR 0x00 \<in> set reply
      then Inl (Runtime_Error ''control response has invalid framing'')
      else if \<exists>c \<in> set reply. c \<noteq> newline \<and> (byte c < 0x20 \<or> byte c > 0x7E)
      then Inl (Runtime_Error ''control response contains unsafe text'')
      else Inr (reply = ''ok'' @ [newline] \<or> starts_with reply ''ok ''))"

section \<open>Properties\<close>

lemma join_concat: "join c (x # xs) = x @ concat (map (\<lambda>a. c # a) xs)"
  by (induction xs arbitrary: x) simp_all

lemma operation_names: "(name, kinds) \<in> set kOperations \<Longrightarrow> plain name \<and> name \<noteq> [] \<and> length name \<le> 18 \<and> length kinds \<le> 4"
proof -
  have "list_all (\<lambda>(name, kinds). plain name \<and> name \<noteq> [] \<and> length name \<le> 18 \<and> length kinds \<le> 4) kOperations"
    by (simp add: kOperations_def plain_def plain_char_def char_class)
  then show "(name, kinds) \<in> set kOperations \<Longrightarrow> plain name \<and> name \<noteq> [] \<and> length name \<le> 18 \<and> length kinds \<le> 4"
    by (auto simp: list_all_iff)
qed

lemma isCanonicalDecimal_iff: "isCanonicalDecimal v m \<longleftrightarrow> canonical_digits v \<and> length v \<le> m"
  by (auto simp: isCanonicalDecimal_def canonical_digits_def is_digit_def)

lemma plain_canonical [plainI]: "canonical_digits v \<Longrightarrow> plain v"
  unfolding canonical_iff using plain_to_dec by blast

text \<open>The length an argument can have at most, by its kind.\<close>

fun argument_bound :: "ArgumentKind \<Rightarrow> nat" where
  "argument_bound AkProject = 64"
| "argument_bound AkBranch = 255"
| "argument_bound AkCheckoutPath = 512"
| "argument_bound AkCiRunId = 64"
| "argument_bound AkStepIndex = 4"
| "argument_bound AkByteOffset = 20"

lemma plain_checkout_token [plainI]: "isValidCheckoutPathToken t \<Longrightarrow> plain t"
  using checkout_token_chars (3) by (auto simp: plain_def plain_char_def is_lower_hex_alnum)

lemma branch_chars: "isValidBranchName b \<Longrightarrow> CHR '' '' \<notin> set b \<and> b \<noteq> [] \<and> length b \<le> 255"
proof -
  assume "isValidBranchName b"
  then have b: "b \<noteq> []" "length b \<le> 255" "\<forall>c \<in> set b. \<not> branch_byte_refused c"
    by (auto simp: isValidBranchName_def split: if_splits)
  have "branch_byte_refused CHR '' ''" by (simp add: branch_byte_refused_def)
  with b show ?thesis by blast
qed

lemma argument_shape:
  assumes "isValidArgument k v"
  shows "v \<noteq> [] \<and> CHR '' '' \<notin> set v \<and> length v \<le> argument_bound k"
proof (cases k)
  case AkProject
  with assms isValidProjectName_bounds plain_project show ?thesis by fastforce
next
  case AkBranch
  with assms branch_chars show ?thesis by fastforce
next
  case AkCheckoutPath
  with assms checkout_token_chars plain_checkout_token show ?thesis by fastforce
next
  case AkCiRunId
  with assms plain_ci_id show ?thesis by (auto simp: isValidCiId_def kMaximumCiIdBytes_def)
next
  case AkStepIndex
  with assms have "canonical_digits v \<and> length v \<le> 4" by (simp add: isCanonicalDecimal_iff)
  with AkStepIndex show ?thesis by (auto simp: canonical_iff)
next
  case AkByteOffset
  with assms have "canonical_digits v \<and> length v \<le> 20" by (simp add: isCanonicalDecimal_iff)
  with AkByteOffset show ?thesis by (auto simp: canonical_iff)
qed

lemma operation_shape:
  assumes "isValidControlOperation operation arguments"
  obtains kinds where "(operation, kinds) \<in> set kOperations" "length arguments \<le> 4"
    "list_all2 isValidArgument kinds arguments" "\<forall>v \<in> set arguments. v \<noteq> [] \<and> CHR '' '' \<notin> set v"
    "length (concat (map (\<lambda>a. CHR '' '' # a) arguments)) \<le> sum_list (map (\<lambda>k. Suc (argument_bound k)) kinds)"
proof -
  from assms obtain kinds where k: "map_of kOperations operation = Some kinds" "list_all2 isValidArgument kinds arguments"
    by (auto simp: isValidControlOperation_def split: option.splits)
  have "(operation, kinds) \<in> set kOperations" using k(1) by (rule map_of_SomeD)
  moreover from this have "length arguments \<le> 4" using k(2) operation_names by (metis list_all2_lengthD)
  moreover have "\<forall>v \<in> set arguments. v \<noteq> [] \<and> CHR '' '' \<notin> set v"
    using k(2) by (induction rule: list_all2_induct) (auto dest: argument_shape)
  moreover have "length (concat (map (\<lambda>a. CHR '' '' # a) arguments)) \<le> sum_list (map (\<lambda>k. Suc (argument_bound k)) kinds)"
    using k(2) by (induction rule: list_all2_induct) (auto dest: argument_shape)
  ultimately show ?thesis using that k(2) by blast
qed

lemma control_line_join:
  "control_line r = control_prefix @ join CHR '' '' (cr_client_id r # cr_operation r # cr_arguments r) @ [newline]"
  by (simp only: control_line_def join_concat) simp

lemma control_tokens_eq:
  "control_tokens n ts = (if [] \<notin> set ts \<and> n + length ts \<le> 2 + kMaximumControlArguments \<or> ts = [] then Some ts else None)"
  if "n \<le> 2 + kMaximumControlArguments"
  using that
proof (induction ts arbitrary: n)
  case (Cons t ts)
  show ?case
  proof (cases "n = 2 + kMaximumControlArguments")
    case False
    with Cons.prems have "Suc n \<le> 2 + kMaximumControlArguments" by simp
    from Cons.IH [OF this] False Cons.prems show ?thesis by auto
  qed simp
qed simp

lemma request_tokens:
  assumes "isValidClientId c" "isValidControlOperation operation arguments"
  shows "control_tokens 0 (split_on CHR '' '' (join CHR '' '' (c # operation # arguments))) = Some (c # operation # arguments)"
proof -
  from assms(2) obtain kinds where k: "(operation, kinds) \<in> set kOperations" "length arguments \<le> 4"
    "\<forall>v \<in> set arguments. v \<noteq> [] \<and> CHR '' '' \<notin> set v"
    by (rule operation_shape)
  have c: "c \<noteq> []" "CHR '' '' \<notin> set c"
    using assms(1) isValidClientId_bounds plain_client by auto
  have "operation \<noteq> []" "CHR '' '' \<notin> set operation" using operation_names [OF k(1)] by auto
  with c k show ?thesis
    by (subst split_on_join) (auto simp: control_tokens_eq kMaximumControlArguments_def)
qed

lemma request_accepted:
  assumes "isValidClientId (cr_client_id r)" "isValidControlOperation (cr_operation r) (cr_arguments r)"
    and "line = control_line r" "length line \<le> kMaximumControlRequestBytes"
    and "list_all (\<lambda>c. 0x20 \<le> byte c \<and> byte c \<le> 0x7E) (butlast line)"
  shows "parseControlRequest line = Some r"
proof -
  note a = assms
  from assms(3) have line: "line = control_prefix @ join CHR '' '' (cr_client_id r # cr_operation r # cr_arguments r) @ [newline]"
    by (simp only: control_line_join)
  then have b: "butlast line = control_prefix @ join CHR '' '' (cr_client_id r # cr_operation r # cr_arguments r)"
    "last line = newline" "line \<noteq> []"
    by (simp_all add: butlast_append)
  have len: "length (control_line r) \<le> kMaximumControlRequestBytes" using a by metis
  have n: "newline \<notin> set (butlast line)" using a by (auto simp: list_all_iff)
  have p: "\<not> (\<exists>c \<in> set (butlast line). byte c < 0x20 \<or> byte c > 0x7E)" using a by (auto simp: list_all_iff)
  have d: "drop (length control_prefix) (butlast line) = join CHR '' '' (cr_client_id r # cr_operation r # cr_arguments r)"
    by (simp only: b(1)) simp
  have t: "control_tokens 0 (split_on CHR '' '' (drop (length control_prefix) (butlast line)))
      = Some (cr_client_id r # cr_operation r # cr_arguments r)"
    unfolding d using a by (intro request_tokens) simp_all
  show ?thesis
    unfolding parseControlRequest_def Let_def t using a b n p len by (simp add: not_less)
qed

text \<open>
  C35: the parser accepts a line exactly when it is the line that the forwarding side writes for a
  valid client id and a valid operation, within the size limit and in printable ASCII; so a
  request has one spelling only.
\<close>

theorem parseControlRequest_iff:
  "parseControlRequest line = Some r \<longleftrightarrow>
     isValidClientId (cr_client_id r) \<and> isValidControlOperation (cr_operation r) (cr_arguments r)
     \<and> line = control_line r \<and> length line \<le> kMaximumControlRequestBytes
     \<and> list_all (\<lambda>c. 0x20 \<le> byte c \<and> byte c \<le> 0x7E) (butlast line)"
proof
  assume a: "parseControlRequest line = Some r"
  let ?c = "butlast line"
  from a have l: "line \<noteq> []" "length line \<le> kMaximumControlRequestBytes" "last line = newline"
    "\<forall>c \<in> set ?c. 0x20 \<le> byte c \<and> byte c \<le> 0x7E" "starts_with ?c control_prefix"
    by (auto simp: parseControlRequest_def Let_def not_less split: if_splits)
  from a obtain ts where ts: "control_tokens 0 (split_on CHR '' '' (drop (length control_prefix) ?c)) = Some ts"
    "2 \<le> length ts" "isValidClientId (ts ! 0)"
    "r = \<lparr>cr_client_id = ts ! 0, cr_operation = ts ! 1, cr_arguments = drop 2 ts\<rparr>"
    "isValidControlOperation (cr_operation r) (cr_arguments r)"
    by (auto simp: parseControlRequest_def Let_def not_less split: if_splits option.splits)
  have split: "ts = split_on CHR '' '' (drop (length control_prefix) ?c)"
    using ts(1) by (simp add: control_tokens_eq split: if_splits)
  have "ts = cr_client_id r # cr_operation r # cr_arguments r"
    using ts(2,4) by (cases ts; cases "tl ts") auto
  then have "join CHR '' '' (cr_client_id r # cr_operation r # cr_arguments r) = drop (length control_prefix) ?c"
    by (metis join_split_on split)
  then have "control_line r = ?c @ [newline]"
    by (simp only: control_line_join append_assoc [symmetric] starts_with_drop [OF l(5)])
  with l have "control_line r = line" by (metis append_butlast_last_id)
  with l ts show "isValidClientId (cr_client_id r) \<and> isValidControlOperation (cr_operation r) (cr_arguments r)
     \<and> line = control_line r \<and> length line \<le> kMaximumControlRequestBytes
     \<and> list_all (\<lambda>c. 0x20 \<le> byte c \<and> byte c \<le> 0x7E) (butlast line)"
    by (simp add: list_all_iff)
qed (blast intro: request_accepted)

text \<open>
  The longest requests are those that register a checkout: every valid operation of a valid client
  fits in the size limit, so the forwarding side never refuses one for its size.
\<close>

lemma operation_argument_bound:
  "(name, kinds) \<in> set kOperations \<Longrightarrow> sum_list (map (\<lambda>k. Suc (argument_bound k)) kinds) \<le> 578"
proof -
  have "list_all (\<lambda>(name, kinds). sum_list (map (\<lambda>k. Suc (argument_bound k)) kinds) \<le> 578) kOperations"
    by (simp add: kOperations_def)
  then show "(name, kinds) \<in> set kOperations \<Longrightarrow> sum_list (map (\<lambda>k. Suc (argument_bound k)) kinds) \<le> 578"
    by (auto simp: list_all_iff)
qed

lemma control_line_fits:
  assumes "isValidClientId (cr_client_id r)" "isValidControlOperation (cr_operation r) (cr_arguments r)"
  shows "length (control_line r) \<le> kMaximumControlRequestBytes"
proof -
  from assms(2) obtain kinds where k: "(cr_operation r, kinds) \<in> set kOperations"
    "length (concat (map (\<lambda>a. CHR '' '' # a) (cr_arguments r))) \<le> sum_list (map (\<lambda>k. Suc (argument_bound k)) kinds)"
    by (rule operation_shape)
  have "length (cr_client_id r) \<le> 64" "length (cr_operation r) \<le> 18"
    using isValidClientId_bounds [OF assms(1)] operation_names [OF k(1)] by simp_all
  moreover have "length control_prefix = 16" by (simp add: control_prefix_def)
  moreover have "length (control_line r) = length control_prefix + length (cr_client_id r) + 1
      + length (cr_operation r) + length (concat (map (\<lambda>a. CHR '' '' # a) (cr_arguments r))) + 1"
    by (simp add: control_line_def)
  ultimately show ?thesis
    using k(2) operation_argument_bound [OF k(1)] unfolding kMaximumControlRequestBytes_def by linarith
qed

text \<open>
  A valid request is never refused by the sender for its size; what is sent is accepted by the
  receiver, as the same request, exactly when its arguments are printable ASCII.
\<close>

theorem forward_request_delivered:
  assumes "isValidClientId (cr_client_id r)" "isValidControlOperation (cr_operation r) (cr_arguments r)"
  shows "forward_request r = Inr (control_line r)
    \<and> parseControlRequest (control_line r) =
        (if list_all (\<lambda>c. 0x20 \<le> byte c \<and> byte c \<le> 0x7E) (butlast (control_line r)) then Some r else None)"
proof -
  have "forward_request r = Inr (control_line r)"
    using assms control_line_fits [of r] by (simp add: forward_request_def)
  moreover have "parseControlRequest (control_line r) = None"
    if "\<not> list_all (\<lambda>c. 0x20 \<le> byte c \<and> byte c \<le> 0x7E) (butlast (control_line r))"
    using that by (auto simp: parseControlRequest_def list_all_iff not_le)
  moreover have "parseControlRequest (control_line r) = Some r"
    if "list_all (\<lambda>c. 0x20 \<le> byte c \<and> byte c \<le> 0x7E) (butlast (control_line r))"
    using assms that control_line_fits [of r] request_accepted by blast
  ultimately show ?thesis by presburger
qed

definition sample_request :: ControlRequest where
  "sample_request = \<lparr>cr_client_id = ''workstation'', cr_operation = ''ci-log'',
     cr_arguments = [''demo.app'', ''r-17'', ''3'', ''18446744073709551615'']\<rparr>"

lemma sample_request_valid:
  "isValidClientId (cr_client_id sample_request)"
  "isValidControlOperation (cr_operation sample_request) (cr_arguments sample_request)"
proof -
  show "isValidClientId (cr_client_id sample_request)" by code_simp
  have "isValidProjectName ''demo.app''" "isValidCiId ''r-17''" by code_simp+
  moreover have "isValidArgument AkStepIndex ''3''" "isValidArgument AkByteOffset ''18446744073709551615''"
    by (simp_all add: isCanonicalDecimal_def is_digit_def decimal_eval kMaximumCiSteps_def)
  ultimately show "isValidControlOperation (cr_operation sample_request) (cr_arguments sample_request)"
    by (simp add: isValidControlOperation_def sample_request_def kOperations_def)
qed

theorem forward_request_delivered_witness:
  "forward_request sample_request = Inr (control_line sample_request)
    \<and> parseControlRequest (control_line sample_request) =
        (if list_all (\<lambda>c. 0x20 \<le> byte c \<and> byte c \<le> 0x7E) (butlast (control_line sample_request))
         then Some sample_request else None)"
  using forward_request_delivered [OF sample_request_valid] .

end
