(* ===== verification/Ck_Ssh_Command.thy ===== *)
theory Ck_Ssh_Command
  imports Ck_Control_Rpc
begin

text \<open>
  \<open>src/common/ssh_command.cpp\<close>: the grammar of \<open>SSH_ORIGINAL_COMMAND\<close>, read without a shell. A
  rejection carries the reason, as the code writes it to its out parameter. \<open>tokenize_iff\<close> gives
  the language of the tokenizer in full, \<open>ssh_rpc_delivered\<close> carries an accepted command through
  the control protocol.
\<close>

record Token =
  tok_value :: string
  tok_quoted :: bool

definition kMaximumCommandTokens :: nat where
  "kMaximumCommandTokens = 3 + kMaximumControlArguments"

definition allowedBareTokenCharacter :: "char \<Rightarrow> bool" where
  "allowedBareTokenCharacter c \<longleftrightarrow> is_alnum c \<or> c = CHR ''-'' \<or> c = CHR ''_'' \<or> c = CHR ''.''"

text \<open>One token at the start of the rest of the command, and what follows it.\<close>

definition next_token :: "string \<Rightarrow> string + Token \<times> string" where
  "next_token s =
     (if s \<noteq> [] \<and> hd s = CHR 0x27 then
        (let body = before CHR 0x27 (tl s) in
         if \<exists>c \<in> set body. byte c < 0x20 \<or> byte c = 0x7F then Inl ''quoted token contains a control character''
         else case after CHR 0x27 (tl s) of
             None \<Rightarrow> Inl ''quoted token is malformed''
           | Some rest \<Rightarrow>
               if body = [] then Inl ''quoted token is malformed''
               else if rest \<noteq> [] \<and> hd rest \<noteq> CHR '' '' then Inl ''quoted token must end at a token boundary''
               else Inr (\<lparr>tok_value = body, tok_quoted = True\<rparr>, rest))
      else
        (let word = takeWhile (\<lambda>c. c \<noteq> CHR '' '') s in
         if \<exists>c \<in> set word. \<not> allowedBareTokenCharacter c then Inl ''command contains an unsupported character''
         else if word = [] then Inl ''command contains an empty token''
         else Inr (\<lparr>tok_value = word, tok_quoted = False\<rparr>, dropWhile (\<lambda>c. c \<noteq> CHR '' '') s)))"

text \<open>The blanks before a token: none before the first, at least one before every other.\<close>

definition skip_blanks :: "bool \<Rightarrow> string \<Rightarrow> string + string" where
  "skip_blanks first_token s =
     (if first_token then Inr s
      else if hd s \<noteq> CHR '' '' then Inl ''command uses invalid whitespace or token syntax''
      else let rest = dropWhile (\<lambda>c. c = CHR '' '') s in
        if rest = [] then Inl ''command has trailing whitespace'' else Inr rest)"

lemma next_token_length: "next_token s = Inr (t, r) \<Longrightarrow> length r < length s"
proof (cases "s \<noteq> [] \<and> hd s = CHR 0x27")
  case True
  moreover assume "next_token s = Inr (t, r)"
  ultimately have "after CHR 0x27 (tl s) = Some r"
    by (auto simp: next_token_def Let_def split: if_splits option.splits)
  then have "length r < length (tl s)" by (rule after_length)
  then show ?thesis by simp
next
  case False
  moreover assume "next_token s = Inr (t, r)"
  ultimately have r: "r = dropWhile (\<lambda>c. c \<noteq> CHR '' '') s" "takeWhile (\<lambda>c. c \<noteq> CHR '' '') s \<noteq> []"
    by (auto simp: next_token_def Let_def split: if_splits)
  then have "s = takeWhile (\<lambda>c. c \<noteq> CHR '' '') s @ r" by simp
  with r(2) show ?thesis by (metis length_append length_greater_0_conv less_add_same_cancel2)
qed

lemma skip_blanks_length: "skip_blanks b s = Inr r \<Longrightarrow> length r \<le> length s"
  by (auto simp: skip_blanks_def Let_def length_dropWhile_le split: if_splits)

text \<open>The loop over the command; \<open>n\<close> tokens are read already.\<close>

function (sequential) tokens_from :: "bool \<Rightarrow> nat \<Rightarrow> string \<Rightarrow> string + Token list" where
  "tokens_from first_token n [] = Inr []"
| "tokens_from first_token n (c # s) =
     (case skip_blanks first_token (c # s) of
        Inl e \<Rightarrow> Inl e
      | Inr start \<Rightarrow>
          (case next_token start of
             Inl e \<Rightarrow> Inl e
           | Inr (token, rest) \<Rightarrow>
               if Suc n > kMaximumCommandTokens then Inl ''command has too many arguments''
               else (case tokens_from False (Suc n) rest of
                   Inl e \<Rightarrow> Inl e
                 | Inr tokens \<Rightarrow> Inr (token # tokens))))"
  by pat_completeness auto

termination
proof (relation "measure (\<lambda>(_, _, s). length s)")
  fix b n c s start token rest x
  assume "skip_blanks b (c # s) = Inr start" "next_token start = Inr x" "(token, rest) = x"
    "\<not> kMaximumCommandTokens < Suc n"
  then have "length rest < length (c # s)"
    using next_token_length skip_blanks_length by (metis order_less_le_trans)
  then show "((False, Suc n, rest), b, n, c # s) \<in> measure (\<lambda>(_, _, s). length s)" by simp
qed simp

definition tokenize :: "string \<Rightarrow> string + Token list" where
  "tokenize command =
     (if command = [] \<or> length command > 1024 then Inl ''command is empty or exceeds 1024 bytes''
      else tokens_from True 0 command)"

section \<open>Commands\<close>

datatype SshCommandKind = kUploadPack | kReceivePack | kRpc

record SshCommand =
  sc_kind :: SshCommandKind
  sc_project_name :: string
  sc_rpc_operation :: string
  sc_rpc_arguments :: "string list"

definition projectFromRepositoryArgument :: "Token \<Rightarrow> string + string" where
  "projectFromRepositoryArgument token =
     (if \<not> tok_quoted token \<or> length (tok_value token) \<le> length ''.git''
         \<or> drop (length (tok_value token) - length ''.git'') (tok_value token) \<noteq> ''.git''
      then Inl ''Git service requires one quoted project.git argument''
      else let stem = take (length (tok_value token) - length ''.git'') (tok_value token);
               project = (if starts_with stem ''./-'' then drop 2 stem else stem)
        in if \<not> isValidProjectName project then Inl ''repository argument is not a valid project''
           else Inr project)"

definition parseSshOriginalCommand :: "string \<Rightarrow> string + SshCommand" where
  "parseSshOriginalCommand command =
     (case tokenize command of
        Inl e \<Rightarrow> Inl e
      | Inr tokens \<Rightarrow>
          if length tokens = 2 \<and> (tok_value (tokens ! 0) = ''git-upload-pack'' \<or> tok_value (tokens ! 0) = ''git-receive-pack'')
          then (case projectFromRepositoryArgument (tokens ! 1) of
              Inl e \<Rightarrow> Inl e
            | Inr project \<Rightarrow>
                Inr \<lparr>sc_kind = (if tok_value (tokens ! 0) = ''git-upload-pack'' then kUploadPack else kReceivePack),
                     sc_project_name = project, sc_rpc_operation = [], sc_rpc_arguments = []\<rparr>)
          else if length tokens \<ge> 3 \<and> tok_value (tokens ! 0) = ''ckgit-rpc'' \<and> \<not> tok_quoted (tokens ! 0)
          then (if tok_quoted (tokens ! 1) \<or> tok_value (tokens ! 1) \<noteq> ''1''
                then Inl ''unsupported ckgit-rpc protocol version''
                else if \<exists>t \<in> set (drop 2 tokens). tok_quoted t
                then Inl ''ckgit-rpc operations take only unquoted tokens''
                else let arguments = map tok_value (drop 3 tokens) in
                  if \<not> isValidControlOperation (tok_value (tokens ! 2)) arguments
                  then Inl ''command is not an allowed ckgit-rpc operation''
                  else Inr \<lparr>sc_kind = kRpc, sc_project_name = [], sc_rpc_operation = tok_value (tokens ! 2),
                            sc_rpc_arguments = arguments\<rparr>)
          else Inl ''command is not an allowed Git or ckgit-rpc operation'')"

section \<open>The language of the tokenizer\<close>

text \<open>
  The abstract grammar: a token is a word of safe characters or a quoted text without quotes and
  control characters; a command is a list of tokens with blanks between them.
\<close>

definition well_formed_token :: "Token \<Rightarrow> bool" where
  "well_formed_token t \<longleftrightarrow> tok_value t \<noteq> [] \<and>
     (if tok_quoted t then CHR 0x27 \<notin> set (tok_value t) \<and> list_all (\<lambda>c. \<not> is_control c) (tok_value t)
      else list_all allowedBareTokenCharacter (tok_value t))"

definition render_token :: "Token \<Rightarrow> string" where
  "render_token t = (if tok_quoted t then [CHR 0x27] @ tok_value t @ [CHR 0x27] else tok_value t)"

fun spelling :: "nat list \<Rightarrow> Token list \<Rightarrow> string" where
  "spelling (k # ks) (t # ts) = replicate k CHR '' '' @ render_token t @ spelling ks ts"
| "spelling _ _ = []"

lemma bare_no_blank: "list_all allowedBareTokenCharacter w \<Longrightarrow> CHR '' '' \<notin> set w \<and> CHR 0x27 \<notin> set w"
  by (auto simp: list_all_iff allowedBareTokenCharacter_def char_class)

lemma next_token_iff:
  "next_token s = Inr (t, r) \<longleftrightarrow> well_formed_token t \<and> s = render_token t @ r \<and> (r = [] \<or> hd r = CHR '' '')"
proof
  assume a: "next_token s = Inr (t, r)"
  show "well_formed_token t \<and> s = render_token t @ r \<and> (r = [] \<or> hd r = CHR '' '')"
  proof (cases "s \<noteq> [] \<and> hd s = CHR 0x27")
    case True
    then obtain u where s: "s = CHR 0x27 # u" by (cases s) auto
    with a have "after CHR 0x27 u = Some r" "t = \<lparr>tok_value = before CHR 0x27 u, tok_quoted = True\<rparr>"
      "before CHR 0x27 u \<noteq> []" "\<forall>c \<in> set (before CHR 0x27 u). \<not> is_control c" "r = [] \<or> hd r = CHR '' ''"
      by (auto simp: next_token_def Let_def is_control_def split: if_splits option.splits)
    with s show ?thesis
      by (simp add: well_formed_token_def render_token_def list_all_iff flip: after_Some)
  next
    case False
    let ?w = "takeWhile (\<lambda>c. c \<noteq> CHR '' '') s"
    from a False have "t = \<lparr>tok_value = ?w, tok_quoted = False\<rparr>" "?w \<noteq> []"
      "list_all allowedBareTokenCharacter ?w" "r = dropWhile (\<lambda>c. c \<noteq> CHR '' '') s"
      by (auto simp: next_token_def Let_def list_all_iff split: if_splits)
    moreover have "dropWhile (\<lambda>c. c \<noteq> CHR '' '') s = [] \<or> hd (dropWhile (\<lambda>c. c \<noteq> CHR '' '') s) = CHR '' ''"
      using hd_dropWhile by blast
    ultimately show ?thesis by (simp add: well_formed_token_def render_token_def)
  qed
next
  assume a: "well_formed_token t \<and> s = render_token t @ r \<and> (r = [] \<or> hd r = CHR '' '')"
  show "next_token s = Inr (t, r)"
  proof (cases "tok_quoted t")
    case True
    with a have "s = CHR 0x27 # tok_value t @ CHR 0x27 # r" "CHR 0x27 \<notin> set (tok_value t)" "tok_value t \<noteq> []"
      "\<forall>c \<in> set (tok_value t). \<not> is_control c"
      by (auto simp: render_token_def well_formed_token_def list_all_iff)
    with a True show ?thesis by (auto simp: next_token_def Let_def is_control_def)
  next
    case False
    with a have w: "s = tok_value t @ r" "tok_value t \<noteq> []" "list_all allowedBareTokenCharacter (tok_value t)"
      by (auto simp: render_token_def well_formed_token_def)
    then have "CHR '' '' \<notin> set (tok_value t)" "hd s \<noteq> CHR 0x27"
      using bare_no_blank [of "tok_value t"] hd_in_set [of "tok_value t"] by (simp, metis hd_append2)
    moreover from this have "takeWhile (\<lambda>c. c \<noteq> CHR '' '') s = tok_value t" "dropWhile (\<lambda>c. c \<noteq> CHR '' '') s = r"
      using w(1) a by (auto simp: takeWhile_append dropWhile_append takeWhile_eq_Nil_iff dropWhile_eq_self_iff)
    ultimately show ?thesis
      using w False by (simp add: next_token_def Let_def list_all_iff)
  qed
qed

lemma skip_blanks_iff:
  "s \<noteq> [] \<Longrightarrow> skip_blanks False s = Inr r \<longleftrightarrow> (\<exists>k > 0. s = replicate k CHR '' '' @ r \<and> r \<noteq> [] \<and> hd r \<noteq> CHR '' '')"
proof
  assume s: "s \<noteq> []" and a: "skip_blanks False s = Inr r"
  then have r: "r = dropWhile (\<lambda>c. c = CHR '' '') s" "r \<noteq> []" "hd s = CHR '' ''"
    by (auto simp: skip_blanks_def Let_def split: if_splits)
  let ?k = "length (takeWhile (\<lambda>c. c = CHR '' '') s)"
  have "takeWhile (\<lambda>c. c = CHR '' '') s = replicate ?k CHR '' ''"
    by (rule replicate_length_same [symmetric]) (auto dest: set_takeWhileD)
  then have "s = replicate ?k CHR '' '' @ r" using r(1) by (metis takeWhile_dropWhile_id)
  moreover have "hd r \<noteq> CHR '' ''" using r hd_dropWhile by (metis (mono_tags, lifting))
  moreover have "0 < ?k" using s r(3) by (cases s) auto
  ultimately show "\<exists>k > 0. s = replicate k CHR '' '' @ r \<and> r \<noteq> [] \<and> hd r \<noteq> CHR '' ''" using r(2) by blast
next
  assume "\<exists>k > 0. s = replicate k CHR '' '' @ r \<and> r \<noteq> [] \<and> hd r \<noteq> CHR '' ''"
  then obtain k where k: "0 < k" "s = replicate k CHR '' '' @ r" "r \<noteq> []" "hd r \<noteq> CHR '' ''" by blast
  have "dropWhile (\<lambda>c. c = CHR '' '') s = r"
    using k(2-) by (simp add: dropWhile_append dropWhile_eq_self_iff)
  then show "skip_blanks False s = Inr r"
    using k by (cases k) (simp_all add: skip_blanks_def Let_def)
qed

lemma well_formed_render: "well_formed_token t \<Longrightarrow> render_token t \<noteq> [] \<and> hd (render_token t) \<noteq> CHR '' ''"
proof (cases "tok_quoted t")
  case False
  moreover assume "well_formed_token t"
  ultimately have "tok_value t \<noteq> []" "CHR '' '' \<notin> set (tok_value t)"
    using bare_no_blank [of "tok_value t"] unfolding well_formed_token_def by presburger+
  then have "hd (tok_value t) \<noteq> CHR '' ''" using hd_in_set by metis
  with \<open>tok_value t \<noteq> []\<close> False show ?thesis by (simp add: render_token_def)
qed (simp add: render_token_def)

lemma spelling_boundary:
  "length ks = length ts \<Longrightarrow> list_all ((<) 0) ks \<Longrightarrow> spelling ks ts = [] \<or> hd (spelling ks ts) = CHR '' ''"
proof (cases ks)
  case (Cons k ks')
  moreover assume "length ks = length ts" "list_all ((<) 0) ks"
  ultimately obtain t ts' j where "ts = t # ts'" "k = Suc j" by (cases ts; cases k) auto
  with Cons show ?thesis by simp
qed simp

lemma tokens_from_Cons_iff:
  "tokens_from b n (c # s) = Inr ts \<longleftrightarrow>
     (\<exists>start t rest ts'. skip_blanks b (c # s) = Inr start \<and> next_token start = Inr (t, rest)
        \<and> Suc n \<le> kMaximumCommandTokens \<and> tokens_from False (Suc n) rest = Inr ts' \<and> ts = t # ts')"
  by (auto split: sum.splits)

lemma tokens_from_rest_iff:
  "tokens_from False n s = Inr ts \<longleftrightarrow>
     (\<exists>ks. length ks = length ts \<and> list_all ((<) 0) ks \<and> list_all well_formed_token ts
        \<and> s = spelling ks ts \<and> (ts = [] \<or> n + length ts \<le> kMaximumCommandTokens))"
proof (induction ts arbitrary: n s)
  case Nil
  show ?case by (cases s) (auto simp: tokens_from_Cons_iff simp del: tokens_from.simps(2))
next
  case (Cons t ts)
  show ?case (is "?l \<longleftrightarrow> ?r")
  proof
    assume l: ?l
    then obtain c u where s: "s = c # u" by (cases s) auto
    with l obtain start rest where st: "skip_blanks False s = Inr start" "next_token start = Inr (t, rest)"
      "Suc n \<le> kMaximumCommandTokens" "tokens_from False (Suc n) rest = Inr ts"
      by (auto simp: tokens_from_Cons_iff simp del: tokens_from.simps(2))
    from st(1) s obtain k where k: "0 < k" "s = replicate k CHR '' '' @ start" using skip_blanks_iff by blast
    from st(4) Cons.IH obtain ks where ks: "length ks = length ts" "list_all ((<) 0) ks"
      "list_all well_formed_token ts" "rest = spelling ks ts" "ts = [] \<or> Suc n + length ts \<le> kMaximumCommandTokens"
      by blast
    show ?r using st(2,3) k ks by (intro exI [of _ "k # ks"]) (auto simp: next_token_iff)
  next
    assume ?r
    then obtain k ks where ks: "length ks = length ts" "0 < k" "list_all ((<) 0) ks" "well_formed_token t"
      "list_all well_formed_token ts" "s = replicate k CHR '' '' @ render_token t @ spelling ks ts"
      "n + Suc (length ts) \<le> kMaximumCommandTokens"
      by (auto simp: length_Suc_conv)
    let ?start = "render_token t @ spelling ks ts"
    have r: "?start \<noteq> []" "hd ?start \<noteq> CHR '' ''" using well_formed_render [OF ks(4)] by simp_all
    with ks(2,6) have "s \<noteq> []" "skip_blanks False s = Inr ?start" using skip_blanks_iff [of s ?start] by auto
    moreover have "next_token ?start = Inr (t, spelling ks ts)"
      using ks spelling_boundary by (auto simp: next_token_iff)
    moreover have "tokens_from False (Suc n) (spelling ks ts) = Inr ts" using Cons.IH ks by auto
    ultimately show ?l using ks(7)
      by (cases s) (auto simp: tokens_from_Cons_iff simp del: tokens_from.simps(2))
  qed
qed

lemma tokenize_forms:
  assumes a: "tokenize command = Inr tokens"
  shows "length command \<le> 1024 \<and> 0 < length tokens \<and> length tokens \<le> kMaximumCommandTokens
     \<and> list_all well_formed_token tokens
     \<and> (\<exists>ks. length ks = length tokens \<and> hd ks = 0 \<and> list_all ((<) 0) (tl ks) \<and> command = spelling ks tokens)"
proof -
  from a obtain c u where c: "command = c # u" "length command \<le> 1024" "tokens_from True 0 command = Inr tokens"
    by (cases command) (auto simp: tokenize_def split: if_splits)
  then obtain t rest ts where t: "next_token command = Inr (t, rest)" "1 \<le> kMaximumCommandTokens"
    "tokens_from False 1 rest = Inr ts" "tokens = t # ts"
    by (auto simp: tokens_from_Cons_iff skip_blanks_def simp del: tokens_from.simps(2))
  from t(3) obtain ks where ks: "length ks = length ts" "list_all ((<) 0) ks" "list_all well_formed_token ts"
    "rest = spelling ks ts" "ts = [] \<or> Suc (length ts) \<le> kMaximumCommandTokens"
    unfolding tokens_from_rest_iff by auto
  with t c(2) show ?thesis
    by (auto simp: next_token_iff intro!: exI [of _ "0 # ks"])
qed

lemma tokenize_spelling:
  assumes a: "length command \<le> 1024 \<and> 0 < length tokens \<and> length tokens \<le> kMaximumCommandTokens
     \<and> list_all well_formed_token tokens
     \<and> (\<exists>ks. length ks = length tokens \<and> hd ks = 0 \<and> list_all ((<) 0) (tl ks) \<and> command = spelling ks tokens)"
  shows "tokenize command = Inr tokens"
proof -
  from a obtain t ts ks where t: "tokens = t # ts" "length ks = length ts" "list_all ((<) 0) ks"
    "command = render_token t @ spelling ks ts"
    by (cases tokens) (auto simp: length_Suc_conv)
  then have n: "next_token command = Inr (t, spelling ks ts)" "command \<noteq> []"
    using a spelling_boundary well_formed_render [of t] by (auto simp: next_token_iff)
  have "tokens_from False 1 (spelling ks ts) = Inr ts"
    using a t unfolding tokens_from_rest_iff by auto
  with n a t(1) have "tokens_from True 0 command = Inr tokens"
    by (cases command) (auto simp: tokens_from_Cons_iff skip_blanks_def simp del: tokens_from.simps(2))
  with n(2) a show ?thesis by (simp add: tokenize_def)
qed

text \<open>
  C34: the tokenizer accepts exactly the commands of at most 1024 bytes that spell one to seven
  well-formed tokens with blanks between them and none around them, and returns those tokens. So no
  shell metacharacter is ever accepted outside of quotes, and a quoted text is taken literally.
\<close>

theorem tokenize_iff:
  "tokenize command = Inr tokens \<longleftrightarrow>
     length command \<le> 1024 \<and> 0 < length tokens \<and> length tokens \<le> kMaximumCommandTokens
     \<and> list_all well_formed_token tokens
     \<and> (\<exists>ks. length ks = length tokens \<and> hd ks = 0 \<and> list_all ((<) 0) (tl ks) \<and> command = spelling ks tokens)"
  by (rule iffI) (erule tokenize_forms, erule tokenize_spelling)

section \<open>From the command to the control socket\<close>

lemma plain_char_printable: "plain_char c \<Longrightarrow> 0x20 \<le> byte c \<and> byte c \<le> 0x7E"
  by (auto simp: plain_char_def char_class char_le_byte)

lemma bare_plain: "list_all allowedBareTokenCharacter v \<Longrightarrow> plain v"
  by (auto simp: list_all_iff allowedBareTokenCharacter_def plain_def plain_char_def)

lemma plain_printable: "plain v \<Longrightarrow> list_all (\<lambda>c. 0x20 \<le> byte c \<and> byte c \<le> 0x7E) v"
  using plain_char_printable by (auto simp: plain_def list_all_iff)

lemma control_line_printable:
  assumes "plain (cr_client_id r)" "plain (cr_operation r)" "list_all plain (cr_arguments r)"
  shows "list_all (\<lambda>c. 0x20 \<le> byte c \<and> byte c \<le> 0x7E) (butlast (control_line r))"
proof -
  have "list_all (\<lambda>c. 0x20 \<le> byte c \<and> byte c \<le> 0x7E) (concat (map (\<lambda>a. CHR '' '' # a) as))"
    if "list_all plain as" for as
    using that by (induction as) (simp_all add: plain_printable)
  moreover have "list_all (\<lambda>c. 0x20 \<le> byte c \<and> byte c \<le> 0x7E) control_prefix"
    by (simp add: control_prefix_def)
  ultimately show ?thesis using assms plain_printable
    by (simp add: control_line_def butlast_append)
qed

text \<open>What an accepted command of the control service holds.\<close>

lemma ssh_rpc_shape:
  assumes "parseSshOriginalCommand command = Inr c" "sc_kind c = kRpc"
  shows "isValidControlOperation (sc_rpc_operation c) (sc_rpc_arguments c)"
    "plain (sc_rpc_operation c)" "list_all plain (sc_rpc_arguments c)"
proof -
  from assms obtain ts where ts: "tokenize command = Inr ts" "3 \<le> length ts"
    "\<forall>t \<in> set (drop 2 ts). \<not> tok_quoted t" "sc_rpc_operation c = tok_value (ts ! 2)"
    "sc_rpc_arguments c = map tok_value (drop 3 ts)"
    "isValidControlOperation (sc_rpc_operation c) (sc_rpc_arguments c)"
    by (auto simp: parseSshOriginalCommand_def Let_def split: sum.splits if_splits)
  show "isValidControlOperation (sc_rpc_operation c) (sc_rpc_arguments c)" by (rule ts(6))
  have "list_all well_formed_token ts" using tokenize_forms [OF ts(1)] by blast
  then have wf: "well_formed_token t" if "t \<in> set (drop 2 ts)" for t
    using that in_set_dropD unfolding list_all_iff by fast
  have p: "plain (tok_value t)" if "t \<in> set (drop 2 ts)" for t
    using wf [OF that] ts(3) that bare_plain unfolding well_formed_token_def by simp
  have "ts ! 2 \<in> set (drop 2 ts)" using ts(2) by (metis Cons_nth_drop_Suc Suc_le_lessD list.set_intros(1) numeral_2_eq_2 numeral_3_eq_3)
  then show "plain (sc_rpc_operation c)" using p ts(4) by simp
  have "set (drop 3 ts) \<subseteq> set (drop 2 ts)" by (rule set_drop_subset_set_drop) simp
  then show "list_all plain (sc_rpc_arguments c)" using p ts(5) by (auto simp: list_all_iff)
qed

text \<open>
  C33: a control command that the SSH front end accepts is delivered: forwarded for any valid
  client it is never refused by the sender, and the control server reads back the same client,
  operation and arguments.
\<close>

theorem ssh_rpc_delivered:
  assumes "parseSshOriginalCommand command = Inr c" "sc_kind c = kRpc" "isValidClientId client"
  shows "\<exists>line. forward_request \<lparr>cr_client_id = client, cr_operation = sc_rpc_operation c,
        cr_arguments = sc_rpc_arguments c\<rparr> = Inr line
      \<and> parseControlRequest line = Some \<lparr>cr_client_id = client, cr_operation = sc_rpc_operation c,
        cr_arguments = sc_rpc_arguments c\<rparr>"
proof -
  let ?r = "\<lparr>cr_client_id = client, cr_operation = sc_rpc_operation c, cr_arguments = sc_rpc_arguments c\<rparr>"
  note shape = ssh_rpc_shape [OF assms(1,2)]
  then have v: "isValidClientId (cr_client_id ?r)" "isValidControlOperation (cr_operation ?r) (cr_arguments ?r)"
    using assms(3) by simp_all
  note fits = control_line_fits [OF v]
  have "list_all (\<lambda>c. 0x20 \<le> byte c \<and> byte c \<le> 0x7E) (butlast (control_line ?r))"
    using shape assms(3) plain_client by (intro control_line_printable) simp_all
  then have "parseControlRequest (control_line ?r) = Some ?r" by (intro request_accepted v refl fits)
  moreover have "forward_request ?r = Inr (control_line ?r)" using v fits by (simp add: forward_request_def)
  ultimately show ?thesis by blast
qed

theorem ssh_rpc_delivered_witness:
  "\<exists>line. forward_request \<lparr>cr_client_id = ''laptop'', cr_operation = ''ci-status'', cr_arguments = [''demo'']\<rparr> = Inr line
      \<and> parseControlRequest line = Some \<lparr>cr_client_id = ''laptop'', cr_operation = ''ci-status'', cr_arguments = [''demo'']\<rparr>"
proof -
  let ?c = "\<lparr>sc_kind = kRpc, sc_project_name = [], sc_rpc_operation = ''ci-status'', sc_rpc_arguments = [''demo'']\<rparr>"
  have "parseSshOriginalCommand ''ckgit-rpc 1 ci-status demo'' = Inr ?c" by code_simp
  moreover have "isValidClientId ''laptop''" by code_simp
  ultimately show ?thesis using ssh_rpc_delivered [of "''ckgit-rpc 1 ci-status demo''" ?c "''laptop''"] by simp
qed

text \<open>Every operation whose arguments are bare words can be asked for over SSH.\<close>

lemma spelling_join:
  "ws \<noteq> [] \<Longrightarrow> spelling (0 # replicate (length ws - 1) 1) (map (\<lambda>w. \<lparr>tok_value = w, tok_quoted = False\<rparr>) ws)
     = join CHR '' '' ws"
proof (induction "CHR '' ''" ws rule: join.induct)
  case (3 x y ys)
  have "spelling (replicate (Suc (length zs)) 1) (map (\<lambda>w. \<lparr>tok_value = w, tok_quoted = False\<rparr>) (z # zs))
     = CHR '' '' # spelling (0 # replicate (length zs) 1) (map (\<lambda>w. \<lparr>tok_value = w, tok_quoted = False\<rparr>) (z # zs))" for z zs
    by simp
  with 3 show ?case by (simp add: render_token_def)
qed (simp_all add: render_token_def)

lemma tokenize_words:
  assumes "ws \<noteq> []" "length ws \<le> kMaximumCommandTokens" "\<forall>w \<in> set ws. w \<noteq> [] \<and> list_all allowedBareTokenCharacter w"
    and "length (join CHR '' '' ws) \<le> 1024"
  shows "tokenize (join CHR '' '' ws) = Inr (map (\<lambda>w. \<lparr>tok_value = w, tok_quoted = False\<rparr>) ws)"
proof -
  let ?ks = "0 # replicate (length ws - 1) 1"
  have "join CHR '' '' ws = spelling ?ks (map (\<lambda>w. \<lparr>tok_value = w, tok_quoted = False\<rparr>) ws)"
    using spelling_join [OF assms(1)] by simp
  moreover have "length ?ks = length ws" using assms(1) by simp
  ultimately show ?thesis
    using assms by (intro tokenize_spelling) (auto simp: list_all_iff well_formed_token_def intro!: exI [of _ ?ks])
qed

lemma plain_bare: "plain v \<Longrightarrow> list_all allowedBareTokenCharacter v"
  by (auto simp: list_all_iff allowedBareTokenCharacter_def plain_def plain_char_def)

lemma rpc_command_fits:
  assumes "isValidControlOperation operation arguments"
  shows "length (join CHR '' '' (''ckgit-rpc'' # ''1'' # operation # arguments)) \<le> 1024"
proof -
  from assms obtain kinds where k: "(operation, kinds) \<in> set kOperations"
    "length (concat (map (\<lambda>a. CHR '' '' # a) arguments)) \<le> sum_list (map (\<lambda>k. Suc (argument_bound k)) kinds)"
    by (rule operation_shape)
  have "length (join CHR '' '' (''ckgit-rpc'' # ''1'' # operation # arguments))
      = 12 + length operation + length (concat (map (\<lambda>a. CHR '' '' # a) arguments))"
    by (simp only: join_concat) simp
  then show ?thesis using k(2) operation_argument_bound [OF k(1)] operation_names [OF k(1)] by linarith
qed

text \<open>
  Every valid operation whose arguments are bare words is accepted over SSH as itself, whatever
  its arguments: its command is never too long and has never too many tokens.
\<close>

theorem ssh_rpc_complete:
  assumes "isValidControlOperation operation arguments" "list_all plain arguments"
  shows "parseSshOriginalCommand (join CHR '' '' (''ckgit-rpc'' # ''1'' # operation # arguments))
    = Inr \<lparr>sc_kind = kRpc, sc_project_name = [], sc_rpc_operation = operation, sc_rpc_arguments = arguments\<rparr>"
proof -
  let ?ws = "''ckgit-rpc'' # ''1'' # operation # arguments"
  from assms(1) obtain kinds where k: "(operation, kinds) \<in> set kOperations" "length arguments \<le> 4"
    "\<forall>v \<in> set arguments. v \<noteq> [] \<and> CHR '' '' \<notin> set v" by (rule operation_shape)
  have p: "plain ''ckgit-rpc''" "plain ''1''" by (simp_all add: plain_def plain_char_def char_class)
  have operation: "plain operation" "operation \<noteq> []" using operation_names [OF k(1)] by simp_all
  have words: "\<forall>w \<in> set ?ws. w \<noteq> [] \<and> list_all allowedBareTokenCharacter w"
  proof
    fix w
    assume "w \<in> set ?ws"
    then consider "w = ''ckgit-rpc''" | "w = ''1''" | "w = operation" | "w \<in> set arguments" by auto
    then have "w \<noteq> [] \<and> plain w"
    proof cases
      case 4
      with assms(2) k(3) show ?thesis unfolding list_all_iff by blast
    qed (use p operation in simp_all)
    then show "w \<noteq> [] \<and> list_all allowedBareTokenCharacter w" using plain_bare by blast
  qed
  have "tokenize (join CHR '' '' ?ws) = Inr (map (\<lambda>w. \<lparr>tok_value = w, tok_quoted = False\<rparr>) ?ws)"
    using k(2) words rpc_command_fits [OF assms(1)]
    by (intro tokenize_words) (simp_all add: kMaximumCommandTokens_def kMaximumControlArguments_def)
  then show ?thesis
    unfolding parseSshOriginalCommand_def using assms(1)
    by (simp add: comp_def numeral_2_eq_2 numeral_3_eq_3)
qed

theorem ssh_rpc_complete_witness:
  "parseSshOriginalCommand (join CHR '' '' [''ckgit-rpc'', ''1'', ''create'', ''demo'', ''main''])
    = Inr \<lparr>sc_kind = kRpc, sc_project_name = [], sc_rpc_operation = ''create'', sc_rpc_arguments = [''demo'', ''main'']\<rparr>"
  by (rule ssh_rpc_complete) code_simp+

lemma project_argument_valid: "projectFromRepositoryArgument t = Inr p \<Longrightarrow> isValidProjectName p"
  by (auto simp: projectFromRepositoryArgument_def Let_def split: if_splits)

lemma git_command_safe:
  "case parseSshOriginalCommand command of
      Inl _ \<Rightarrow> True
    | Inr c \<Rightarrow> sc_kind c = kRpc \<or> (isValidProjectName (sc_project_name c) \<and> path_component (sc_project_name c)
         \<and> sc_rpc_operation c = [] \<and> sc_rpc_arguments c = [])"
  using project_argument_valid project_path_component
  by (auto simp: parseSshOriginalCommand_def Let_def split: sum.splits)

lemma git_command_tokens:
  assumes "isValidProjectName project" "list_all allowedBareTokenCharacter service" "service \<noteq> []" "length service \<le> 20"
  shows "tokenize (service @ [CHR '' '', CHR 0x27] @ project @ ''.git'' @ [CHR 0x27])
    = Inr [\<lparr>tok_value = service, tok_quoted = False\<rparr>, \<lparr>tok_value = project @ ''.git'', tok_quoted = True\<rparr>]"
proof (rule tokenize_spelling)
  have p: "plain project" "length project \<le> 64" using assms(1) plain_project isValidProjectName_bounds by blast+
  have "list_all (\<lambda>c. \<not> is_control c) project"
    using p(1) plain_char_bytes unfolding plain_def list_all_iff is_control_def by fastforce
  then have q: "well_formed_token \<lparr>tok_value = project @ ''.git'', tok_quoted = True\<rparr>"
    using p(1) by (simp add: well_formed_token_def is_control_def)
  show "length (service @ [CHR '' '', CHR 0x27] @ project @ ''.git'' @ [CHR 0x27]) \<le> 1024
    \<and> 0 < length [\<lparr>tok_value = service, tok_quoted = False\<rparr>, \<lparr>tok_value = project @ ''.git'', tok_quoted = True\<rparr>]
    \<and> length [\<lparr>tok_value = service, tok_quoted = False\<rparr>, \<lparr>tok_value = project @ ''.git'', tok_quoted = True\<rparr>] \<le> kMaximumCommandTokens
    \<and> list_all well_formed_token [\<lparr>tok_value = service, tok_quoted = False\<rparr>, \<lparr>tok_value = project @ ''.git'', tok_quoted = True\<rparr>]
    \<and> (\<exists>ks. length ks = length [\<lparr>tok_value = service, tok_quoted = False\<rparr>, \<lparr>tok_value = project @ ''.git'', tok_quoted = True\<rparr>]
        \<and> hd ks = 0 \<and> list_all ((<) 0) (tl ks)
        \<and> service @ [CHR '' '', CHR 0x27] @ project @ ''.git'' @ [CHR 0x27]
          = spelling ks [\<lparr>tok_value = service, tok_quoted = False\<rparr>, \<lparr>tok_value = project @ ''.git'', tok_quoted = True\<rparr>])"
    using assms(2-) p(2) q
    by (auto simp: well_formed_token_def kMaximumCommandTokens_def render_token_def intro!: exI [of _ "[0, 1]"])
qed

lemma git_command_accepted:
  assumes "isValidProjectName project"
  shows "parseSshOriginalCommand (''git-upload-pack '' @ [CHR 0x27] @ project @ ''.git'' @ [CHR 0x27])
           = Inr \<lparr>sc_kind = kUploadPack, sc_project_name = project, sc_rpc_operation = [], sc_rpc_arguments = []\<rparr>"
    and "parseSshOriginalCommand (''git-receive-pack '' @ [CHR 0x27] @ project @ ''.git'' @ [CHR 0x27])
           = Inr \<lparr>sc_kind = kReceivePack, sc_project_name = project, sc_rpc_operation = [], sc_rpc_arguments = []\<rparr>"
proof -
  have "\<not> starts_with project ''./-''"
    using isValidProjectName_bounds [OF assms] by (auto simp: starts_with_iff)
  then have a: "projectFromRepositoryArgument \<lparr>tok_value = project @ ''.git'', tok_quoted = True\<rparr> = Inr project"
    using assms isValidProjectName_bounds [OF assms] by (simp add: projectFromRepositoryArgument_def Let_def)
  have s: "list_all allowedBareTokenCharacter ''git-upload-pack''" "list_all allowedBareTokenCharacter ''git-receive-pack''"
    by (simp_all add: allowedBareTokenCharacter_def char_class)
  from git_command_tokens [OF assms s(1)] a
  show "parseSshOriginalCommand (''git-upload-pack '' @ [CHR 0x27] @ project @ ''.git'' @ [CHR 0x27])
           = Inr \<lparr>sc_kind = kUploadPack, sc_project_name = project, sc_rpc_operation = [], sc_rpc_arguments = []\<rparr>"
    by (simp add: parseSshOriginalCommand_def)
  from git_command_tokens [OF assms s(2)] a
  show "parseSshOriginalCommand (''git-receive-pack '' @ [CHR 0x27] @ project @ ''.git'' @ [CHR 0x27])
           = Inr \<lparr>sc_kind = kReceivePack, sc_project_name = project, sc_rpc_operation = [], sc_rpc_arguments = []\<rparr>"
    by (simp add: parseSshOriginalCommand_def)
qed


end
