(* ===== verification/Ck_Authorized_Keys.thy ===== *)
theory Ck_Authorized_Keys
  imports Ck_Validation
begin

text \<open>
  \<open>src/common/authorized_keys.cpp\<close>: the \<open>authorized_keys\<close> line that ties a device key to the
  restricted dispatcher. Paths are their text (\<open>path.string()\<close>). \<open>authorized_key_line_confined\<close>
  shows that the forced command cannot be left: it holds no quote or escape, and a shell that splits
  it at blanks gets exactly the intended arguments.
\<close>

definition kMaximumKeyBytes :: nat where "kMaximumKeyBytes = 8 * 1024"
definition kMaximumPathBytes :: nat where "kMaximumPathBytes = 256"

definition kSupportedKeyTypes :: "string list" where
  "kSupportedKeyTypes =
    [''ssh-ed25519'',
     ''sk-ssh-ed25519@openssh.com'',
     ''ecdsa-sha2-nistp256'',
     ''ecdsa-sha2-nistp384'',
     ''ecdsa-sha2-nistp521'',
     ''sk-ecdsa-sha2-nistp256@openssh.com'',
     ''ssh-rsa'']"

definition base64_char :: "char \<Rightarrow> bool" where
  "base64_char c \<longleftrightarrow> is_upper c \<or> is_lower c \<or> is_digit c \<or> c = CHR ''+'' \<or> c = CHR ''/''"

definition isBase64Body :: "string \<Rightarrow> bool" where
  "isBase64Body value =
     (if length value < 16 \<or> length value mod 4 \<noteq> 0 then False
      else let body = strip_right (\<lambda>c. c = CHR ''='') value in
        if length value - length body > 2 then False else (\<forall>c \<in> set body. base64_char c))"

definition embeddable_char :: "char \<Rightarrow> bool" where
  "embeddable_char c \<longleftrightarrow> is_upper c \<or> is_lower c \<or> is_digit c \<or> c = CHR ''/'' \<or> c = CHR ''.''
     \<or> c = CHR ''_'' \<or> c = CHR ''-''"

definition embeddablePath :: "string \<Rightarrow> string \<Rightarrow> string result" where
  "embeddablePath value description =
     (if value = [] \<or> length value > kMaximumPathBytes \<or> hd value \<noteq> CHR ''/''
         \<or> (\<exists>c \<in> set value. \<not> embeddable_char c) \<or> contains ''/../'' value \<or> contains ''/./'' value
      then Inl (Invalid_Argument (description @ '' must be an absolute path using only letters, digits, '' @
             [CHR 0x27, CHR ''/'', CHR 0x27] @ '', '' @ [CHR 0x27, CHR ''.'', CHR 0x27] @ '', '' @
             [CHR 0x27, CHR ''_'', CHR 0x27] @ '', and '' @ [CHR 0x27, CHR ''-'', CHR 0x27]))
      else Inr value)"

record ForcedCommandLayout =
  fl_shell :: string
  fl_repo_root :: string
  fl_control_socket :: string
  fl_state_root :: string
  fl_runner_config :: string

text \<open>The key type and the key data of the public key line, after its checks.\<close>

definition public_key_parts :: "string \<Rightarrow> (string \<times> string) result" where
  "public_key_parts public_key =
     (if public_key = [] \<or> length public_key > kMaximumKeyBytes
      then Inl (Invalid_Argument ''public key file is empty or exceeds its limit'')
      else let line = strip_right (\<lambda>c. c = newline \<or> c = carriage_return) public_key in
        if line = [] \<or> newline \<in> set line \<or> (\<exists>c \<in> set line. byte c < 0x20 \<or> byte c > 0x7E)
        then Inl (Invalid_Argument ''public key file must contain exactly one printable ASCII line'')
        else case after CHR '' '' line of
            None \<Rightarrow> Inl (Invalid_Argument ''public key line must contain a key type and key data'')
          | Some remainder \<Rightarrow>
              if before CHR '' '' line \<notin> set kSupportedKeyTypes
              then Inl (Invalid_Argument ''public key type is unsupported; the line must begin with a plain key type, not options'')
              else if \<not> isBase64Body (before CHR '' '' remainder)
              then Inl (Invalid_Argument ''public key data is not valid base64'')
              else Inr (before CHR '' '' line, before CHR '' '' remainder))"

definition forced_command :: "string \<Rightarrow> ForcedCommandLayout \<Rightarrow> string result" where
  "forced_command client_id layout =
     bindE (embeddablePath (fl_shell layout) ''dispatcher path'') (\<lambda>shell.
     bindE (embeddablePath (fl_repo_root layout) ''repository root'') (\<lambda>repo_root.
     bindE (embeddablePath (fl_control_socket layout) ''control socket'') (\<lambda>control_socket.
     bindE (embeddablePath (fl_state_root layout) ''state root'') (\<lambda>state_root.
     bindE (if fl_runner_config layout = [] then Inr []
            else bindE (embeddablePath (fl_runner_config layout) ''runner config'') (\<lambda>runner_config.
              Inr ('' --runner-config '' @ runner_config))) (\<lambda>runner.
     Inr (shell @ '' --client-id '' @ client_id @ '' --repo-root '' @ repo_root @ '' --control-socket '' @
       control_socket @ '' --state-root '' @ state_root @ runner))))))"

definition renderAuthorizedKeyLine :: "string \<Rightarrow> string \<Rightarrow> ForcedCommandLayout \<Rightarrow> string result" where
  "renderAuthorizedKeyLine client_id public_key layout =
     (if \<not> isValidClientId client_id
      then Inl (Invalid_Argument (''client ID must use only letters, digits, '' @ [CHR 0x27, CHR ''-'', CHR 0x27] @
             '', and '' @ [CHR 0x27, CHR ''_'', CHR 0x27]))
      else bindE (public_key_parts public_key) (\<lambda>(key_type, key_data).
           bindE (forced_command client_id layout) (\<lambda>command.
           Inr (''restrict,command='' @ [CHR 0x22] @ command @ [CHR 0x22] @ '' '' @ key_type @ '' '' @ key_data @ '' '' @
             client_id @ [newline]))))"

section \<open>The forced command\<close>

text \<open>The arguments that the dispatcher is to be run with.\<close>

definition forced_words :: "string \<Rightarrow> ForcedCommandLayout \<Rightarrow> string list" where
  "forced_words client_id layout =
     [fl_shell layout, ''--client-id'', client_id, ''--repo-root'', fl_repo_root layout, ''--control-socket'',
      fl_control_socket layout, ''--state-root'', fl_state_root layout]
     @ (if fl_runner_config layout = [] then [] else [''--runner-config'', fl_runner_config layout])"

lemma embeddablePath_Inr:
  "embeddablePath v d = Inr w \<longleftrightarrow> w = v \<and> v \<noteq> [] \<and> length v \<le> kMaximumPathBytes \<and> hd v = CHR ''/''
     \<and> (\<forall>c \<in> set v. embeddable_char c) \<and> \<not> contains ''/../'' v \<and> \<not> contains ''/./'' v"
  unfolding embeddablePath_def by (simp split: if_splits) (metis not_less)

definition shell_safe :: "char \<Rightarrow> bool" where
  "shell_safe c \<longleftrightarrow> is_alnum c \<or> c \<in> set ''/._-''"

lemma shell_safe_bytes:
  "shell_safe c \<Longrightarrow> c \<noteq> CHR '' '' \<and> c \<noteq> newline \<and> c \<noteq> CHR 0x22 \<and> c \<noteq> CHR 0x5C \<and> c \<noteq> CHR 0x27
     \<and> c \<noteq> CHR ''$'' \<and> c \<noteq> CHR ''`'' \<and> c \<noteq> CHR '';''"
  by (auto simp: shell_safe_def char_class)

lemma embeddable_safe: "embeddable_char c \<Longrightarrow> shell_safe c"
  by (auto simp: embeddable_char_def shell_safe_def is_alnum_def)

lemma plain_safe: "plain s \<Longrightarrow> c \<in> set s \<Longrightarrow> shell_safe c"
  by (auto simp: plain_def plain_char_def shell_safe_def)

lemma forced_command_words:
  assumes "forced_command client_id layout = Inr command" "isValidClientId client_id"
  shows "command = join CHR '' '' (forced_words client_id layout)"
    and "w \<in> set (forced_words client_id layout) \<Longrightarrow> c \<in> set w \<Longrightarrow> shell_safe c"
proof -
  from assms(1) have e: "(\<forall>c \<in> set (fl_shell layout). embeddable_char c)"
    "(\<forall>c \<in> set (fl_repo_root layout). embeddable_char c)"
    "(\<forall>c \<in> set (fl_control_socket layout). embeddable_char c)"
    "(\<forall>c \<in> set (fl_state_root layout). embeddable_char c)"
    "(\<forall>c \<in> set (fl_runner_config layout). embeddable_char c)"
    and c: "command = join CHR '' '' (forced_words client_id layout)"
    by (auto simp: forced_command_def forced_words_def result_simps embeddablePath_Inr split: if_splits)
  show "command = join CHR '' '' (forced_words client_id layout)" by (rule c)
  have options: "\<forall>w \<in> set [''--client-id'', ''--repo-root'', ''--control-socket'', ''--state-root'', ''--runner-config''].
      \<forall>c \<in> set w. shell_safe c"
    by (simp add: shell_safe_def char_class)
  have client: "\<forall>c \<in> set client_id. shell_safe c"
    using plain_safe plain_client [OF assms(2)] by blast
  have subset: "set (forced_words client_id layout) \<subseteq> {fl_shell layout, fl_repo_root layout, fl_control_socket layout,
      fl_state_root layout, fl_runner_config layout} \<union> {client_id}
      \<union> set [''--client-id'', ''--repo-root'', ''--control-socket'', ''--state-root'', ''--runner-config'']"
    unfolding forced_words_def by (cases "fl_runner_config layout = []") simp_all
  assume "w \<in> set (forced_words client_id layout)"
  then have "w \<in> {fl_shell layout, fl_repo_root layout, fl_control_socket layout, fl_state_root layout,
      fl_runner_config layout} \<or> w = client_id
      \<or> w \<in> set [''--client-id'', ''--repo-root'', ''--control-socket'', ''--state-root'', ''--runner-config'']"
    using subset by blast
  moreover assume "c \<in> set w"
  ultimately show "shell_safe c" using e options client embeddable_safe by blast
qed

lemma key_parts:
  assumes "public_key_parts k = Inr (t, d)"
  shows "t \<in> set kSupportedKeyTypes" "isBase64Body d"
  using assms by (auto simp: public_key_parts_def Let_def split: if_splits option.splits)

lemma base64_no:
  assumes "isBase64Body d"
  shows "CHR '' '' \<notin> set d" "newline \<notin> set d"
proof -
  from assms have b: "\<forall>c \<in> set (strip_right (\<lambda>c. c = CHR ''='') d). base64_char c"
    by (auto simp: isBase64Body_def Let_def split: if_splits)
  obtain t where "d = strip_right (\<lambda>c. c = CHR ''='') d @ t" "\<forall>c \<in> set t. c = CHR ''=''"
    using strip_right_decomp by blast
  then have "\<forall>c \<in> set d. base64_char c \<or> c = CHR ''=''"
    using b by (metis Un_iff set_append)
  moreover have "\<not> base64_char CHR '' ''" "\<not> base64_char newline" by (simp_all add: base64_char_def char_class)
  ultimately show "CHR '' '' \<notin> set d" "newline \<notin> set d" by fastforce+
qed

lemma key_type_no: "t \<in> set kSupportedKeyTypes \<Longrightarrow> newline \<notin> set t \<and> CHR '' '' \<notin> set t"
proof -
  have "list_all (\<lambda>t. newline \<notin> set t \<and> CHR '' '' \<notin> set t) kSupportedKeyTypes"
    by (simp add: kSupportedKeyTypes_def)
  then show "t \<in> set kSupportedKeyTypes \<Longrightarrow> newline \<notin> set t \<and> CHR '' '' \<notin> set t"
    by (auto simp: list_all_iff)
qed

text \<open>
  C38: a rendered line is one line; its forced command is quoted and holds neither a quote nor any
  other character a shell treats specially, and it splits at blanks into exactly the dispatcher, the
  client and the configured paths; the key that follows has a supported type and a base64 body.
\<close>

theorem authorized_key_line_confined:
  assumes "renderAuthorizedKeyLine client_id public_key layout = Inr line"
  shows "\<exists>command key_type key_data.
      line = ''restrict,command='' @ [CHR 0x22] @ command @ [CHR 0x22] @ '' '' @ key_type @ '' '' @ key_data @ '' ''
        @ client_id @ [newline]
    \<and> isValidClientId client_id
    \<and> list_all (\<lambda>c. shell_safe c \<or> c = CHR '' '') command
    \<and> split_on CHR '' '' command = forced_words client_id layout
    \<and> key_type \<in> set kSupportedKeyTypes \<and> isBase64Body key_data
    \<and> newline \<notin> set (butlast line)"
proof -
  from assms obtain command t d where c: "isValidClientId client_id" "public_key_parts public_key = Inr (t, d)"
    "forced_command client_id layout = Inr command"
    "line = ''restrict,command='' @ [CHR 0x22] @ command @ [CHR 0x22] @ '' '' @ t @ '' '' @ d @ '' '' @ client_id @ [newline]"
    by (auto simp: renderAuthorizedKeyLine_def result_simps split: if_splits)
  note w = forced_command_words [OF c(3,1)]
  have no: "\<forall>w \<in> set (forced_words client_id layout). CHR '' '' \<notin> set w" using w(2) shell_safe_bytes by blast
  have s: "split_on CHR '' '' command = forced_words client_id layout"
    unfolding w(1) by (rule split_on_join [OF _ no]) (simp add: forced_words_def)
  have safe: "list_all (\<lambda>c. shell_safe c \<or> c = CHR '' '') command"
    unfolding w(1) list_all_iff using set_join [of "CHR '' ''" "forced_words client_id layout"] w(2) by blast
  then have "newline \<notin> set command" using shell_safe_bytes unfolding list_all_iff by fastforce
  moreover have "newline \<notin> set client_id" using plain_client [OF c(1)] by simp
  ultimately have "newline \<notin> set (butlast line)"
    using key_type_no base64_no key_parts [OF c(2)] unfolding c(4) by (simp add: butlast_append)
  with c s safe key_parts [OF c(2)] show ?thesis by blast
qed

definition sample_layout :: ForcedCommandLayout where
  "sample_layout = \<lparr>fl_shell = ''/usr/bin/ckgit-shell'', fl_repo_root = ''/srv/git'', fl_control_socket = ''/run/ckgit.sock'',
     fl_state_root = ''/var/lib/ckgit'', fl_runner_config = []\<rparr>"

definition sample_key_line :: string where
  "sample_key_line = ''restrict,command='' @ [CHR 0x22] @ ''/usr/bin/ckgit-shell --client-id laptop --repo-root /srv/git --control-socket /run/ckgit.sock --state-root /var/lib/ckgit''
     @ [CHR 0x22] @ '' ssh-ed25519 AAAAC3NzaC1lZDI1 laptop'' @ [newline]"

theorem authorized_key_line_confined_witness:
  "\<exists>command key_type key_data.
      sample_key_line = ''restrict,command='' @ [CHR 0x22] @ command @ [CHR 0x22] @ '' '' @ key_type @ '' '' @ key_data @ '' ''
        @ ''laptop'' @ [newline]
    \<and> isValidClientId ''laptop''
    \<and> list_all (\<lambda>c. shell_safe c \<or> c = CHR '' '') command
    \<and> split_on CHR '' '' command = forced_words ''laptop'' sample_layout
    \<and> key_type \<in> set kSupportedKeyTypes \<and> isBase64Body key_data
    \<and> newline \<notin> set (butlast sample_key_line)"
proof -
  have "renderAuthorizedKeyLine ''laptop'' (''ssh-ed25519 AAAAC3NzaC1lZDI1 me@desk'' @ [newline]) sample_layout = Inr sample_key_line"
    by code_simp
  then show ?thesis by (rule authorized_key_line_confined)
qed

end
