(* ===== verification/Ck_Http_Router.thy ===== *)
theory Ck_Http_Router
  imports Ck_Charconv Ck_Text Ck_Validation
begin

text \<open>
  \<open>src/common/http_router.cpp\<close>: the percent codec of path segments and the parser of the dashboard's
  routes. A route that is refused is the default route, of kind \<open>kNotFound\<close>. \<open>path_segment\<close> interprets
  the canonical codec contract with the percent codec; \<open>parseHttpRoute_safe\<close> says what every route
  holds, and \<open>object_route_roundtrip\<close> that the links to repository objects are read back.
\<close>

definition kMaximumRouteBytes :: nat where "kMaximumRouteBytes = 8192"
definition kMaximumRouteComponentBytes :: nat where "kMaximumRouteComponentBytes = 255"
definition kMaximumRoutePathDepth :: nat where "kMaximumRoutePathDepth = 32"

section \<open>Path segments\<close>

definition unreserved :: "char \<Rightarrow> bool" where
  "unreserved c \<longleftrightarrow> is_upper c \<or> is_lower c \<or> is_digit c \<or> c = CHR ''-'' \<or> c = CHR ''_'' \<or> c = CHR ''.''
     \<or> c = CHR ''~'' \<or> c = CHR ''/''"

definition hexDigit :: "char \<Rightarrow> nat option" where
  "hexDigit c =
     (if is_digit c then Some (byte c - byte CHR ''0'')
      else if CHR ''A'' \<le> c \<and> c \<le> CHR ''F'' then Some (byte c - byte CHR ''A'' + 10)
      else None)"

definition upper_hex_digits :: string where
  "upper_hex_digits = ''0123456789ABCDEF''"

fun encodePathSegment :: "string \<Rightarrow> string" where
  "encodePathSegment [] = []"
| "encodePathSegment (c # s) =
     (if unreserved c then [c]
      else [CHR ''%'', upper_hex_digits ! (byte c div 16), upper_hex_digits ! (byte c mod 16)])
     @ encodePathSegment s"

definition segment_refused :: "char \<Rightarrow> bool" where
  "segment_refused c \<longleftrightarrow> byte c < 0x20 \<or> byte c = 0x7F \<or> byte c = 0x5C"

fun decode_segment_bytes :: "string \<Rightarrow> string option" where
  "decode_segment_bytes [] = Some []"
| "decode_segment_bytes (c # s) =
     (if c = CHR ''%'' then
        (case s of
           h # l # r \<Rightarrow>
             (case (hexDigit h, hexDigit l) of
                (Some high, Some low) \<Rightarrow>
                  let b = char_of (16 * high + low) in
                  if unreserved b \<or> segment_refused b then None
                  else map_option ((#) b) (decode_segment_bytes r)
              | _ \<Rightarrow> None)
         | _ \<Rightarrow> None)
      else if \<not> unreserved c \<or> segment_refused c then None
      else map_option ((#) c) (decode_segment_bytes s))"

text \<open>The controls U+0080 to U+009F, two bytes each.\<close>

fun has_c1_control :: "string \<Rightarrow> bool" where
  "has_c1_control (a # b # s) \<longleftrightarrow> (byte a = 0xC2 \<and> 0x80 \<le> byte b \<and> byte b \<le> 0x9F) \<or> has_c1_control (b # s)"
| "has_c1_control _ \<longleftrightarrow> False"

definition decodePathSegment :: "string \<Rightarrow> string option" where
  "decodePathSegment value =
     (if length value > kMaximumRouteBytes then None
      else case decode_segment_bytes value of
          None \<Rightarrow> None
        | Some decoded \<Rightarrow> if \<not> isValidUtf8 decoded then None
            else if has_c1_control decoded then None else Some decoded)"

section \<open>Parts of a route\<close>

definition isObjectId :: "string \<Rightarrow> bool" where
  "isObjectId value \<longleftrightarrow> (length value = 40 \<or> length value = 64) \<and> (\<forall>c \<in> set value. is_lower_hex c)"

text \<open>The component loop; \<open>depth\<close> components are read already.\<close>

fun components_valid :: "nat \<Rightarrow> string list \<Rightarrow> bool" where
  "components_valid depth [] = False"
| "components_valid depth (c # cs) =
     (if c = [] \<or> c = ''.'' \<or> c = ''..'' \<or> length c > kMaximumRouteComponentBytes
         \<or> Suc depth > kMaximumRoutePathDepth then False
      else if cs = [] then True
      else components_valid (Suc depth) cs)"

definition validComponents :: "string \<Rightarrow> bool \<Rightarrow> bool" where
  "validComponents value allow_empty =
     (if value = [] then allow_empty else components_valid 0 (split_on CHR ''/'' value))"

definition validRef :: "string \<Rightarrow> bool" where
  "validRef value =
     (if isObjectId value then True
      else let name = (if starts_with value ''heads/'' then drop 6 value
                       else if starts_with value ''tags/'' then drop 5 value else value)
        in if \<not> isValidBranchName name \<or> name = ''@'' \<or> \<not> validComponents name False then False
           else \<not> (\<exists>c \<in> set (split_on CHR ''/'' name). c \<noteq> [] \<and> hd c = CHR ''.''))"

definition parseDecimal :: "string \<Rightarrow> nat \<Rightarrow> nat \<Rightarrow> nat \<Rightarrow> nat option" where
  "parseDecimal t width minimum maximum =
     (if length t \<noteq> width \<or> (\<exists>c \<in> set t. \<not> is_digit c) then None
      else case whole_number 2147483647 t of
          None \<Rightarrow> None
        | Some value \<Rightarrow> if minimum \<le> value \<and> value \<le> maximum then Some value else None)"

definition days_of_month :: "nat list" where
  "days_of_month = [31, 28, 31, 30, 31, 30, 31, 31, 30, 31, 30, 31]"

definition validDate :: "nat \<Rightarrow> nat \<Rightarrow> nat \<Rightarrow> bool" where
  "validDate year month day =
     (let leap = year mod 4 = 0 \<and> (year mod 100 \<noteq> 0 \<or> year mod 400 = 0)
      in 1 \<le> day \<and> day \<le> days_of_month ! (month - 1) + (if month = 2 \<and> leap then 1 else 0))"

section \<open>Routes\<close>

datatype RouteKind = kNotFound | kTable | kOverview | kCommits | kCommit | kTree | kBlob | kSource | kRaw
  | kCalendar | kDay | kGraph | kCiRuns | kCiRun | kCiCancel | kCiLog | kCiLogStream | kCiArtifact
  | kReleases | kReleaseAsset | kCiRunners

record Route =
  rt_kind :: RouteKind
  rt_project :: string
  rt_ref :: string
  rt_path :: string
  rt_cursor :: string
  rt_year :: nat
  rt_month :: nat
  rt_day :: nat
  rt_sort_by_name :: bool
  rt_run_id :: string
  rt_step :: int

definition no_route :: Route where
  "no_route = \<lparr>rt_kind = kNotFound, rt_project = [], rt_ref = [], rt_path = [], rt_cursor = [], rt_year = 0,
     rt_month = 0, rt_day = 0, rt_sort_by_name = False, rt_run_id = [], rt_step = - 1\<rparr>"

definition log_step :: "string \<Rightarrow> nat option" where
  "log_step number =
     (if number = [] \<or> length number > 6 then None else parseDecimal number (length number) 0 100000)"

definition safe_name :: "string \<Rightarrow> bool" where
  "safe_name v \<longleftrightarrow> (\<forall>c \<in> set v. is_upper c \<or> is_lower c \<or> is_digit c \<or> c = CHR ''.'' \<or> c = CHR ''_'' \<or> c = CHR ''-'')"

text \<open>\<open>/project/<id>/ci/...\<close>.\<close>

definition ci_route :: "Route \<Rightarrow> string \<Rightarrow> Route" where
  "ci_route route target =
     (let run = before CHR ''/'' target;
          tail = (case after CHR ''/'' target of None \<Rightarrow> [] | Some t \<Rightarrow> t)
      in if run = [] \<or> length run > 64 \<or> (\<exists>c \<in> set run. \<not> (is_upper c \<or> is_lower c \<or> is_digit c \<or> c = CHR ''-''))
         then no_route
         else let route = route\<lparr>rt_run_id := run\<rparr> in
           if tail = [] then route\<lparr>rt_kind := kCiRun\<rparr>
           else if tail = ''cancel'' then route\<lparr>rt_kind := kCiCancel\<rparr>
           else if starts_with tail ''artifacts/'' then
             (let name = drop 10 tail in
              if name = [] \<or> length name > 64 \<or> \<not> safe_name name then no_route
              else route\<lparr>rt_kind := kCiArtifact, rt_path := name\<rparr>)
           else if ends_with tail ''.stream'' then
             (case log_step (take (length tail - 7) tail) of
                None \<Rightarrow> no_route
              | Some step \<Rightarrow> route\<lparr>rt_step := int step, rt_kind := kCiLogStream\<rparr>)
           else if \<not> ends_with tail ''.log'' then no_route
           else (case log_step (take (length tail - 4) tail) of
                None \<Rightarrow> no_route
              | Some step \<Rightarrow> route\<lparr>rt_step := int step, rt_kind := kCiLog\<rparr>))"

definition release_route :: "Route \<Rightarrow> string \<Rightarrow> Route" where
  "release_route route target =
     (case after CHR ''/'' target of
        None \<Rightarrow> no_route
      | Some name \<Rightarrow>
          let tag = before CHR ''/'' target in
          if tag = [] \<or> length tag > 128 \<or> tag = ''.'' \<or> tag = ''..'' \<or> \<not> safe_name tag
             \<or> name = [] \<or> length name > 64 \<or> \<not> safe_name name then no_route
          else route\<lparr>rt_kind := kReleaseAsset, rt_run_id := tag, rt_path := name\<rparr>)"

text \<open>\<open>tree\<close>, \<open>blob\<close>, \<open>source\<close> and \<open>raw\<close>: a ref and a path, with a colon between.\<close>

definition object_route :: "Route \<Rightarrow> string \<Rightarrow> string \<Rightarrow> Route" where
  "object_route route operation target =
     (case after CHR '':'' target of
        None \<Rightarrow> no_route
      | Some rest \<Rightarrow>
          if CHR '':'' \<in> set rest then no_route
          else (case (decodePathSegment (before CHR '':'' target), decodePathSegment rest) of
              (Some ref, Some path) \<Rightarrow>
                if \<not> validRef ref \<or> \<not> validComponents path (operation = ''tree'') then no_route
                else if operation = ''raw'' \<and> \<not> isObjectId ref then no_route
                else route\<lparr>rt_kind := (if operation = ''tree'' then kTree else if operation = ''blob'' then kBlob
                       else if operation = ''source'' then kSource else kRaw),
                     rt_ref := ref, rt_path := path\<rparr>
            | _ \<Rightarrow> no_route))"

text \<open>\<open>calendar\<close>, \<open>commits\<close> and \<open>graph\<close> with an explicit colon after the ref.\<close>

definition bounded_ref_route :: "Route \<Rightarrow> string \<Rightarrow> string \<Rightarrow> string \<Rightarrow> Route" where
  "bounded_ref_route route operation ref_text sfx =
     (case decodePathSegment ref_text of
        None \<Rightarrow> no_route
      | Some ref \<Rightarrow>
          if \<not> validRef ref then no_route
          else let route = route\<lparr>rt_kind := (if operation = ''calendar'' then kCalendar
                   else if operation = ''commits'' then kCommits else kGraph), rt_ref := ref\<rparr> in
            if sfx = [] then route
            else if operation = ''calendar'' then
              (if length sfx \<noteq> 8 \<or> sfx ! 0 \<noteq> CHR ''/'' \<or> sfx ! 5 \<noteq> CHR ''/'' then no_route
               else case (parseDecimal (take 4 (drop 1 sfx)) 4 1 9999, parseDecimal (drop 6 sfx) 2 1 12) of
                   (Some year, Some month) \<Rightarrow> route\<lparr>rt_year := year, rt_month := month\<rparr>
                 | _ \<Rightarrow> no_route)
            else if \<not> starts_with sfx ''/before/'' \<or> \<not> isObjectId (drop 8 sfx) then no_route
            else route\<lparr>rt_cursor := drop 8 sfx\<rparr>)"

text \<open>The last occurrence of a text, \<open>text.rfind(sub)\<close>.\<close>

definition cut_last :: "string \<Rightarrow> string \<Rightarrow> (string \<times> string) option" where
  "cut_last sub s = map_option (\<lambda>(a, b). (rev b, rev a)) (cut (rev sub) (rev s))"

text \<open>The remaining operations: what precedes the ref is decided first, with the ref's text.\<close>

definition ref_operation :: "Route \<Rightarrow> string \<Rightarrow> string \<Rightarrow> (Route \<times> string) option" where
  "ref_operation route operation target =
     (if operation = ''overview'' then Some (route\<lparr>rt_kind := kOverview\<rparr>, target)
      else if operation = ''commits'' \<or> operation = ''graph'' then
        (let kind = (if operation = ''commits'' then kCommits else kGraph) in
         case cut_last ''/before/'' target of
           None \<Rightarrow> Some (route\<lparr>rt_kind := kind\<rparr>, target)
         | Some (ref, cursor) \<Rightarrow>
             if \<not> isObjectId cursor then None else Some (route\<lparr>rt_cursor := cursor, rt_kind := kind\<rparr>, ref))
      else if operation = ''calendar'' then
        (let n = length target in
         if n \<ge> 8 \<and> target ! (n - 3) = CHR ''/'' \<and> target ! (n - 8) = CHR ''/'' then
           (let sfx = drop (n - 7) target in
            case (parseDecimal (take 4 sfx) 4 1 9999, parseDecimal (drop 5 sfx) 2 1 12) of
              (Some year, Some month) \<Rightarrow>
                Some (route\<lparr>rt_year := year, rt_month := month, rt_kind := kCalendar\<rparr>, take (n - 8) target)
            | _ \<Rightarrow> None)
         else Some (route\<lparr>rt_kind := kCalendar\<rparr>, target))
      else if operation = ''day'' then
        (case before_last CHR ''/'' target of
           None \<Rightarrow> None
         | Some ref \<Rightarrow>
             let date = after_last CHR ''/'' target in
             if length date \<noteq> 10 \<or> date ! 4 \<noteq> CHR ''-'' \<or> date ! 7 \<noteq> CHR ''-'' then None
             else case (parseDecimal (take 4 date) 4 1 9999, parseDecimal (take 2 (drop 5 date)) 2 1 12,
                        parseDecimal (take 2 (drop 8 date)) 2 1 31) of
                 (Some year, Some month, Some day) \<Rightarrow>
                   if \<not> validDate year month day then None
                   else Some (route\<lparr>rt_year := year, rt_month := month, rt_day := day, rt_kind := kDay\<rparr>, ref)
               | _ \<Rightarrow> None)
      else None)"

definition ref_route :: "Route \<Rightarrow> string \<Rightarrow> string \<Rightarrow> Route" where
  "ref_route route operation target =
     (case ref_operation route operation target of
        None \<Rightarrow> no_route
      | Some (route, ref_text) \<Rightarrow>
          (case decodePathSegment ref_text of
             None \<Rightarrow> no_route
           | Some ref \<Rightarrow> if \<not> validRef ref then no_route else route\<lparr>rt_ref := ref\<rparr>))"

text \<open>What follows the project.\<close>

definition project_route :: "Route \<Rightarrow> string \<Rightarrow> Route" where
  "project_route route target =
     (if target = ''ci'' then route\<lparr>rt_kind := kCiRuns\<rparr>
      else if target = ''releases'' then route\<lparr>rt_kind := kReleases\<rparr>
      else case after CHR ''/'' target of
          None \<Rightarrow> no_route
        | Some rest \<Rightarrow>
            let operation = before CHR ''/'' target in
            if operation = ''commit'' then
              (if \<not> isObjectId rest then no_route else route\<lparr>rt_kind := kCommit, rt_ref := rest\<rparr>)
            else if operation = ''ci'' then ci_route route rest
            else if operation = ''releases'' then release_route route rest
            else if operation = ''tree'' \<or> operation = ''blob'' \<or> operation = ''source'' \<or> operation = ''raw''
            then object_route route operation rest
            else case after CHR '':'' rest of
                Some sfx \<Rightarrow>
                  if operation = ''calendar'' \<or> operation = ''commits'' \<or> operation = ''graph''
                  then bounded_ref_route route operation (before CHR '':'' rest) sfx
                  else ref_route route operation rest
              | None \<Rightarrow> ref_route route operation rest)"

definition parseHttpRoute :: "string \<Rightarrow> Route" where
  "parseHttpRoute target =
     (if target = [] \<or> length target > kMaximumRouteBytes
         \<or> (\<exists>c \<in> set target. byte c < 0x21 \<or> byte c > 0x7E \<or> c = CHR ''?'' \<or> c = CHR ''#'' \<or> byte c = 0x5C)
      then no_route
      else if target = ''/'' \<or> target = ''/by-name''
      then no_route\<lparr>rt_kind := kTable, rt_sort_by_name := (target = ''/by-name'')\<rparr>
      else if target = ''/ci/runners'' then no_route\<lparr>rt_kind := kCiRunners\<rparr>
      else if \<not> starts_with target ''/project/'' then no_route
      else let rest = drop 9 target; project = before CHR ''/'' rest in
        if \<not> isValidProjectName project then no_route
        else let route = no_route\<lparr>rt_project := project\<rparr> in
          (case after CHR ''/'' rest of
             None \<Rightarrow> route\<lparr>rt_kind := kOverview\<rparr>
           | Some operation \<Rightarrow> project_route route operation))"

section \<open>The percent codec\<close>

text \<open>The texts that have a percent-encoded form.\<close>

definition encodable :: "string \<Rightarrow> bool" where
  "encodable d \<longleftrightarrow> (\<forall>c \<in> set d. \<not> segment_refused c) \<and> isValidUtf8 d \<and> \<not> has_c1_control d
     \<and> length (encodePathSegment d) \<le> kMaximumRouteBytes"

lemma hexDigit_Some: "hexDigit c = Some n \<longleftrightarrow> n < 16 \<and> c = upper_hex_digits ! n"
proof
  assume "hexDigit c = Some n"
  then have "n < 16 \<and> byte c = (if n < 10 then 48 + n else 55 + n)"
    by (auto simp: hexDigit_def is_digit_byte char_le_byte split: if_splits)
  moreover from this have "byte (upper_hex_digits ! n) = (if n < 10 then 48 + n else 55 + n)"
    by (auto simp: upper_hex_digits_def less_Suc_eq numeral_eq_Suc nth_Cons split: nat.splits)
  ultimately show "n < 16 \<and> c = upper_hex_digits ! n" by (metis of_char_eq_iff)
next
  assume "n < 16 \<and> c = upper_hex_digits ! n"
  moreover have "list_all (\<lambda>n. hexDigit (upper_hex_digits ! n) = Some n) [0..<16]"
    by (simp add: upper_hex_digits_def upt_conv_Cons hexDigit_def is_digit_byte char_le_byte)
  ultimately show "hexDigit c = Some n" by (simp add: list_all_iff)
qed

lemma byte_nibbles: "byte c = 16 * (byte c div 16) + byte c mod 16" "byte c div 16 < 16"
  using byte_less_256 [of c] by (simp_all add: less_mult_imp_div_less)

lemma percent_not_unreserved [simp]: "\<not> unreserved CHR ''%''"
  by (simp add: unreserved_def char_class)

lemma decode_encode_bytes:
  "\<forall>c \<in> set d. \<not> segment_refused c \<Longrightarrow> decode_segment_bytes (encodePathSegment d) = Some d"
proof (induction d)
  case (Cons c d)
  have "hexDigit (upper_hex_digits ! (byte c div 16)) = Some (byte c div 16)"
    "hexDigit (upper_hex_digits ! (byte c mod 16)) = Some (byte c mod 16)"
    using byte_nibbles [of c] by (simp_all add: hexDigit_Some)
  moreover have "char_of (16 * (byte c div 16) + byte c mod 16) = c"
    by (metis byte_nibbles(1) char_of_byte)
  ultimately show ?case using Cons
    by (cases "unreserved c") auto
qed simp

lemma decode_bytes_canonical:
  "decode_segment_bytes v = Some d \<Longrightarrow> (\<forall>c \<in> set d. \<not> segment_refused c) \<and> encodePathSegment d = v"
proof (induction v arbitrary: d rule: decode_segment_bytes.induct)
  case (2 c s)
  show ?case
  proof (cases "c = CHR ''%''")
    case True
    with "2.prems" obtain h l r high low d' where s: "s = h # l # r" "hexDigit h = Some high" "hexDigit l = Some low"
      "\<not> unreserved (char_of (16 * high + low))" "\<not> segment_refused (char_of (16 * high + low))"
      "decode_segment_bytes r = Some d'" "d = char_of (16 * high + low) # d'"
      by (auto simp: Let_def split: list.splits option.splits if_splits)
    have n: "high < 16" "low < 16" "h = upper_hex_digits ! high" "l = upper_hex_digits ! low"
      using s(2,3) by (simp_all add: hexDigit_Some)
    then have b: "byte (char_of (16 * high + low)) = 16 * high + low" by (simp add: byte_char_of)
    have d': "\<forall>c \<in> set d'. \<not> segment_refused c" "encodePathSegment d' = r"
      using "2.IH"(1) [OF True s(1) refl refl s(2,3) refl _ s(6)] s(4,5) by simp_all
    have "(16 * high + low) div 16 = high" "(16 * high + low) mod 16 = low" using n(1,2) by simp_all
    then have "encodePathSegment (char_of (16 * high + low) # d')
        = CHR ''%'' # upper_hex_digits ! high # upper_hex_digits ! low # encodePathSegment d'"
      using s(4) by (simp only: encodePathSegment.simps b if_False append.simps)
    then have "encodePathSegment d = c # s" unfolding d'(2) n(3,4) [symmetric] s(1) s(7) True by argo
    moreover have "\<forall>c \<in> set d. \<not> segment_refused c" unfolding s(7) using s(5) d'(1) by simp
    ultimately show ?thesis by blast
  next
    case False
    with "2.prems" "2.IH"(2) show ?thesis by (auto split: if_splits)
  qed
qed simp

text \<open>
  Percent decoding accepts exactly the canonical encodings, of texts that are valid UTF-8
  without controls and backslashes, and is the inverse of the encoding on them.
\<close>

theorem decodePathSegment_iff: "decodePathSegment v = Some d \<longleftrightarrow> encodable d \<and> encodePathSegment d = v"
  using decode_bytes_canonical [of v d] decode_encode_bytes [of d]
  by (auto simp: decodePathSegment_def encodable_def split: option.splits if_splits)

lemma decodePathSegment_encode: "encodable d \<Longrightarrow> decodePathSegment (encodePathSegment d) = Some d"
  using decode_encode_bytes [of d] by (simp add: decodePathSegment_def encodable_def)

lemma decodePathSegment_Some: "decodePathSegment v = Some d \<Longrightarrow> encodable d \<and> encodePathSegment d = v"
  using decode_bytes_canonical [of v d]
  by (auto simp: decodePathSegment_def encodable_def split: option.splits if_splits)

interpretation path_segment: canonical_codec encodePathSegment decodePathSegment encodable
  using decodePathSegment_encode decodePathSegment_Some by unfold_locales blast+

lemma decoded_no_control: "decodePathSegment v = Some d \<Longrightarrow> c \<in> set d \<Longrightarrow> 0x20 \<le> byte c \<and> byte c \<noteq> 0x7F \<and> byte c \<noteq> 0x5C"
  using decodePathSegment_Some by (fastforce simp: encodable_def segment_refused_def)

section \<open>What a route holds\<close>

lemma components_valid_iff:
  "components_valid n cs \<longleftrightarrow> cs \<noteq> [] \<and> n + length cs \<le> kMaximumRoutePathDepth
     \<and> (\<forall>c \<in> set cs. c \<noteq> [] \<and> c \<noteq> ''.'' \<and> c \<noteq> ''..'' \<and> length c \<le> kMaximumRouteComponentBytes)"
  by (induction n cs rule: components_valid.induct) (auto simp: not_less)

text \<open>
  What the handlers rely on, for each kind of route: names are valid, paths below a repository
  are relative and free of dot components, a raw object is named by its id, dates exist.
\<close>

definition repository_path :: "string \<Rightarrow> bool" where
  "repository_path p \<longleftrightarrow> list_all path_component (split_on CHR ''/'' p)
     \<and> length (split_on CHR ''/'' p) \<le> kMaximumRoutePathDepth"

definition month_exists :: "Route \<Rightarrow> bool" where
  "month_exists r \<longleftrightarrow> (rt_year r = 0 \<and> rt_month r = 0)
     \<or> (1 \<le> rt_year r \<and> rt_year r \<le> 9999 \<and> 1 \<le> rt_month r \<and> rt_month r \<le> 12)"

definition cursor_valid :: "Route \<Rightarrow> bool" where
  "cursor_valid r \<longleftrightarrow> rt_cursor r = [] \<or> isObjectId (rt_cursor r)"

definition route_safe :: "Route \<Rightarrow> bool" where
  "route_safe r = (case rt_kind r of
       kNotFound \<Rightarrow> r = no_route
     | kTable \<Rightarrow> rt_project r = []
     | kCiRunners \<Rightarrow> rt_project r = []
     | k \<Rightarrow> isValidProjectName (rt_project r) \<and>
         (case k of
            kOverview \<Rightarrow> rt_ref r = [] \<or> validRef (rt_ref r)
          | kCommit \<Rightarrow> isObjectId (rt_ref r)
          | kCommits \<Rightarrow> validRef (rt_ref r) \<and> cursor_valid r
          | kGraph \<Rightarrow> validRef (rt_ref r) \<and> cursor_valid r
          | kTree \<Rightarrow> validRef (rt_ref r) \<and> (rt_path r = [] \<or> repository_path (rt_path r))
          | kBlob \<Rightarrow> validRef (rt_ref r) \<and> repository_path (rt_path r)
          | kSource \<Rightarrow> validRef (rt_ref r) \<and> repository_path (rt_path r)
          | kRaw \<Rightarrow> isObjectId (rt_ref r) \<and> repository_path (rt_path r)
          | kCalendar \<Rightarrow> validRef (rt_ref r) \<and> month_exists r
          | kDay \<Rightarrow> validRef (rt_ref r) \<and> 1 \<le> rt_year r \<and> rt_year r \<le> 9999 \<and> 1 \<le> rt_month r \<and> rt_month r \<le> 12
              \<and> validDate (rt_year r) (rt_month r) (rt_day r)
          | kCiRun \<Rightarrow> path_component (rt_run_id r)
          | kCiCancel \<Rightarrow> path_component (rt_run_id r)
          | kCiLog \<Rightarrow> path_component (rt_run_id r) \<and> 0 \<le> rt_step r \<and> rt_step r \<le> 100000
          | kCiLogStream \<Rightarrow> path_component (rt_run_id r) \<and> 0 \<le> rt_step r \<and> rt_step r \<le> 100000
          | kCiArtifact \<Rightarrow> path_component (rt_run_id r) \<and> safe_name (rt_path r) \<and> rt_path r \<noteq> []
          | kReleaseAsset \<Rightarrow> path_component (rt_run_id r) \<and> safe_name (rt_path r) \<and> rt_path r \<noteq> []
          | _ \<Rightarrow> True))"

lemma validComponents_path:
  assumes "validComponents p b" "decodePathSegment v = Some p"
  shows "(p = [] \<and> b) \<or> repository_path p"
proof (cases "p = []")
  case False
  with assms(1) have c: "components_valid 0 (split_on CHR ''/'' p)" by (simp add: validComponents_def)
  have "path_component x" if "x \<in> set (split_on CHR ''/'' p)" for x
  proof (rule path_componentI)
    show "x \<noteq> []" "x \<noteq> ''.''" "x \<noteq> ''..''" using c that unfolding components_valid_iff by blast+
    fix y
    assume "y \<in> set x"
    moreover from this have "y \<in> set p" using that set_split_on by blast
    ultimately show "0x20 \<le> byte y \<and> byte y \<noteq> 0x7F \<and> byte y \<noteq> 0x5C \<and> y \<noteq> CHR ''/''"
      using decoded_no_control [OF assms(2)] split_on_no_sep that by metis
  qed
  then show ?thesis using c by (simp add: repository_path_def components_valid_iff list_all_iff)
qed (use assms in \<open>simp add: validComponents_def\<close>)

lemma run_id_component:
  assumes "r \<noteq> []" "\<forall>c \<in> set r. is_upper c \<or> is_lower c \<or> is_digit c \<or> c = CHR ''-''"
  shows "path_component r"
proof (rule plain_path_component)
  show "plain r" using assms(2) by (auto simp: plain_def plain_char_def is_alnum_def)
  have "CHR ''.'' \<notin> set r" using assms(2) by (auto simp: char_class)
  then show "r \<noteq> ''.''" "r \<noteq> ''..''" by auto
qed (rule assms(1))

lemma log_step_bound: "log_step n = Some v \<Longrightarrow> v \<le> 100000"
  by (auto simp: log_step_def parseDecimal_def split: if_splits option.splits)

lemma parseDecimal_bounds: "parseDecimal t w a b = Some v \<Longrightarrow> a \<le> v \<and> v \<le> b"
  by (auto simp: parseDecimal_def split: if_splits option.splits)

lemma no_route_kind [simp]: "rt_kind no_route = kNotFound" "rt_project no_route = []" "rt_ref no_route = []"
  "rt_cursor no_route = []" "rt_year no_route = 0" "rt_month no_route = 0"
  by (simp_all add: no_route_def)

lemma no_route_safe [simp]: "route_safe no_route"
  by (simp add: route_safe_def)

lemma ci_route_safe:
  assumes "isValidProjectName p"
  shows "route_safe (ci_route (no_route\<lparr>rt_project := p\<rparr>) t)"
proof (cases "before CHR ''/'' t = [] \<or> length (before CHR ''/'' t) > 64
    \<or> (\<exists>c \<in> set (before CHR ''/'' t). \<not> (is_upper c \<or> is_lower c \<or> is_digit c \<or> c = CHR ''-''))")
  case True
  then have "ci_route (no_route\<lparr>rt_project := p\<rparr>) t = no_route" by (simp only: ci_route_def Let_def if_True)
  then show ?thesis by simp
next
  case False
  then have "path_component (before CHR ''/'' t)"
    by (intro run_id_component) blast+
  with assms have leaf:
    "k \<in> {kCiRun, kCiCancel} \<Longrightarrow> route_safe (no_route\<lparr>rt_project := p, rt_run_id := before CHR ''/'' t, rt_kind := k\<rparr>)"
    "\<lbrakk>n \<noteq> []; safe_name n\<rbrakk> \<Longrightarrow> route_safe (no_route\<lparr>rt_project := p, rt_run_id := before CHR ''/'' t, rt_kind := kCiArtifact, rt_path := n\<rparr>)"
    "log_step v = Some s \<Longrightarrow> k \<in> {kCiLog, kCiLogStream} \<Longrightarrow>
       route_safe (no_route\<lparr>rt_project := p, rt_run_id := before CHR ''/'' t, rt_step := int s, rt_kind := k\<rparr>)" for k n v s
    by (auto simp: route_safe_def dest: log_step_bound)
  from False show ?thesis unfolding ci_route_def Let_def by (simp only: if_False) (simp add: leaf split: option.split)
qed

lemma release_route_safe:
  assumes "isValidProjectName p"
  shows "route_safe (release_route (no_route\<lparr>rt_project := p\<rparr>) t)"
proof -
  have "path_component g" if "safe_name g" "g \<noteq> []" "g \<noteq> ''.''" "g \<noteq> ''..''" for g
    using that by (intro plain_path_component) (auto simp: safe_name_def plain_def plain_char_def is_alnum_def)
  then show ?thesis using assms
    by (auto simp: release_route_def Let_def route_safe_def split: option.splits)
qed

lemma object_route_safe:
  assumes "isValidProjectName p" "operation \<in> set [''tree'', ''blob'', ''source'', ''raw'']"
  shows "route_safe (object_route (no_route\<lparr>rt_project := p\<rparr>) operation t)"
proof (cases "object_route (no_route\<lparr>rt_project := p\<rparr>) operation t = no_route")
  case False
  then obtain rest ref path where r: "after CHR '':'' t = Some rest" "decodePathSegment (before CHR '':'' t) = Some ref"
    "decodePathSegment rest = Some path" "validRef ref" "validComponents path (operation = ''tree'')"
    "operation = ''raw'' \<Longrightarrow> isObjectId ref"
    "object_route (no_route\<lparr>rt_project := p\<rparr>) operation t = no_route\<lparr>rt_project := p,
       rt_kind := (if operation = ''tree'' then kTree else if operation = ''blob'' then kBlob
                       else if operation = ''source'' then kSource else kRaw), rt_ref := ref, rt_path := path\<rparr>"
    unfolding object_route_def by (simp split: option.splits if_splits)
  have path: "(path = [] \<and> operation = ''tree'') \<or> repository_path path" using validComponents_path [OF r(5,3)] .
  from assms(2) consider "operation = ''tree''" | "operation = ''blob''" | "operation = ''source''" | "operation = ''raw''"
    by auto
  then show ?thesis unfolding r(7) by cases (use assms(1) r(4,6) path in \<open>simp_all add: route_safe_def\<close>)
qed simp

lemma bounded_ref_route_safe:
  assumes "isValidProjectName p"
  shows "route_safe (bounded_ref_route (no_route\<lparr>rt_project := p\<rparr>) operation t s)"
proof -
  from assms have leaf:
    "validRef ref \<Longrightarrow> k \<in> {kCalendar, kCommits, kGraph} \<Longrightarrow>
       route_safe (no_route\<lparr>rt_project := p, rt_kind := k, rt_ref := ref\<rparr>)"
    "\<lbrakk>validRef ref; parseDecimal u 4 1 9999 = Some y; parseDecimal v 2 1 12 = Some m\<rbrakk> \<Longrightarrow>
       route_safe (no_route\<lparr>rt_project := p, rt_kind := kCalendar, rt_ref := ref, rt_year := y, rt_month := m\<rparr>)"
    "\<lbrakk>validRef ref; isObjectId c; k \<in> {kCommits, kGraph}\<rbrakk> \<Longrightarrow>
       route_safe (no_route\<lparr>rt_project := p, rt_kind := k, rt_ref := ref, rt_cursor := c\<rparr>)" for ref k u y v m c
    using parseDecimal_bounds [of u 4 1 9999 y] parseDecimal_bounds [of v 2 1 12 m]
    by (auto simp: route_safe_def cursor_valid_def month_exists_def)
  show ?thesis unfolding bounded_ref_route_def Let_def
    by (simp add: leaf split: option.split del: One_nat_def)
qed

text \<open>What the last operations leave before their ref is read.\<close>

definition awaiting_ref :: "string \<Rightarrow> Route \<Rightarrow> bool" where
  "awaiting_ref p r \<longleftrightarrow> rt_project r = p \<and>
     (rt_kind r = kOverview \<or> (rt_kind r = kCommits \<or> rt_kind r = kGraph) \<and> cursor_valid r
      \<or> rt_kind r = kCalendar \<and> month_exists r
      \<or> rt_kind r = kDay \<and> 1 \<le> rt_year r \<and> rt_year r \<le> 9999 \<and> 1 \<le> rt_month r \<and> rt_month r \<le> 12
          \<and> validDate (rt_year r) (rt_month r) (rt_day r))"

lemma ref_operation_awaiting:
  assumes "ref_operation (no_route\<lparr>rt_project := p\<rparr>) operation t = Some (r, v)"
  shows "awaiting_ref p r"
proof -
  have leaf: "k \<in> {kOverview, kCommits, kGraph, kCalendar} \<Longrightarrow> awaiting_ref p (no_route\<lparr>rt_project := p, rt_kind := k\<rparr>)"
    "\<lbrakk>isObjectId c; k \<in> {kCommits, kGraph}\<rbrakk> \<Longrightarrow> awaiting_ref p (no_route\<lparr>rt_project := p, rt_cursor := c, rt_kind := k\<rparr>)"
    "\<lbrakk>parseDecimal u 4 1 9999 = Some y; parseDecimal w 2 1 12 = Some m\<rbrakk> \<Longrightarrow>
       awaiting_ref p (no_route\<lparr>rt_project := p, rt_year := y, rt_month := m, rt_kind := kCalendar\<rparr>)"
    "\<lbrakk>parseDecimal u 4 1 9999 = Some y; parseDecimal w 2 1 12 = Some m; validDate y m d\<rbrakk> \<Longrightarrow>
       awaiting_ref p (no_route\<lparr>rt_project := p, rt_year := y, rt_month := m, rt_day := d, rt_kind := kDay\<rparr>)" for k c u y w m d
    using parseDecimal_bounds [of u 4 1 9999 y] parseDecimal_bounds [of w 2 1 12 m]
    by (auto simp: awaiting_ref_def cursor_valid_def month_exists_def)
  have "pred_option (\<lambda>(r, v). awaiting_ref p r) (ref_operation (no_route\<lparr>rt_project := p\<rparr>) operation t)"
    unfolding ref_operation_def Let_def by (simp add: leaf split: option.split del: One_nat_def)
  with assms show ?thesis by simp
qed

lemma ref_route_safe:
  assumes "isValidProjectName p"
  shows "route_safe (ref_route (no_route\<lparr>rt_project := p\<rparr>) operation t)"
proof (cases "ref_route (no_route\<lparr>rt_project := p\<rparr>) operation t = no_route")
  case False
  then obtain r v ref where r: "ref_operation (no_route\<lparr>rt_project := p\<rparr>) operation t = Some (r, v)" "validRef ref"
    "ref_route (no_route\<lparr>rt_project := p\<rparr>) operation t = r\<lparr>rt_ref := ref\<rparr>"
    by (auto simp: ref_route_def split: option.splits if_splits)
  then show ?thesis using ref_operation_awaiting [OF r(1)] assms
    by (auto simp: awaiting_ref_def route_safe_def cursor_valid_def month_exists_def)
qed simp

lemma project_route_safe:
  assumes "isValidProjectName p"
  shows "route_safe (project_route (no_route\<lparr>rt_project := p\<rparr>) t)"
proof -
  have "route_safe (no_route\<lparr>rt_project := p, rt_kind := kCiRuns\<rparr>)"
    "route_safe (no_route\<lparr>rt_project := p, rt_kind := kReleases\<rparr>)"
    "isObjectId ref \<Longrightarrow> route_safe (no_route\<lparr>rt_project := p, rt_kind := kCommit, rt_ref := ref\<rparr>)" for ref
    using assms by (simp_all add: route_safe_def)
  then show ?thesis
    unfolding project_route_def Let_def
    using ci_route_safe [OF assms] release_route_safe [OF assms] object_route_safe [OF assms]
      bounded_ref_route_safe [OF assms] ref_route_safe [OF assms]
    by (simp split: option.split)
qed

text \<open>
  C31: every route the parser returns is safe for its handler: the project is a valid name, a ref is
  a valid ref, a path below a repository consists of ordinary components only, the id of a run and
  the tag of a release are single components, a raw object is addressed by its object id, and a
  calendar day exists. In particular no target makes a handler leave the project's repository.
\<close>

theorem parseHttpRoute_safe: "route_safe (parseHttpRoute target)"
proof -
  have "route_safe (no_route\<lparr>rt_kind := kTable, rt_sort_by_name := b\<rparr>)" "route_safe (no_route\<lparr>rt_kind := kCiRunners\<rparr>)"
    "isValidProjectName p \<Longrightarrow> route_safe (no_route\<lparr>rt_project := p, rt_kind := kOverview\<rparr>)" for b p
    by (simp_all add: route_safe_def)
  then show ?thesis
    unfolding parseHttpRoute_def Let_def using project_route_safe by (simp split: option.split)
qed

section \<open>Links to objects\<close>

lemma upper_hex_char: "n < 16 \<Longrightarrow> is_upper (upper_hex_digits ! n) \<or> is_digit (upper_hex_digits ! n)"
proof -
  have "list_all (\<lambda>n. is_upper (upper_hex_digits ! n) \<or> is_digit (upper_hex_digits ! n)) [0..<16]"
    by (simp add: upper_hex_digits_def upt_conv_Cons char_class)
  then show "n < 16 \<Longrightarrow> is_upper (upper_hex_digits ! n) \<or> is_digit (upper_hex_digits ! n)"
    by (simp add: list_all_iff)
qed

definition link_char :: "char \<Rightarrow> bool" where
  "link_char c \<longleftrightarrow> unreserved c \<or> c = CHR ''%''"

lemma set_encodePathSegment: "c \<in> set (encodePathSegment d) \<Longrightarrow> link_char c"
proof (induction d)
  case (Cons x d)
  have "link_char (upper_hex_digits ! n)" if "n < 16" for n
    using upper_hex_char [OF that] by (auto simp: link_char_def unreserved_def)
  then have "link_char (upper_hex_digits ! (byte x div 16))" "link_char (upper_hex_digits ! (byte x mod 16))"
    using byte_nibbles(2) [of x] by simp_all
  with Cons show ?case by (auto simp: link_char_def split: if_splits)
qed simp

lemma link_char_bytes: "link_char c \<Longrightarrow> 0x21 \<le> byte c \<and> byte c \<le> 0x7E \<and> c \<noteq> CHR ''?'' \<and> c \<noteq> CHR ''#''
     \<and> byte c \<noteq> 0x5C \<and> c \<noteq> CHR '':''"
  by (auto simp: link_char_def unreserved_def char_class char_le_byte)

definition object_link :: "string \<Rightarrow> string \<Rightarrow> string \<Rightarrow> string \<Rightarrow> string" where
  "object_link project operation ref path =
     ''/project/'' @ project @ ''/'' @ operation @ ''/'' @ encodePathSegment ref @ '':'' @ encodePathSegment path"

text \<open>
  The link to a file or directory of a project, at any valid ref and any path that can be shown,
  is read back as that project, ref and path.
\<close>

theorem object_route_roundtrip:
  assumes "isValidProjectName project" "validRef ref" "encodable ref" "encodable path"
    and "validComponents path (operation = ''tree'')" "operation = ''tree'' \<or> operation = ''blob'' \<or> operation = ''source''"
    and "length (object_link project operation ref path) \<le> kMaximumRouteBytes"
  shows "parseHttpRoute (object_link project operation ref path) = no_route\<lparr>rt_project := project,
    rt_kind := (if operation = ''tree'' then kTree else if operation = ''blob'' then kBlob else kSource),
    rt_ref := ref, rt_path := path\<rparr>"
proof -
  let ?l = "object_link project operation ref path"
  let ?t = "encodePathSegment ref @ CHR '':'' # encodePathSegment path"
  have colon: "CHR '':'' \<notin> set (encodePathSegment d)" for d
    using set_encodePathSegment link_char_bytes by blast
  have plain: "plain project" using assms(1) plain_project by blast
  have "plain operation" using assms(6) by (elim disjE) (simp_all add: plain_def plain_char_def char_class)
  then have slash: "CHR ''/'' \<notin> set project" "CHR ''/'' \<notin> set operation" using plain by simp_all
  let ?ok = "\<lambda>c. 0x21 \<le> byte c \<and> byte c \<le> 0x7E \<and> c \<noteq> CHR ''?'' \<and> c \<noteq> CHR ''#'' \<and> byte c \<noteq> 0x5C"
  have "list_all ?ok (encodePathSegment d)" for d
    using set_encodePathSegment link_char_bytes unfolding list_all_iff by blast
  moreover have "plain_char c \<Longrightarrow> link_char c" for c
    by (auto simp: plain_char_def link_char_def unreserved_def is_alnum_def)
  then have "list_all ?ok project" "list_all ?ok operation"
    using plain \<open>plain operation\<close> link_char_bytes unfolding list_all_iff plain_def by blast+
  ultimately have "list_all ?ok ?l" unfolding object_link_def by simp
  then have bytes: "\<not> (\<exists>c \<in> set ?l. byte c < 0x21 \<or> byte c > 0x7E \<or> c = CHR ''?'' \<or> c = CHR ''#'' \<or> byte c = 0x5C)"
    unfolding list_all_iff by (metis not_less)
  have drop: "starts_with ?l ''/project/''" "drop 9 ?l = project @ CHR ''/'' # operation @ CHR ''/'' # ?t" "?l \<noteq> []"
    by (simp_all add: object_link_def starts_with_def)
  have other: "?l \<noteq> ''/''" "?l \<noteq> ''/by-name''" "?l \<noteq> ''/ci/runners''" by (simp_all add: object_link_def)
  have obj: "object_route (no_route\<lparr>rt_project := project\<rparr>) operation ?t = no_route\<lparr>rt_project := project,
    rt_kind := (if operation = ''tree'' then kTree else if operation = ''blob'' then kBlob else kSource),
    rt_ref := ref, rt_path := path\<rparr>"
    using assms(2-6) colon decodePathSegment_encode by (auto simp: object_route_def)
  have "project_route (no_route\<lparr>rt_project := project\<rparr>) (operation @ CHR ''/'' # ?t)
      = object_route (no_route\<lparr>rt_project := project\<rparr>) operation ?t"
    using assms(6) slash by (auto simp: project_route_def Let_def)
  then show ?thesis
    unfolding parseHttpRoute_def Let_def drop(2)
    using assms(1,7) drop(1,3) other slash(1) obj by (simp only: bytes) (simp add: not_less)
qed

theorem object_route_roundtrip_witness:
  "parseHttpRoute (object_link ''demo'' ''blob'' ''heads/main'' ''docs/read me.md'') = no_route\<lparr>rt_project := ''demo'',
    rt_kind := (if ''blob'' = ''tree'' then kTree else if ''blob'' = ''blob'' then kBlob else kSource),
    rt_ref := ''heads/main'', rt_path := ''docs/read me.md''\<rparr>"
proof (rule object_route_roundtrip)
  show "isValidProjectName ''demo''" "validRef ''heads/main''" "validComponents ''docs/read me.md'' (''blob'' = ''tree'')"
    by code_simp+
  show "encodable ''heads/main''" "encodable ''docs/read me.md''" by code_simp+
qed (simp, code_simp)

end
