(* ===== verification/Ck_Http_Request.thy ===== *)
theory Ck_Http_Request
  imports Ck_Http_Router
begin

text \<open>
  \<open>src/common/http_request.cpp\<close>: the parser of one header block of the dashboard's HTTP/1.1 surface.
  The loop over the header lines threads the record of what was seen. \<open>http_request_framed\<close> shows
  that an accepted block can be read in one way only: one host, no body, no transfer coding.
\<close>

definition kMaximumRequestBytes :: nat where "kMaximumRequestBytes = 16 * 1024"
definition kMaximumRequestLineBytes :: nat where "kMaximumRequestLineBytes = kMaximumRouteBytes + 32"
definition kMaximumHeaderCount :: nat where "kMaximumHeaderCount = 32"

abbreviation crlf :: string where
  "crlf \<equiv> [carriage_return, newline]"

definition isTokenCharacter :: "char \<Rightarrow> bool" where
  "isTokenCharacter c \<longleftrightarrow> is_digit c \<or> is_upper c \<or> is_lower c
     \<or> c = CHR ''!'' \<or> c = CHR ''#'' \<or> c = CHR ''$'' \<or> c = CHR ''%'' \<or> c = CHR ''&'' \<or> c = CHR 0x27
     \<or> c = CHR ''*'' \<or> c = CHR ''+'' \<or> c = CHR ''-'' \<or> c = CHR ''.'' \<or> c = CHR ''^'' \<or> c = CHR ''_''
     \<or> c = CHR 0x60 \<or> c = CHR ''|'' \<or> c = CHR ''~''"

definition equalsIgnoreCase :: "string \<Rightarrow> string \<Rightarrow> bool" where
  "equalsIgnoreCase left right \<longleftrightarrow> length left = length right \<and> list_all2 (\<lambda>l r. to_lower l = to_lower r) left right"

definition isSafeHeaderValue :: "string \<Rightarrow> bool" where
  "isSafeHeaderValue value \<longleftrightarrow> (\<forall>c \<in> set value. c = tab \<or> (0x20 \<le> byte c \<and> byte c \<noteq> 0x7F))"

definition trimOptionalWhitespace :: "string \<Rightarrow> string" where
  "trimOptionalWhitespace value =
     strip_right (\<lambda>c. c = CHR '' '' \<or> c = tab) (dropWhile (\<lambda>c. c = CHR '' '' \<or> c = tab) value)"

definition isSafeTarget :: "string \<Rightarrow> bool" where
  "isSafeTarget target \<longleftrightarrow>
     target \<noteq> [] \<and> length target \<le> kMaximumRouteBytes \<and> hd target = CHR ''/''
     \<and> (\<forall>c \<in> set target. 0x21 \<le> byte c \<and> byte c \<le> 0x7E \<and> byte c \<noteq> 0x5C \<and> c \<noteq> CHR ''#'' \<and> c \<noteq> CHR ''?'')
     \<and> (CHR ''%'' \<notin> set target \<or> rt_kind (parseHttpRoute target) \<noteq> kNotFound)"

text \<open>The byte loop; \<open>after_cr\<close> says whether the previous byte was a carriage return.\<close>

fun request_bytes_ok :: "bool \<Rightarrow> string \<Rightarrow> bool" where
  "request_bytes_ok after_cr [] = True"
| "request_bytes_ok after_cr (c # s) =
     (if c = carriage_return then (s \<noteq> [] \<and> hd s = newline) \<and> request_bytes_ok True s
      else if c = newline \<and> \<not> after_cr then False
      else if byte c < 0x20 \<and> c \<noteq> newline \<and> c \<noteq> tab then False
      else if byte c = 0x7F then False
      else request_bytes_ok False s)"

datatype HttpMethod = kGet | kHead | kPost

record HttpRequest =
  hr_method :: HttpMethod
  hr_target :: string
  hr_origin :: string
  hr_last_event_id :: string
  hr_host :: string

definition http_method :: "string \<Rightarrow> HttpMethod option" where
  "http_method t = (if t = ''GET'' then Some kGet else if t = ''HEAD'' then Some kHead
     else if t = ''POST'' then Some kPost else None)"

text \<open>The request line: method, target without query and fragment, version.\<close>

definition parse_request_line :: "string \<Rightarrow> (HttpMethod \<times> string) option" where
  "parse_request_line line =
     (case after CHR '' '' line of
        None \<Rightarrow> None
      | Some rest \<Rightarrow>
          (case after CHR '' '' rest of
             None \<Rightarrow> None
           | Some version \<Rightarrow>
               if CHR '' '' \<in> set version \<or> version \<noteq> ''HTTP/1.1'' then None
               else let target = takeWhile (\<lambda>c. c \<noteq> CHR ''?'' \<and> c \<noteq> CHR ''#'') (before CHR '' '' rest) in
                 if \<not> isSafeTarget target then None
                 else (case http_method (before CHR '' '' line) of None \<Rightarrow> None | Some m \<Rightarrow> Some (m, target))))"

text \<open>The state of the header loop.\<close>

record header_state =
  hs_host_seen :: bool
  hs_content_length_seen :: bool
  hs_origin :: string
  hs_last_event_id :: string
  hs_host :: string

definition header_name :: "string \<Rightarrow> string" where
  "header_name line = before CHR '':'' line"

definition header_value :: "string \<Rightarrow> string" where
  "header_value line = trimOptionalWhitespace (case after CHR '':'' line of None \<Rightarrow> [] | Some v \<Rightarrow> v)"

definition header_step :: "header_state \<Rightarrow> string \<Rightarrow> header_state option" where
  "header_step st line =
     (if CHR '':'' \<notin> set line \<or> header_name line = [] \<or> (\<exists>c \<in> set (header_name line). \<not> isTokenCharacter c) then None
      else let name = header_name line; value = header_value line in
        if \<not> isSafeHeaderValue value then None
        else if equalsIgnoreCase name ''host'' then
          (if hs_host_seen st \<or> value = [] then None else Some (st\<lparr>hs_host_seen := True, hs_host := value\<rparr>))
        else if equalsIgnoreCase name ''transfer-encoding'' then None
        else if equalsIgnoreCase name ''content-length'' then
          (if hs_content_length_seen st \<or> value = [] then None
           else if whole_number u64_max value \<noteq> Some 0 then None
           else Some (st\<lparr>hs_content_length_seen := True\<rparr>))
        else if equalsIgnoreCase name ''origin'' then Some (st\<lparr>hs_origin := value\<rparr>)
        else if equalsIgnoreCase name ''last-event-id'' then Some (st\<lparr>hs_last_event_id := value\<rparr>)
        else Some st)"

text \<open>The loop over the header lines, up to the empty line; \<open>n\<close> headers are read already.\<close>

function headers_from :: "nat \<Rightarrow> header_state \<Rightarrow> string \<Rightarrow> header_state option" where
  "headers_from n st rest =
     (if length rest \<le> 2 then Some st
      else case cut crlf rest of
          None \<Rightarrow> None
        | Some (line, rest') \<Rightarrow>
            if line = [] then None
            else if Suc n > kMaximumHeaderCount then None
            else (case header_step st line of
                None \<Rightarrow> None
              | Some st' \<Rightarrow> headers_from (Suc n) st' rest'))"
  by auto
termination
  by (relation "measure (\<lambda>(_, _, rest). length rest)") (auto dest!: cut_Some)

declare headers_from.simps [simp del]

definition no_headers :: header_state where
  "no_headers = \<lparr>hs_host_seen = False, hs_content_length_seen = False, hs_origin = [], hs_last_event_id = [], hs_host = []\<rparr>"

definition parseReadOnlyHttpRequest :: "string \<Rightarrow> HttpRequest option" where
  "parseReadOnlyHttpRequest request =
     (if length request < 4 \<or> length request > kMaximumRequestBytes
         \<or> drop (length request - 4) request \<noteq> crlf @ crlf
         \<or> map_option (\<lambda>(a, b). length a) (cut (crlf @ crlf) request) \<noteq> Some (length request - 4) then None
      else if \<not> request_bytes_ok False request then None
      else case cut crlf request of
          None \<Rightarrow> None
        | Some (line, rest) \<Rightarrow>
            if length line > kMaximumRequestLineBytes then None
            else (case parse_request_line line of
                None \<Rightarrow> None
              | Some (method, target) \<Rightarrow>
                  (case headers_from 0 no_headers rest of
                     None \<Rightarrow> None
                   | Some st \<Rightarrow>
                       if \<not> hs_host_seen st then None
                       else Some \<lparr>hr_method = method, hr_target = target, hr_origin = hs_origin st,
                              hr_last_event_id = hs_last_event_id st, hr_host = hs_host st\<rparr>)))"

section \<open>Framing\<close>

fun run_headers :: "header_state \<Rightarrow> string list \<Rightarrow> header_state option" where
  "run_headers st [] = Some st"
| "run_headers st (line # rest) = (case header_step st line of None \<Rightarrow> None | Some st' \<Rightarrow> run_headers st' rest)"

definition header_line :: "string \<Rightarrow> bool" where
  "header_line h \<longleftrightarrow> \<not> contains crlf h \<and> header_name h \<noteq> [] \<and> list_all isTokenCharacter (header_name h)"

lemma header_step_line: "header_step st h = Some st' \<Longrightarrow> header_name h \<noteq> [] \<and> list_all isTokenCharacter (header_name h)"
  by (auto simp: header_step_def list_all_iff split: if_splits)

lemma headers_from_lines:
  "headers_from n st rest = Some st' \<Longrightarrow>
     \<exists>hs rem. rest = concat (map (\<lambda>h. h @ crlf) hs) @ rem \<and> length rem \<le> 2 \<and> (hs = [] \<or> n + length hs \<le> kMaximumHeaderCount)
       \<and> list_all header_line hs \<and> run_headers st hs = Some st'"
proof (induction n st rest rule: headers_from.induct)
  case (1 n st rest)
  show ?case
  proof (cases "length rest \<le> 2")
    case True
    with "1.prems" show ?thesis by (intro exI [of _ "[]"] exI [of _ rest]) (simp add: headers_from.simps)
  next
    case False
    with "1.prems" obtain h r st1 where h: "cut crlf rest = Some (h, r)" "h \<noteq> []" "Suc n \<le> kMaximumHeaderCount"
      "header_step st h = Some st1" "headers_from (Suc n) st1 r = Some st'"
      by (subst (asm) headers_from.simps) (auto split: option.splits if_splits)
    with "1.IH" False obtain hs rem where hs: "r = concat (map (\<lambda>h. h @ crlf) hs) @ rem" "length rem \<le> 2"
      "hs = [] \<or> Suc n + length hs \<le> kMaximumHeaderCount" "list_all header_line hs" "run_headers st1 hs = Some st'"
      by (metis not_less)
    have "header_line h"
      using cut_first [OF h(1)] header_step_line [OF h(4)] by (simp add: header_line_def)
    then show ?thesis using cut_Some [OF h(1)] h hs
      by (intro exI [of _ "h # hs"] exI [of _ rem]) auto
  qed
qed

lemma header_line_nonempty: "header_line h \<Longrightarrow> h \<noteq> []"
  by (auto simp: header_line_def header_name_def before_def)

text \<open>What is left after the headers is the empty line, because the block ends with one.\<close>

lemma block_tail:
  assumes "a @ crlf @ rem = r @ crlf @ crlf" "length rem \<le> 2" "\<not> ends_with a crlf"
  shows "rem = crlf"
proof -
  consider "rem = []" | x where "rem = [x]" | x y where "rem = [x, y]"
    using assms(2) by (cases rem; cases "tl rem"; cases "tl (tl rem)") auto
  then show ?thesis
  proof cases
    case 1
    with assms(1) have "a @ crlf = (r @ crlf) @ crlf" by simp
    then have "a = r @ crlf" by (simp only: append_same_eq)
    with assms(3) show ?thesis by (simp add: ends_with_iff)
  next
    case 2
    with assms(1) have "rev (a @ crlf @ [x]) = rev (r @ crlf @ crlf)" by simp
    then show ?thesis by simp
  next
    case 3
    with assms(1) have "rev (a @ crlf @ [x, y]) = rev (r @ crlf @ crlf)" by simp
    with 3 show ?thesis by simp
  qed
qed

lemma ends_crlf_line:
  assumes "\<not> contains crlf l" "l \<noteq> []" "p = [] \<or> last p = newline"
  shows "\<not> ends_with (p @ l) crlf"
proof
  assume "ends_with (p @ l) crlf"
  then obtain r where r: "p @ l = r @ crlf" by (auto simp: ends_with_iff)
  from assms(2) obtain l' x where l: "l = l' @ [x]" by (cases l rule: rev_cases) auto
  have "(p @ l') @ [x] = (r @ [carriage_return]) @ [newline]" using r unfolding l by simp
  then have x: "x = newline" "p @ l' = r @ [carriage_return]" by (simp_all only: append1_eq_conv)
  show False
  proof (cases l' rule: rev_cases)
    case Nil
    with x(2) have "p = r @ [carriage_return]" by simp
    with assms(3) show ?thesis by simp
  next
    case (snoc l'' y)
    with x(2) have "(p @ l'') @ [y] = r @ [carriage_return]" by simp
    then have "y = carriage_return" by (simp only: append1_eq_conv)
    with snoc x(1) have "l = l'' @ crlf @ []" using l by simp
    with assms(1) show ?thesis unfolding contains_iff by blast
  qed
qed

lemma equalsIgnoreCase_length: "equalsIgnoreCase a b \<Longrightarrow> length a = length b"
  by (simp add: equalsIgnoreCase_def)

definition named :: "string \<Rightarrow> string \<Rightarrow> bool" where
  "named n h \<longleftrightarrow> equalsIgnoreCase (header_name h) n"

lemma named_disjoint:
  "named ''host'' h \<Longrightarrow> \<not> named ''content-length'' h" "named ''host'' h \<Longrightarrow> \<not> named ''transfer-encoding'' h"
  "named ''content-length'' h \<Longrightarrow> \<not> named ''transfer-encoding'' h"
  unfolding named_def by (auto dest!: equalsIgnoreCase_length)

lemma header_step_cases:
  assumes "header_step st h = Some st'"
  shows "\<not> named ''transfer-encoding'' h"
    and "named ''host'' h \<Longrightarrow> \<not> hs_host_seen st \<and> hs_host_seen st' \<and> hs_host st' = header_value h \<and> hs_host st' \<noteq> []
      \<and> hs_content_length_seen st' = hs_content_length_seen st"
    and "named ''content-length'' h \<Longrightarrow> \<not> hs_content_length_seen st \<and> hs_content_length_seen st'
      \<and> whole_number u64_max (header_value h) = Some 0 \<and> hs_host_seen st' = hs_host_seen st \<and> hs_host st' = hs_host st"
    and "\<not> named ''host'' h \<Longrightarrow> hs_host_seen st' = hs_host_seen st \<and> hs_host st' = hs_host st"
    and "\<not> named ''content-length'' h \<Longrightarrow> hs_content_length_seen st' = hs_content_length_seen st"
  using assms named_disjoint [of h] unfolding header_step_def Let_def named_def
  by (auto split: if_splits)

lemma run_headers_content_length:
  "run_headers st hs = Some st' \<Longrightarrow> list_all (\<lambda>h. whole_number u64_max (header_value h) = Some 0) (filter (named ''content-length'') hs)
     \<and> length (filter (named ''content-length'') hs) \<le> (if hs_content_length_seen st then 0 else 1)
     \<and> filter (named ''transfer-encoding'') hs = []"
proof (induction hs arbitrary: st)
  case (Cons h hs)
  then obtain st1 where h: "header_step st h = Some st1" "run_headers st1 hs = Some st'"
    by (auto split: option.splits)
  with Cons.IH [OF h(2)] header_step_cases [OF h(1)] show ?case
    by (cases "named ''content-length'' h") (auto split: if_splits)
qed simp

lemma run_headers_host:
  "run_headers st hs = Some st' \<Longrightarrow> (if hs_host_seen st then filter (named ''host'') hs = [] \<and> hs_host_seen st' \<and> hs_host st' = hs_host st
     else if hs_host_seen st' then map header_value (filter (named ''host'') hs) = [hs_host st'] \<and> hs_host st' \<noteq> []
     else filter (named ''host'') hs = [])"
proof (induction hs arbitrary: st)
  case (Cons h hs)
  then obtain st1 where h: "header_step st h = Some st1" "run_headers st1 hs = Some st'"
    by (auto split: option.splits)
  with Cons.IH [OF h(2)] header_step_cases [OF h(1)] show ?case
    by (cases "named ''host'' h") (auto split: if_splits)
qed simp

text \<open>
  C30: an accepted request is framed in one way: it is its request line, at most 32 header lines and
  the empty line, with nothing after it; it names exactly one host, which is the one reported; it has
  no transfer coding; and it declares no content length other than zero, and none twice. So no part
  of an accepted request can be taken for the body or for a second request.
\<close>

theorem http_request_framed:
  assumes "parseReadOnlyHttpRequest request = Some r"
  shows "\<exists>line headers. request = line @ crlf @ concat (map (\<lambda>h. h @ crlf) headers) @ crlf
    \<and> parse_request_line line = Some (hr_method r, hr_target r)
    \<and> length headers \<le> kMaximumHeaderCount \<and> list_all header_line headers
    \<and> map header_value (filter (named ''host'') headers) = [hr_host r] \<and> hr_host r \<noteq> []
    \<and> filter (named ''transfer-encoding'') headers = []
    \<and> length (filter (named ''content-length'') headers) \<le> 1
    \<and> list_all (\<lambda>h. whole_number u64_max (header_value h) = Some 0) (filter (named ''content-length'') headers)"
proof -
  from assms obtain line rest st where p: "drop (length request - 4) request = crlf @ crlf"
    "cut crlf request = Some (line, rest)" "parse_request_line line = Some (hr_method r, hr_target r)"
    "headers_from 0 no_headers rest = Some st" "hs_host_seen st" "hr_host r = hs_host st"
    by (auto simp: parseReadOnlyHttpRequest_def split: option.splits if_splits)
  from headers_from_lines [OF p(4)] obtain hs rem where h: "rest = concat (map (\<lambda>h. h @ crlf) hs) @ rem"
    "length rem \<le> 2" "hs = [] \<or> length hs \<le> kMaximumHeaderCount" "list_all header_line hs" "run_headers no_headers hs = Some st"
    by auto
  have line: "line \<noteq> []" using p(3) by (auto simp: parse_request_line_def after_def)
  note req = cut_Some [OF p(2)]
  have "request = take (length request - 4) request @ crlf @ crlf" by (metis append_take_drop_id p(1))
  moreover have "\<exists>a. request = a @ crlf @ rem \<and> \<not> ends_with a crlf"
  proof (cases hs rule: rev_cases)
    case Nil
    then have "request = line @ crlf @ rem" using req h(1) by simp
    moreover have "\<not> ends_with line crlf" using ends_crlf_line [of line "[]"] cut_first [OF p(2)] line by simp
    ultimately show ?thesis by blast
  next
    case (snoc hs' l)
    let ?p = "line @ crlf @ concat (map (\<lambda>h. h @ crlf) hs')"
    have "request = (?p @ l) @ crlf @ rem" using req h(1) snoc by simp
    moreover have "last ?p = newline"
      by (cases hs' rule: rev_cases) simp_all
    then have "\<not> ends_with (?p @ l) crlf"
      using h(4) snoc header_line_nonempty [of l] by (intro ends_crlf_line) (simp_all add: header_line_def)
    ultimately show ?thesis by blast
  qed
  ultimately have "rem = crlf" using block_tail [OF _ h(2)] by metis
  then have "request = line @ crlf @ concat (map (\<lambda>h. h @ crlf) hs) @ crlf" using req h(1) by simp
  moreover have "map header_value (filter (named ''host'') hs) = [hr_host r] \<and> hr_host r \<noteq> []"
    using run_headers_host [OF h(5)] p(5,6) by (simp add: no_headers_def)
  moreover have "length hs \<le> kMaximumHeaderCount" using h(3) by auto
  ultimately show ?thesis
    using run_headers_content_length [OF h(5)] p(3) h(4)
    by (intro exI [of _ line] exI [of _ hs]) (simp add: no_headers_def)
qed

definition sample_http :: string where
  "sample_http = ''POST /project/demo/ci/r-1/cancel?x=1 HTTP/1.1'' @ crlf @ ''Host: git.example:8080'' @ crlf @ ''Origin: http://git.example:8080'' @ crlf @ crlf"

lemma sample_http_parsed:
  "parseReadOnlyHttpRequest sample_http = Some \<lparr>hr_method = kPost, hr_target = ''/project/demo/ci/r-1/cancel'',
     hr_origin = ''http://git.example:8080'', hr_last_event_id = [], hr_host = ''git.example:8080''\<rparr>"
  by code_simp

theorem http_request_framed_witness:
  "\<exists>line headers. sample_http = line @ crlf @ concat (map (\<lambda>h. h @ crlf) headers) @ crlf
    \<and> parse_request_line line = Some (kPost, ''/project/demo/ci/r-1/cancel'')
    \<and> length headers \<le> kMaximumHeaderCount \<and> list_all header_line headers
    \<and> map header_value (filter (named ''host'') headers) = [''git.example:8080''] \<and> ''git.example:8080'' \<noteq> []
    \<and> filter (named ''transfer-encoding'') headers = []
    \<and> length (filter (named ''content-length'') headers) \<le> 1
    \<and> list_all (\<lambda>h. whole_number u64_max (header_value h) = Some 0) (filter (named ''content-length'') headers)"
  using http_request_framed [OF sample_http_parsed] by simp

text \<open>
  A \<open>POST\<close> without any \<open>Content-Length\<close> is accepted, although the comment on the parser says that one
  must be declared.
\<close>

lemma post_without_content_length:
  "parseReadOnlyHttpRequest (''POST / HTTP/1.1'' @ crlf @ ''Host: a'' @ crlf @ crlf)
     = Some \<lparr>hr_method = kPost, hr_target = ''/'', hr_origin = [], hr_last_event_id = [], hr_host = ''a''\<rparr>"
  by code_simp

end
