(* ===== verification/Ck_Ci_Records.thy ===== *)
theory Ck_Ci_Records
  imports Ck_Ci_Types
begin

text \<open>
  The on-disk records of \<open>src/common/ci_store.cpp\<close>: jobs, runs, artifacts, releases, leases and
  runners, each with its serializer and its strict parser. Parsers of jobs and runs read every
  earlier schema version. The property of each record is that rewriting what was read keeps it:
  \<open>job_record_kept\<close> and \<open>run_record_kept\<close>.
\<close>

section \<open>Lines and fields\<close>

abbreviation store_fail :: "string \<Rightarrow> 'a result" where
  "store_fail m \<equiv> Inl (Runtime_Error (''ci store: '' @ m))"

definition unlines :: "string list \<Rightarrow> string" where
  "unlines ls = concat (map (\<lambda>l. l @ [newline]) ls)"

definition frame :: "string \<Rightarrow> string list result" where
  "frame content =
     (if content = [] \<or> last content \<noteq> newline then store_fail ''a CI record has invalid framing''
      else Inr (butlast (split_on newline content)))"

definition expectField :: "string \<Rightarrow> string \<Rightarrow> string result" where
  "expectField line key =
     (if \<not> starts_with line key then store_fail ''a CI record field is out of order or missing''
      else Inr (drop (length key) line))"

definition fromHex :: "string \<Rightarrow> nat \<Rightarrow> string result" where
  "fromHex token cap = (case hexDecode token cap of None \<Rightarrow> store_fail ''a CI field is not valid hex'' | Some d \<Rightarrow> Inr d)"

definition parseEpoch :: "string \<Rightarrow> nat result" where
  "parseEpoch t = (case whole_number u64_max t of None \<Rightarrow> store_fail ''a CI timestamp is malformed'' | Some n \<Rightarrow> Inr n)"

lemma unlines_simps [simp]: "unlines [] = []" "unlines (l # ls) = l @ newline # unlines ls"
  by (simp_all add: unlines_def)

lemma unlines_append [simp]: "unlines (a @ b) = unlines a @ unlines b"
  by (simp add: unlines_def)

lemma unlines_last: "ls \<noteq> [] \<Longrightarrow> unlines ls \<noteq> [] \<and> last (unlines ls) = newline"
proof (induction ls)
  case (Cons l ls)
  then show ?case by (cases ls) auto
qed simp

lemma split_unlines: "\<forall>l \<in> set ls. newline \<notin> set l \<Longrightarrow> split_on newline (unlines ls) = ls @ [[]]"
  by (induction ls) (simp_all add: split_on_append)

text \<open>What a serializer has written as lines is read back as these lines.\<close>

lemma frame_unlines: "ls \<noteq> [] \<Longrightarrow> \<forall>l \<in> set ls. newline \<notin> set l \<Longrightarrow> frame (unlines ls) = Inr ls"
  using unlines_last [of ls] split_unlines [of ls] by (simp add: frame_def)

lemma expectField_append [simp]: "expectField (key @ v) key = Inr v"
  by (simp add: expectField_def)

lemma expectField_Inr [result_simps]: "expectField line key = Inr v \<longleftrightarrow> line = key @ v"
  unfolding expectField_def using starts_with_drop [of line key] by auto

lemma fromHex_hexEncode [simp]: "length d \<le> cap \<Longrightarrow> fromHex (hexEncode d) cap = Inr d"
  by (simp add: fromHex_def)

lemma fromHex_Inr: "fromHex t cap = Inr d \<Longrightarrow> length d \<le> cap"
  by (auto simp: fromHex_def dest: hexDecode_Some split: option.splits)

lemma parseEpoch_to_dec [simp]: "n \<le> u64_max \<Longrightarrow> parseEpoch (to_dec n) = Inr n"
  by (simp add: parseEpoch_def)

lemma parseEpoch_Inr: "parseEpoch t = Inr n \<Longrightarrow> n \<le> u64_max"
  by (auto simp: parseEpoch_def whole_number_iff split: option.splits)

text \<open>The printed and parsed \<open>int\<close> of an exit code.\<close>

definition int_to_dec :: "int \<Rightarrow> string" where
  "int_to_dec i = (if i < 0 then CHR ''-'' # to_dec (nat (- i)) else to_dec (nat i))"

definition int_from_chars :: "string \<Rightarrow> int option" where
  "int_from_chars s =
     (if s \<noteq> [] \<and> hd s = CHR ''-'' then map_option (\<lambda>n. - int n) (whole_number 2147483648 (tl s))
      else map_option int (whole_number 2147483647 s))"

lemma int_from_chars_to_dec:
  assumes "- 2147483648 \<le> i" "i \<le> 2147483647"
  shows "int_from_chars (int_to_dec i) = Some i"
proof (cases "i < 0")
  case True
  then show ?thesis using assms by (simp add: int_from_chars_def int_to_dec_def)
next
  case False
  have "to_dec (nat i) \<noteq> [] \<and> hd (to_dec (nat i)) \<noteq> CHR ''-''"
    by (metis to_dec_nonempty hd_in_set to_dec_no(4))
  with False show ?thesis using assms by (simp add: int_from_chars_def int_to_dec_def)
qed

lemma int_from_chars_range: "int_from_chars s = Some i \<Longrightarrow> - 2147483648 \<le> i \<and> i \<le> 2147483647"
  by (auto simp: int_from_chars_def whole_number_iff split: if_splits)

lemma int_to_dec_no [simp]: "CHR '','' \<notin> set (int_to_dec i)" "newline \<notin> set (int_to_dec i)"
  by (simp_all add: int_to_dec_def)

section \<open>Jobs\<close>

record CiJobRequest =
  jb_job_id :: string
  jb_project_name :: string
  jb_ref :: string
  jb_commit_id :: string
  jb_client_id :: string
  jb_queued_epoch_seconds :: nat
  jb_attempt :: nat
  jb_runs_on :: "string list"
  jb_auto_cancel :: bool
  jb_parent_run_id :: string
  jb_workflow_job :: string
  jb_needs :: "string list"
  jb_dependency_lock_sha256 :: string

definition kMaximumCiJobs :: nat where "kMaximumCiJobs = 64"

definition validJobMembership :: "string \<Rightarrow> string \<Rightarrow> string \<Rightarrow> bool" where
  "validJobMembership ident parent name \<longleftrightarrow>
     (parent = [] \<and> name = []) \<or> (isValidCiId parent \<and> parent \<noteq> ident \<and> isValidCiArtifactName name)"

definition validDependencies :: "CiJobRequest \<Rightarrow> bool" where
  "validDependencies job \<longleftrightarrow>
     validJobMembership (jb_job_id job) (jb_parent_run_id job) (jb_workflow_job job)
     \<and> (jb_dependency_lock_sha256 job = [] \<or> isValidSha256Hex (jb_dependency_lock_sha256 job))
     \<and> length (jb_needs job) \<le> kMaximumCiJobs
     \<and> \<not> (jb_parent_run_id job = [] \<and> jb_needs job \<noteq> [])
     \<and> list_all (\<lambda>i. isValidCiId i \<and> i \<noteq> jb_job_id job \<and> i \<noteq> jb_parent_run_id job) (jb_needs job)
     \<and> distinct (jb_needs job)"

definition dependencyList :: "string list \<Rightarrow> string" where
  "dependencyList ids = foldl (\<lambda>out i. out @ (if out = [] then [] else '','') @ i) [] ids"

text \<open>The loop of \<open>parseDependencies\<close>; \<open>n\<close> ids are read already.\<close>

function dependencies_from :: "nat \<Rightarrow> string \<Rightarrow> string list result" where
  "dependencies_from n t =
     (if t = [] then Inr []
      else if \<not> isValidCiId (before CHR '','' t) \<or> n \<ge> kMaximumCiJobs then store_fail ''invalid dependency IDs''
      else case after CHR '','' t of
          None \<Rightarrow> Inr [before CHR '','' t]
        | Some rest \<Rightarrow>
            if rest = [] then store_fail ''empty dependency ID''
            else (case dependencies_from (Suc n) rest of Inl e \<Rightarrow> Inl e | Inr ids \<Rightarrow> Inr (before CHR '','' t # ids)))"
  by auto
termination by (relation "measure (\<lambda>(_, t). length t)") (auto dest: after_length)

declare dependencies_from.simps [simp del]

definition parseDependencies :: "string \<Rightarrow> string list result" where
  "parseDependencies t = dependencies_from 0 t"

definition job_lines :: "CiJobRequest \<Rightarrow> string list" where
  "job_lines job =
     [(if jb_dependency_lock_sha256 job = [] then ''schema_version=5'' else ''schema_version=6''),
      ''job_id='' @ jb_job_id job,
      ''project='' @ jb_project_name job,
      ''ref_hex='' @ hexEncode (jb_ref job),
      ''commit='' @ jb_commit_id job,
      ''client_id='' @ jb_client_id job,
      ''queued_epoch='' @ to_dec (jb_queued_epoch_seconds job),
      ''attempt='' @ to_dec (jb_attempt job),
      ''runs_on='' @ formatCiLabelList (jb_runs_on job),
      ''auto_cancel='' @ (if jb_auto_cancel job then ''true'' else ''false''),
      ''parent_run_id='' @ jb_parent_run_id job,
      ''workflow_job='' @ jb_workflow_job job,
      ''needs='' @ dependencyList (jb_needs job)]
     @ (if jb_dependency_lock_sha256 job = [] then [] else [''dependency_lock_sha256='' @ jb_dependency_lock_sha256 job])"

definition serializeJob :: "CiJobRequest \<Rightarrow> string" where
  "serializeJob job = unlines (job_lines job)"

text \<open>The schema version, when the record has the number of lines of that version.\<close>

definition job_version :: "string list \<Rightarrow> nat option" where
  "job_version lines =
     (if lines ! 0 = ''schema_version=6'' \<and> length lines = 14 then Some 6
      else if lines ! 0 = ''schema_version=5'' \<and> length lines = 13 then Some 5
      else if lines ! 0 = ''schema_version=4'' \<and> length lines = 10 then Some 4
      else if lines ! 0 = ''schema_version=3'' \<and> length lines = 9 then Some 3
      else if lines ! 0 = ''schema_version=2'' \<and> length lines = 8 then Some 2
      else if lines ! 0 = ''schema_version=1'' \<and> length lines = 7 then Some 1
      else None)"

definition parse_attempt :: "string \<Rightarrow> string \<Rightarrow> nat result" where
  "parse_attempt line what =
     bindE (expectField line ''attempt='') (\<lambda>v. bindE (parseEpoch v) (\<lambda>attempt.
       if attempt < 1 \<or> attempt > 1000 then store_fail what else Inr attempt))"

definition parse_flag :: "string \<Rightarrow> string \<Rightarrow> bool result" where
  "parse_flag flag what = (if flag \<noteq> ''true'' \<and> flag \<noteq> ''false'' then store_fail what else Inr (flag = ''true''))"

definition parse_labels :: "string \<Rightarrow> string \<Rightarrow> string list result" where
  "parse_labels v what = (case parseCiLabelList v of None \<Rightarrow> store_fail what | Some ls \<Rightarrow> Inr ls)"

definition job_fields_valid :: "CiJobRequest \<Rightarrow> bool" where
  "job_fields_valid job \<longleftrightarrow> validDependencies job \<and> isValidCiId (jb_job_id job)
     \<and> isValidProjectName (jb_project_name job) \<and> isValidClientId (jb_client_id job)
     \<and> isValidObjectId (jb_commit_id job)"

definition parseJob :: "string \<Rightarrow> CiJobRequest result" where
  "parseJob content =
     bindE (frame content) (\<lambda>lines.
     case job_version lines of
       None \<Rightarrow> store_fail ''a CI job record has the wrong shape''
     | Some v \<Rightarrow>
     bindE (expectField (lines ! 1) ''job_id='') (\<lambda>job_id.
     bindE (expectField (lines ! 2) ''project='') (\<lambda>project.
     bindE (expectField (lines ! 3) ''ref_hex='') (\<lambda>ref_hex.
     bindE (fromHex ref_hex 512) (\<lambda>ref.
     bindE (expectField (lines ! 4) ''commit='') (\<lambda>commit.
     bindE (expectField (lines ! 5) ''client_id='') (\<lambda>client.
     bindE (expectField (lines ! 6) ''queued_epoch='') (\<lambda>queued_text.
     bindE (parseEpoch queued_text) (\<lambda>queued.
     bindE (if v \<ge> 2 then parse_attempt (lines ! 7) ''a CI job record has an invalid attempt'' else Inr 1) (\<lambda>attempt.
     bindE (if v \<ge> 3 then bindE (expectField (lines ! 8) ''runs_on='') (\<lambda>t.
              parse_labels t ''a CI job record has invalid runs_on labels'') else Inr []) (\<lambda>runs_on.
     bindE (if v \<ge> 4 then bindE (expectField (lines ! 9) ''auto_cancel='') (\<lambda>t.
              parse_flag t ''invalid auto_cancel policy'') else Inr True) (\<lambda>auto_cancel.
     bindE (if v \<ge> 5 then expectField (lines ! 10) ''parent_run_id='' else Inr []) (\<lambda>parent.
     bindE (if v \<ge> 5 then expectField (lines ! 11) ''workflow_job='' else Inr []) (\<lambda>workflow_job.
     bindE (if v \<ge> 5 then bindE (expectField (lines ! 12) ''needs='') parseDependencies else Inr []) (\<lambda>needs.
     bindE (if v \<ge> 6 then bindE (expectField (lines ! 13) ''dependency_lock_sha256='') (\<lambda>t.
              if \<not> isValidSha256Hex t then store_fail ''invalid dependency lock identity'' else Inr t) else Inr []) (\<lambda>lock.
     let job = \<lparr>jb_job_id = job_id, jb_project_name = project, jb_ref = ref, jb_commit_id = commit,
                jb_client_id = client, jb_queued_epoch_seconds = queued, jb_attempt = attempt,
                jb_runs_on = runs_on, jb_auto_cancel = auto_cancel, jb_parent_run_id = parent,
                jb_workflow_job = workflow_job, jb_needs = needs, jb_dependency_lock_sha256 = lock\<rparr>
     in if \<not> job_fields_valid job then store_fail ''a CI job record contains invalid data''
        else Inr job))))))))))))))))"

section \<open>A job that is read is kept by rewriting it\<close>

definition job_storable :: "CiJobRequest \<Rightarrow> bool" where
  "job_storable job \<longleftrightarrow> job_fields_valid job \<and> length (jb_ref job) \<le> 512
     \<and> jb_queued_epoch_seconds job \<le> u64_max \<and> 1 \<le> jb_attempt job \<and> jb_attempt job \<le> 1000
     \<and> canonical_labels (jb_runs_on job)"

lemma foldl_join:
  "t \<noteq> [] \<Longrightarrow> foldl (\<lambda>out i. out @ (if out = [] then [] else '','') @ i) t ls = join CHR '','' (t # ls)"
proof (induction ls arbitrary: t)
  case (Cons l ls)
  then show ?case using Cons.IH [of "t @ CHR '','' # l"] by (cases ls) simp_all
qed simp

lemma dependencyList_join: "list_all isValidCiId ids \<Longrightarrow> dependencyList ids = join CHR '','' ids"
  by (cases ids) (auto simp: dependencyList_def foldl_join isValidCiId_def)

lemma dependencies_from_join:
  "list_all isValidCiId ids \<Longrightarrow> n + length ids \<le> kMaximumCiJobs \<Longrightarrow> dependencies_from n (join CHR '','' ids) = Inr ids"
proof (induction ids arbitrary: n)
  case Nil
  then show ?case by (simp add: dependencies_from.simps)
next
  case (Cons i ids)
  then have i: "isValidCiId i" "CHR '','' \<notin> set i" "i \<noteq> []" using plain_ci_id by (auto simp: isValidCiId_def)
  show ?case
  proof (cases ids)
    case Nil
    with i Cons.prems show ?thesis by (simp add: dependencies_from.simps [of _ i])
  next
    case (Cons j js)
    then have "isValidCiId j" using Cons.prems by simp
    then have "join CHR '','' ids \<noteq> []" unfolding Cons by (intro join_nonempty) (auto simp: isValidCiId_def)
    then show ?thesis using i Cons Cons.prems Cons.IH [of "Suc n"]
      by (simp add: dependencies_from.simps [of _ "i @ CHR '','' # _"])
  qed
qed

lemma dependencies_from_Inr: "dependencies_from n t = Inr ids \<Longrightarrow> list_all isValidCiId ids \<and> (ids = [] \<or> n + length ids \<le> kMaximumCiJobs)"
proof (induction n t arbitrary: ids rule: dependencies_from.induct)
  case (1 n t)
  from "1.prems" show ?case
    by (subst (asm) dependencies_from.simps) (auto split: if_splits option.splits sum.splits dest!: "1.IH")
qed

lemma formatCiLabelList_chars:
  assumes "canonical_labels ls"
  shows "newline \<notin> set (formatCiLabelList ls)"
proof -
  have v: "list_all isValidCiLabel ls" using assms by (simp add: canonical_labels_def)
  then have "\<forall>l \<in> set ls. newline \<notin> set l" using plain_label plain_no(3) by (auto simp: list_all_iff)
  then show ?thesis using set_join [of "CHR '',''" ls] unfolding formatCiLabelList_join [OF v] by auto
qed

lemma dependencyList_chars:
  assumes "list_all isValidCiId ids"
  shows "newline \<notin> set (dependencyList ids)"
proof -
  have "\<forall>l \<in> set ids. newline \<notin> set l" using assms plain_ci_id plain_no(3) by (auto simp: list_all_iff)
  then show ?thesis using set_join [of "CHR '',''" ids] unfolding dependencyList_join [OF assms] by auto
qed

lemma membership_plain: "validJobMembership i p n \<Longrightarrow> newline \<notin> set p \<and> newline \<notin> set n"
  using plain_ci_id plain_artifact_name plain_no(3) by (auto simp: validJobMembership_def)

lemma job_lines_no_newline:
  assumes "job_storable job"
  shows "\<forall>l \<in> set (job_lines job). newline \<notin> set l"
proof -
  have v: "validJobMembership (jb_job_id job) (jb_parent_run_id job) (jb_workflow_job job)"
    "list_all isValidCiId (jb_needs job)"
    "jb_dependency_lock_sha256 job = [] \<or> isValidSha256Hex (jb_dependency_lock_sha256 job)"
    "isValidCiId (jb_job_id job)" "isValidProjectName (jb_project_name job)" "isValidClientId (jb_client_id job)"
    "isValidObjectId (jb_commit_id job)" "canonical_labels (jb_runs_on job)"
    using assms by (auto simp: job_storable_def job_fields_valid_def validDependencies_def list_all_iff)
  have "newline \<notin> set (jb_job_id job)" "newline \<notin> set (jb_project_name job)" "newline \<notin> set (jb_client_id job)"
    "newline \<notin> set (jb_commit_id job)" "newline \<notin> set (jb_dependency_lock_sha256 job)"
    using v(3-7) plain_ci_id plain_project plain_client plain_object plain_sha256 plain_no(3) by fastforce+
  then show ?thesis
    using membership_plain [OF v(1)] dependencyList_chars [OF v(2)] formatCiLabelList_chars [OF v(8)]
    by (simp add: job_lines_def)
qed

lemma job_roundtrip:
  assumes "job_storable job"
  shows "parseJob (serializeJob job) = Inr job"
proof -
  have f: "frame (serializeJob job) = Inr (job_lines job)"
    unfolding serializeJob_def using job_lines_no_newline [OF assms] by (intro frame_unlines) (simp add: job_lines_def)
  have labels: "parseCiLabelList (formatCiLabelList (jb_runs_on job)) = Some (jb_runs_on job)"
    using assms by (intro labels.dec_enc) (simp add: job_storable_def)
  have v: "job_fields_valid job" "length (jb_ref job) \<le> 512" "jb_queued_epoch_seconds job \<le> u64_max"
    "1 \<le> jb_attempt job" "jb_attempt job \<le> 1000" using assms by (simp_all add: job_storable_def)
  then have "list_all isValidCiId (jb_needs job)" "length (jb_needs job) \<le> kMaximumCiJobs"
    by (auto simp: job_fields_valid_def validDependencies_def list_all_iff)
  then have needs: "parseDependencies (dependencyList (jb_needs job)) = Inr (jb_needs job)"
    by (simp add: parseDependencies_def dependencyList_join dependencies_from_join)
  have attempt: "parse_attempt (''attempt='' @ to_dec (jb_attempt job)) w = Inr (jb_attempt job)" for w
    using v(4,5) by (simp only: parse_attempt_def expectField_append) (simp add: u64_max_def)
  have flag: "parse_flag (if b then ''true'' else ''false'') w = Inr b" for b w by (simp add: parse_flag_def)
  have rebuilt: "l = jb_dependency_lock_sha256 job \<Longrightarrow> \<lparr>jb_job_id = jb_job_id job, jb_project_name = jb_project_name job,
      jb_ref = jb_ref job, jb_commit_id = jb_commit_id job, jb_client_id = jb_client_id job,
      jb_queued_epoch_seconds = jb_queued_epoch_seconds job, jb_attempt = jb_attempt job, jb_runs_on = jb_runs_on job,
      jb_auto_cancel = jb_auto_cancel job, jb_parent_run_id = jb_parent_run_id job, jb_workflow_job = jb_workflow_job job,
      jb_needs = jb_needs job, jb_dependency_lock_sha256 = l\<rparr> = job" for l
    by simp
  show ?thesis
  proof (cases "jb_dependency_lock_sha256 job = []")
    case True
    then have lines: "job_version (job_lines job) = Some 5" "job_lines job ! 1 = ''job_id='' @ jb_job_id job"
      "job_lines job ! 2 = ''project='' @ jb_project_name job" "job_lines job ! 3 = ''ref_hex='' @ hexEncode (jb_ref job)"
      "job_lines job ! 4 = ''commit='' @ jb_commit_id job" "job_lines job ! 5 = ''client_id='' @ jb_client_id job"
      "job_lines job ! 6 = ''queued_epoch='' @ to_dec (jb_queued_epoch_seconds job)"
      "job_lines job ! 7 = ''attempt='' @ to_dec (jb_attempt job)"
      "job_lines job ! 8 = ''runs_on='' @ formatCiLabelList (jb_runs_on job)"
      "job_lines job ! 9 = ''auto_cancel='' @ (if jb_auto_cancel job then ''true'' else ''false'')"
      "job_lines job ! 10 = ''parent_run_id='' @ jb_parent_run_id job"
      "job_lines job ! 11 = ''workflow_job='' @ jb_workflow_job job"
      "job_lines job ! 12 = ''needs='' @ dependencyList (jb_needs job)"
      by (simp_all add: job_lines_def job_version_def)
    show ?thesis
      unfolding parseJob_def f lines bindE_Inr option.case expectField_append fromHex_hexEncode [OF v(2)]
        parseEpoch_to_dec [OF v(3)] attempt
      using v(1) True by (simp add: parse_labels_def labels flag needs rebuilt Let_def)
  next
    case False
    then have lines: "job_version (job_lines job) = Some 6" "job_lines job ! 1 = ''job_id='' @ jb_job_id job"
      "job_lines job ! 2 = ''project='' @ jb_project_name job" "job_lines job ! 3 = ''ref_hex='' @ hexEncode (jb_ref job)"
      "job_lines job ! 4 = ''commit='' @ jb_commit_id job" "job_lines job ! 5 = ''client_id='' @ jb_client_id job"
      "job_lines job ! 6 = ''queued_epoch='' @ to_dec (jb_queued_epoch_seconds job)"
      "job_lines job ! 7 = ''attempt='' @ to_dec (jb_attempt job)"
      "job_lines job ! 8 = ''runs_on='' @ formatCiLabelList (jb_runs_on job)"
      "job_lines job ! 9 = ''auto_cancel='' @ (if jb_auto_cancel job then ''true'' else ''false'')"
      "job_lines job ! 10 = ''parent_run_id='' @ jb_parent_run_id job"
      "job_lines job ! 11 = ''workflow_job='' @ jb_workflow_job job"
      "job_lines job ! 12 = ''needs='' @ dependencyList (jb_needs job)"
      "job_lines job ! 13 = ''dependency_lock_sha256='' @ jb_dependency_lock_sha256 job"
      by (simp_all add: job_lines_def job_version_def)
    have "isValidSha256Hex (jb_dependency_lock_sha256 job)"
      using v(1) False by (auto simp: job_fields_valid_def validDependencies_def)
    then show ?thesis
      unfolding parseJob_def f lines bindE_Inr option.case expectField_append fromHex_hexEncode [OF v(2)]
        parseEpoch_to_dec [OF v(3)] attempt
      using v(1) False by (simp add: parse_labels_def labels flag needs rebuilt Let_def)
  qed
qed

lemma parse_labels_canonical: "parse_labels t w = Inr ls \<Longrightarrow> canonical_labels ls"
  by (auto simp: parse_labels_def canonical_labels_def dest: parseCiLabelList_Some split: option.splits)

lemma parse_attempt_range: "parse_attempt l w = Inr n \<Longrightarrow> 1 \<le> n \<and> n \<le> 1000"
  by (auto simp: parse_attempt_def result_simps split: if_splits)

lemma parseJob_storable:
  assumes "parseJob content = Inr job"
  shows "job_storable job"
proof -
  from assms obtain lines v where v: "frame content = Inr lines" "job_version lines = Some v"
    by (auto simp: parseJob_def result_simps split: option.splits)
  from assms show ?thesis
    unfolding parseJob_def v bindE_Inr option.case Let_def
    by (elim bindE_eq_Inr [THEN iffD1, THEN exE] conjE, simp split: if_splits)
      (auto simp: job_storable_def result_simps canonical_labels_def
       dest: fromHex_Inr parseEpoch_Inr parse_attempt_range parse_labels_canonical split: if_splits)
qed

text \<open>
  A job record that can be read, of whatever schema version, is rewritten in the current version
  without loss: reading the rewritten record gives the same job.
\<close>

theorem job_record_kept:
  assumes "parseJob content = Inr job"
  shows "parseJob (serializeJob job) = Inr job"
  using assms parseJob_storable job_roundtrip by blast

definition sample_job :: CiJobRequest where
  "sample_job = \<lparr>jb_job_id = ''j-1'', jb_project_name = ''demo'', jb_ref = ''refs/heads/main'',
     jb_commit_id = replicate 40 CHR ''a'', jb_client_id = ''laptop'', jb_queued_epoch_seconds = 7, jb_attempt = 2,
     jb_runs_on = [], jb_auto_cancel = True, jb_parent_run_id = [], jb_workflow_job = [], jb_needs = [],
     jb_dependency_lock_sha256 = []\<rparr>"

definition sample_job_v2 :: string where
  "sample_job_v2 = unlines [''schema_version=2'', ''job_id=j-1'', ''project=demo'', ''ref_hex='' @ hexEncode ''refs/heads/main'',
     ''commit='' @ replicate 40 CHR ''a'', ''client_id=laptop'', ''queued_epoch=7'', ''attempt=2'']"

lemma sample_job_v2_parsed: "parseJob sample_job_v2 = Inr sample_job"
proof -
  let ?ls = "[''schema_version=2'', ''job_id=j-1'', ''project=demo'', ''ref_hex='' @ hexEncode ''refs/heads/main'',
     ''commit='' @ replicate 40 CHR ''a'', ''client_id=laptop'', ''queued_epoch='' @ to_dec 7, ''attempt='' @ to_dec 2]"
  have "sample_job_v2 = unlines ?ls" by (simp add: sample_job_v2_def decimal_eval)
  moreover have "frame (unlines ?ls) = Inr ?ls" by (rule frame_unlines) (simp_all add: hex_digits_def)
  ultimately have f: "frame sample_job_v2 = Inr ?ls" by simp
  have v: "job_version ?ls = Some 2" by (simp add: job_version_def)
  have n: "?ls ! 1 = ''job_id='' @ ''j-1''" "?ls ! 2 = ''project='' @ ''demo''" "?ls ! 3 = ''ref_hex='' @ hexEncode ''refs/heads/main''"
    "?ls ! 4 = ''commit='' @ replicate 40 CHR ''a''" "?ls ! 5 = ''client_id='' @ ''laptop''" "?ls ! 6 = ''queued_epoch='' @ to_dec 7"
    "?ls ! 7 = ''attempt='' @ to_dec 2" by simp_all
  have a: "parse_attempt (''attempt='' @ to_dec 2) w = Inr 2" for w
    by (simp only: parse_attempt_def expectField_append) (simp add: u64_max_def)
  have e: "length ''refs/heads/main'' \<le> (512 :: nat)" "7 \<le> u64_max" by (simp_all add: u64_max_def)
  have ok: "job_fields_valid sample_job" by code_simp
  show ?thesis
    unfolding parseJob_def f v bindE_Inr option.case n expectField_append fromHex_hexEncode [OF e(1)]
      parseEpoch_to_dec [OF e(2)] a
    using ok by (simp add: sample_job_def)
qed

theorem job_record_kept_witness: "parseJob (serializeJob sample_job) = Inr sample_job"
  by (rule job_record_kept [OF sample_job_v2_parsed])

section \<open>Runs\<close>

record CiStepResult =
  sr_name :: string
  sr_exit_code :: int
  sr_timed_out :: bool
  sr_output_truncated :: bool

record CiArtifactRecord =
  ar_name :: string
  ar_bytes :: nat
  ar_sha256 :: string
  ar_created_epoch_seconds :: nat
  ar_expires_epoch_seconds :: nat
  ar_note :: string

record CiRunRecord =
  rr_run_id :: string
  rr_project_name :: string
  rr_ref :: string
  rr_commit_id :: string
  rr_status :: CiRunStatus
  rr_started_epoch_seconds :: nat
  rr_finished_epoch_seconds :: nat
  rr_heartbeat_epoch_seconds :: nat
  rr_runner :: string
  rr_attempt :: nat
  rr_detail :: string
  rr_steps :: "CiStepResult list"
  rr_artifacts :: "CiArtifactRecord list"
  rr_parent_run_id :: string
  rr_workflow_job :: string
  rr_execution :: "CiExecutionReport option"

definition bool01 :: "bool \<Rightarrow> string" where
  "bool01 b = (if b then ''1'' else ''0'')"

definition step_line :: "CiStepResult \<Rightarrow> string" where
  "step_line step = ''step='' @ int_to_dec (sr_exit_code step) @ '','' @ bool01 (sr_timed_out step) @ '','' @
     bool01 (sr_output_truncated step) @ '','' @ hexEncode (sr_name step)"

text \<open>The lines of a run; \<open>e\<close> is the formatted execution report, when the run has one.\<close>

definition run_lines :: "CiRunRecord \<Rightarrow> string option \<Rightarrow> string list" where
  "run_lines run e =
     [(if e \<noteq> None then ''schema_version=5'' else ''schema_version=4''),
      ''run_id='' @ rr_run_id run,
      ''project='' @ rr_project_name run,
      ''ref_hex='' @ hexEncode (rr_ref run),
      ''commit='' @ rr_commit_id run,
      ''status='' @ ciRunStatusName (rr_status run),
      ''started_epoch='' @ to_dec (rr_started_epoch_seconds run),
      ''finished_epoch='' @ to_dec (rr_finished_epoch_seconds run),
      ''heartbeat_epoch='' @ to_dec (rr_heartbeat_epoch_seconds run),
      ''runner='' @ (if rr_runner run = [] then ''-'' else rr_runner run),
      ''attempt='' @ to_dec (rr_attempt run),
      ''parent_run_id='' @ rr_parent_run_id run,
      ''workflow_job='' @ rr_workflow_job run,
      ''detail_hex='' @ hexEncode (rr_detail run)]
     @ (case e of None \<Rightarrow> [] | Some t \<Rightarrow> [''execution='' @ t])
     @ [''step_count='' @ to_dec (length (rr_steps run))]
     @ map step_line (rr_steps run)"

definition serializeRun :: "CiRunRecord \<Rightarrow> string result" where
  "serializeRun run =
     (case rr_execution run of
        None \<Rightarrow> Inr (unlines (run_lines run None))
      | Some r \<Rightarrow> bindE (formatCiExecutionReport r) (\<lambda>t. Inr (unlines (run_lines run (Some t)))))"

definition parse_step :: "string \<Rightarrow> CiStepResult result" where
  "parse_step line =
     bindE (expectField line ''step='') (\<lambda>s.
     case after CHR '','' s of
       None \<Rightarrow> store_fail ''a CI step line is malformed''
     | Some s2 \<Rightarrow> (case after CHR '','' s2 of
         None \<Rightarrow> store_fail ''a CI step line is malformed''
       | Some s3 \<Rightarrow> (case after CHR '','' s3 of
           None \<Rightarrow> store_fail ''a CI step line is malformed''
         | Some name_hex \<Rightarrow> (case int_from_chars (before CHR '','' s) of
             None \<Rightarrow> store_fail ''a CI step exit code is malformed''
           | Some exit_code \<Rightarrow> bindE (fromHex name_hex 256) (\<lambda>name.
               Inr \<lparr>sr_name = name, sr_exit_code = exit_code, sr_timed_out = (before CHR '','' s2 = ''1''),
                    sr_output_truncated = (before CHR '','' s3 = ''1'')\<rparr>)))))"

definition run_version :: "string list \<Rightarrow> nat option" where
  "run_version lines =
     (if lines ! 0 = ''schema_version=5'' then Some 5
      else if lines ! 0 = ''schema_version=4'' then Some 4
      else if lines ! 0 = ''schema_version=3'' then Some 3
      else if lines ! 0 = ''schema_version=2'' then Some 2
      else if lines ! 0 = ''schema_version=1'' then Some 1
      else None)"

text \<open>The number of lines before the steps, and the line of the detail, by version.\<close>

definition run_header :: "nat \<Rightarrow> nat" where
  "run_header v = (if v = 5 then 16 else if v = 4 then 15 else if v = 3 then 13 else if v = 2 then 11 else 10)"

definition detail_line :: "nat \<Rightarrow> nat" where
  "detail_line v = 8 + (if v \<ge> 2 then 1 else 0) + (if v \<ge> 3 then 2 else 0) + (if v \<ge> 4 then 2 else 0)"

definition parse_status :: "string \<Rightarrow> CiRunStatus result" where
  "parse_status line =
     bindE (expectField line ''status='') (\<lambda>t.
       case ciRunStatusFromName t of None \<Rightarrow> store_fail ''a CI run record has an unknown status'' | Some s \<Rightarrow> Inr s)"

definition parse_epoch_field :: "string \<Rightarrow> string \<Rightarrow> nat result" where
  "parse_epoch_field line key = bindE (expectField line key) parseEpoch"

definition parse_hex_field :: "string \<Rightarrow> string \<Rightarrow> nat \<Rightarrow> string result" where
  "parse_hex_field line key cap = bindE (expectField line key) (\<lambda>t. fromHex t cap)"

definition parse_runner :: "string \<Rightarrow> string result" where
  "parse_runner line =
     bindE (expectField line ''runner='') (\<lambda>runner.
       if runner = ''-'' then Inr []
       else if \<not> isValidClientId runner then store_fail ''a CI run record names an invalid runner''
       else Inr runner)"

definition parse_step_count :: "string \<Rightarrow> nat result" where
  "parse_step_count line =
     bindE (expectField line ''step_count='') (\<lambda>t.
       case whole_number u64_max t of None \<Rightarrow> store_fail ''a CI step count is malformed'' | Some n \<Rightarrow> Inr n)"

definition parseRun :: "string \<Rightarrow> CiRunRecord result" where
  "parseRun content =
     bindE (frame content) (\<lambda>lines.
     case run_version lines of
       None \<Rightarrow> store_fail ''a CI run record has the wrong shape''
     | Some v \<Rightarrow>
     if length lines < run_header v then store_fail ''a CI run record has the wrong shape''
     else
     bindE (expectField (lines ! 1) ''run_id='') (\<lambda>run_id.
     bindE (expectField (lines ! 2) ''project='') (\<lambda>project.
     bindE (parse_hex_field (lines ! 3) ''ref_hex='' 512) (\<lambda>ref.
     bindE (expectField (lines ! 4) ''commit='') (\<lambda>commit.
     bindE (parse_status (lines ! 5)) (\<lambda>status.
     bindE (parse_epoch_field (lines ! 6) ''started_epoch='') (\<lambda>started.
     bindE (parse_epoch_field (lines ! 7) ''finished_epoch='') (\<lambda>finished.
     bindE (if v \<ge> 2 then parse_epoch_field (lines ! 8) ''heartbeat_epoch='' else Inr 0) (\<lambda>heartbeat.
     bindE (if v \<ge> 3 then parse_runner (lines ! 9) else Inr []) (\<lambda>runner.
     bindE (if v \<ge> 3 then parse_attempt (lines ! 10) ''a CI run record has an invalid attempt'' else Inr 1) (\<lambda>attempt.
     bindE (if v \<ge> 4 then expectField (lines ! 11) ''parent_run_id='' else Inr []) (\<lambda>parent.
     bindE (if v \<ge> 4 then expectField (lines ! 12) ''workflow_job='' else Inr []) (\<lambda>workflow_job.
     if \<not> validJobMembership run_id parent workflow_job then store_fail ''invalid run membership''
     else
     bindE (parse_hex_field (lines ! detail_line v) ''detail_hex='' kMaximumCiDetailBytes) (\<lambda>detail.
     bindE (if v \<ge> 5 then bindE (expectField (lines ! Suc (detail_line v)) ''execution='') (\<lambda>t.
              bindE (parseCiExecutionReport t) (\<lambda>r. Inr (Some r))) else Inr None) (\<lambda>execution.
     bindE (parse_step_count (lines ! (run_header v - 1))) (\<lambda>count.
     if count > kMaximumCiSteps \<or> length lines \<noteq> run_header v + count
     then store_fail ''a CI run record has a mismatched step count''
     else
     bindE (mapE parse_step (drop (run_header v) lines)) (\<lambda>steps.
     if \<not> isValidCiId run_id \<or> \<not> isValidProjectName project \<or> \<not> isValidObjectId commit
     then store_fail ''a CI run record contains invalid data''
     else Inr \<lparr>rr_run_id = run_id, rr_project_name = project, rr_ref = ref, rr_commit_id = commit,
            rr_status = status, rr_started_epoch_seconds = started, rr_finished_epoch_seconds = finished,
            rr_heartbeat_epoch_seconds = heartbeat, rr_runner = runner, rr_attempt = attempt,
            rr_detail = detail, rr_steps = steps, rr_artifacts = [], rr_parent_run_id = parent,
            rr_workflow_job = workflow_job, rr_execution = execution\<rparr>)))))))))))))))))"

text \<open>What a readable run record holds.\<close>

definition step_storable :: "CiStepResult \<Rightarrow> bool" where
  "step_storable s \<longleftrightarrow> length (sr_name s) \<le> 256 \<and> - 2147483648 \<le> sr_exit_code s \<and> sr_exit_code s \<le> 2147483647"

definition report_storable :: "CiExecutionReport \<Rightarrow> bool" where
  "report_storable r \<longleftrightarrow> (\<exists>t. formatCiExecutionReport r = Inr t)
     \<and> er_memory_bytes r \<le> u64_max \<and> er_process_limit r \<le> u32_max \<and> er_timeout_seconds r \<le> u32_max"

definition run_storable :: "CiRunRecord \<Rightarrow> bool" where
  "run_storable r \<longleftrightarrow> isValidCiId (rr_run_id r) \<and> isValidProjectName (rr_project_name r)
     \<and> isValidObjectId (rr_commit_id r) \<and> validJobMembership (rr_run_id r) (rr_parent_run_id r) (rr_workflow_job r)
     \<and> length (rr_ref r) \<le> 512 \<and> rr_started_epoch_seconds r \<le> u64_max \<and> rr_finished_epoch_seconds r \<le> u64_max
     \<and> rr_heartbeat_epoch_seconds r \<le> u64_max \<and> (rr_runner r = [] \<or> isValidClientId (rr_runner r))
     \<and> 1 \<le> rr_attempt r \<and> rr_attempt r \<le> 1000 \<and> length (rr_detail r) \<le> kMaximumCiDetailBytes
     \<and> length (rr_steps r) \<le> kMaximumCiSteps \<and> list_all step_storable (rr_steps r)
     \<and> pred_option report_storable (rr_execution r) \<and> rr_artifacts r = []"

lemma parse_step_line: "step_storable s \<Longrightarrow> parse_step (step_line s) = Inr s"
proof -
  assume s: "step_storable s"
  let ?s3 = "bool01 (sr_output_truncated s) @ CHR '','' # hexEncode (sr_name s)"
  let ?s2 = "bool01 (sr_timed_out s) @ CHR '','' # ?s3"
  let ?s1 = "int_to_dec (sr_exit_code s) @ CHR '','' # ?s2"
  have b: "CHR '','' \<notin> set (bool01 b)" "(bool01 b = ''1'') = b" for b by (simp_all add: bool01_def)
  have l: "step_line s = ''step='' @ ?s1" by (simp add: step_line_def)
  have a: "after CHR '','' ?s1 = Some ?s2" "after CHR '','' ?s2 = Some ?s3" "after CHR '','' ?s3 = Some (hexEncode (sr_name s))"
    "before CHR '','' ?s1 = int_to_dec (sr_exit_code s)" "before CHR '','' ?s2 = bool01 (sr_timed_out s)"
    "before CHR '','' ?s3 = bool01 (sr_output_truncated s)"
    using b(1) by (simp_all only: after_append before_append int_to_dec_no not_False_eq_True)
  have n: "length (sr_name s) \<le> 256" "int_from_chars (int_to_dec (sr_exit_code s)) = Some (sr_exit_code s)"
    using s int_from_chars_to_dec by (auto simp: step_storable_def)
  show ?thesis
    unfolding parse_step_def l expectField_append bindE_Inr a option.case n(2) fromHex_hexEncode [OF n(1)] b(2)
    by simp
qed

lemma step_line_no_newline [simp]: "newline \<notin> set (step_line s)"
  by (simp add: step_line_def bool01_def)

lemma status_name_no_newline [simp]: "newline \<notin> set (ciRunStatusName s)"
  by (cases s) simp_all

lemma run_lines_no_newline:
  assumes "run_storable r" "pred_option (\<lambda>t. newline \<notin> set t) e"
  shows "\<forall>l \<in> set (run_lines r e). newline \<notin> set l"
proof -
  have v: "validJobMembership (rr_run_id r) (rr_parent_run_id r) (rr_workflow_job r)" "isValidCiId (rr_run_id r)"
    "isValidProjectName (rr_project_name r)" "isValidObjectId (rr_commit_id r)"
    "rr_runner r = [] \<or> isValidClientId (rr_runner r)"
    using assms by (auto simp: run_storable_def)
  have "newline \<notin> set (rr_run_id r)" "newline \<notin> set (rr_project_name r)" "newline \<notin> set (rr_commit_id r)"
    "newline \<notin> set (rr_runner r)"
    using v(2-5) plain_ci_id plain_project plain_client plain_object plain_no(3) by fastforce+
  then show ?thesis
    using membership_plain [OF v(1)] assms(2) by (auto simp: run_lines_def split: option.splits)
qed

text \<open>The lines of a run at the places where the parser looks for them.\<close>

lemma run_lines_nth:
  "run_lines r e ! 1 = ''run_id='' @ rr_run_id r" "run_lines r e ! 2 = ''project='' @ rr_project_name r"
  "run_lines r e ! 3 = ''ref_hex='' @ hexEncode (rr_ref r)" "run_lines r e ! 4 = ''commit='' @ rr_commit_id r"
  "run_lines r e ! 5 = ''status='' @ ciRunStatusName (rr_status r)"
  "run_lines r e ! 6 = ''started_epoch='' @ to_dec (rr_started_epoch_seconds r)"
  "run_lines r e ! 7 = ''finished_epoch='' @ to_dec (rr_finished_epoch_seconds r)"
  "run_lines r e ! 8 = ''heartbeat_epoch='' @ to_dec (rr_heartbeat_epoch_seconds r)"
  "run_lines r e ! 9 = ''runner='' @ (if rr_runner r = [] then ''-'' else rr_runner r)"
  "run_lines r e ! 10 = ''attempt='' @ to_dec (rr_attempt r)"
  "run_lines r e ! 11 = ''parent_run_id='' @ rr_parent_run_id r"
  "run_lines r e ! 12 = ''workflow_job='' @ rr_workflow_job r"
  "run_lines r e ! 13 = ''detail_hex='' @ hexEncode (rr_detail r)"
  by (simp_all add: run_lines_def)

lemma run_lines_tail:
  "run_version (run_lines r e) = Some (if e = None then 4 else 5)"
  "length (run_lines r e) = (if e = None then 15 else 16) + length (rr_steps r)"
  "e = Some t \<Longrightarrow> run_lines r e ! 14 = ''execution='' @ t"
  "run_lines r e ! (if e = None then 14 else 15) = ''step_count='' @ to_dec (length (rr_steps r))"
  "drop (if e = None then 15 else 16) (run_lines r e) = map step_line (rr_steps r)"
  by (cases e; simp add: run_lines_def run_version_def)+

lemma parse_field_simps:
  "length d \<le> cap \<Longrightarrow> parse_hex_field (key @ hexEncode d) key cap = Inr d"
  "n \<le> u64_max \<Longrightarrow> parse_epoch_field (key @ to_dec n) key = Inr n"
  "parse_status (''status='' @ ciRunStatusName s) = Inr s"
  by (simp_all only: parse_hex_field_def parse_epoch_field_def parse_status_def expectField_append bindE_Inr
      fromHex_hexEncode parseEpoch_to_dec ciRunStatus_roundtrip option.case)

lemma parse_runner_line:
  "r = [] \<or> isValidClientId r \<Longrightarrow> parse_runner (''runner='' @ (if r = [] then ''-'' else r)) = Inr r"
proof -
  assume r: "r = [] \<or> isValidClientId r"
  have "\<not> isValidClientId ''-''" by code_simp
  with r show ?thesis
    unfolding parse_runner_def expectField_append bindE_Inr by auto
qed

lemma parse_attempt_line: "1 \<le> n \<Longrightarrow> n \<le> 1000 \<Longrightarrow> parse_attempt (''attempt='' @ to_dec n) w = Inr n"
  by (simp only: parse_attempt_def expectField_append) (simp add: u64_max_def)

lemma parse_count_line: "n \<le> kMaximumCiSteps \<Longrightarrow> parse_step_count (''step_count='' @ to_dec n) = Inr n"
  by (simp only: parse_step_count_def expectField_append) (simp add: u64_max_def kMaximumCiSteps_def)

lemma run_roundtrip_lines:
  assumes "run_storable r"
    and "case rr_execution r of None \<Rightarrow> e = None | Some x \<Rightarrow> (\<exists>t. e = Some t \<and> parseCiExecutionReport t = Inr x)"
    and "pred_option (\<lambda>t. newline \<notin> set t) e"
  shows "parseRun (unlines (run_lines r e)) = Inr r"
proof -
  have f: "frame (unlines (run_lines r e)) = Inr (run_lines r e)"
    using run_lines_no_newline [OF assms(1,3)] by (intro frame_unlines) (simp add: run_lines_def)
  have v: "isValidCiId (rr_run_id r)" "isValidProjectName (rr_project_name r)" "isValidObjectId (rr_commit_id r)"
    "validJobMembership (rr_run_id r) (rr_parent_run_id r) (rr_workflow_job r)" "length (rr_ref r) \<le> 512"
    "rr_started_epoch_seconds r \<le> u64_max" "rr_finished_epoch_seconds r \<le> u64_max"
    "rr_heartbeat_epoch_seconds r \<le> u64_max" "rr_runner r = [] \<or> isValidClientId (rr_runner r)"
    "1 \<le> rr_attempt r" "rr_attempt r \<le> 1000" "length (rr_detail r) \<le> kMaximumCiDetailBytes"
    "length (rr_steps r) \<le> kMaximumCiSteps" "list_all step_storable (rr_steps r)" "rr_artifacts r = []"
    using assms(1) by (simp_all add: run_storable_def)
  have steps: "mapE parse_step (map step_line (rr_steps r)) = Inr (rr_steps r)"
    using v(14) by (intro mapE_map) (simp add: list_all_iff parse_step_line)
  have rebuilt: "x = rr_execution r \<Longrightarrow> \<lparr>rr_run_id = rr_run_id r, rr_project_name = rr_project_name r, rr_ref = rr_ref r,
      rr_commit_id = rr_commit_id r, rr_status = rr_status r, rr_started_epoch_seconds = rr_started_epoch_seconds r,
      rr_finished_epoch_seconds = rr_finished_epoch_seconds r, rr_heartbeat_epoch_seconds = rr_heartbeat_epoch_seconds r,
      rr_runner = rr_runner r, rr_attempt = rr_attempt r, rr_detail = rr_detail r, rr_steps = rr_steps r,
      rr_artifacts = [], rr_parent_run_id = rr_parent_run_id r, rr_workflow_job = rr_workflow_job r,
      rr_execution = x\<rparr> = r" for x
    using v(15) by simp
  note heads = run_lines_nth expectField_append bindE_Inr parse_field_simps(1) [OF v(5)] parse_field_simps(1) [OF v(12)]
    parse_field_simps(2) [OF v(6)] parse_field_simps(2) [OF v(7)] parse_field_simps(2) [OF v(8)] parse_field_simps(3)
    parse_runner_line [OF v(9)] parse_attempt_line [OF v(10,11)]
  show ?thesis
  proof (cases "rr_execution r")
    case None
    with assms(2) have e: "e = None" by simp
    have tail: "run_version (run_lines r e) = Some 4" "length (run_lines r e) = 15 + length (rr_steps r)"
      "run_lines r e ! 14 = ''step_count='' @ to_dec (length (rr_steps r))" "drop 15 (run_lines r e) = map step_line (rr_steps r)"
      using run_lines_tail [where r = r and e = e] by (simp_all add: e)
    have c: "run_header 4 = 15" "detail_line 4 = 13" "15 - 1 = (14 :: nat)" by (simp_all add: run_header_def detail_line_def)
    show ?thesis
      unfolding parseRun_def f heads tail option.case c
      using v(1-4,13) None by (simp add: heads steps rebuilt tail parse_count_line [OF v(13), simplified])
  next
    case (Some x)
    with assms(2) obtain t where e: "e = Some t" "parseCiExecutionReport t = Inr x" by auto
    have tail: "run_version (run_lines r e) = Some 5" "length (run_lines r e) = 16 + length (rr_steps r)"
      "run_lines r e ! 14 = ''execution='' @ t" "run_lines r e ! 15 = ''step_count='' @ to_dec (length (rr_steps r))"
      "drop 16 (run_lines r e) = map step_line (rr_steps r)"
      using run_lines_tail [where r = r and e = e] by (simp_all add: e)
    have c: "run_header 5 = 16" "detail_line 5 = 13" "16 - 1 = (15 :: nat)" "Suc 13 = 14"
      by (simp_all add: run_header_def detail_line_def)
    show ?thesis
      unfolding parseRun_def f heads tail option.case c
      using v(1-4,13) Some e(2)
      by (simp add: heads steps rebuilt tail parse_count_line [OF v(13), simplified]
          expectField_append [of "''execution=''" t, simplified])
  qed
qed

lemma formatted_report: "formatCiExecutionReport x = Inr t \<Longrightarrow> (\<exists>y. parseCiExecutionReport t = Inr y) \<and> t = report_line x"
  by (auto simp: formatCiExecutionReport_def result_simps)

lemma run_roundtrip:
  assumes "run_storable r"
  shows "\<exists>s. serializeRun r = Inr s \<and> parseRun s = Inr r"
proof (cases "rr_execution r")
  case None
  then show ?thesis using run_roundtrip_lines [OF assms, of None] by (simp add: serializeRun_def)
next
  case (Some x)
  with assms obtain t where t: "formatCiExecutionReport x = Inr t" "er_memory_bytes x \<le> u64_max"
    "er_process_limit x \<le> u32_max" "er_timeout_seconds x \<le> u32_max"
    by (auto simp: run_storable_def report_storable_def)
  then have p: "parseCiExecutionReport t = Inr x" by (rule report_roundtrip)
  then have "newline \<notin> set t" by (rule execution_report_chars)
  then show ?thesis using run_roundtrip_lines [OF assms, of "Some t"] Some t(1) p by (simp add: serializeRun_def)
qed

lemma mapE_Inr_all: "mapE f xs = Inr ys \<Longrightarrow> (\<And>x y. f x = Inr y \<Longrightarrow> P y) \<Longrightarrow> list_all P ys \<and> length ys = length xs"
  unfolding mapE_eq_Inr by (auto simp: list_all2_conv_all_nth list_all_length)

lemma parse_step_storable: "parse_step l = Inr s \<Longrightarrow> step_storable s"
  unfolding parse_step_def
  by (elim result_elims) (auto simp: step_storable_def dest: fromHex_Inr int_from_chars_range)

lemma parse_runner_Inr: "parse_runner l = Inr r \<Longrightarrow> r = [] \<or> isValidClientId r"
  by (auto simp: parse_runner_def result_simps split: if_splits)

lemma parse_epoch_field_Inr: "parse_epoch_field l k = Inr n \<Longrightarrow> n \<le> u64_max"
  by (auto simp: parse_epoch_field_def result_simps dest: parseEpoch_Inr)

lemma parse_hex_field_Inr: "parse_hex_field l k cap = Inr d \<Longrightarrow> length d \<le> cap"
  by (auto simp: parse_hex_field_def result_simps dest: fromHex_Inr)

lemma parsed_report_storable: "parseCiExecutionReport t = Inr x \<Longrightarrow> report_storable x"
  using parsed_report_printable [of t x] by (auto simp: report_storable_def)

lemma parseRun_storable:
  assumes "parseRun content = Inr run"
  shows "run_storable run"
  using assms unfolding parseRun_def
proof (elim result_elims)
  fix lines v run_id project ref commit status started finished heartbeat runner attempt parent workflow_job
    detail execution count steps
  assume p: "\<not> \<not> validJobMembership run_id parent workflow_job"
    "\<not> (\<not> isValidCiId run_id \<or> \<not> isValidProjectName project \<or> \<not> isValidObjectId commit)"
    "\<not> (count > kMaximumCiSteps \<or> length lines \<noteq> run_header v + count)"
    and f: "parse_hex_field (lines ! 3) ''ref_hex='' 512 = Inr ref"
    "parse_epoch_field (lines ! 6) ''started_epoch='' = Inr started"
    "parse_epoch_field (lines ! 7) ''finished_epoch='' = Inr finished"
    "(if v \<ge> 2 then parse_epoch_field (lines ! 8) ''heartbeat_epoch='' else Inr 0) = Inr heartbeat"
    "(if v \<ge> 3 then parse_runner (lines ! 9) else Inr []) = Inr runner"
    "(if v \<ge> 3 then parse_attempt (lines ! 10) ''a CI run record has an invalid attempt'' else Inr 1) = Inr attempt"
    "parse_hex_field (lines ! detail_line v) ''detail_hex='' kMaximumCiDetailBytes = Inr detail"
    "(if v \<ge> 5 then bindE (expectField (lines ! Suc (detail_line v)) ''execution='') (\<lambda>t.
              bindE (parseCiExecutionReport t) (\<lambda>r. Inr (Some r))) else Inr None) = Inr execution"
    "mapE parse_step (drop (run_header v) lines) = Inr steps"
    and r: "Inr \<lparr>rr_run_id = run_id, rr_project_name = project, rr_ref = ref, rr_commit_id = commit,
            rr_status = status, rr_started_epoch_seconds = started, rr_finished_epoch_seconds = finished,
            rr_heartbeat_epoch_seconds = heartbeat, rr_runner = runner, rr_attempt = attempt,
            rr_detail = detail, rr_steps = steps, rr_artifacts = [], rr_parent_run_id = parent,
            rr_workflow_job = workflow_job, rr_execution = execution\<rparr> = (Inr run :: CiRunRecord result)"
  have "heartbeat \<le> u64_max" using f(4) by (auto dest: parse_epoch_field_Inr split: if_splits)
  moreover have "runner = [] \<or> isValidClientId runner" using f(5) by (auto dest: parse_runner_Inr split: if_splits)
  moreover have "1 \<le> attempt \<and> attempt \<le> 1000" using f(6) by (auto dest: parse_attempt_range split: if_splits)
  moreover have "pred_option report_storable execution"
    using f(8) by (auto simp: bindE_eq_Inr dest: parsed_report_storable split: if_splits)
  moreover have "list_all step_storable steps" "length steps \<le> kMaximumCiSteps"
    using mapE_Inr_all [OF f(9) parse_step_storable] p(3) by simp_all
  moreover note parse_hex_field_Inr [OF f(1)] parse_hex_field_Inr [OF f(7)]
    parse_epoch_field_Inr [OF f(2)] parse_epoch_field_Inr [OF f(3)]
  ultimately show ?thesis using p r by (auto simp: run_storable_def)
qed

text \<open>
  A run record that can be read, of whatever schema version, can always be written again, and
  reading what is written gives the same run: no upgrade or rewrite loses a status, an exit code, a
  step, the execution report or the membership in a workflow.
\<close>

theorem run_record_kept:
  assumes "parseRun content = Inr run"
  shows "\<exists>s. serializeRun run = Inr s \<and> parseRun s = Inr run"
  using assms parseRun_storable run_roundtrip by blast

definition sample_run :: CiRunRecord where
  "sample_run = \<lparr>rr_run_id = ''j-1'', rr_project_name = ''demo'', rr_ref = ''refs/heads/main'',
     rr_commit_id = replicate 40 CHR ''a'', rr_status = Failure, rr_started_epoch_seconds = 7,
     rr_finished_epoch_seconds = 9, rr_heartbeat_epoch_seconds = 9, rr_runner = ''primary'', rr_attempt = 1,
     rr_detail = ''step 1 failed'', rr_steps = [\<lparr>sr_name = ''build'', sr_exit_code = -9, sr_timed_out = False, sr_output_truncated = True\<rparr>],
     rr_artifacts = [], rr_parent_run_id = [], rr_workflow_job = [], rr_execution = None\<rparr>"

lemma sample_run_storable: "run_storable sample_run"
proof -
  have "isValidCiId ''j-1''" "isValidProjectName ''demo''" "isValidObjectId (replicate 40 CHR ''a'')" "isValidClientId ''primary''"
    by code_simp+
  then show ?thesis
    by (simp add: run_storable_def sample_run_def validJobMembership_def u64_max_def kMaximumCiDetailBytes_def
        kMaximumCiSteps_def step_storable_def)
qed

theorem run_record_kept_witness: "\<exists>s. serializeRun sample_run = Inr s \<and> parseRun s = Inr sample_run"
proof -
  obtain s where "serializeRun sample_run = Inr s" "parseRun s = Inr sample_run"
    using run_roundtrip [OF sample_run_storable] by blast
  then show ?thesis by (intro run_record_kept)
qed

section \<open>Artifacts, releases, leases and runners\<close>

definition kMaximumReleaseNotesBytes :: nat where "kMaximumReleaseNotesBytes = 8192"

definition artifact_lines :: "CiArtifactRecord \<Rightarrow> string list" where
  "artifact_lines a =
     [''schema_version=1'', ''name='' @ ar_name a, ''bytes='' @ to_dec (ar_bytes a), ''sha256='' @ ar_sha256 a,
      ''created_epoch='' @ to_dec (ar_created_epoch_seconds a), ''expires_epoch='' @ to_dec (ar_expires_epoch_seconds a),
      ''note_hex='' @ hexEncode (ar_note a)]"

definition serializeArtifact :: "CiArtifactRecord \<Rightarrow> string" where
  "serializeArtifact a = unlines (artifact_lines a)"

definition parseArtifact :: "string \<Rightarrow> CiArtifactRecord result" where
  "parseArtifact content =
     bindE (frame content) (\<lambda>lines.
     if length lines \<noteq> 7 \<or> lines ! 0 \<noteq> ''schema_version=1'' then store_fail ''a CI artifact record has the wrong shape''
     else
     bindE (expectField (lines ! 1) ''name='') (\<lambda>name.
     bindE (parse_epoch_field (lines ! 2) ''bytes='') (\<lambda>bytes.
     bindE (expectField (lines ! 3) ''sha256='') (\<lambda>sha.
     if sha \<noteq> [] \<and> \<not> isValidSha256Hex sha then store_fail ''a CI artifact sha256 is malformed''
     else
     bindE (parse_epoch_field (lines ! 4) ''created_epoch='') (\<lambda>created.
     bindE (parse_epoch_field (lines ! 5) ''expires_epoch='') (\<lambda>expires.
     bindE (parse_hex_field (lines ! 6) ''note_hex='' 256) (\<lambda>note.
     if \<not> isValidCiArtifactName name then store_fail ''a CI artifact record has an invalid name''
     else Inr \<lparr>ar_name = name, ar_bytes = bytes, ar_sha256 = sha, ar_created_epoch_seconds = created,
            ar_expires_epoch_seconds = expires, ar_note = note\<rparr>)))))))"

record CiReleaseRecord =
  re_tag :: string
  re_commit_id :: string
  re_created_epoch_seconds :: nat
  re_notes :: string
  re_assets :: "CiArtifactRecord list"

definition release_lines :: "CiReleaseRecord \<Rightarrow> string list" where
  "release_lines r =
     [''schema_version=1'', ''tag='' @ re_tag r, ''commit='' @ re_commit_id r,
      ''created_epoch='' @ to_dec (re_created_epoch_seconds r), ''notes_hex='' @ hexEncode (re_notes r)]"

definition serializeRelease :: "CiReleaseRecord \<Rightarrow> string" where
  "serializeRelease r = unlines (release_lines r)"

definition parseRelease :: "string \<Rightarrow> CiReleaseRecord result" where
  "parseRelease content =
     bindE (frame content) (\<lambda>lines.
     if length lines \<noteq> 5 \<or> lines ! 0 \<noteq> ''schema_version=1'' then store_fail ''a release record has the wrong shape''
     else
     bindE (expectField (lines ! 1) ''tag='') (\<lambda>tag.
     bindE (expectField (lines ! 2) ''commit='') (\<lambda>commit.
     bindE (parse_epoch_field (lines ! 3) ''created_epoch='') (\<lambda>created.
     bindE (parse_hex_field (lines ! 4) ''notes_hex='' kMaximumReleaseNotesBytes) (\<lambda>notes.
     if \<not> isValidReleaseTag tag \<or> \<not> isValidObjectId commit then store_fail ''a release record contains invalid data''
     else Inr \<lparr>re_tag = tag, re_commit_id = commit, re_created_epoch_seconds = created, re_notes = notes, re_assets = []\<rparr>)))))"

record CiLease =
  ls_runner :: string
  ls_token :: string
  ls_expires_epoch_seconds :: nat

definition isValidLeaseToken :: "string \<Rightarrow> bool" where
  "isValidLeaseToken token \<longleftrightarrow> length token = 32 \<and> (\<forall>c \<in> set token. is_lower_hex c)"

definition lease_lines :: "CiLease \<Rightarrow> string list" where
  "lease_lines l =
     [''schema_version=1'', ''runner='' @ ls_runner l, ''token='' @ ls_token l,
      ''expires_epoch='' @ to_dec (ls_expires_epoch_seconds l)]"

definition serializeLease :: "CiLease \<Rightarrow> string" where
  "serializeLease l = unlines (lease_lines l)"

definition parseLease :: "string \<Rightarrow> CiLease result" where
  "parseLease content =
     bindE (frame content) (\<lambda>lines.
     if length lines \<noteq> 4 \<or> lines ! 0 \<noteq> ''schema_version=1'' then store_fail ''a CI lease has the wrong shape''
     else
     bindE (expectField (lines ! 1) ''runner='') (\<lambda>runner.
     bindE (expectField (lines ! 2) ''token='') (\<lambda>token.
     bindE (parse_epoch_field (lines ! 3) ''expires_epoch='') (\<lambda>expires.
     if \<not> isValidClientId runner \<or> \<not> isValidLeaseToken token then store_fail ''a CI lease contains invalid data''
     else Inr \<lparr>ls_runner = runner, ls_token = token, ls_expires_epoch_seconds = expires\<rparr>))))"

record CiRunnerRecord =
  rn_name :: string
  rn_enabled :: bool
  rn_last_seen_epoch_seconds :: nat
  rn_version :: string
  rn_labels :: "string list"

definition runner_lines :: "CiRunnerRecord \<Rightarrow> string list" where
  "runner_lines r =
     [''schema_version=2'', ''enabled='' @ (if rn_enabled r then ''true'' else ''false''),
      ''last_seen_epoch='' @ to_dec (rn_last_seen_epoch_seconds r), ''version_hex='' @ hexEncode (rn_version r),
      ''labels='' @ formatCiLabelList (rn_labels r)]"

definition serializeRunnerRecord :: "CiRunnerRecord \<Rightarrow> string" where
  "serializeRunnerRecord r = unlines (runner_lines r)"

definition parseRunnerRecord :: "string \<Rightarrow> string \<Rightarrow> CiRunnerRecord result" where
  "parseRunnerRecord name content =
     bindE (frame content) (\<lambda>lines.
     let v2 = (length lines = 5 \<and> lines ! 0 = ''schema_version=2'') in
     if \<not> v2 \<and> (length lines \<noteq> 4 \<or> lines ! 0 \<noteq> ''schema_version=1'') then store_fail ''a runner record has the wrong shape''
     else
     bindE (expectField (lines ! 1) ''enabled='') (\<lambda>enabled_text.
     bindE (parse_flag enabled_text ''a runner record has an invalid flag'') (\<lambda>enabled.
     bindE (parse_epoch_field (lines ! 2) ''last_seen_epoch='') (\<lambda>last_seen.
     bindE (parse_hex_field (lines ! 3) ''version_hex='' 128) (\<lambda>version.
     bindE (if v2 then bindE (expectField (lines ! 4) ''labels='') (\<lambda>t.
              parse_labels t ''a runner record has invalid labels'') else Inr []) (\<lambda>labels.
     Inr \<lparr>rn_name = name, rn_enabled = enabled, rn_last_seen_epoch_seconds = last_seen, rn_version = version,
          rn_labels = labels\<rparr>))))))"

text \<open>Each of these records is read back as it was written, when its values are the ones a parser accepts.\<close>

definition artifact_storable :: "CiArtifactRecord \<Rightarrow> bool" where
  "artifact_storable a \<longleftrightarrow> isValidCiArtifactName (ar_name a) \<and> (ar_sha256 a = [] \<or> isValidSha256Hex (ar_sha256 a))
     \<and> ar_bytes a \<le> u64_max \<and> ar_created_epoch_seconds a \<le> u64_max \<and> ar_expires_epoch_seconds a \<le> u64_max
     \<and> length (ar_note a) \<le> 256"

definition release_storable :: "CiReleaseRecord \<Rightarrow> bool" where
  "release_storable r \<longleftrightarrow> isValidReleaseTag (re_tag r) \<and> isValidObjectId (re_commit_id r)
     \<and> re_created_epoch_seconds r \<le> u64_max \<and> length (re_notes r) \<le> kMaximumReleaseNotesBytes \<and> re_assets r = []"

definition lease_storable :: "CiLease \<Rightarrow> bool" where
  "lease_storable l \<longleftrightarrow> isValidClientId (ls_runner l) \<and> isValidLeaseToken (ls_token l) \<and> ls_expires_epoch_seconds l \<le> u64_max"

definition runner_storable :: "CiRunnerRecord \<Rightarrow> bool" where
  "runner_storable r \<longleftrightarrow> rn_last_seen_epoch_seconds r \<le> u64_max \<and> length (rn_version r) \<le> 128 \<and> canonical_labels (rn_labels r)"

lemma lease_token_plain: "isValidLeaseToken t \<Longrightarrow> newline \<notin> set t"
proof
  assume "isValidLeaseToken t" "newline \<in> set t"
  then have "is_lower_hex newline" by (simp add: isValidLeaseToken_def)
  then show False by (simp add: is_lower_hex_byte)
qed

lemma artifact_roundtrip:
  assumes "artifact_storable a"
  shows "parseArtifact (serializeArtifact a) = Inr a"
proof -
  have v: "isValidCiArtifactName (ar_name a)" "ar_sha256 a = [] \<or> isValidSha256Hex (ar_sha256 a)"
    "ar_bytes a \<le> u64_max" "ar_created_epoch_seconds a \<le> u64_max" "ar_expires_epoch_seconds a \<le> u64_max"
    "length (ar_note a) \<le> 256"
    using assms by (simp_all add: artifact_storable_def)
  have "newline \<notin> set (ar_name a)" "newline \<notin> set (ar_sha256 a)"
    using v(1,2) plain_artifact_name plain_sha256 plain_no(3) by fastforce+
  then have f: "frame (serializeArtifact a) = Inr (artifact_lines a)"
    unfolding serializeArtifact_def by (intro frame_unlines) (simp_all add: artifact_lines_def)
  have n: "length (artifact_lines a) = 7" "artifact_lines a ! 0 = ''schema_version=1''"
    "artifact_lines a ! 1 = ''name='' @ ar_name a" "artifact_lines a ! 2 = ''bytes='' @ to_dec (ar_bytes a)"
    "artifact_lines a ! 3 = ''sha256='' @ ar_sha256 a" "artifact_lines a ! 4 = ''created_epoch='' @ to_dec (ar_created_epoch_seconds a)"
    "artifact_lines a ! 5 = ''expires_epoch='' @ to_dec (ar_expires_epoch_seconds a)"
    "artifact_lines a ! 6 = ''note_hex='' @ hexEncode (ar_note a)"
    by (simp_all add: artifact_lines_def)
  show ?thesis
    unfolding parseArtifact_def f bindE_Inr n expectField_append parse_field_simps(1) [OF v(6)]
      parse_field_simps(2) [OF v(3)] parse_field_simps(2) [OF v(4)] parse_field_simps(2) [OF v(5)]
    using v(1,2) by auto
qed

lemma release_roundtrip:
  assumes "release_storable r"
  shows "parseRelease (serializeRelease r) = Inr r"
proof -
  have v: "isValidReleaseTag (re_tag r)" "isValidObjectId (re_commit_id r)" "re_created_epoch_seconds r \<le> u64_max"
    "length (re_notes r) \<le> kMaximumReleaseNotesBytes" "re_assets r = []"
    using assms by (simp_all add: release_storable_def)
  have "newline \<notin> set (re_tag r)" "newline \<notin> set (re_commit_id r)"
    using v(1,2) plain_release_tag plain_object plain_no(3) by fastforce+
  then have f: "frame (serializeRelease r) = Inr (release_lines r)"
    unfolding serializeRelease_def by (intro frame_unlines) (simp_all add: release_lines_def)
  have n: "length (release_lines r) = 5" "release_lines r ! 0 = ''schema_version=1''"
    "release_lines r ! 1 = ''tag='' @ re_tag r" "release_lines r ! 2 = ''commit='' @ re_commit_id r"
    "release_lines r ! 3 = ''created_epoch='' @ to_dec (re_created_epoch_seconds r)"
    "release_lines r ! 4 = ''notes_hex='' @ hexEncode (re_notes r)"
    by (simp_all add: release_lines_def)
  show ?thesis
    unfolding parseRelease_def f bindE_Inr n expectField_append parse_field_simps(1) [OF v(4)] parse_field_simps(2) [OF v(3)]
    using v(1,2,5) by simp
qed

lemma lease_roundtrip:
  assumes "lease_storable l"
  shows "parseLease (serializeLease l) = Inr l"
proof -
  have v: "isValidClientId (ls_runner l)" "isValidLeaseToken (ls_token l)" "ls_expires_epoch_seconds l \<le> u64_max"
    using assms by (simp_all add: lease_storable_def)
  have "newline \<notin> set (ls_runner l)" "newline \<notin> set (ls_token l)"
    using v(1) plain_client plain_no(3) lease_token_plain [OF v(2)] by fastforce+
  then have f: "frame (serializeLease l) = Inr (lease_lines l)"
    unfolding serializeLease_def by (intro frame_unlines) (simp_all add: lease_lines_def)
  have n: "length (lease_lines l) = 4" "lease_lines l ! 0 = ''schema_version=1''"
    "lease_lines l ! 1 = ''runner='' @ ls_runner l" "lease_lines l ! 2 = ''token='' @ ls_token l"
    "lease_lines l ! 3 = ''expires_epoch='' @ to_dec (ls_expires_epoch_seconds l)"
    by (simp_all add: lease_lines_def)
  show ?thesis
    unfolding parseLease_def f bindE_Inr n expectField_append parse_field_simps(2) [OF v(3)] using v(1,2) by simp
qed

lemma runner_roundtrip:
  assumes "runner_storable r"
  shows "parseRunnerRecord (rn_name r) (serializeRunnerRecord r) = Inr r"
proof -
  have v: "rn_last_seen_epoch_seconds r \<le> u64_max" "length (rn_version r) \<le> 128" "canonical_labels (rn_labels r)"
    using assms by (simp_all add: runner_storable_def)
  have f: "frame (serializeRunnerRecord r) = Inr (runner_lines r)"
    unfolding serializeRunnerRecord_def using formatCiLabelList_chars [OF v(3)]
    by (intro frame_unlines) (simp_all add: runner_lines_def)
  have labels: "parseCiLabelList (formatCiLabelList (rn_labels r)) = Some (rn_labels r)"
    using v(3) by (rule labels.dec_enc)
  have n: "length (runner_lines r) = 5" "runner_lines r ! 0 = ''schema_version=2''"
    "runner_lines r ! 1 = ''enabled='' @ (if rn_enabled r then ''true'' else ''false'')"
    "runner_lines r ! 2 = ''last_seen_epoch='' @ to_dec (rn_last_seen_epoch_seconds r)"
    "runner_lines r ! 3 = ''version_hex='' @ hexEncode (rn_version r)"
    "runner_lines r ! 4 = ''labels='' @ formatCiLabelList (rn_labels r)"
    by (simp_all add: runner_lines_def)
  show ?thesis
    unfolding parseRunnerRecord_def f bindE_Inr n expectField_append parse_field_simps(1) [OF v(2)]
      parse_field_simps(2) [OF v(1)] Let_def
    by (simp add: expectField_append [of "''labels=''", simplified] parse_flag_def parse_labels_def labels)
qed

text \<open>The strict parsers of these small records accept one schema version only, so they are canonical: a lease or
  a release has one text.\<close>

lemma lease_parsed:
  assumes "parseLease content = Inr l"
  shows "lease_storable l"
  using assms unfolding parseLease_def
  by (elim result_elims) (auto simp: lease_storable_def dest: parse_epoch_field_Inr)

interpretation artifact_text: codec serializeArtifact "ok_of \<circ> parseArtifact" artifact_storable
  by unfold_locales (simp add: artifact_roundtrip)

interpretation release_text: codec serializeRelease "ok_of \<circ> parseRelease" release_storable
  by unfold_locales (simp add: release_roundtrip)

interpretation lease_text: codec serializeLease "ok_of \<circ> parseLease" lease_storable
  by unfold_locales (simp add: lease_roundtrip)

interpretation job_text: codec serializeJob "ok_of \<circ> parseJob" job_storable
  by unfold_locales (simp add: job_roundtrip)

end
