(* ===== verification/Ck_Fs.thy ===== *)
theory Ck_Fs
  imports Ck_Prelude
begin

text \<open>
  The world the stores of the program run in: a tree of files below one state directory, the
  clock, the random device, and the system calls the stores make on them. A program over this
  world is a function from a world to a result (a value or the exception thrown) and the world
  left behind; \<open>bindM\<close>, \<open>tryM\<close> and \<open>forM\<close> are the sequencing, the \<open>try\<close>/\<open>catch\<close> and the loops of
  the code. Every system call may fail: \<open>w_faults\<close> says which calls on which paths do, and no
  theorem about all worlds assumes that they succeed. A directory descriptor is the path it was
  opened on. Renames replace a file atomically, as POSIX promises. Locks are held by the caller, so a
  program runs alone; concurrency of the processes is the order in which programs run.
\<close>

section \<open>Worlds\<close>

type_synonym path = "string list"

datatype kind = Regular string | Directory | Other

record node =
  nd_kind :: kind
  nd_private :: bool
  nd_mtime :: nat

datatype access = Opening | Reading | Listing | Staging | Renaming | Syncing | Unlinking | Making | Locking | Writing | Truncating

datatype errno = OK | ENOENT | EEXIST | EIO

record world =
  w_files :: "(path \<times> node) list"
  w_clock :: nat
  w_faults :: "access \<Rightarrow> path \<Rightarrow> bool"
  w_random :: "nat \<Rightarrow> nat"
  w_drawn :: nat

definition node_at :: "world \<Rightarrow> path \<Rightarrow> node option" where
  "node_at w p = map_of (w_files w) p"

definition file_at :: "world \<Rightarrow> path \<Rightarrow> string option" where
  "file_at w p = (case node_at w p of None \<Rightarrow> None | Some n \<Rightarrow> (case nd_kind n of Regular c \<Rightarrow> Some c | _ \<Rightarrow> None))"

definition set_node :: "path \<Rightarrow> node \<Rightarrow> world \<Rightarrow> world" where
  "set_node p n w = w\<lparr>w_files := (p, n) # filter (\<lambda>e. fst e \<noteq> p) (w_files w)\<rparr>"

definition remove_node :: "path \<Rightarrow> world \<Rightarrow> world" where
  "remove_node p w = w\<lparr>w_files := filter (\<lambda>e. fst e \<noteq> p) (w_files w)\<rparr>"

definition remove_tree :: "path \<Rightarrow> world \<Rightarrow> world" where
  "remove_tree p w = w\<lparr>w_files := filter (\<lambda>e. \<not> prefix p (fst e)) (w_files w)\<rparr>"

definition move_tree :: "path \<Rightarrow> path \<Rightarrow> world \<Rightarrow> world" where
  "move_tree s d w =
     w\<lparr>w_files := map (\<lambda>e. if prefix s (fst e) then (d @ drop (length s) (fst e), snd e) else e)
        (filter (\<lambda>e. \<not> prefix d (fst e)) (w_files w))\<rparr>"

text \<open>The entries of a directory, in the order the tree happens to hold them.\<close>

definition names_in :: "world \<Rightarrow> path \<Rightarrow> string list" where
  "names_in w d = remdups (map (last \<circ> fst) (filter (\<lambda>e. fst e \<noteq> [] \<and> butlast (fst e) = d) (w_files w)))"

definition private_file :: "string \<Rightarrow> nat \<Rightarrow> node" where
  "private_file c t = \<lparr>nd_kind = Regular c, nd_private = True, nd_mtime = t\<rparr>"

definition private_dir :: "nat \<Rightarrow> node" where
  "private_dir t = \<lparr>nd_kind = Directory, nd_private = True, nd_mtime = t\<rparr>"

lemma node_at_set [simp]: "node_at (set_node p n w) q = (if q = p then Some n else node_at w q)"
proof -
  have "map_of (filter (\<lambda>e. fst e \<noteq> p) xs) q = (if q = p then None else map_of xs q)" for xs :: "(path \<times> node) list"
    by (induction xs) auto
  then show ?thesis by (simp add: node_at_def set_node_def)
qed

lemma map_of_filter_key: "map_of (filter (\<lambda>e. P (fst e)) xs) q = (if P q then map_of xs q else None)"
  by (induction xs) auto

lemma node_at_remove [simp]: "node_at (remove_node p w) q = (if q = p then None else node_at w q)"
  by (simp add: node_at_def remove_node_def map_of_filter_key [where P = "\<lambda>k. k \<noteq> p"])

lemma node_at_remove_tree [simp]: "node_at (remove_tree p w) q = (if prefix p q then None else node_at w q)"
  by (simp add: node_at_def remove_tree_def map_of_filter_key [where P = "\<lambda>k. \<not> prefix p k"])

text \<open>A moved tree is found below its new name and nowhere else.\<close>

lemma node_at_move_tree:
  assumes "\<not> prefix s d" "\<not> prefix d s"
  shows "node_at (move_tree s d w) q =
    (if prefix d q then node_at w (s @ drop (length d) q) else if prefix s q then None else node_at w q)"
proof -
  let ?m = "\<lambda>e. if prefix s (fst e) then (d @ drop (length s) (fst e), snd e) else e"
  have apart: "\<not> prefix d q" if "prefix s q" for q
    using that assms prefix_same_cases by blast
  have inj: "d @ drop (length s) p = q \<longleftrightarrow> prefix d q \<and> p = s @ drop (length d) q" if "prefix s p" for p q
    using that by (auto simp: prefix_def)
  have "map_of (map ?m (filter (\<lambda>e. \<not> prefix d (fst e)) es)) q =
      (if prefix d q then map_of es (s @ drop (length d) q) else if prefix s q then None else map_of es q)"
    for es :: "(path \<times> node) list"
  proof (induction es)
    case (Cons e es)
    obtain p n where e: "e = (p, n)" by (cases e)
    show ?case
    proof (cases "prefix s p")
      case True
      then show ?thesis unfolding e using apart [OF True] inj [OF True, of q] Cons.IH by auto
    next
      case False
      have "s @ r \<noteq> p" for r using False by auto
      with False show ?thesis unfolding e using Cons.IH by (cases "prefix d p") auto
    qed
  qed simp
  then show ?thesis by (simp add: node_at_def move_tree_def)
qed

section \<open>Programs\<close>

type_synonym 'a io = "world \<Rightarrow> 'a result \<times> world"

definition returnM :: "'a \<Rightarrow> 'a io" where "returnM x w = (Inr x, w)"

definition throwM :: "ck_error \<Rightarrow> 'a io" where "throwM e w = (Inl e, w)"

definition bindM :: "'a io \<Rightarrow> ('a \<Rightarrow> 'b io) \<Rightarrow> 'b io" where
  "bindM m f w = (case m w of (r, w') \<Rightarrow> (case r of Inl e \<Rightarrow> (Inl e, w') | Inr x \<Rightarrow> f x w'))"

text \<open>\<open>try { m } catch (const std::exception&) { h }\<close>; what \<open>m\<close> did to the world stays.\<close>

definition tryM :: "'a io \<Rightarrow> 'a io \<Rightarrow> 'a io" where
  "tryM m h w = (case m w of (r, w') \<Rightarrow> (case r of Inl e \<Rightarrow> h w' | Inr x \<Rightarrow> (Inr x, w')))"

definition askM :: "(world \<Rightarrow> 'a) \<Rightarrow> 'a io" where "askM f w = (Inr (f w), w)"

definition callM :: "(world \<Rightarrow> 'a \<times> world) \<Rightarrow> 'a io" where
  "callM f w = (case f w of (x, w') \<Rightarrow> (Inr x, w'))"

definition liftE :: "'a result \<Rightarrow> 'a io" where "liftE r w = (r, w)"

definition checkM :: "bool \<Rightarrow> ck_error \<Rightarrow> unit io" where
  "checkM b e = (if b then returnM () else throwM e)"

abbreviation thenM :: "'a io \<Rightarrow> 'b io \<Rightarrow> 'b io" where
  "thenM m k \<equiv> bindM m (\<lambda>_. k)"

fun forM :: "'a list \<Rightarrow> ('a \<Rightarrow> unit io) \<Rightarrow> unit io" where
  "forM [] f = returnM ()"
| "forM (x # xs) f = thenM (f x) (forM xs f)"

text \<open>A loop with variables: the body maps their values to new ones.\<close>

fun foldM :: "('s \<Rightarrow> 'a \<Rightarrow> 's io) \<Rightarrow> 's \<Rightarrow> 'a list \<Rightarrow> 's io" where
  "foldM f s [] = returnM s"
| "foldM f s (x # xs) = bindM (f s x) (\<lambda>s'. foldM f s' xs)"

named_theorems run_simps "equations that run a program"

lemma run_basic [run_simps]:
  "returnM x w = (Inr x, w)" "throwM e w = (Inl e, w)" "askM f w = (Inr (f w), w)" "liftE r w = (r, w)"
  by (simp_all add: returnM_def throwM_def askM_def liftE_def)

lemma run_bind [run_simps]:
  "bindM (returnM x) f = f x" "bindM (throwM e) f = throwM e" "bindM (bindM m g) f = bindM m (\<lambda>x. bindM (g x) f)"
  by (auto simp: bindM_def returnM_def throwM_def fun_eq_iff split: prod.split sum.split)

lemma bindM_Inr: "m w = (Inr x, w') \<Longrightarrow> bindM m f w = f x w'"
  by (simp add: bindM_def)

lemma bindM_Inl: "m w = (Inl e, w') \<Longrightarrow> bindM m f w = (Inl e, w')"
  by (simp add: bindM_def)

lemma bindM_Inr_iff: "bindM m f w = (Inr y, w'') \<longleftrightarrow> (\<exists>x w'. m w = (Inr x, w') \<and> f x w' = (Inr y, w''))"
  by (auto simp: bindM_def split: prod.split sum.split)

lemma bindM_InrE:
  "bindM m f w = (Inr y, w'') \<Longrightarrow> (\<And>x w'. m w = (Inr x, w') \<Longrightarrow> f x w' = (Inr y, w'') \<Longrightarrow> P) \<Longrightarrow> P"
  by (auto simp: bindM_Inr_iff)

lemma bindM_askM [run_simps]: "bindM (askM g) f w = f (g w) w"
  by (simp add: bindM_def askM_def)

lemma tryM_returnM [run_simps]: "tryM (returnM x) h = returnM x" "tryM (throwM e) h = h"
  by (auto simp: tryM_def returnM_def throwM_def fun_eq_iff)

lemma checkM_run [run_simps]: "checkM b e w = (if b then Inr () else Inl e, w)"
  by (simp add: checkM_def run_basic)

section \<open>System calls\<close>

definition sys_open :: "path \<Rightarrow> world \<Rightarrow> errno + node" where
  "sys_open p w =
     (if w_faults w Opening p then Inl EIO
      else case node_at w p of
          None \<Rightarrow> Inl ENOENT
        | Some n \<Rightarrow> if nd_kind n = Other then Inl EIO else Inr n)"

definition sys_open_dir :: "path \<Rightarrow> world \<Rightarrow> errno + node" where
  "sys_open_dir p w =
     (if w_faults w Opening p then Inl EIO
      else case node_at w p of
          None \<Rightarrow> Inl ENOENT
        | Some n \<Rightarrow> if nd_kind n = Directory then Inr n else Inl EIO)"

definition sys_mkdir :: "path \<Rightarrow> world \<Rightarrow> errno \<times> world" where
  "sys_mkdir p w =
     (if node_at w p \<noteq> None then (EEXIST, w)
      else if w_faults w Making p then (EIO, w)
      else (OK, set_node p (private_dir (w_clock w)) w))"

definition sys_unlink :: "path \<Rightarrow> world \<Rightarrow> errno \<times> world" where
  "sys_unlink p w =
     (case node_at w p of
        None \<Rightarrow> (ENOENT, w)
      | Some n \<Rightarrow> if nd_kind n = Directory \<or> w_faults w Unlinking p then (EIO, w) else (OK, remove_node p w))"

text \<open>
  \<open>rename\<close>: a file replaces a file, a directory replaces nothing or an empty directory.
\<close>

definition rename_allowed :: "node \<Rightarrow> path \<Rightarrow> world \<Rightarrow> bool" where
  "rename_allowed n d w \<longleftrightarrow>
     (case node_at w d of
        None \<Rightarrow> True
      | Some m \<Rightarrow> if nd_kind n = Directory then nd_kind m = Directory \<and> names_in w d = [] else nd_kind m \<noteq> Directory)"

definition sys_rename :: "path \<Rightarrow> path \<Rightarrow> world \<Rightarrow> errno \<times> world" where
  "sys_rename s d w =
     (case node_at w s of
        None \<Rightarrow> (ENOENT, w)
      | Some n \<Rightarrow>
          if w_faults w Renaming s \<or> \<not> rename_allowed n d w \<or> prefix s d \<or> prefix d s then (EIO, w)
          else (OK, move_tree s d w))"

text \<open>\<open>fsync\<close> of an open file or directory, and the removal of a whole tree.\<close>

definition sys_sync :: "path \<Rightarrow> world \<Rightarrow> errno" where
  "sys_sync p w = (if w_faults w Syncing p then EIO else OK)"

definition sys_remove_all :: "path \<Rightarrow> world \<Rightarrow> errno \<times> world" where
  "sys_remove_all p w = (if w_faults w Unlinking p then (EIO, w) else (OK, remove_tree p w))"

definition draw :: "world \<Rightarrow> nat \<times> world" where
  "draw w = (w_random w (w_drawn w), w\<lparr>w_drawn := Suc (w_drawn w)\<rparr>)"

text \<open>
  Files that are written in place: \<open>open\<close> with \<open>O_CREAT\<close>, the loop that writes all bytes at the end or at the
  start of the file, \<open>ftruncate\<close>, \<open>link\<close> and \<open>rmdir\<close>. A loop of writes that fails leaves some of the bytes
  written; how many is up to the random device. A second link to a file is a copy of it.
\<close>

definition set_content :: "path \<Rightarrow> node \<Rightarrow> string \<Rightarrow> world \<Rightarrow> world" where
  "set_content p n c w = set_node p (n\<lparr>nd_kind := Regular c, nd_mtime := w_clock w\<rparr>) w"

definition sys_create :: "path \<Rightarrow> world \<Rightarrow> errno \<times> world" where
  "sys_create p w =
     (if w_faults w Opening p then (EIO, w)
      else case node_at w p of
          None \<Rightarrow> if w_faults w Making p then (EIO, w) else (OK, set_node p (private_file [] (w_clock w)) w)
        | Some n \<Rightarrow> (case nd_kind n of Regular _ \<Rightarrow> (OK, w) | _ \<Rightarrow> (EIO, w)))"

definition write_with :: "(string \<Rightarrow> string \<Rightarrow> string) \<Rightarrow> path \<Rightarrow> string \<Rightarrow> world \<Rightarrow> errno \<times> world" where
  "write_with place p bytes w =
     (case node_at w p of
        None \<Rightarrow> (EIO, w)
      | Some n \<Rightarrow> (case nd_kind n of
            Regular c \<Rightarrow>
              if bytes = [] then (OK, w)
              else if w_faults w Writing p then (case draw w of (k, w') \<Rightarrow> (EIO, set_content p n (place c (take (k mod length bytes) bytes)) w'))
              else (OK, set_content p n (place c bytes) w)
          | _ \<Rightarrow> (EIO, w)))"

definition sys_append :: "path \<Rightarrow> string \<Rightarrow> world \<Rightarrow> errno \<times> world" where
  "sys_append = write_with (\<lambda>c bytes. c @ bytes)"

definition sys_overwrite :: "path \<Rightarrow> string \<Rightarrow> world \<Rightarrow> errno \<times> world" where
  "sys_overwrite = write_with (\<lambda>c bytes. bytes @ drop (length bytes) c)"

definition sys_truncate :: "path \<Rightarrow> nat \<Rightarrow> world \<Rightarrow> errno \<times> world" where
  "sys_truncate p len w =
     (case node_at w p of
        None \<Rightarrow> (EIO, w)
      | Some n \<Rightarrow> (case nd_kind n of
            Regular c \<Rightarrow> if w_faults w Truncating p then (EIO, w) else (OK, set_content p n (take len c) w)
          | _ \<Rightarrow> (EIO, w)))"

definition sys_link :: "path \<Rightarrow> path \<Rightarrow> world \<Rightarrow> errno \<times> world" where
  "sys_link s d w =
     (case node_at w s of
        None \<Rightarrow> (ENOENT, w)
      | Some n \<Rightarrow> if node_at w d \<noteq> None then (EEXIST, w) else if w_faults w Renaming s then (EIO, w) else (OK, set_node d n w))"

definition sys_rmdir :: "path \<Rightarrow> world \<Rightarrow> errno \<times> world" where
  "sys_rmdir p w =
     (case node_at w p of
        None \<Rightarrow> (ENOENT, w)
      | Some n \<Rightarrow> if nd_kind n \<noteq> Directory \<or> names_in w p \<noteq> [] \<or> w_faults w Unlinking p then (EIO, w) else (OK, remove_node p w))"

text \<open>A world without faults.\<close>

definition calm :: "world \<Rightarrow> bool" where
  "calm w \<longleftrightarrow> (\<forall>a p. \<not> w_faults w a p)"

lemma world_fields [simp]:
  "w_faults (set_node p n w) = w_faults w" "w_clock (set_node p n w) = w_clock w"
  "w_faults (remove_node p w) = w_faults w" "w_clock (remove_node p w) = w_clock w"
  "w_faults (remove_tree p w) = w_faults w" "w_clock (remove_tree p w) = w_clock w"
  "w_faults (move_tree s d w) = w_faults w" "w_clock (move_tree s d w) = w_clock w"
  by (simp_all add: set_node_def remove_node_def remove_tree_def move_tree_def)

lemma calm_kept [simp]:
  "calm (set_node p n w) = calm w" "calm (remove_node p w) = calm w" "calm (remove_tree p w) = calm w"
  "calm (move_tree s d w) = calm w" "calm (w\<lparr>w_drawn := k\<rparr>) = calm w"
  by (simp_all add: calm_def)

lemma node_at_drawn [simp]: "node_at (w\<lparr>w_drawn := k\<rparr>) = node_at w"
  by (simp add: node_at_def fun_eq_iff)

lemma names_in_iff: "n \<in> set (names_in w d) \<longleftrightarrow> node_at w (d @ [n]) \<noteq> None"
proof -
  have "p \<noteq> [] \<and> butlast p = d \<and> last p = n \<longleftrightarrow> p = d @ [n]" for p :: path
    by (metis append_butlast_last_id butlast_snoc last_snoc snoc_eq_iff_butlast)
  then have "n \<in> set (names_in w d) \<longleftrightarrow> d @ [n] \<in> fst ` set (w_files w)"
    by (fastforce simp: names_in_def image_iff)
  then show ?thesis by (simp add: node_at_def map_of_eq_None_iff)
qed

section \<open>Keeping an invariant whatever happens\<close>

text \<open>
  A discipline is an invariant \<open>I\<close> of worlds and a preorder \<open>R\<close> on them. A program follows it when,
  started in \<open>I\<close>, it ends in \<open>I\<close> with an \<open>R\<close>-later world, whether it returns or throws; \<open>Q\<close> is what
  the program's value is known to satisfy when it returns.
\<close>

definition keeps :: "(world \<Rightarrow> bool) \<Rightarrow> (world \<Rightarrow> world \<Rightarrow> bool) \<Rightarrow> 'a io \<Rightarrow> ('a \<Rightarrow> bool) \<Rightarrow> bool" where
  "keeps I R m Q \<longleftrightarrow> (\<forall>w. I w \<longrightarrow> I (snd (m w)) \<and> R w (snd (m w)) \<and> (\<forall>x. fst (m w) = Inr x \<longrightarrow> Q x))"

lemma keepsI: "(\<And>w. I w \<Longrightarrow> I (snd (m w)) \<and> R w (snd (m w)) \<and> (\<forall>x. fst (m w) = Inr x \<longrightarrow> Q x)) \<Longrightarrow> keeps I R m Q"
  by (simp add: keeps_def)

lemma keepsD: "keeps I R m Q \<Longrightarrow> I w \<Longrightarrow> m w = (r, w') \<Longrightarrow> I w' \<and> R w w' \<and> (\<forall>x. r = Inr x \<longrightarrow> Q x)"
  by (auto simp: keeps_def)

lemma keeps_weaken: "keeps I R m Q \<Longrightarrow> (\<And>x. Q x \<Longrightarrow> Q' x) \<Longrightarrow> keeps I R m Q'"
  by (simp add: keeps_def)

locale discipline =
  fixes I :: "world \<Rightarrow> bool" and R :: "world \<Rightarrow> world \<Rightarrow> bool"
  assumes R_refl: "R w w"
    and R_trans: "R w w' \<Longrightarrow> R w' w'' \<Longrightarrow> R w w''"
begin

lemma keeps_return: "Q x \<Longrightarrow> keeps I R (returnM x) Q"
  by (simp add: keeps_def returnM_def R_refl)

lemma keeps_throw: "keeps I R (throwM e) Q"
  by (simp add: keeps_def throwM_def R_refl)

lemma keeps_ask: "(\<And>w. I w \<Longrightarrow> Q (f w)) \<Longrightarrow> keeps I R (askM f) Q"
  by (simp add: keeps_def askM_def R_refl)

lemma keeps_lift: "(\<And>x. r = Inr x \<Longrightarrow> Q x) \<Longrightarrow> keeps I R (liftE r) Q"
  by (simp add: keeps_def liftE_def R_refl)

lemma keeps_check: "(b \<Longrightarrow> Q ()) \<Longrightarrow> keeps I R (checkM b e) Q"
  by (simp add: keeps_def checkM_def returnM_def throwM_def R_refl)

lemma keeps_bind:
  assumes "keeps I R m P" and "\<And>x. P x \<Longrightarrow> keeps I R (f x) Q"
  shows "keeps I R (bindM m f) Q"
proof (rule keepsI)
  fix w assume I: "I w"
  obtain r w' where m: "m w = (r, w')" by fastforce
  note k = keepsD [OF assms(1) I m]
  show "I (snd (bindM m f w)) \<and> R w (snd (bindM m f w)) \<and> (\<forall>x. fst (bindM m f w) = Inr x \<longrightarrow> Q x)"
  proof (cases r)
    case (Inl e)
    then show ?thesis using k m by (simp add: bindM_def)
  next
    case (Inr x)
    obtain r' w'' where f: "f x w' = (r', w'')" by fastforce
    have "P x" "I w'" using k Inr by simp_all
    from keepsD [OF assms(2) [OF this(1)] this(2) f] show ?thesis
      using k m f Inr by (auto simp: bindM_def intro: R_trans)
  qed
qed

lemma keeps_try:
  assumes "keeps I R m Q" "keeps I R h Q"
  shows "keeps I R (tryM m h) Q"
proof (rule keepsI)
  fix w assume I: "I w"
  obtain r w' where m: "m w = (r, w')" by fastforce
  obtain r' w'' where h: "h w' = (r', w'')" by fastforce
  show "I (snd (tryM m h w)) \<and> R w (snd (tryM m h w)) \<and> (\<forall>x. fst (tryM m h w) = Inr x \<longrightarrow> Q x)"
    using keepsD [OF assms(1) I m] keepsD [OF assms(2) _ h] m h
    by (cases r) (auto simp: tryM_def intro: R_trans)
qed

lemma keeps_if: "(b \<Longrightarrow> keeps I R m Q) \<Longrightarrow> (\<not> b \<Longrightarrow> keeps I R k Q) \<Longrightarrow> keeps I R (if b then m else k) Q"
  by simp

lemma keeps_option:
  "(x = None \<Longrightarrow> keeps I R m Q) \<Longrightarrow> (\<And>y. x = Some y \<Longrightarrow> keeps I R (f y) Q) \<Longrightarrow>
   keeps I R (case x of None \<Rightarrow> m | Some y \<Rightarrow> f y) Q"
  by (cases x) simp_all

lemma keeps_for: "(\<And>x. x \<in> set xs \<Longrightarrow> keeps I R (f x) (\<lambda>_. True)) \<Longrightarrow> keeps I R (forM xs f) (\<lambda>_. True)"
  by (induction xs) (auto intro: keeps_return keeps_bind)

lemma keeps_fold:
  "P s \<Longrightarrow> (\<And>s x. P s \<Longrightarrow> x \<in> set xs \<Longrightarrow> keeps I R (f s x) P) \<Longrightarrow> keeps I R (foldM f s xs) P"
  by (induction xs arbitrary: s) (auto intro!: keeps_return keeps_bind)

lemma keeps_fmap: "keeps I R m (\<lambda>x. Q (f x)) \<Longrightarrow> keeps I R (bindM m (\<lambda>x. returnM (f x))) Q"
  by (erule keeps_bind) (rule keeps_return)

lemmas keeps_rules = keeps_return keeps_throw keeps_check keeps_if keeps_option

end

end
