(* ===== verification/Ck_Ci_Store.thy ===== *)
theory Ck_Ci_Store
  imports Ck_Ci_Records Ck_Fs
begin

text \<open>
  The file helpers of \<open>src/common/ci_store.cpp\<close> and its run directories: preparing them, writing and
  loading run and artifact records, reading step logs and bundles, and the cancel marker. A state root is
  the path \<open>[]\<close> of the world; a descriptor is the path it was opened on. The properties: what was
  written is what is loaded, tailing a log by chunks gives exactly the log, a tail is a suffix of it,
  and a cancel request is seen by the run and by its children unless the outputs are committed.
\<close>

section \<open>Private files and directories\<close>

abbreviation failM :: "string \<Rightarrow> 'a io" where
  "failM m \<equiv> throwM (Runtime_Error (''ci store: '' @ m))"

definition kMaximumCiRunRecordBytes :: nat where "kMaximumCiRunRecordBytes = 64 * 1024"
definition kMaximumCiArtifactRecordBytes :: nat where "kMaximumCiArtifactRecordBytes = 4096"
definition kMaximumReleaseRecordBytes :: nat where "kMaximumReleaseRecordBytes = 16 * 1024"

definition is_regular :: "node \<Rightarrow> bool" where
  "is_regular n = (case nd_kind n of Regular _ \<Rightarrow> True | _ \<Rightarrow> False)"

definition node_bytes :: "node \<Rightarrow> string" where
  "node_bytes n = (case nd_kind n of Regular c \<Rightarrow> c | _ \<Rightarrow> [])"

definition verifyPrivate :: "node \<Rightarrow> bool \<Rightarrow> unit io" where
  "verifyPrivate n directory =
     checkM (nd_private n \<and> (if directory then nd_kind n = Directory else is_regular n))
       (Runtime_Error ''ci store: a CI state path is not private and owned by this user'')"

definition openDir :: "path \<Rightarrow> path io" where
  "openDir p = bindM (askM (sys_open_dir p)) (\<lambda>r.
     case r of Inl _ \<Rightarrow> failM ''could not open the CI state directory''
     | Inr n \<Rightarrow> thenM (verifyPrivate n True) (returnM p))"

definition ensureDirAt :: "path \<Rightarrow> string \<Rightarrow> path io" where
  "ensureDirAt parent name = bindM (callM (sys_mkdir (parent @ [name]))) (\<lambda>e.
     if e \<noteq> OK \<and> e \<noteq> EEXIST then failM ''could not create a CI state directory''
     else bindM (askM (sys_open_dir (parent @ [name]))) (\<lambda>r.
       case r of Inl _ \<Rightarrow> failM ''could not open a CI state directory''
       | Inr n \<Rightarrow> thenM (verifyPrivate n True) (returnM (parent @ [name]))))"

text \<open>\<open>None\<close> is the \<open>missing\<close> flag.\<close>

definition openDirAt :: "path \<Rightarrow> string \<Rightarrow> path option io" where
  "openDirAt parent name = bindM (askM (sys_open_dir (parent @ [name]))) (\<lambda>r.
     case r of Inl e \<Rightarrow> if e = ENOENT then returnM None else failM ''could not open a CI state directory''
     | Inr n \<Rightarrow> thenM (verifyPrivate n True) (returnM (Some (parent @ [name]))))"

definition lockExclusive :: "path \<Rightarrow> unit io" where
  "lockExclusive d = bindM (askM (\<lambda>w. w_faults w Locking d)) (\<lambda>failed.
     if failed then failM ''could not lock the CI spool'' else returnM ())"

text \<open>
  The staged write: the staging file has a name of its own, is removed again when staging or the rename
  fails, and replaces the final name by one rename. A failure of the last \<open>fsync\<close> is reported although the
  new content is in place.
\<close>

definition atomicWriteAt :: "path \<Rightarrow> string \<Rightarrow> string \<Rightarrow> unit io" where
  "atomicWriteAt d name content w =
     (if w_faults w Staging d then failM ''could not stage a CI record'' w
      else if w_faults w Syncing (d @ [name]) then failM ''could not flush a CI record'' w
      else if w_faults w Renaming (d @ [name]) \<or> \<not> rename_allowed (private_file content (w_clock w)) (d @ [name]) w
        then failM ''could not commit a CI record'' w
      else let w' = set_node (d @ [name]) (private_file content (w_clock w)) w
           in if w_faults w Syncing d then failM ''could not commit a CI record'' w' else returnM () w')"

definition readCappedAt :: "path \<Rightarrow> string \<Rightarrow> nat \<Rightarrow> string option io" where
  "readCappedAt d name cap = bindM (askM (sys_open (d @ [name]))) (\<lambda>r.
     case r of Inl e \<Rightarrow> if e = ENOENT then returnM None else failM ''could not open a CI record''
     | Inr n \<Rightarrow>
         if \<not> is_regular n \<or> \<not> nd_private n \<or> length (node_bytes n) > cap
         then failM ''a CI record is unsafe or exceeds its size limit''
         else bindM (askM (\<lambda>w. w_faults w Reading (d @ [name]))) (\<lambda>failed.
           if failed \<and> node_bytes n \<noteq> [] then failM ''could not read a CI record'' else returnM (Some (node_bytes n))))"

definition listNames :: "path \<Rightarrow> string list io" where
  "listNames d = bindM (askM (\<lambda>w. if w_faults w Listing d then None else Some (names_in w d))) (\<lambda>r.
     case r of None \<Rightarrow> failM ''could not list a CI directory'' | Some names \<Rightarrow> returnM names)"

definition unlinkAt :: "path \<Rightarrow> string \<Rightarrow> errno io" where
  "unlinkAt d name = callM (sys_unlink (d @ [name]))"

definition fsyncAt :: "path \<Rightarrow> errno io" where
  "fsyncAt d = askM (sys_sync d)"

definition currentEpoch :: "nat io" where
  "currentEpoch = askM (\<lambda>w. w_clock w div 1000000000 mod 2 ^ 64)"

definition endsWith :: "string \<Rightarrow> string \<Rightarrow> bool" where
  "endsWith name ending = ends_with name ending"

text \<open>\<open>validatedMetadataRoot\<close> and \<open>openDir\<close> of the state root, as every operation begins.\<close>

definition validatedMetadataRoot :: "unit io" where
  "validatedMetadataRoot = bindM (askM (sys_open_dir [])) (\<lambda>r.
     case r of Inl _ \<Rightarrow> throwM (Runtime_Error ''could not open metadata state directory'')
     | Inr n \<Rightarrow> if \<not> nd_private n then throwM (Runtime_Error ''metadata state directory is not private and daemon-owned'')
               else returnM ())"

definition openRoot :: "path io" where
  "openRoot = thenM validatedMetadataRoot (openDir [])"

text \<open>Runs of \<open>ensureDirAt\<close> and \<open>openDirAt\<close>, one below the other.\<close>

fun ensurePath :: "path \<Rightarrow> string list \<Rightarrow> path io" where
  "ensurePath d [] = returnM d"
| "ensurePath d (n # ns) = bindM (ensureDirAt d n) (\<lambda>d'. ensurePath d' ns)"

fun openPath :: "path \<Rightarrow> string list \<Rightarrow> path option io" where
  "openPath d [] = returnM (Some d)"
| "openPath d (n # ns) = bindM (openDirAt d n) (\<lambda>r. case r of None \<Rightarrow> returnM None | Some d' \<Rightarrow> openPath d' ns)"

section \<open>Run directories\<close>

definition run_names :: "string \<Rightarrow> string \<Rightarrow> string list" where
  "run_names project run = [''ci'', ''runs'', project, run]"

definition prepareCiRunDirectory :: "string \<Rightarrow> string \<Rightarrow> path io" where
  "prepareCiRunDirectory project_name run_id =
     (if \<not> isValidProjectName project_name then failM ''invalid project name for a CI run''
      else if \<not> isValidCiId run_id then failM ''invalid CI run id''
      else bindM openRoot (\<lambda>root.
        thenM (ensurePath root (run_names project_name run_id @ [''steps'']))
          (returnM (run_names project_name run_id))))"

definition prepareCiIncomingDirectory :: "string \<Rightarrow> string \<Rightarrow> path io" where
  "prepareCiIncomingDirectory project_name run_id =
     (if \<not> isValidProjectName project_name then failM ''invalid project name for CI staging''
      else if \<not> isValidCiId run_id then failM ''invalid CI run id''
      else bindM openRoot (\<lambda>root. ensurePath root (run_names project_name run_id @ [''incoming''])))"

definition prepareCiArtifactDirectory :: "string \<Rightarrow> string \<Rightarrow> path io" where
  "prepareCiArtifactDirectory project_name run_id =
     (if \<not> isValidProjectName project_name then failM ''invalid project name for a CI artifact''
      else if \<not> isValidCiId run_id then failM ''invalid CI run id''
      else bindM openRoot (\<lambda>root. ensurePath root (run_names project_name run_id @ [''artifacts''])))"

definition writeCiRunRecord :: "CiRunRecord \<Rightarrow> unit io" where
  "writeCiRunRecord record =
     (if \<not> validJobMembership (rr_run_id record) (rr_parent_run_id record) (rr_workflow_job record)
         \<or> \<not> isValidCiId (rr_run_id record) \<or> \<not> isValidProjectName (rr_project_name record)
         \<or> \<not> isValidObjectId (rr_commit_id record)
      then failM ''refusing to write an invalid CI run record''
      else if length (rr_detail record) > kMaximumCiDetailBytes then failM ''a CI run detail exceeds its size limit''
      else bindM (liftE (serializeRun record)) (\<lambda>content.
        if length content > kMaximumCiRunRecordBytes then failM ''a CI run record exceeds its size limit''
        else bindM openRoot (\<lambda>root.
             bindM (ensurePath root (run_names (rr_project_name record) (rr_run_id record))) (\<lambda>run.
             atomicWriteAt run ''run.ini'' content))))"

definition writeCiArtifactRecord :: "string \<Rightarrow> string \<Rightarrow> CiArtifactRecord \<Rightarrow> unit io" where
  "writeCiArtifactRecord project_name run_id record =
     (if \<not> isValidProjectName project_name \<or> \<not> isValidCiId run_id \<or> \<not> isValidCiArtifactName (ar_name record)
      then failM ''refusing to write an invalid CI artifact record''
      else if length (serializeArtifact record) > kMaximumCiArtifactRecordBytes
      then failM ''a CI artifact record exceeds its size limit''
      else bindM openRoot (\<lambda>root.
           bindM (ensurePath root (run_names project_name run_id @ [''artifacts''])) (\<lambda>d.
           atomicWriteAt d (ar_name record @ ''.ini'') (serializeArtifact record))))"

text \<open>One sidecar; a missing, unreadable or malformed one adds nothing.\<close>

definition load_artifact :: "path \<Rightarrow> CiArtifactRecord list \<Rightarrow> string \<Rightarrow> CiArtifactRecord list io" where
  "load_artifact d artifacts name =
     tryM (bindM (readCappedAt d name kMaximumCiArtifactRecordBytes) (\<lambda>r.
             case r of None \<Rightarrow> returnM artifacts
             | Some content \<Rightarrow> bindM (liftE (parseArtifact content)) (\<lambda>a. returnM (artifacts @ [a]))))
          (returnM artifacts)"

definition loadArtifactsFor :: "path \<Rightarrow> CiArtifactRecord list io" where
  "loadArtifactsFor run =
     tryM (bindM (openDirAt run ''artifacts'') (\<lambda>r.
             case r of None \<Rightarrow> returnM []
             | Some d \<Rightarrow> bindM (listNames d) (\<lambda>names.
                 foldM (load_artifact d) [] (sort (filter (\<lambda>n. endsWith n ''.ini'') names)))))
          (returnM [])"

section \<open>Loading runs\<close>

definition ciRunsToShow :: "CiRunRecord list \<Rightarrow> CiRunRecord list \<times> nat" where
  "ciRunsToShow newest_first =
     (let pending = filter (\<lambda>r. rr_status r = Pending) newest_first;
          shown = filter (\<lambda>r. rr_status r = Running) newest_first @ (if pending = [] then [] else [hd pending])
      in (if shown = [] \<and> newest_first \<noteq> [] then [hd newest_first] else shown, length pending))"

text \<open>The loop of \<open>loadCiRuns\<close> over the ids, newest first.\<close>

fun collect_runs :: "path \<Rightarrow> nat \<Rightarrow> bool \<Rightarrow> string list \<Rightarrow> CiRunRecord list \<Rightarrow> CiRunRecord list io" where
  "collect_runs project maximum workflows_only [] runs = returnM runs"
| "collect_runs project maximum workflows_only (i # ids) runs =
     (if length runs \<ge> maximum then returnM runs
      else bindM (openDirAt project i) (\<lambda>r.
        case r of None \<Rightarrow> collect_runs project maximum workflows_only ids runs
        | Some run_dir \<Rightarrow> bindM (readCappedAt run_dir ''run.ini'' kMaximumCiRunRecordBytes) (\<lambda>c.
            case c of None \<Rightarrow> collect_runs project maximum workflows_only ids runs
            | Some content \<Rightarrow>
                (case parseRun content of
                   Inl _ \<Rightarrow> collect_runs project maximum workflows_only ids runs
                 | Inr run \<Rightarrow>
                     if workflows_only \<and> rr_parent_run_id run \<noteq> [] then collect_runs project maximum workflows_only ids runs
                     else bindM (loadArtifactsFor run_dir) (\<lambda>a.
                       collect_runs project maximum workflows_only ids (runs @ [run\<lparr>rr_artifacts := a\<rparr>]))))))"

definition loadCiRuns :: "string \<Rightarrow> nat \<Rightarrow> bool \<Rightarrow> CiRunRecord list io" where
  "loadCiRuns project_name maximum workflows_only =
     (if maximum = 0 \<or> \<not> isValidProjectName project_name then returnM []
      else bindM openRoot (\<lambda>root.
           bindM (openPath root [''ci'', ''runs'', project_name]) (\<lambda>r.
           case r of None \<Rightarrow> returnM []
           | Some project \<Rightarrow> bindM (listNames project) (\<lambda>names.
               collect_runs project maximum workflows_only (rev (sort (filter isValidCiId names))) []))))"

definition loadCiRun :: "string \<Rightarrow> string \<Rightarrow> CiRunRecord option io" where
  "loadCiRun project_name run_id =
     (if \<not> isValidProjectName project_name \<or> \<not> isValidCiId run_id then returnM None
      else tryM (bindM openRoot (\<lambda>root.
             bindM (openPath root (run_names project_name run_id)) (\<lambda>r.
             case r of None \<Rightarrow> returnM None
             | Some run_dir \<Rightarrow> bindM (readCappedAt run_dir ''run.ini'' kMaximumCiRunRecordBytes) (\<lambda>c.
                 case c of None \<Rightarrow> returnM None
                 | Some content \<Rightarrow> bindM (liftE (parseRun content)) (\<lambda>run.
                     bindM (loadArtifactsFor run_dir) (\<lambda>a. returnM (Some (run\<lparr>rr_artifacts := a\<rparr>))))))))
           (returnM None))"

section \<open>Step logs and bundles\<close>

definition log_name :: "nat \<Rightarrow> string" where
  "log_name step_index = to_dec step_index @ ''.log''"

definition readCiRunLog :: "string \<Rightarrow> string \<Rightarrow> nat \<Rightarrow> nat \<Rightarrow> string option io" where
  "readCiRunLog project_name run_id step_index cap =
     (if \<not> isValidProjectName project_name \<or> \<not> isValidCiId run_id then returnM None
      else tryM (bindM openRoot (\<lambda>root.
             bindM (openPath root (run_names project_name run_id @ [''steps''])) (\<lambda>r.
             case r of None \<Rightarrow> returnM None
             | Some steps \<Rightarrow> readCappedAt steps (log_name step_index) cap)))
           (returnM None))"

text \<open>A log file that may be read: regular, private and owned. A read that fails gives no bytes.\<close>

definition log_bytes :: "path \<Rightarrow> world \<Rightarrow> string option" where
  "log_bytes p w =
     (case sys_open p w of
        Inl _ \<Rightarrow> None
      | Inr n \<Rightarrow> if is_regular n \<and> nd_private n then Some (node_bytes n) else None)"

definition readCiRunLogTail :: "string \<Rightarrow> string \<Rightarrow> nat \<Rightarrow> nat \<Rightarrow> (string \<times> nat) option io" where
  "readCiRunLogTail project_name run_id step_index max_bytes =
     (if \<not> isValidProjectName project_name \<or> \<not> isValidCiId run_id then returnM None
      else tryM (bindM openRoot (\<lambda>root.
             bindM (openPath root (run_names project_name run_id @ [''steps''])) (\<lambda>r.
             case r of None \<Rightarrow> returnM None
             | Some steps \<Rightarrow> askM (\<lambda>w.
                 let p = steps @ [log_name step_index] in
                 case log_bytes p w of
                   None \<Rightarrow> None
                 | Some c \<Rightarrow>
                     let start = (if length c > max_bytes then length c - max_bytes else 0)
                     in Some (if w_faults w Reading p then [] else drop start c, length c)))))
           (returnM None))"

definition readCiRunLogChunk :: "string \<Rightarrow> string \<Rightarrow> nat \<Rightarrow> nat \<Rightarrow> nat \<Rightarrow> string option io" where
  "readCiRunLogChunk project_name run_id step_index offset cap =
     (if \<not> isValidProjectName project_name \<or> \<not> isValidCiId run_id \<or> cap = 0 then returnM None
      else tryM (bindM openRoot (\<lambda>root.
             bindM (openPath root (run_names project_name run_id @ [''steps''])) (\<lambda>r.
             case r of None \<Rightarrow> returnM None
             | Some steps \<Rightarrow> askM (\<lambda>w.
                 let p = steps @ [log_name step_index] in
                 case log_bytes p w of
                   None \<Rightarrow> None
                 | Some c \<Rightarrow>
                     if offset \<ge> length c then Some []
                     else Some (if w_faults w Reading p then [] else take (min (length c - offset) cap) (drop offset c))))))
           (returnM None))"

definition readCiArtifact :: "string \<Rightarrow> string \<Rightarrow> string \<Rightarrow> nat \<Rightarrow> string option io" where
  "readCiArtifact project_name run_id artifact_name cap =
     (if \<not> isValidProjectName project_name \<or> \<not> isValidCiId run_id \<or> \<not> isValidCiArtifactName artifact_name then returnM None
      else tryM (bindM openRoot (\<lambda>root.
             bindM (openPath root (run_names project_name run_id @ [''artifacts''])) (\<lambda>r.
             case r of None \<Rightarrow> returnM None
             | Some d \<Rightarrow> readCappedAt d (artifact_name @ ''.tar'') cap)))
           (returnM None))"

section \<open>Cancelling\<close>

definition openRunDir :: "string \<Rightarrow> string \<Rightarrow> path option io" where
  "openRunDir project_name run_id = bindM openRoot (\<lambda>root. openPath root (run_names project_name run_id))"

definition kCancelMarkerName :: string where "kCancelMarkerName = ''cancel''"

definition requestCiCancel :: "string \<Rightarrow> string \<Rightarrow> bool io" where
  "requestCiCancel project_name run_id =
     (if \<not> isValidProjectName project_name \<or> \<not> isValidCiId run_id then failM ''refusing to cancel an invalid CI run''
      else bindM (openRunDir project_name run_id) (\<lambda>r.
        case r of None \<Rightarrow> returnM False
        | Some run_dir \<Rightarrow> thenM (lockExclusive run_dir) (
            bindM (readCappedAt run_dir ''outputs-committed'' 128) (\<lambda>committed.
            if committed \<noteq> None then returnM True
            else thenM (atomicWriteAt run_dir kCancelMarkerName (''cancel'' @ [newline])) (returnM True)))))"

definition isCiCancelRequested :: "string \<Rightarrow> string \<Rightarrow> bool io" where
  "isCiCancelRequested project_name run_id =
     (if \<not> isValidProjectName project_name \<or> \<not> isValidCiId run_id then returnM False
      else tryM (bindM (openRunDir project_name run_id) (\<lambda>r.
             case r of None \<Rightarrow> returnM False
             | Some run_dir \<Rightarrow> bindM (readCappedAt run_dir kCancelMarkerName 64) (\<lambda>marker.
                 if marker \<noteq> None then returnM True
                 else bindM (loadCiRun project_name run_id) (\<lambda>run.
                   case run of None \<Rightarrow> returnM False
                   | Some record \<Rightarrow>
                       if rr_parent_run_id record = [] then returnM False
                       else bindM (openRunDir project_name (rr_parent_run_id record)) (\<lambda>p.
                         case p of None \<Rightarrow> returnM False
                         | Some parent_dir \<Rightarrow> bindM (readCappedAt parent_dir kCancelMarkerName 64) (\<lambda>m.
                             returnM (m \<noteq> None)))))))
           (returnM False))"

definition clearCiCancel :: "string \<Rightarrow> string \<Rightarrow> unit io" where
  "clearCiCancel project_name run_id =
     (if \<not> isValidProjectName project_name \<or> \<not> isValidCiId run_id then returnM ()
      else tryM (bindM (openRunDir project_name run_id) (\<lambda>r.
             case r of None \<Rightarrow> returnM ()
             | Some run_dir \<Rightarrow> bindM (unlinkAt run_dir kCancelMarkerName) (\<lambda>e.
                 if e \<noteq> OK \<and> e \<noteq> ENOENT then failM ''could not clear a CI cancel marker'' else returnM ())))
           (returnM ()))"

section \<open>Loaders only read\<close>

text \<open>The discipline of a program that leaves the world as it is.\<close>

interpretation reading: discipline "\<lambda>_. True" "(=)"
  by unfold_locales simp_all

definition reads :: "'a io \<Rightarrow> bool" where
  "reads m \<longleftrightarrow> keeps (\<lambda>_. True) (=) m (\<lambda>_. True)"

named_theorems reads_intro "programs that only read"

lemma reads_iff: "reads m \<longleftrightarrow> (\<forall>w. snd (m w) = w)"
  by (auto simp: reads_def keeps_def)

lemma reads_run: "reads m \<Longrightarrow> m w = (fst (m w), w)"
  by (simp add: reads_iff prod_eq_iff)

lemma reads_bind [reads_intro]: "reads m \<Longrightarrow> (\<And>x. reads (f x)) \<Longrightarrow> reads (bindM m f)"
  unfolding reads_def by (rule reading.keeps_bind)

lemma reads_try [reads_intro]: "reads m \<Longrightarrow> reads h \<Longrightarrow> reads (tryM m h)"
  unfolding reads_def by (rule reading.keeps_try)

lemma reads_basic [reads_intro]: "reads (returnM x)" "reads (throwM e)" "reads (askM g)" "reads (liftE r)" "reads (checkM b e)"
  by (simp_all add: reads_iff run_simps)

lemma reads_branch [reads_intro]:
  "(b \<Longrightarrow> reads m) \<Longrightarrow> (\<not> b \<Longrightarrow> reads k) \<Longrightarrow> reads (if b then m else k)"
  "(x = None \<Longrightarrow> reads m) \<Longrightarrow> (\<And>y. x = Some y \<Longrightarrow> reads (f y)) \<Longrightarrow> reads (case x of None \<Rightarrow> m | Some y \<Rightarrow> f y)"
  "(\<And>a. r = Inl a \<Longrightarrow> reads (g a)) \<Longrightarrow> (\<And>y. r = Inr y \<Longrightarrow> reads (h y)) \<Longrightarrow> reads (case r of Inl a \<Rightarrow> g a | Inr y \<Rightarrow> h y)"
  by (cases b, simp_all, cases x, simp_all, cases r, simp_all)

lemma reads_fold [reads_intro]: "(\<And>s x. reads (f s x)) \<Longrightarrow> reads (foldM f s xs)"
  by (induction xs arbitrary: s) (auto intro: reads_intro)

lemma reads_helpers [reads_intro]:
  "reads (verifyPrivate nd b)" "reads (openDir p)" "reads (openDirAt p n)" "reads (readCappedAt p n cap)"
  "reads (listNames p)" "reads (lockExclusive p)" "reads (fsyncAt p)" "reads currentEpoch" "reads validatedMetadataRoot"
  "reads openRoot"
  unfolding verifyPrivate_def openDir_def openDirAt_def readCappedAt_def listNames_def lockExclusive_def fsyncAt_def
    currentEpoch_def validatedMetadataRoot_def openRoot_def
  by (intro reads_intro)+

lemma reads_openPath [reads_intro]: "reads (openPath d ns)"
  by (induction ns arbitrary: d) (auto intro!: reads_intro)

lemma reads_artifacts [reads_intro]: "reads (loadArtifactsFor run)"
  unfolding loadArtifactsFor_def load_artifact_def by (intro reads_intro)

lemma reads_collect [reads_intro]: "reads (collect_runs p k b ids rs)"
  by (induction ids arbitrary: rs) (auto intro!: reads_intro)

lemma reads_loaders [reads_intro]:
  "reads (loadCiRuns p k b)" "reads (loadCiRun p r)" "reads (readCiRunLog p r i cap)" "reads (readCiRunLogTail p r i m)"
  "reads (readCiRunLogChunk p r i off cap)" "reads (readCiArtifact p r a cap)" "reads (openRunDir p r)"
  unfolding loadCiRuns_def loadCiRun_def readCiRunLog_def readCiRunLogTail_def readCiRunLogChunk_def readCiArtifact_def
    openRunDir_def
  by (intro reads_intro)+

lemma reads_cancel [reads_intro]: "reads (isCiCancelRequested p r)"
  unfolding isCiCancelRequested_def by (intro reads_intro)

text \<open>The value of a reading program, and how it runs inside another program.\<close>

definition value_of :: "'a io \<Rightarrow> world \<Rightarrow> 'a option" where
  "value_of m w = ok_of (fst (m w))"

lemma bindM_reads: "reads m \<Longrightarrow> bindM m f w = (case fst (m w) of Inl e \<Rightarrow> (Inl e, w) | Inr x \<Rightarrow> f x w)"
  by (simp add: bindM_def prod.case_eq_if reads_iff)

lemma tryM_total: "reads m \<Longrightarrow> fst (h w) = Inr y \<Longrightarrow> \<exists>x. fst (tryM m h w) = Inr x"
  by (simp add: tryM_def prod.case_eq_if reads_iff split: sum.split)

section \<open>Programs that only add directories\<close>

definition adds_dirs :: "world \<Rightarrow> world \<Rightarrow> bool" where
  "adds_dirs w w' \<longleftrightarrow> w_faults w' = w_faults w \<and> w_clock w' = w_clock w \<and> w_random w' = w_random w \<and> w_drawn w' = w_drawn w
     \<and> (\<forall>q. node_at w' q = node_at w q \<or> node_at w q = None \<and> node_at w' q = Some (private_dir (w_clock w)))"

interpretation adding: discipline "\<lambda>_. True" adds_dirs
proof unfold_locales
  fix w w' w'' assume a: "adds_dirs w w'" and b: "adds_dirs w' w''"
  have "node_at w'' q = node_at w q \<or> node_at w q = None \<and> node_at w'' q = Some (private_dir (w_clock w))" for q
  proof -
    have "node_at w'' q = node_at w' q \<or> node_at w' q = None \<and> node_at w'' q = Some (private_dir (w_clock w))"
      "node_at w' q = node_at w q \<or> node_at w q = None \<and> node_at w' q = Some (private_dir (w_clock w))"
      using a b by (auto simp: adds_dirs_def)
    then show ?thesis by auto
  qed
  then show "adds_dirs w w''" using a b by (simp add: adds_dirs_def)
qed (simp add: adds_dirs_def)

lemma keeps_reads: "reads m \<Longrightarrow> keeps (\<lambda>_. True) adds_dirs m (\<lambda>_. True)"
  by (simp add: reads_iff keeps_def adding.R_refl)

lemma adding_mkdir: "keeps (\<lambda>_. True) adds_dirs (callM (sys_mkdir p)) (\<lambda>_. True)"
  by (auto simp: keeps_def callM_def sys_mkdir_def adds_dirs_def set_node_def node_at_def map_of_filter_key [where P = "\<lambda>k. k \<noteq> p"])

lemma ensureDirAt_adds: "keeps (\<lambda>_. True) adds_dirs (ensureDirAt d n) (\<lambda>_. True)"
  unfolding ensureDirAt_def
  by (rule adding.keeps_bind [OF adding_mkdir]) (auto intro!: keeps_reads reads_intro)

lemma ensurePath_adds: "keeps (\<lambda>_. True) adds_dirs (ensurePath d ns) (\<lambda>_. True)"
  by (induction ns arbitrary: d) (auto intro!: adding.keeps_return adding.keeps_bind [OF ensureDirAt_adds])

lemma prepare_adds: "keeps (\<lambda>_. True) adds_dirs (prepareCiRunDirectory p r) (\<lambda>_. True)"
  unfolding prepareCiRunDirectory_def
  by (intro adding.keeps_if adding.keeps_throw adding.keeps_bind [where P = "\<lambda>_. True"] adding.keeps_return ensurePath_adds)
     (auto intro!: keeps_reads reads_intro)

lemma adds_dirs_file: "adds_dirs w w' \<Longrightarrow> file_at w' p = file_at w p"
proof -
  assume a: "adds_dirs w w'"
  then have "node_at w' p = node_at w p \<or> node_at w p = None \<and> node_at w' p = Some (private_dir (w_clock w))"
    by (simp add: adds_dirs_def)
  then show ?thesis by (auto simp: file_at_def private_dir_def)
qed

section \<open>Running on a world without faults\<close>

definition dir_ok :: "world \<Rightarrow> path \<Rightarrow> bool" where
  "dir_ok w p = (case node_at w p of None \<Rightarrow> False | Some n \<Rightarrow> nd_kind n = Directory \<and> nd_private n)"

fun dirs_ok :: "world \<Rightarrow> path \<Rightarrow> string list \<Rightarrow> bool" where
  "dirs_ok w d [] = True"
| "dirs_ok w d (n # ns) = (dir_ok w (d @ [n]) \<and> dirs_ok w (d @ [n]) ns)"

text \<open>A regular private file with this content.\<close>

definition private_at :: "world \<Rightarrow> path \<Rightarrow> string \<Rightarrow> bool" where
  "private_at w p c = (case node_at w p of None \<Rightarrow> False | Some n \<Rightarrow> nd_kind n = Regular c \<and> nd_private n)"

lemma dir_ok_private_dir [simp]: "node_at w p = Some (private_dir t) \<Longrightarrow> dir_ok w p"
  by (simp add: dir_ok_def private_dir_def)

lemma dir_ok_iff: "dir_ok w p \<longleftrightarrow> (\<exists>n. node_at w p = Some n \<and> nd_kind n = Directory \<and> nd_private n)"
  by (auto simp: dir_ok_def split: option.splits)

lemma private_at_iff: "private_at w p c \<longleftrightarrow> (\<exists>n. node_at w p = Some n \<and> nd_kind n = Regular c \<and> nd_private n)"
  by (auto simp: private_at_def split: option.splits)

lemma adds_dirs_node: "adds_dirs w w' \<Longrightarrow> node_at w p = Some n \<Longrightarrow> node_at w' p = Some n"
  by (auto simp: adds_dirs_def dest: spec [where x = p])

lemma adds_dirs_dir_ok: "adds_dirs w w' \<Longrightarrow> dir_ok w p \<Longrightarrow> dir_ok w' p"
  by (auto simp: dir_ok_iff dest: adds_dirs_node)

lemma adds_dirs_dirs_ok: "adds_dirs w w' \<Longrightarrow> dirs_ok w d ns \<Longrightarrow> dirs_ok w' d ns"
  by (induction ns arbitrary: d) (auto intro: adds_dirs_dir_ok)

lemma dirs_ok_append: "dirs_ok w d (ms @ ns) \<longleftrightarrow> dirs_ok w d ms \<and> dirs_ok w (d @ ms) ns"
  by (induction ms arbitrary: d) auto

lemma dirs_ok_set:
  assumes "length d + length ns < length p"
  shows "dirs_ok (set_node p n w) d ns = dirs_ok w d ns"
  using assms
proof (induction ns arbitrary: d)
  case (Cons m ns)
  have "d @ [m] \<noteq> p" using Cons.prems by auto
  then show ?case using Cons by (simp add: dir_ok_def)
qed simp

lemma openDirAt_run: "calm w \<Longrightarrow> dir_ok w (d @ [n]) \<Longrightarrow> openDirAt d n w = (Inr (Some (d @ [n])), w)"
  by (auto simp: openDirAt_def bindM_askM sys_open_dir_def calm_def dir_ok_iff verifyPrivate_def checkM_def run_simps)

lemma openDirAt_missing: "calm w \<Longrightarrow> node_at w (d @ [n]) = None \<Longrightarrow> openDirAt d n w = (Inr None, w)"
  by (simp add: openDirAt_def bindM_askM sys_open_dir_def calm_def run_simps)

lemma openPath_run: "calm w \<Longrightarrow> dirs_ok w d ns \<Longrightarrow> openPath d ns w = (Inr (Some (d @ ns)), w)"
proof (induction ns arbitrary: d)
  case (Cons n ns)
  then show ?case by (simp add: bindM_Inr [OF openDirAt_run])
qed (simp add: run_simps)

lemma openRoot_run: "calm w \<Longrightarrow> dir_ok w [] \<Longrightarrow> openRoot w = (Inr [], w)"
  by (auto simp: openRoot_def validatedMetadataRoot_def openDir_def bindM_def askM_def sys_open_dir_def calm_def dir_ok_iff
      verifyPrivate_def checkM_def run_basic)

lemma openRoot_Inr: "openRoot w = (Inr d, w') \<Longrightarrow> d = [] \<and> w' = w \<and> dir_ok w []"
  by (auto simp: openRoot_def validatedMetadataRoot_def openDir_def bindM_def askM_def sys_open_dir_def dir_ok_def
      verifyPrivate_def checkM_def run_basic split: option.splits if_splits sum.splits)

lemma ensureDirAt_Inr: "ensureDirAt d n w = (Inr d', w') \<Longrightarrow> d' = d @ [n] \<and> dir_ok w' (d @ [n])"
  by (auto simp: ensureDirAt_def bindM_def askM_def callM_def sys_open_dir_def dir_ok_def
      verifyPrivate_def checkM_def run_basic split: option.splits if_splits sum.splits prod.splits)

lemma ensurePath_Inr: "ensurePath d ns w = (Inr d', w') \<Longrightarrow> d' = d @ ns \<and> dirs_ok w' d ns"
proof (induction ns arbitrary: d w)
  case (Cons n ns)
  then obtain d1 w1 where 1: "ensureDirAt d n w = (Inr d1, w1)" "ensurePath d1 ns w1 = (Inr d', w')"
    by (auto simp: bindM_Inr_iff)
  then have "adds_dirs w1 w'" using ensurePath_adds [of d1 ns] by (auto dest: keepsD)
  moreover have "d1 = d @ [n]" "dir_ok w1 (d @ [n])" using ensureDirAt_Inr [OF 1(1)] by simp_all
  ultimately show ?case using Cons.IH [OF 1(2)] by (simp add: adds_dirs_dir_ok)
qed (simp add: run_simps)

text \<open>Directories that are there already, or that nothing stands in the way of.\<close>

fun makeable :: "world \<Rightarrow> path \<Rightarrow> string list \<Rightarrow> bool" where
  "makeable w d [] = True"
| "makeable w d (n # ns) = ((node_at w (d @ [n]) = None \<or> dir_ok w (d @ [n])) \<and> makeable w (d @ [n]) ns)"

lemma ensureDirAt_run:
  assumes "calm w" "node_at w (d @ [n]) = None \<or> dir_ok w (d @ [n])"
  shows "\<exists>w'. ensureDirAt d n w = (Inr (d @ [n]), w') \<and> adds_dirs w w'"
proof -
  obtain r w' where e: "ensureDirAt d n w = (r, w')" by fastforce
  have "fst (ensureDirAt d n w) = Inr (d @ [n])"
  proof (cases "node_at w (d @ [n])")
    case None
    then show ?thesis using assms(1)
      by (simp add: ensureDirAt_def bindM_def askM_def callM_def sys_mkdir_def sys_open_dir_def calm_def
          verifyPrivate_def checkM_def run_basic private_dir_def)
  next
    case (Some nd)
    then have "nd_kind nd = Directory" "nd_private nd" using assms(2) by (auto simp: dir_ok_iff)
    then show ?thesis using assms(1) Some
      by (simp add: ensureDirAt_def bindM_def askM_def callM_def sys_mkdir_def sys_open_dir_def calm_def
          verifyPrivate_def checkM_def run_basic)
  qed
  then show ?thesis using e keepsD [OF ensureDirAt_adds _ e] by simp
qed

lemma makeable_adds: "adds_dirs w w' \<Longrightarrow> makeable w d ns \<Longrightarrow> makeable w' d ns"
proof (induction ns arbitrary: d)
  case (Cons n ns)
  then have "node_at w (d @ [n]) = None \<or> dir_ok w (d @ [n])" by simp
  moreover have "node_at w (d @ [n]) = None \<Longrightarrow> node_at w' (d @ [n]) = None \<or> dir_ok w' (d @ [n])"
    using Cons.prems(1) by (auto simp: adds_dirs_def dest!: spec [where x = "d @ [n]"])
  ultimately have "node_at w' (d @ [n]) = None \<or> dir_ok w' (d @ [n])"
    using adds_dirs_dir_ok [OF Cons.prems(1)] by blast
  with Cons show ?case by simp
qed simp

lemma adds_dirs_calm: "adds_dirs w w' \<Longrightarrow> calm w' = calm w"
  by (simp add: adds_dirs_def calm_def)

lemma ensurePath_run:
  assumes "calm w" "makeable w d ns"
  shows "\<exists>w'. ensurePath d ns w = (Inr (d @ ns), w') \<and> adds_dirs w w' \<and> dirs_ok w' d ns"
  using assms
proof (induction ns arbitrary: d w)
  case Nil
  then show ?case by (simp add: run_simps adding.R_refl)
next
  case (Cons n ns)
  then obtain w1 where 1: "ensureDirAt d n w = (Inr (d @ [n]), w1)" "adds_dirs w w1"
    using ensureDirAt_run by fastforce
  have "calm w1" "makeable w1 (d @ [n]) ns" using 1(2) Cons.prems makeable_adds adds_dirs_calm by fastforce+
  from Cons.IH [OF this] obtain w2 where 2: "ensurePath (d @ [n]) ns w1 = (Inr ((d @ [n]) @ ns), w2)" "adds_dirs w1 w2"
    by blast
  have run: "ensurePath d (n # ns) w = (Inr (d @ n # ns), w2)" using 1(1) 2(1) by (simp add: bindM_def)
  show ?case using run ensurePath_Inr [OF run] adding.R_trans [OF 1(2) 2(2)] by blast
qed

lemma readCappedAt_run:
  "calm w \<Longrightarrow> private_at w (d @ [n]) c \<Longrightarrow> length c \<le> cap \<Longrightarrow> readCappedAt d n cap w = (Inr (Some c), w)"
  by (auto simp: readCappedAt_def bindM_askM sys_open_def calm_def private_at_iff is_regular_def node_bytes_def run_simps)

lemma readCappedAt_missing: "calm w \<Longrightarrow> node_at w (d @ [n]) = None \<Longrightarrow> readCappedAt d n cap w = (Inr None, w)"
  by (simp add: readCappedAt_def bindM_askM sys_open_def calm_def run_simps)

lemma readCappedAt_Some:
  "readCappedAt d n cap w = (Inr (Some c), w') \<Longrightarrow> private_at w (d @ [n]) c \<and> length c \<le> cap \<and> w' = w"
  by (auto simp: readCappedAt_def bindM_askM sys_open_def private_at_iff is_regular_def node_bytes_def run_simps
      split: option.split_asm if_split_asm sum.split_asm kind.split_asm)

lemma readCappedAt_None:
  "readCappedAt d n cap w = (Inr None, w') \<Longrightarrow> node_at w (d @ [n]) = None \<and> w' = w"
  by (auto simp: readCappedAt_def bindM_askM sys_open_def run_simps split: option.splits if_splits sum.splits)

lemma atomicWriteAt_Inr:
  "atomicWriteAt d n c w = (Inr (), w') \<Longrightarrow> w' = set_node (d @ [n]) (private_file c (w_clock w)) w"
  by (auto simp: atomicWriteAt_def Let_def run_basic split: if_splits)

lemma atomicWriteAt_run:
  "calm w \<Longrightarrow> rename_allowed (private_file c (w_clock w)) (d @ [n]) w \<Longrightarrow>
   atomicWriteAt d n c w = (Inr (), set_node (d @ [n]) (private_file c (w_clock w)) w)"
  by (simp add: atomicWriteAt_def Let_def run_basic calm_def)

text \<open>Whatever fails, a file that is replaced has either its old content or all of the new one.\<close>

lemma atomicWriteAt_cases:
  "snd (atomicWriteAt d n c w) = w \<or> snd (atomicWriteAt d n c w) = set_node (d @ [n]) (private_file c (w_clock w)) w"
  by (auto simp: atomicWriteAt_def Let_def run_basic)

lemma loadArtifactsFor_total: "\<exists>a. loadArtifactsFor d w = (Inr a, w)"
proof -
  have "\<exists>a. fst (loadArtifactsFor d w) = Inr a"
    unfolding loadArtifactsFor_def by (rule tryM_total) (auto simp: load_artifact_def run_basic intro!: reads_intro)
  then show ?thesis using reads_run [OF reads_artifacts] by metis
qed

section \<open>What was written is what is loaded\<close>

lemma makeable_prefix: "makeable w d (ms @ ns) \<Longrightarrow> makeable w d ms"
  by (induction ms arbitrary: d) auto

lemma private_at_set [simp]: "private_at (set_node p (private_file c t) w) p c"
  by (simp add: private_at_def private_file_def)

lemma loadCiRun_stored:
  assumes "calm w" "dir_ok w []" "isValidProjectName p" "isValidCiId r" "dirs_ok w [] (run_names p r)"
    and "private_at w (run_names p r @ [''run.ini'']) content" "length content \<le> kMaximumCiRunRecordBytes"
    and "parseRun content = Inr run"
  shows "\<exists>a. loadCiRun p r w = (Inr (Some (run\<lparr>rr_artifacts := a\<rparr>)), w)"
proof -
  obtain a where a: "loadArtifactsFor (run_names p r) w = (Inr a, w)" using loadArtifactsFor_total by blast
  have o: "openPath [] (run_names p r) w = (Inr (Some (run_names p r)), w)" using openPath_run [OF assms(1,5)] by simp
  have "loadCiRun p r w = (Inr (Some (run\<lparr>rr_artifacts := a\<rparr>)), w)"
    using assms(3,4,8) a o openRoot_run [OF assms(1,2)] readCappedAt_run [OF assms(1,6,7)]
    by (simp add: loadCiRun_def tryM_def bindM_def run_basic)
  then show ?thesis by blast
qed

lemma writeCiRunRecord_Inr:
  assumes "writeCiRunRecord r w = (Inr (), w')"
  obtains content w1 where "serializeRun r = Inr content" "length content \<le> kMaximumCiRunRecordBytes"
    "isValidProjectName (rr_project_name r)" "isValidCiId (rr_run_id r)" "isValidObjectId (rr_commit_id r)"
    "validJobMembership (rr_run_id r) (rr_parent_run_id r) (rr_workflow_job r)" "length (rr_detail r) \<le> kMaximumCiDetailBytes"
    "dir_ok w []" "adds_dirs w w1" "dirs_ok w1 [] (run_names (rr_project_name r) (rr_run_id r))"
    "w' = set_node (run_names (rr_project_name r) (rr_run_id r) @ [''run.ini'']) (private_file content (w_clock w)) w1"
proof -
  let ?n = "run_names (rr_project_name r) (rr_run_id r)"
  from assms have v: "isValidProjectName (rr_project_name r)" "isValidCiId (rr_run_id r)" "isValidObjectId (rr_commit_id r)"
    "validJobMembership (rr_run_id r) (rr_parent_run_id r) (rr_workflow_job r)" "length (rr_detail r) \<le> kMaximumCiDetailBytes"
    by (auto simp: writeCiRunRecord_def run_basic split: if_splits)
  from assms obtain content d w0 w1 where s: "serializeRun r = Inr content" "length content \<le> kMaximumCiRunRecordBytes"
    and o: "openRoot w = (Inr d, w0)" "ensurePath d ?n w0 = (Inr ?n, w1)" "atomicWriteAt ?n ''run.ini'' content w1 = (Inr (), w')"
  proof -
    from assms obtain content w0 where s: "serializeRun r = Inr content" "length content \<le> kMaximumCiRunRecordBytes"
      and rest: "bindM openRoot (\<lambda>root. bindM (ensurePath root ?n) (\<lambda>run. atomicWriteAt run ''run.ini'' content)) w = (Inr (), w')"
      by (auto simp: writeCiRunRecord_def run_basic bindM_Inr_iff split: if_splits)
    then obtain d w0 d1 w1 where o: "openRoot w = (Inr d, w0)" "ensurePath d ?n w0 = (Inr d1, w1)"
      "atomicWriteAt d1 ''run.ini'' content w1 = (Inr (), w')"
      by (auto simp: bindM_Inr_iff)
    have "d = []" "d1 = d @ ?n" using openRoot_Inr [OF o(1)] ensurePath_Inr [OF o(2)] by simp_all
    then show ?thesis using that s o by simp
  qed
  have r: "d = []" "w0 = w" "dir_ok w []" using openRoot_Inr [OF o(1)] by simp_all
  have e: "dirs_ok w1 [] ?n" "adds_dirs w w1"
    using ensurePath_Inr [OF o(2)] keepsD [OF ensurePath_adds _ o(2)] r by simp_all
  have w': "w' = set_node (?n @ [''run.ini'']) (private_file content (w_clock w)) w1"
    using atomicWriteAt_Inr [OF o(3)] e(2) by (simp add: adds_dirs_def)
  show ?thesis by (rule that [OF s v r(3) e(2,1) w'])
qed


text \<open>A small world: an empty private state directory at second 7.\<close>

definition empty_world :: world where
  "empty_world = \<lparr>w_files = [([], private_dir 0)], w_clock = 7000000000, w_faults = (\<lambda>_ _. False),
     w_random = (\<lambda>n. n), w_drawn = 0\<rparr>"

lemma empty_world_simps [simp]: "calm empty_world" "dir_ok empty_world []" "w_clock empty_world = 7000000000"
  by (simp_all add: empty_world_def calm_def dir_ok_def node_at_def private_dir_def)

lemma node_at_empty: "node_at empty_world p = (if p = [] then Some (private_dir 0) else None)"
  by (auto simp: empty_world_def node_at_def)

lemma makeable_empty: "makeable empty_world d ns"
  by (induction ns arbitrary: d) (auto simp: node_at_empty)

lemma ensureDirAt_elsewhere: "q \<noteq> d @ [n] \<Longrightarrow> node_at (snd (ensureDirAt d n w)) q = node_at w q"
  by (auto simp: ensureDirAt_def bindM_def askM_def callM_def sys_mkdir_def verifyPrivate_def checkM_def run_basic
      split: sum.split)

text \<open>Making directories changes nothing but the directories on the way.\<close>

lemma ensurePath_elsewhere: "\<not> prefix q (d @ ns) \<Longrightarrow> node_at (snd (ensurePath d ns w)) q = node_at w q"
proof (induction ns arbitrary: d w)
  case (Cons n ns)
  have q: "q \<noteq> d @ [n]" using Cons.prems by (metis append.assoc append_Cons append_Nil prefixI)
  obtain r w1 where 1: "ensureDirAt d n w = (r, w1)" by fastforce
  show ?case
  proof (cases r)
    case (Inl e)
    then show ?thesis using ensureDirAt_elsewhere [OF q, of w] 1 by (simp add: bindM_def)
  next
    case (Inr d1)
    then have "d1 = d @ [n]" using ensureDirAt_Inr 1 by simp
    then show ?thesis using ensureDirAt_elsewhere [OF q, of w] 1 Inr Cons.IH [of "d @ [n]" w1] Cons.prems
      by (simp add: bindM_def)
  qed
qed (simp add: run_simps)

lemma writeCiRunRecord_run:
  assumes "calm w" "dir_ok w []" "makeable w [] (run_names (rr_project_name r) (rr_run_id r))" "run_storable r"
    and "serializeRun r = Inr content" "length content \<le> kMaximumCiRunRecordBytes"
    and "node_at w (run_names (rr_project_name r) (rr_run_id r) @ [''run.ini'']) = None"
  shows "\<exists>w'. writeCiRunRecord r w = (Inr (), w')"
proof -
  let ?n = "run_names (rr_project_name r) (rr_run_id r)"
  obtain w1 where e: "ensurePath [] ?n w = (Inr ?n, w1)" "adds_dirs w w1" "dirs_ok w1 [] ?n"
    using ensurePath_run [OF assms(1,3)] by auto
  have c: "calm w1" using adds_dirs_calm [OF e(2)] assms(1) by simp
  have "\<not> prefix (?n @ [''run.ini'']) ([] @ ?n)" by (auto dest: prefix_length_le)
  then have "node_at w1 (?n @ [''run.ini'']) = None" using ensurePath_elsewhere [of _ "[]" ?n w] e(1) assms(7) by simp
  then have "rename_allowed (private_file content (w_clock w1)) (?n @ [''run.ini'']) w1" by (simp add: rename_allowed_def)
  from atomicWriteAt_run [OF c this] show ?thesis
    using assms(4-6) openRoot_run [OF assms(1,2)] e(1)
    by (simp add: writeCiRunRecord_def run_storable_def bindM_def run_basic)
qed

lemma sample_run_content:
  "serializeRun sample_run = Inr (unlines (run_lines sample_run None))"
  "length (unlines (run_lines sample_run None)) \<le> kMaximumCiRunRecordBytes"
proof -
  show "serializeRun sample_run = Inr (unlines (run_lines sample_run None))"
    by (simp add: serializeRun_def sample_run_def)
  have "length (to_dec 7) = 1" "length (to_dec 9) = 1" "length (to_dec 1) = 1" by code_simp+
  then show "length (unlines (run_lines sample_run None)) \<le> kMaximumCiRunRecordBytes"
    by (simp add: run_lines_def sample_run_def unlines_def step_line_def int_to_dec_def bool01_def kMaximumCiRunRecordBytes_def)
qed

lemma sample_run_written: "\<exists>w'. writeCiRunRecord sample_run empty_world = (Inr (), w')"
  by (rule writeCiRunRecord_run [OF _ _ _ sample_run_storable sample_run_content])
     (simp_all add: makeable_empty node_at_empty run_names_def)


section \<open>Reading a log to its end\<close>

text \<open>A run directory with a step log of this content.\<close>

definition log_stored :: "world \<Rightarrow> string \<Rightarrow> string \<Rightarrow> nat \<Rightarrow> string \<Rightarrow> bool" where
  "log_stored w p r i c \<longleftrightarrow> calm w \<and> dir_ok w [] \<and> isValidProjectName p \<and> isValidCiId r
     \<and> dirs_ok w [] (run_names p r @ [''steps'']) \<and> private_at w (run_names p r @ [''steps'', log_name i]) c"

lemma log_stored_bytes:
  assumes "log_stored w p r i c"
  shows "log_bytes (run_names p r @ [''steps'', log_name i]) w = Some c"
proof -
  obtain n where "node_at w (run_names p r @ [''steps'', log_name i]) = Some n" "nd_kind n = Regular c" "nd_private n"
    using assms by (auto simp: log_stored_def private_at_iff)
  then show ?thesis using assms
    by (simp add: log_bytes_def sys_open_def log_stored_def calm_def is_regular_def node_bytes_def)
qed

lemma log_stored_open:
  assumes "log_stored w p r i c"
  shows "openRoot w = (Inr [], w)" "openPath [] (run_names p r @ [''steps'']) w = (Inr (Some (run_names p r @ [''steps''])), w)"
    "isValidProjectName p" "isValidCiId r" "\<not> w_faults w a q"
  using assms openRoot_run [of w] openPath_run [of w "[]" "run_names p r @ [''steps'']"] by (simp_all add: log_stored_def calm_def)

lemma readCiRunLogChunk_run:
  assumes "log_stored w p r i c" "0 < cap"
  shows "readCiRunLogChunk p r i offset cap w = (Inr (Some (take cap (drop offset c))), w)"
  using assms(2) log_stored_open [OF assms(1)] log_stored_bytes [OF assms(1)]
  by (simp add: readCiRunLogChunk_def tryM_def bindM_def run_basic Let_def min_def)

text \<open>A client that tails a log: it asks for the bytes after the ones it has, again and again.\<close>

fun tail_polls :: "string \<Rightarrow> string \<Rightarrow> nat \<Rightarrow> nat \<Rightarrow> nat \<Rightarrow> nat \<Rightarrow> string io" where
  "tail_polls p r i cap 0 offset = returnM []"
| "tail_polls p r i cap (Suc n) offset = bindM (readCiRunLogChunk p r i offset cap) (\<lambda>chunk.
     case chunk of None \<Rightarrow> returnM []
     | Some c \<Rightarrow> bindM (tail_polls p r i cap n (offset + length c)) (\<lambda>rest. returnM (c @ rest)))"

lemma tail_polls_run:
  assumes "log_stored w p r i c" "0 < cap"
  shows "tail_polls p r i cap n offset w = (Inr (take (n * cap) (drop offset c)), w)"
proof (induction n arbitrary: offset)
  case (Suc n)
  have "take cap (drop offset c) @ take (n * cap) (drop (offset + length (take cap (drop offset c))) c) =
    take (Suc n * cap) (drop offset c)"
  proof (cases "cap \<le> length c - offset")
    case True
    then show ?thesis using take_add [of cap "n * cap" "drop offset c"] by (simp add: add.commute)
  next
    case False
    then show ?thesis by simp
  qed
  then show ?case using Suc [of "offset + length (take cap (drop offset c))"] readCiRunLogChunk_run [OF assms]
    by (simp add: bindM_def run_basic)
qed (simp add: run_simps)

text \<open>
  C27: a client that tails a step log by chunks of at most \<open>cap\<close> bytes has the whole log, and nothing
  else, after finitely many polls: \<open>n\<close> polls are enough as soon as \<open>n * cap\<close> reaches the log's length.
\<close>

theorem log_tailing_complete:
  assumes "log_stored w p r i c" "0 < cap" "length c \<le> n * cap"
  shows "tail_polls p r i cap n 0 w = (Inr c, w)"
  using tail_polls_run [OF assms(1,2)] assms(3) by simp

definition log_world :: world where
  "log_world = \<lparr>w_files = [([], private_dir 0), ([''ci''], private_dir 0), ([''ci'', ''runs''], private_dir 0),
      ([''ci'', ''runs'', ''demo''], private_dir 0), (run_names ''demo'' ''j-1'', private_dir 0),
      (run_names ''demo'' ''j-1'' @ [''steps''], private_dir 0),
      (run_names ''demo'' ''j-1'' @ [''steps'', log_name 0], private_file ''hello world'' 0)],
     w_clock = 0, w_faults = (\<lambda>_ _. False), w_random = (\<lambda>n. n), w_drawn = 0\<rparr>"

lemma log_world_stored: "log_stored log_world ''demo'' ''j-1'' 0 ''hello world''"
proof -
  have "isValidProjectName ''demo''" "isValidCiId ''j-1''" by code_simp+
  then show ?thesis
    by (simp add: log_stored_def calm_def log_world_def dir_ok_def private_at_def node_at_def run_names_def
        private_dir_def private_file_def)
qed

theorem log_tailing_complete_witness: "tail_polls ''demo'' ''j-1'' 0 4 3 0 log_world = (Inr ''hello world'', log_world)"
  by (rule log_tailing_complete [OF log_world_stored]) simp_all

text \<open>
  The tail of a log is a suffix of it, of \<open>max_bytes\<close> bytes or the whole log when it is shorter, and
  the size reported beside it is the size of the whole log.
\<close>

theorem log_tail_is_suffix:
  assumes "log_stored w p r i c"
  shows "readCiRunLogTail p r i max_bytes w = (Inr (Some (drop (length c - max_bytes) c, length c)), w)"
  using log_stored_open [OF assms] log_stored_bytes [OF assms]
  by (simp add: readCiRunLogTail_def tryM_def bindM_def run_basic Let_def)

theorem log_tail_is_suffix_witness:
  "readCiRunLogTail ''demo'' ''j-1'' 0 5 log_world = (Inr (Some (''world'', 11)), log_world)"
  using log_tail_is_suffix [OF log_world_stored, of 5] by simp

section \<open>Cancel requests\<close>

lemma openDirAt_Some: "openDirAt d n w = (Inr (Some d'), w') \<Longrightarrow> d' = d @ [n] \<and> w' = w \<and> dir_ok w (d @ [n])"
  by (auto simp: openDirAt_def bindM_askM sys_open_dir_def dir_ok_iff verifyPrivate_def checkM_def run_simps
      split: option.split_asm if_split_asm sum.split_asm)

lemma openPath_Some: "openPath d ns w = (Inr (Some d'), w') \<Longrightarrow> d' = d @ ns \<and> w' = w \<and> dirs_ok w d ns"
proof (induction ns arbitrary: d)
  case (Cons n ns)
  then obtain r w1 where "openDirAt d n w = (Inr r, w1)"
    "(case r of None \<Rightarrow> returnM None | Some d1 \<Rightarrow> openPath d1 ns) w1 = (Inr (Some d'), w')"
    by (auto simp: bindM_Inr_iff)
  then show ?case using Cons.IH [of "d @ [n]"] by (cases r) (auto simp: run_basic dest!: openDirAt_Some)
qed (simp add: run_basic)

lemma openRunDir_Some:
  "openRunDir p r w = (Inr (Some d), w') \<Longrightarrow> d = run_names p r \<and> w' = w \<and> dir_ok w [] \<and> dirs_ok w [] (run_names p r)"
  by (auto simp: openRunDir_def bindM_Inr_iff dest!: openRoot_Inr openPath_Some)

lemma requestCiCancel_True:
  assumes "requestCiCancel p r w = (Inr True, w')"
  shows "dir_ok w [] \<and> dirs_ok w [] (run_names p r) \<and> isValidProjectName p \<and> isValidCiId r
    \<and> (if node_at w (run_names p r @ [''outputs-committed'']) \<noteq> None then w' = w
       else w' = set_node (run_names p r @ [kCancelMarkerName]) (private_file (''cancel'' @ [newline]) (w_clock w)) w)"
proof -
  let ?n = "run_names p r"
  from assms have v: "isValidProjectName p" "isValidCiId r" by (auto simp: requestCiCancel_def run_basic split: if_splits)
  with assms obtain x w1 where x: "openRunDir p r w = (Inr x, w1)"
    "(case x of None \<Rightarrow> returnM False
        | Some run_dir \<Rightarrow> thenM (lockExclusive run_dir) (
            bindM (readCappedAt run_dir ''outputs-committed'' 128) (\<lambda>committed.
            if committed \<noteq> None then returnM True
            else thenM (atomicWriteAt run_dir kCancelMarkerName (''cancel'' @ [newline])) (returnM True)))) w1 = (Inr True, w')"
    unfolding requestCiCancel_def by (auto elim: bindM_InrE simp del: not_None_eq)
  then obtain d where d: "x = Some d" by (cases x) (simp_all add: run_basic)
  note o = openRunDir_Some [OF x(1)[unfolded d]]
  obtain w2 m w3 where l: "lockExclusive ?n w = (Inr (), w2)" "readCappedAt ?n ''outputs-committed'' 128 w2 = (Inr m, w3)"
    "(if m \<noteq> None then returnM True
            else thenM (atomicWriteAt ?n kCancelMarkerName (''cancel'' @ [newline])) (returnM True)) w3 = (Inr True, w')"
    using x(2) o d by (auto simp: bindM_Inr_iff)
  have w2: "w2 = w" using reads_run [OF reads_helpers(6), of ?n w] l(1) by simp
  show ?thesis
  proof (cases m)
    case None
    then show ?thesis using l(2,3) w2 o v by (auto simp: bindM_Inr_iff run_basic dest!: readCappedAt_None atomicWriteAt_Inr)
  next
    case (Some c)
    then show ?thesis using l(2,3) w2 o v by (auto simp: run_basic private_at_iff dest!: readCappedAt_Some)
  qed
qed

lemma openRunDir_run:
  "calm w \<Longrightarrow> dir_ok w [] \<Longrightarrow> dirs_ok w [] (run_names p r) \<Longrightarrow> openRunDir p r w = (Inr (Some (run_names p r)), w)"
  using openPath_run [of w "[]" "run_names p r"] by (simp add: openRunDir_def bindM_Inr [OF openRoot_run])

text \<open>
  C26: on a disk that works, a cancel request that was accepted either found the run's outputs committed and
  changed nothing, or is seen by the next poll of the runner. A request is never lost.
\<close>

theorem cancel_request_seen:
  assumes "calm w" "requestCiCancel p r w = (Inr True, w')"
  shows "if node_at w (run_names p r @ [''outputs-committed'']) \<noteq> None then w' = w
         else isCiCancelRequested p r w' = (Inr True, w')"
proof -
  note q = requestCiCancel_True [OF assms(2)]
  show ?thesis
  proof (cases "node_at w (run_names p r @ [''outputs-committed'']) = None")
    case False
    then show ?thesis using q by simp
  next
    case True
    then have w': "w' = set_node (run_names p r @ [kCancelMarkerName]) (private_file (''cancel'' @ [newline]) (w_clock w)) w"
      and v: "dir_ok w []" "dirs_ok w [] (run_names p r)" "isValidProjectName p" "isValidCiId r"
      using q by simp_all
    have c: "calm w'" "dir_ok w' []" "dirs_ok w' [] (run_names p r)"
      using assms(1) v w' dirs_ok_set [of "[]" "run_names p r"] by (simp_all add: dir_ok_iff)
    have m: "readCappedAt (run_names p r) kCancelMarkerName 64 w' = (Inr (Some (''cancel'' @ [newline])), w')"
      using readCappedAt_run [OF c(1), of "run_names p r" kCancelMarkerName "''cancel'' @ [newline]" 64] w' by simp
    show ?thesis using v(3,4) True m openRunDir_run [OF c] by (simp add: isCiCancelRequested_def tryM_def bindM_def run_basic)
  qed
qed

lemma log_world_cancel: "\<exists>w'. requestCiCancel ''demo'' ''j-1'' log_world = (Inr True, w')"
proof -
  have v: "isValidProjectName ''demo''" "isValidCiId ''j-1''" by code_simp+
  have l: "calm log_world" "dir_ok log_world []" "dirs_ok log_world [] (run_names ''demo'' ''j-1'')"
    using log_world_stored by (simp_all add: log_stored_def dirs_ok_append)
  have n: "node_at log_world (run_names ''demo'' ''j-1'' @ [''outputs-committed'']) = None"
    "node_at log_world (run_names ''demo'' ''j-1'' @ [kCancelMarkerName]) = None"
    by (simp_all add: log_world_def node_at_def run_names_def kCancelMarkerName_def)
  show ?thesis
    using v openRunDir_run [OF l] readCappedAt_missing [OF l(1) n(1)] l(1)
      atomicWriteAt_run [OF l(1), of "''cancel'' @ [newline]" "run_names ''demo'' ''j-1''" kCancelMarkerName] n(2)
    by (simp add: requestCiCancel_def bindM_def run_basic lockExclusive_def rename_allowed_def calm_def)
qed

theorem cancel_request_seen_witness:
  "\<exists>w'. requestCiCancel ''demo'' ''j-1'' log_world = (Inr True, w') \<and> isCiCancelRequested ''demo'' ''j-1'' w' = (Inr True, w')"
proof -
  obtain w' where w: "requestCiCancel ''demo'' ''j-1'' log_world = (Inr True, w')" using log_world_cancel by blast
  have "calm log_world" using log_world_stored by (simp add: log_stored_def)
  moreover have "node_at log_world (run_names ''demo'' ''j-1'' @ [''outputs-committed'']) = None"
    by (simp add: log_world_def node_at_def run_names_def)
  ultimately show ?thesis using cancel_request_seen [OF _ w] w by auto
qed

end
