(* ===== verification/Ck_Ready.thy ===== *)
theory Ck_Ready
  imports Ck_Prelude
begin

text \<open>
  Ordering items that need each other, as the code does it in two places, for the jobs of a workflow file and for the
  children of a workflow that is published: an item is ready once everything it needs is; passes over the items go on
  until all are ready or a pass adds nothing. The loop ends, and it succeeds exactly when the needs have no cycle.
\<close>

section \<open>The loop\<close>

text \<open>One pass of the loop over the ready set: an item whose needs are ready becomes ready itself.\<close>

definition item_ready :: "('a \<Rightarrow> string list) \<Rightarrow> 'a \<Rightarrow> string list \<Rightarrow> bool" where
  "item_ready needs item ready \<longleftrightarrow> list_all (\<lambda>i. i \<in> set ready) (needs item)"

fun ready_pass :: "('a \<Rightarrow> string) \<Rightarrow> ('a \<Rightarrow> string list) \<Rightarrow> 'a list \<Rightarrow> string list \<Rightarrow> string list" where
  "ready_pass key needs [] ready = ready"
| "ready_pass key needs (item # items) ready =
     ready_pass key needs items (if item_ready needs item ready \<and> key item \<notin> set ready then ready @ [key item] else ready)"

lemma ready_pass_prefix: "\<exists>new. ready_pass key needs items ready = ready @ new \<and> set new \<subseteq> key ` set items \<and> set new \<inter> set ready = {}"
proof (induction items arbitrary: ready)
  case (Cons c cs)
  let ?r = "if item_ready needs c ready \<and> key c \<notin> set ready then ready @ [key c] else ready"
  obtain new where "ready_pass key needs cs ?r = ?r @ new" "set new \<subseteq> key ` set cs" "set new \<inter> set ?r = {}"
    using Cons.IH [of ?r] by blast
  then show ?case by (intro exI [of _ "drop (length ready) (ready_pass key needs (c # cs) ready)"]) (auto split: if_splits)
qed simp

lemma ready_pass_measure:
  assumes "length (ready_pass key needs items ready) \<noteq> length ready"
  shows "card (key ` set items - set (ready_pass key needs items ready)) < card (key ` set items - set ready)"
proof -
  obtain new where n: "ready_pass key needs items ready = ready @ new" "set new \<subseteq> key ` set items" "set new \<inter> set ready = {}"
    using ready_pass_prefix by blast
  with assms obtain x where "x \<in> set new" by (cases new) auto
  with n have "key ` set items - set (ready @ new) \<subset> key ` set items - set ready" by auto
  then show ?thesis unfolding n(1) by (intro psubset_card_mono) simp_all
qed

function ready_loop :: "('a \<Rightarrow> string) \<Rightarrow> ('a \<Rightarrow> string list) \<Rightarrow> 'a list \<Rightarrow> string list \<Rightarrow> bool" where
  "ready_loop key needs items ready =
     (if length ready = length items then True
      else if length (ready_pass key needs items ready) = length ready then False
      else ready_loop key needs items (ready_pass key needs items ready))"
  by auto
termination
  by (relation "measure (\<lambda>(key, needs, items, ready). card (key ` set items - set ready))") (auto intro: ready_pass_measure)

declare ready_loop.simps [simp del]

section \<open>It succeeds exactly without a cycle\<close>

text \<open>Which item needs which.\<close>

definition needs_relation :: "('a \<Rightarrow> string) \<Rightarrow> ('a \<Rightarrow> string list) \<Rightarrow> 'a list \<Rightarrow> (string \<times> string) set" where
  "needs_relation key needs items = {(d, key c) | c d. c \<in> set items \<and> d \<in> set (needs c)}"

definition siblings_only :: "('a \<Rightarrow> string) \<Rightarrow> ('a \<Rightarrow> string list) \<Rightarrow> 'a list \<Rightarrow> bool" where
  "siblings_only key needs items \<longleftrightarrow> (\<forall>c \<in> set items. set (needs c) \<subseteq> key ` set items)"

lemma finite_needs: "finite (needs_relation key needs items)"
proof -
  have "needs_relation key needs items \<subseteq> (\<Union>c \<in> set items. set (needs c) \<times> {key c})"
    by (auto simp: needs_relation_def)
  then show ?thesis by (rule finite_subset) simp
qed

lemma ready_pass_distinct: "distinct ready \<Longrightarrow> distinct (ready_pass key needs items ready)"
  by (induction items arbitrary: ready) auto

lemma ready_pass_mono: "set ready \<subseteq> set (ready_pass key needs items ready)"
  using ready_pass_prefix [of key needs items ready] by auto

text \<open>Ready ids stand after the ids they need.\<close>

definition needs_earlier :: "('a \<Rightarrow> string) \<Rightarrow> ('a \<Rightarrow> string list) \<Rightarrow> 'a list \<Rightarrow> string list \<Rightarrow> bool" where
  "needs_earlier key needs items ready \<longleftrightarrow> distinct ready \<and> set ready \<subseteq> key ` set items
     \<and> (\<forall>k < length ready. \<forall>c \<in> set items. key c = ready ! k \<longrightarrow> set (needs c) \<subseteq> set (take k ready))"

lemma needs_earlier_snoc:
  assumes "distinct (map key all)" "c \<in> set all" "needs_earlier key needs all ready" "key c \<notin> set ready" "set (needs c) \<subseteq> set ready"
  shows "needs_earlier key needs all (ready @ [key c])"
  unfolding needs_earlier_def
proof (intro conjI allI impI ballI)
  let ?r = "ready @ [key c]"
  show "distinct ?r" "set ?r \<subseteq> key ` set all" using assms(2-4) by (auto simp: needs_earlier_def)
  fix k c' assume k: "k < length ?r" and c': "c' \<in> set all" "key c' = ?r ! k"
  show "set (needs c') \<subseteq> set (take k ?r)"
  proof (cases "k < length ready")
    case True
    then have "set (needs c') \<subseteq> set (take k ready)" using assms(3) c' by (auto simp: needs_earlier_def nth_append)
    then show ?thesis using True by simp
  next
    case False
    then have "k = length ready" using k by simp
    then have "c' = c" using c' assms(1,2) by (auto simp: distinct_map inj_on_def)
    then show ?thesis using assms(5) \<open>k = length ready\<close> by simp
  qed
qed

lemma ready_pass_earlier:
  assumes "distinct (map key all)" "set items \<subseteq> set all" "needs_earlier key needs all ready"
  shows "needs_earlier key needs all (ready_pass key needs items ready)"
  using assms(2,3)
proof (induction items arbitrary: ready)
  case (Cons c cs)
  show ?case
  proof (cases "item_ready needs c ready \<and> key c \<notin> set ready")
    case True
    then have "needs_earlier key needs all (ready @ [key c])"
      using Cons.prems by (intro needs_earlier_snoc [OF assms(1)]) (auto simp: item_ready_def list_all_iff)
    then show ?thesis using True Cons by simp
  next
    case False
    then have "ready_pass key needs (c # cs) ready = ready_pass key needs cs ready" by auto
    then show ?thesis using Cons by simp
  qed
qed simp

lemma needs_earlier_acyclic:
  assumes "needs_earlier key needs items ready" "length ready = length items" "distinct (map key items)"
  shows "acyclic (needs_relation key needs items)"
proof -
  have d: "distinct ready" "set ready \<subseteq> key ` set items" using assms(1) by (simp_all add: needs_earlier_def)
  have "card (set ready) = card (key ` set items)"
    using distinct_card [OF d(1)] distinct_card [OF assms(3)] assms(2) by simp
  then have s: "set ready = key ` set items" using d(2) by (intro card_subset_eq) simp_all
  define place where "place i = (LEAST k. k < length ready \<and> ready ! k = i)" for i
  have place: "place i < length ready \<and> ready ! place i = i" if "i \<in> set ready" for i
    using that unfolding place_def in_set_conv_nth by (rule LeastI_ex)
  have "needs_relation key needs items \<subseteq> measure place"
  proof
    fix e assume "e \<in> needs_relation key needs items"
    then obtain c d where e: "e = (d, key c)" "c \<in> set items" "d \<in> set (needs c)"
      by (auto simp: needs_relation_def)
    let ?k = "place (key c)"
    have k: "?k < length ready" "ready ! ?k = key c" using place s e(2) by auto
    then have "d \<in> set (take ?k ready)" using assms(1) e(2,3) unfolding needs_earlier_def by fastforce
    then obtain j where j: "j < ?k" "j < length ready" "ready ! j = d" by (auto simp: in_set_conv_nth)
    then have "place d \<le> j" unfolding place_def by (intro Least_le) simp
    then show "e \<in> measure place" using e j by simp
  qed
  then show ?thesis by (intro wf_acyclic wf_subset [OF wf_measure])
qed

lemma ready_loop_order:
  "distinct (map key items) \<Longrightarrow> needs_earlier key needs items ready \<Longrightarrow> ready_loop key needs items ready \<Longrightarrow>
   \<exists>order. needs_earlier key needs items order \<and> length order = length items"
proof (induction key needs items ready rule: ready_loop.induct)
  case (1 key needs items ready)
  show ?case
  proof (cases "length ready = length items")
    case True
    then show ?thesis using "1.prems" by blast
  next
    case False
    have "length (ready_pass key needs items ready) \<noteq> length ready \<and> ready_loop key needs items (ready_pass key needs items ready)"
      using "1.prems"(3) False by (subst (asm) ready_loop.simps) (auto split: if_splits)
    then show ?thesis using "1.IH" [OF False] "1.prems"(1) ready_pass_earlier [OF "1.prems"(1) order_refl "1.prems"(2)] by blast
  qed
qed

lemma ready_loop_Inr:
  "distinct (map key items) \<Longrightarrow> needs_earlier key needs items ready \<Longrightarrow> ready_loop key needs items ready \<Longrightarrow>
   acyclic (needs_relation key needs items)"
  using ready_loop_order needs_earlier_acyclic by metis

lemma needs_earlier_all:
  assumes "distinct (map key items)" "needs_earlier key needs items order" "length order = length items"
  shows "set order = key ` set items"
proof (rule card_seteq)
  show "set order \<subseteq> key ` set items" using assms(2) by (simp add: needs_earlier_def)
  have "card (key ` set items) = length items" using distinct_card [OF assms(1)] by simp
  moreover have "card (set order) = length order" using assms(2) distinct_card by (auto simp: needs_earlier_def)
  ultimately show "card (key ` set items) \<le> card (set order)" using assms(3) by simp
qed simp

text \<open>Without a cycle every pass that is not the last makes a job ready.\<close>

lemma ready_pass_takes:
  "c \<in> set items \<Longrightarrow> set (needs c) \<subseteq> set ready \<Longrightarrow> key c \<in> set (ready_pass key needs items ready)"
proof (induction items arbitrary: ready)
  case (Cons b cs)
  let ?r = "if item_ready needs b ready \<and> key b \<notin> set ready then ready @ [key b] else ready"
  have r: "set ready \<subseteq> set ?r" by auto
  show ?case
  proof (cases "b = c")
    case True
    then have "key c \<in> set ?r" using Cons.prems(2) by (auto simp: item_ready_def list_all_iff)
    then have "key c \<in> set (ready_pass key needs cs ?r)" using ready_pass_mono by blast
    then show ?thesis by simp
  next
    case False
    then have "key c \<in> set (ready_pass key needs cs ?r)" using Cons.IH [of ?r] Cons.prems r by auto
    then show ?thesis by simp
  qed
qed simp

lemma acyclic_progress:
  assumes "acyclic (needs_relation key needs items)" "siblings_only key needs items" "\<not> key ` set items \<subseteq> set ready"
  shows "length (ready_pass key needs items ready) \<noteq> length ready"
proof -
  let ?rest = "key ` set items - set ready"
  have "wf (needs_relation key needs items)" using assms(1) finite_needs by (intro finite_acyclic_wf)
  moreover obtain x where "x \<in> ?rest" using assms(3) by blast
  ultimately obtain i where i: "i \<in> ?rest" "\<And>j. (j, i) \<in> needs_relation key needs items \<Longrightarrow> j \<notin> ?rest"
    by (rule wfE_min) blast
  then obtain c where c: "c \<in> set items" "key c = i" by blast
  have "set (needs c) \<subseteq> set ready"
  proof
    fix d assume d: "d \<in> set (needs c)"
    then have "(d, i) \<in> needs_relation key needs items" using c by (auto simp: needs_relation_def)
    moreover have "d \<in> key ` set items" using assms(2) c(1) d by (auto simp: siblings_only_def)
    ultimately show "d \<in> set ready" using i(2) by blast
  qed
  then have "i \<in> set (ready_pass key needs items ready)" using ready_pass_takes [of c items needs ready key] c by simp
  moreover obtain new where "ready_pass key needs items ready = ready @ new" using ready_pass_prefix by blast
  ultimately show ?thesis using i(1) by (cases new) auto
qed

lemma ready_loop_complete:
  "distinct (map key items) \<Longrightarrow> acyclic (needs_relation key needs items) \<Longrightarrow> siblings_only key needs items \<Longrightarrow>
   distinct ready \<Longrightarrow> set ready \<subseteq> key ` set items \<Longrightarrow> ready_loop key needs items ready"
proof (induction key needs items ready rule: ready_loop.induct)
  case (1 key needs items ready)
  show ?case
  proof (cases "length ready = length items")
    case True
    then show ?thesis by (simp add: ready_loop.simps)
  next
    case False
    have "card (key ` set items) = length items" using distinct_card [OF "1.prems"(1)] by simp
    then have "set ready \<noteq> key ` set items" using False distinct_card [OF "1.prems"(4)] by auto
    then have grows: "length (ready_pass key needs items ready) \<noteq> length ready"
      using acyclic_progress "1.prems"(2,3,5) by blast
    obtain new where new: "ready_pass key needs items ready = ready @ new" "set new \<subseteq> key ` set items" "set new \<inter> set ready = {}"
      using ready_pass_prefix by blast
    have "distinct (ready_pass key needs items ready) \<and> set (ready_pass key needs items ready) \<subseteq> key ` set items"
      using ready_pass_distinct [OF "1.prems"(4), of key needs items] "1.prems"(5) new(1,2) by simp
    then show ?thesis using "1.IH" [OF False grows] "1.prems"(1-3) False grows by (simp add: ready_loop.simps [of key needs items ready])
  qed
qed

end
