(* ===== verification/Ck_Ci_Groups.thy ===== *)
theory Ck_Ci_Groups
  imports Ck_Ci_Store Ck_Ready
begin

text \<open>
  The journal of a distributed workflow in \<open>src/common/ci_store.cpp\<close>: a parent job and its children in one
  immutable record. \<open>validateWorkflowGroup\<close> decides whether the children's \<open>needs\<close> can be ordered; its loop
  ends, and it accepts exactly the groups whose children have a topological order. A journal is read back
  as it was written.
\<close>

section \<open>The group and its validation\<close>

definition kMaximumWorkflowGroupBytes :: nat where "kMaximumWorkflowGroupBytes = 1024 * 1024"

record WorkflowGroup =
  wg_parent :: CiJobRequest
  wg_children :: "CiJobRequest list"

definition child_consistent :: "CiJobRequest \<Rightarrow> CiJobRequest \<Rightarrow> bool" where
  "child_consistent parent child \<longleftrightarrow>
     jb_parent_run_id child = jb_job_id parent \<and> jb_project_name child = jb_project_name parent
     \<and> jb_commit_id child = jb_commit_id parent \<and> jb_ref child = jb_ref parent
     \<and> jb_client_id child = jb_client_id parent \<and> jb_auto_cancel child = jb_auto_cancel parent
     \<and> jb_attempt child = 1"

text \<open>The first loop: every child can be stored, belongs to the parent and has an id and a name of its own.\<close>

fun check_children :: "CiJobRequest \<Rightarrow> CiJobRequest list \<Rightarrow> string list \<Rightarrow> string list \<Rightarrow> unit result" where
  "check_children parent [] ids names = Inr ()"
| "check_children parent (child # children) ids names =
     bindE (parseJob (serializeJob child)) (\<lambda>_.
     if \<not> child_consistent parent child \<or> jb_job_id child \<in> set ids \<or> jb_workflow_job child \<in> set names
     then store_fail ''inconsistent distributed workflow child''
     else check_children parent children (jb_job_id child # ids) (jb_workflow_job child # names))"

definition validateWorkflowGroup :: "WorkflowGroup \<Rightarrow> unit result" where
  "validateWorkflowGroup g =
     bindE (parseJob (serializeJob (wg_parent g))) (\<lambda>_.
     if jb_parent_run_id (wg_parent g) \<noteq> [] \<or> wg_children g = [] \<or> length (wg_children g) > kMaximumCiJobs
     then store_fail ''invalid distributed workflow parent or child count''
     else bindE (check_children (wg_parent g) (wg_children g) [] []) (\<lambda>_.
     if \<not> list_all (\<lambda>child. list_all (\<lambda>d. d \<in> jb_job_id ` set (wg_children g)) (jb_needs child)) (wg_children g)
     then store_fail ''distributed dependency is not a sibling''
     else if ready_loop jb_job_id jb_needs (wg_children g) [] then Inr ()
     else store_fail ''distributed workflow contains a dependency cycle''))"

section \<open>The journal\<close>

definition group_lines :: "WorkflowGroup \<Rightarrow> string list" where
  "group_lines g =
     [''schema_version=1'', ''parent_hex='' @ hexEncode (serializeJob (wg_parent g))]
     @ map (\<lambda>child. ''child_hex='' @ hexEncode (serializeJob child)) (wg_children g)"

definition serializeWorkflowGroup :: "WorkflowGroup \<Rightarrow> string result" where
  "serializeWorkflowGroup g =
     (if length (unlines (group_lines g)) > kMaximumWorkflowGroupBytes
      then store_fail ''distributed workflow exceeds its record limit'' else Inr (unlines (group_lines g)))"

definition parse_group_job :: "string \<Rightarrow> string \<Rightarrow> CiJobRequest result" where
  "parse_group_job key line = bindE (expectField line key) (\<lambda>t. bindE (fromHex t kMaximumCiRunRecordBytes) parseJob)"

definition parseWorkflowGroup :: "string \<Rightarrow> WorkflowGroup result" where
  "parseWorkflowGroup bytes =
     bindE (frame bytes) (\<lambda>lines.
     if length lines < 3 \<or> length lines > kMaximumCiJobs + 2 \<or> lines ! 0 \<noteq> ''schema_version=1''
     then store_fail ''invalid distributed workflow record''
     else bindE (parse_group_job ''parent_hex='' (lines ! 1)) (\<lambda>parent.
     bindE (mapE (parse_group_job ''child_hex='') (drop 2 lines)) (\<lambda>children.
     let g = \<lparr>wg_parent = parent, wg_children = children\<rparr> in
     bindE (validateWorkflowGroup g) (\<lambda>_. Inr g))))"

section \<open>The jobs of a workflow\<close>

definition loadCiWorkflowJobs :: "string \<Rightarrow> string \<Rightarrow> CiJobRequest list io" where
  "loadCiWorkflowJobs project parent_run_id =
     (if \<not> isValidProjectName project \<or> \<not> isValidCiId parent_run_id then returnM []
      else bindM (openRunDir project parent_run_id) (\<lambda>r.
        case r of None \<Rightarrow> returnM []
        | Some run \<Rightarrow> bindM (readCappedAt run ''workflow.ini'' kMaximumWorkflowGroupBytes) (\<lambda>b.
            case b of None \<Rightarrow> returnM []
            | Some bytes \<Rightarrow> bindM (liftE (parseWorkflowGroup bytes)) (\<lambda>g.
                if jb_project_name (wg_parent g) \<noteq> project \<or> jb_job_id (wg_parent g) \<noteq> parent_run_id
                then failM ''distributed workflow identity mismatch''
                else returnM (wg_children g)))))"

text \<open>The line of a job in the report of a workflow: its name, its id, its status, who ran it and what it asked for.\<close>

record CiWorkflowJobSummary =
  jr_name :: string
  jr_id :: string
  jr_status :: CiRunStatus
  jr_runner :: string
  jr_attempt :: nat
  jr_runs_on :: "string list"

definition loadCiJobsReport :: "string \<Rightarrow> string \<Rightarrow> (string \<times> CiWorkflowJobSummary list) io" where
  "loadCiJobsReport project parent_run_id =
     bindM (loadCiWorkflowJobs project parent_run_id) (\<lambda>jobs.
     foldM (\<lambda>(parent, report) job.
       bindM (loadCiRun project (jb_job_id job)) (\<lambda>child.
         case child of None \<Rightarrow> throwM (Runtime_Error ''workflow child record is unavailable'')
         | Some c \<Rightarrow>
             if rr_parent_run_id c \<noteq> parent_run_id \<or> rr_workflow_job c \<noteq> jb_workflow_job job
             then throwM (Runtime_Error ''workflow child record is unavailable'')
             else returnM (parent, report @ [\<lparr>jr_name = jb_workflow_job job, jr_id = jb_job_id job, jr_status = rr_status c,
                    jr_runner = rr_runner c, jr_attempt = rr_attempt c, jr_runs_on = jb_runs_on job\<rparr>])))
       (parent_run_id, []) jobs)"

definition queuedRecord :: "CiJobRequest \<Rightarrow> CiRunRecord" where
  "queuedRecord job =
     \<lparr>rr_run_id = jb_job_id job, rr_project_name = jb_project_name job, rr_ref = jb_ref job, rr_commit_id = jb_commit_id job,
      rr_status = Pending, rr_started_epoch_seconds = 0, rr_finished_epoch_seconds = 0, rr_heartbeat_epoch_seconds = 0,
      rr_runner = [], rr_attempt = jb_attempt job, rr_detail = [], rr_steps = [], rr_artifacts = [],
      rr_parent_run_id = jb_parent_run_id job, rr_workflow_job = jb_workflow_job job, rr_execution = None\<rparr>"

text \<open>
  One run directory of the scan of \<open>listCiUnpublishedWorkflows\<close>: the parent of a finished workflow whose
  outputs are not committed yet, if it is one.
\<close>

definition unpublished_parent :: "path \<Rightarrow> string \<Rightarrow> string \<Rightarrow> CiJobRequest option io" where
  "unpublished_parent project_dir project run_id =
     (if \<not> isValidCiId run_id then returnM None
      else bindM (loadCiRun project run_id) (\<lambda>rec.
        case rec of None \<Rightarrow> returnM None
        | Some record \<Rightarrow>
            if rr_parent_run_id record \<noteq> [] \<or> ciRunStatusIsActive (rr_status record) then returnM None
            else bindM (openDirAt project_dir run_id) (\<lambda>r.
              case r of None \<Rightarrow> returnM None
              | Some run \<Rightarrow> bindM (readCappedAt run ''outputs-committed'' 128) (\<lambda>committed.
                  if committed \<noteq> None then returnM None
                  else bindM (readCappedAt run ''workflow.ini'' kMaximumWorkflowGroupBytes) (\<lambda>b.
                    case b of None \<Rightarrow> returnM None
                    | Some bytes \<Rightarrow> bindM (liftE (parseWorkflowGroup bytes)) (\<lambda>g.
                        if jb_job_id (wg_parent g) \<noteq> run_id \<or> jb_project_name (wg_parent g) \<noteq> project
                          \<or> jb_commit_id (wg_parent g) \<noteq> rr_commit_id record \<or> jb_ref (wg_parent g) \<noteq> rr_ref record
                        then failM ''unpublished workflow identity mismatch''
                        else returnM (Some (wg_parent g))))))))"

definition unpublished_in :: "path \<Rightarrow> CiJobRequest list \<Rightarrow> string \<Rightarrow> CiJobRequest list io" where
  "unpublished_in runs pending project =
     (if \<not> isValidProjectName project then returnM pending
      else bindM (openDirAt runs project) (\<lambda>r.
        case r of None \<Rightarrow> returnM pending
        | Some project_dir \<Rightarrow> bindM (listNames project_dir) (\<lambda>names.
            foldM (\<lambda>found run_id. bindM (unpublished_parent project_dir project run_id) (\<lambda>p.
              returnM (case p of None \<Rightarrow> found | Some parent \<Rightarrow> found @ [parent]))) pending names)))"

definition listCiUnpublishedWorkflows :: "CiJobRequest list io" where
  "listCiUnpublishedWorkflows =
     bindM openRoot (\<lambda>root.
     bindM (openPath root [''ci'', ''runs'']) (\<lambda>r.
       case r of None \<Rightarrow> returnM []
       | Some runs \<Rightarrow> bindM (listNames runs) (\<lambda>projects. foldM (unpublished_in runs) [] projects)))"

lemma reads_groups [reads_intro]:
  "reads (loadCiWorkflowJobs p r)" "reads (loadCiJobsReport p r)" "reads (unpublished_parent d p r)"
  unfolding loadCiWorkflowJobs_def loadCiJobsReport_def unpublished_parent_def
  by (intro reads_intro; (simp add: case_prod_beta, intro reads_intro)?)+

lemma reads_unpublished [reads_intro]: "reads listCiUnpublishedWorkflows"
  unfolding listCiUnpublishedWorkflows_def unpublished_in_def by (intro reads_intro)

section \<open>A workflow is accepted exactly when its jobs can be ordered\<close>

lemma check_children_iff:
  "check_children parent children ids names = Inr () \<longleftrightarrow>
     list_all (\<lambda>c. child_consistent parent c \<and> (\<exists>j. parseJob (serializeJob c) = Inr j)) children
     \<and> distinct (map jb_job_id children) \<and> distinct (map jb_workflow_job children)
     \<and> jb_job_id ` set children \<inter> set ids = {} \<and> jb_workflow_job ` set children \<inter> set names = {}"
proof (induction children arbitrary: ids names)
  case (Cons c cs)
  then show ?case by (auto simp: bindE_eq_Inr)
qed simp

text \<open>
  C24: a distributed workflow is accepted exactly when its parent and children are consistent records with ids
  and names of their own, the dependencies are among the children, and no job needs itself, directly or
  through others. The loop that decides it always ends.
\<close>

theorem validateWorkflowGroup_iff:
  "validateWorkflowGroup g = Inr () \<longleftrightarrow>
     (\<exists>j. parseJob (serializeJob (wg_parent g)) = Inr j) \<and> jb_parent_run_id (wg_parent g) = []
     \<and> wg_children g \<noteq> [] \<and> length (wg_children g) \<le> kMaximumCiJobs
     \<and> list_all (\<lambda>c. child_consistent (wg_parent g) c \<and> (\<exists>j. parseJob (serializeJob c) = Inr j)) (wg_children g)
     \<and> distinct (map jb_job_id (wg_children g)) \<and> distinct (map jb_workflow_job (wg_children g))
     \<and> siblings_only jb_job_id jb_needs (wg_children g) \<and> acyclic (needs_relation jb_job_id jb_needs (wg_children g))"
proof -
  have loop: "ready_loop jb_job_id jb_needs (wg_children g) [] \<longleftrightarrow> acyclic (needs_relation jb_job_id jb_needs (wg_children g))"
    if "distinct (map jb_job_id (wg_children g))" "siblings_only jb_job_id jb_needs (wg_children g)"
    using ready_loop_Inr [OF that(1), where ready = "[]"] ready_loop_complete [OF that(1) _ that(2), where ready = "[]"]
    by (auto simp: needs_earlier_def)
  have sib: "list_all (\<lambda>child. list_all (\<lambda>d. d \<in> jb_job_id ` set cs) (jb_needs child)) cs \<longleftrightarrow> siblings_only jb_job_id jb_needs cs"
    for cs by (auto simp: siblings_only_def list_all_iff)
  show ?thesis
    unfolding validateWorkflowGroup_def bindE_eq_Inr sib check_children_iff
    using loop by (auto simp: bindE_eq_Inr check_children_iff not_less)
qed

section \<open>A stored job fits, and a journal is read back\<close>

lemma length_join: "length (join c xs) \<le> sum_list (map length xs) + length xs"
  by (induction c xs rule: join.induct) auto

lemma length_join_bound:
  assumes "list_all (\<lambda>x. length x \<le> m) xs" "length xs \<le> n"
  shows "length (join c xs) \<le> n * Suc m"
proof -
  have "sum_list (map length xs) \<le> length xs * m" using assms(1) by (induction xs) auto
  then have "length (join c xs) \<le> length xs * Suc m" using length_join [of c xs] by simp
  also have "\<dots> \<le> n * Suc m" using assms(2) by (intro mult_le_mono1)
  finally show ?thesis .
qed

lemma job_lines_bound:
  assumes "job_storable job"
  shows "length (serializeJob job) \<le> 8192"
proof -
  have v: "isValidCiId (jb_job_id job)" "isValidProjectName (jb_project_name job)" "isValidClientId (jb_client_id job)"
    "isValidObjectId (jb_commit_id job)" "length (jb_ref job) \<le> 512" "jb_queued_epoch_seconds job \<le> u64_max"
    "jb_attempt job \<le> 1000" "canonical_labels (jb_runs_on job)"
    "validJobMembership (jb_job_id job) (jb_parent_run_id job) (jb_workflow_job job)"
    "list_all isValidCiId (jb_needs job)" "length (jb_needs job) \<le> kMaximumCiJobs"
    "jb_dependency_lock_sha256 job = [] \<or> isValidSha256Hex (jb_dependency_lock_sha256 job)"
    using assms by (auto simp: job_storable_def job_fields_valid_def validDependencies_def list_all_iff)
  have ids: "isValidCiId i \<Longrightarrow> length i \<le> 64" for i by (simp add: isValidCiId_def kMaximumCiIdBytes_def)
  have "length (jb_project_name job) \<le> 64" "length (jb_client_id job) \<le> 64"
    using v(2,3) isValidProjectName_bounds isValidClientId_bounds by blast+
  moreover have "length (jb_commit_id job) \<le> 64" using v(4) by (auto simp: isValidObjectId_def)
  moreover have "length (jb_dependency_lock_sha256 job) \<le> 64" using v(12) by (auto simp: isValidSha256Hex_def)
  moreover have "length (jb_parent_run_id job) \<le> 64" "length (jb_workflow_job job) \<le> 64"
    using v(9) ids by (auto simp: validJobMembership_def isValidCiArtifactName_def kMaximumCiArtifactNameBytes_def)
  moreover have "length (to_dec (jb_queued_epoch_seconds job)) \<le> 20" using v(6) length_to_dec_u64 by simp
  moreover have "length (to_dec (jb_attempt job)) \<le> 4" using v(7) by (intro length_to_dec) simp_all
  moreover have "length (formatCiLabelList (jb_runs_on job)) \<le> 528"
  proof -
    have l: "list_all isValidCiLabel (jb_runs_on job)" "length (jb_runs_on job) \<le> 16"
      using v(8) by (simp_all add: canonical_labels_def kMaximumCiLabels_def)
    have "isValidCiLabel x \<Longrightarrow> length x \<le> 32" for x by (simp add: isValidCiLabel_def kMaximumCiLabelBytes_def split: if_splits)
    then have "list_all (\<lambda>x. length x \<le> 32) (jb_runs_on job)" using l(1) by (simp add: list_all_iff)
    from length_join_bound [OF this l(2)] show ?thesis unfolding formatCiLabelList_join [OF l(1)] by simp
  qed
  moreover have "length (dependencyList (jb_needs job)) \<le> 4160"
  proof -
    have "list_all (\<lambda>x. length x \<le> 64) (jb_needs job)" using v(10) ids by (auto simp: list_all_iff)
    from length_join_bound [OF this v(11)] show ?thesis unfolding dependencyList_join [OF v(10)]
      by (simp add: kMaximumCiJobs_def)
  qed
  moreover have "length (jb_job_id job) \<le> 64" using v(1) ids by simp
  moreover have "length (serializeJob job) \<le> 250 + length (jb_job_id job) + length (jb_project_name job) + 2 * length (jb_ref job)
    + length (jb_commit_id job) + length (jb_client_id job) + length (to_dec (jb_queued_epoch_seconds job))
    + length (to_dec (jb_attempt job)) + length (formatCiLabelList (jb_runs_on job)) + length (jb_parent_run_id job)
    + length (jb_workflow_job job) + length (dependencyList (jb_needs job)) + length (jb_dependency_lock_sha256 job)"
    by (cases "jb_dependency_lock_sha256 job = []"; cases "jb_auto_cancel job")
      (simp_all add: serializeJob_def job_lines_def)
  ultimately show ?thesis using v(5) by linarith
qed

text \<open>
  Every job record the queue writes fits, with room to spare, in the size the queue reads back: no
  job can be written that is then too large to claim.
\<close>

theorem job_record_fits:
  assumes "job_storable job"
  shows "length (serializeJob job) \<le> 8192 \<and> 8192 < kMaximumCiRunRecordBytes"
  using job_lines_bound [OF assms] by (simp add: kMaximumCiRunRecordBytes_def)

lemma sample_job_storable: "job_storable sample_job"
  using parseJob_storable [OF sample_job_v2_parsed] .

theorem job_record_fits_witness: "length (serializeJob sample_job) \<le> 8192"
  using job_record_fits [OF sample_job_storable] by simp

lemma parse_group_line: "job_storable job \<Longrightarrow> parse_group_job key (key @ hexEncode (serializeJob job)) = Inr job"
  using job_lines_bound [of job] by (simp add: parse_group_job_def kMaximumCiRunRecordBytes_def job_roundtrip)

lemma group_roundtrip:
  assumes "validateWorkflowGroup g = Inr ()" "job_storable (wg_parent g)" "list_all job_storable (wg_children g)"
  shows "parseWorkflowGroup (unlines (group_lines g)) = Inr g"
proof -
  have f: "frame (unlines (group_lines g)) = Inr (group_lines g)"
    by (intro frame_unlines) (auto simp: group_lines_def)
  have n: "wg_children g \<noteq> []" "length (wg_children g) \<le> kMaximumCiJobs"
    using assms(1) by (auto simp: validateWorkflowGroup_def bindE_eq_Inr split: if_splits)
  then have len: "\<not> (length (group_lines g) < 3 \<or> length (group_lines g) > kMaximumCiJobs + 2 \<or> group_lines g ! 0 \<noteq> ''schema_version=1'')"
    by (cases "wg_children g") (simp_all add: group_lines_def)
  have p: "parse_group_job ''parent_hex='' (group_lines g ! 1) = Inr (wg_parent g)"
    using parse_group_line [OF assms(2), of "''parent_hex=''"] by (simp add: group_lines_def)
  have d: "drop 2 (group_lines g) = map (\<lambda>child. ''child_hex='' @ hexEncode (serializeJob child)) (wg_children g)"
    by (simp add: group_lines_def)
  have c: "mapE (parse_group_job ''child_hex='') (drop 2 (group_lines g)) = Inr (wg_children g)"
    unfolding d using assms(3) parse_group_line [of _ "''child_hex=''"] by (intro mapE_map) (simp add: list_all_iff)
  have rebuilt: "\<lparr>wg_parent = wg_parent g, wg_children = wg_children g\<rparr> = g" by simp
  show ?thesis
    unfolding parseWorkflowGroup_def f bindE_Inr if_not_P [OF len] p c Let_def rebuilt assms(1) ..
qed

text \<open>
  The journal of a workflow, the commit point of its publication, is read back as exactly the parent and
  the children that were published.
\<close>

theorem workflow_journal_kept:
  assumes "serializeWorkflowGroup g = Inr bytes" "validateWorkflowGroup g = Inr ()"
    and "job_storable (wg_parent g)" "list_all job_storable (wg_children g)"
  shows "parseWorkflowGroup bytes = Inr g"
  using group_roundtrip [OF assms(2-4)] assms(1) by (auto simp: serializeWorkflowGroup_def split: if_splits)

text \<open>A workflow of two jobs, the first in the file needing the second.\<close>

definition sample_child :: "string \<Rightarrow> string \<Rightarrow> string list \<Rightarrow> CiJobRequest" where
  "sample_child i name needs = sample_job
     \<lparr>jb_job_id := i, jb_parent_run_id := ''p-1'', jb_workflow_job := name, jb_needs := needs, jb_attempt := 1\<rparr>"

definition sample_group :: WorkflowGroup where
  "sample_group = \<lparr>wg_parent = sample_job\<lparr>jb_job_id := ''p-1''\<rparr>,
     wg_children = [sample_child ''c-2'' ''test'' [''c-1''], sample_child ''c-1'' ''build'' []]\<rparr>"

lemma sample_group_storable:
  "job_storable (wg_parent sample_group)" "list_all job_storable (wg_children sample_group)"
proof -
  have "job_fields_valid (sample_job\<lparr>jb_job_id := ''p-1''\<rparr>)" "job_fields_valid (sample_child ''c-2'' ''test'' [''c-1''])"
    "job_fields_valid (sample_child ''c-1'' ''build'' [])" by code_simp+
  then show "job_storable (wg_parent sample_group)" "list_all job_storable (wg_children sample_group)"
    using sample_job_storable by (simp_all add: job_storable_def sample_group_def sample_child_def)
qed

lemma sample_group_valid: "validateWorkflowGroup sample_group = Inr ()"
proof -
  have "job_storable c" if "c \<in> set (wg_children sample_group)" for c
    using sample_group_storable(2) that by (simp add: list_all_iff)
  then have p: "\<forall>c \<in> set (wg_children sample_group). parseJob (serializeJob c) = Inr c" using job_roundtrip by blast
  have c: "check_children (wg_parent sample_group) (wg_children sample_group) [] [] = Inr ()"
    using p by (auto simp: check_children_iff sample_group_def sample_child_def child_consistent_def sample_job_def)
  have "ready_loop jb_job_id jb_needs (wg_children sample_group) []"
    by (simp add: ready_loop.simps sample_group_def sample_child_def item_ready_def)
  then show ?thesis
    using job_roundtrip [OF sample_group_storable(1)] c
    by (simp add: validateWorkflowGroup_def) (simp add: sample_group_def sample_child_def sample_job_def kMaximumCiJobs_def)
qed

theorem workflow_journal_kept_witness: "parseWorkflowGroup (unlines (group_lines sample_group)) = Inr sample_group"
proof -
  have "list_all (\<lambda>c. length (serializeJob c) \<le> 8192) (wg_children sample_group)"
    "length (serializeJob (wg_parent sample_group)) \<le> 8192"
    using sample_group_storable job_lines_bound by (auto simp: list_all_iff)
  then have "length (unlines (group_lines sample_group)) \<le> kMaximumWorkflowGroupBytes"
    by (simp add: group_lines_def sample_group_def kMaximumWorkflowGroupBytes_def)
  then have "serializeWorkflowGroup sample_group = Inr (unlines (group_lines sample_group))"
    by (simp add: serializeWorkflowGroup_def)
  from workflow_journal_kept [OF this sample_group_valid sample_group_storable] show ?thesis .
qed

text \<open>Every accepted workflow has a journal codec.\<close>

interpretation journal: codec "unlines \<circ> group_lines" "ok_of \<circ> parseWorkflowGroup"
  "\<lambda>g. validateWorkflowGroup g = Inr () \<and> job_storable (wg_parent g) \<and> list_all job_storable (wg_children g)"
  by unfold_locales (simp add: group_roundtrip)


end
