(* ===== verification/Ck_Ci_Queue.thy ===== *)
theory Ck_Ci_Queue
  imports Ck_Ci_Groups
begin

text \<open>
  The job queue of \<open>src/common/ci_store.cpp\<close>: jobs wait in \<open>ci/spool\<close>, a claim renames one into
  \<open>ci/working\<close> and gives it a lease in \<open>ci/leases\<close>, and renewing, reaping, abandoning and releasing act on
  the leased job. Pushes supersede older jobs of their branch; the journals in \<open>ci/groups\<close> materialize the
  children of distributed workflows. Every operation is the whole operation of the code; its properties are
  in \<open>Ck_Ci_Queue_Safety\<close>.
\<close>

section \<open>Places, claims and options\<close>

definition spool_dir :: path where "spool_dir = [''ci'', ''spool'']"
definition working_dir :: path where "working_dir = [''ci'', ''working'']"
definition leases_dir :: path where "leases_dir = [''ci'', ''leases'']"

abbreviation ini :: "string \<Rightarrow> string" where "ini i \<equiv> i @ ''.ini''"

record CiClaim =
  cl_job :: CiJobRequest
  cl_lease :: CiLease

record CiClaimOptions =
  co_protocol_version :: nat
  co_runner :: string
  co_lease_seconds :: nat
  co_min_age :: int
  co_one_per_ref :: bool
  co_labels :: "string list"

definition kCiPrimaryRunnerName :: string where "kCiPrimaryRunnerName = ''primary''"
definition kCiDefaultLeaseSeconds :: nat where "kCiDefaultLeaseSeconds = 90"
definition kCiDefaultMaxAttempts :: nat where "kCiDefaultMaxAttempts = 2"

definition default_claim_options :: CiClaimOptions where
  "default_claim_options = \<lparr>co_protocol_version = 1, co_runner = kCiPrimaryRunnerName,
     co_lease_seconds = kCiDefaultLeaseSeconds, co_min_age = 0, co_one_per_ref = True, co_labels = []\<rparr>"

text \<open>The group a job belongs to: its parent's id, or its own.\<close>

definition job_group :: "CiJobRequest \<Rightarrow> string" where
  "job_group job = (if jb_parent_run_id job = [] then jb_job_id job else jb_parent_run_id job)"

text \<open>Opening a directory whose absence ends the operation with the value \<open>x\<close>.\<close>

definition withDirAt :: "path \<Rightarrow> string \<Rightarrow> 'a \<Rightarrow> (path \<Rightarrow> 'a io) \<Rightarrow> 'a io" where
  "withDirAt d n x k = bindM (openDirAt d n) (\<lambda>r. case r of None \<Rightarrow> returnM x | Some p \<Rightarrow> k p)"

definition readLeaseAt :: "path \<Rightarrow> string \<Rightarrow> CiLease option io" where
  "readLeaseAt leases job_id =
     tryM (bindM (readCappedAt leases (ini job_id) 4096) (\<lambda>c.
             case c of None \<Rightarrow> returnM None
             | Some content \<Rightarrow> bindM (liftE (parseLease content)) (\<lambda>l. returnM (Some l))))
          (returnM None)"

definition readJobAt :: "path \<Rightarrow> string \<Rightarrow> CiJobRequest option io" where
  "readJobAt d name =
     tryM (bindM (readCappedAt d name kMaximumCiRunRecordBytes) (\<lambda>c.
             case c of None \<Rightarrow> returnM None
             | Some content \<Rightarrow> bindM (liftE (parseJob content)) (\<lambda>j. returnM (Some j))))
          (returnM None)"

fun draw_hex :: "nat \<Rightarrow> string io" where
  "draw_hex 0 = returnM []"
| "draw_hex (Suc n) = bindM (callM draw) (\<lambda>d. bindM (draw_hex n) (\<lambda>rest.
     returnM (hex_digits ! (d mod 16) # rest)))"

definition generateLeaseToken :: "string io" where
  "generateLeaseToken = draw_hex 32"

section \<open>Cancelling and superseding queued jobs\<close>

definition fresh_run :: CiRunRecord where
  "fresh_run =
     \<lparr>rr_run_id = [], rr_project_name = [], rr_ref = [], rr_commit_id = [], rr_status = Pending,
      rr_started_epoch_seconds = 0, rr_finished_epoch_seconds = 0, rr_heartbeat_epoch_seconds = 0, rr_runner = [],
      rr_attempt = 1, rr_detail = [], rr_steps = [], rr_artifacts = [], rr_parent_run_id = [], rr_workflow_job = [],
      rr_execution = None\<rparr>"

text \<open>A record that takes its identity from the job.\<close>

definition run_of_job :: "CiJobRequest \<Rightarrow> CiRunRecord \<Rightarrow> CiRunRecord" where
  "run_of_job job r = r\<lparr>rr_run_id := jb_job_id job, rr_parent_run_id := jb_parent_run_id job,
     rr_workflow_job := jb_workflow_job job, rr_project_name := jb_project_name job, rr_ref := jb_ref job,
     rr_commit_id := jb_commit_id job\<rparr>"

definition unlink_or_fail :: "path \<Rightarrow> string \<Rightarrow> string \<Rightarrow> unit io" where
  "unlink_or_fail d name message = bindM (unlinkAt d name) (\<lambda>e.
     if e \<noteq> OK \<and> e \<noteq> ENOENT then failM message else returnM ())"

definition fsync_or_fail :: "path \<Rightarrow> string \<Rightarrow> unit io" where
  "fsync_or_fail d message = bindM (fsyncAt d) (\<lambda>e. if e \<noteq> OK then failM message else returnM ())"

definition cancelQueuedJob :: "CiJobRequest \<Rightarrow> string \<Rightarrow> CiRunStatus \<Rightarrow> unit io" where
  "cancelQueuedJob job detail terminal =
     bindM (loadCiRun (jb_project_name job) (jb_job_id job)) (\<lambda>old.
     bindM currentEpoch (\<lambda>now.
     let record = (run_of_job job (case old of None \<Rightarrow> fresh_run | Some r \<Rightarrow> r))
           \<lparr>rr_attempt := jb_attempt job, rr_status := terminal, rr_finished_epoch_seconds := now,
            rr_heartbeat_epoch_seconds := now, rr_detail := detail\<rparr>
     in thenM (prepareCiRunDirectory (jb_project_name job) (jb_job_id job)) (
        thenM (writeCiRunRecord record) (
        thenM (unlink_or_fail spool_dir (ini (jb_job_id job)) ''could not remove a superseded CI job'')
          (fsync_or_fail spool_dir ''could not commit CI cancellation'')))))"

text \<open>A cancel request whose answer the caller ignores.\<close>

definition request_cancel :: "string \<Rightarrow> string \<Rightarrow> unit io" where
  "request_cancel project run_id = thenM (requestCiCancel project run_id) (returnM ())"

text \<open>The body of the loop of \<open>supersedeCiJobs\<close> over the names of one directory.\<close>

definition supersede_one :: "CiJobRequest \<Rightarrow> path \<Rightarrow> string \<Rightarrow> unit io" where
  "supersede_one request d name =
     (if \<not> endsWith name ''.ini'' then returnM ()
      else bindM (readJobAt d name) (\<lambda>j.
        case j of None \<Rightarrow> returnM ()
        | Some old \<Rightarrow>
            if jb_project_name old \<noteq> jb_project_name request \<or> jb_ref old \<noteq> jb_ref request
              \<or> jb_job_id old = jb_job_id request \<or> job_group old = job_group request then returnM ()
            else thenM (if jb_auto_cancel request \<and> job_group old < job_group request \<and> jb_parent_run_id old \<noteq> []
                        then request_cancel (jb_project_name old) (jb_parent_run_id old) else returnM ())
              (if job_group old > job_group request
               then (if jb_auto_cancel old
                     then cancelQueuedJob request (''superseded by run '' @ jb_job_id old) Cancelled else returnM ())
               else if \<not> jb_auto_cancel request then returnM ()
               else if d = spool_dir then cancelQueuedJob old (''superseded by run '' @ jb_job_id request) Cancelled
               else bindM (loadCiRun (jb_project_name old) (jb_job_id old)) (\<lambda>record.
                 if (case record of None \<Rightarrow> True | Some r \<Rightarrow> rr_status r = Pending \<or> rr_status r = Running)
                 then request_cancel (jb_project_name old) (jb_job_id old) else returnM ()))))"

definition supersedeCiJobs :: "CiJobRequest \<Rightarrow> unit io" where
  "supersedeCiJobs request =
     (if \<not> starts_with (jb_ref request) ''refs/heads/'' then returnM ()
      else thenM (if jb_auto_cancel request
                  then bindM listCiUnpublishedWorkflows (\<lambda>parents. forM parents (\<lambda>parent.
                         if jb_project_name parent = jb_project_name request \<and> jb_ref parent = jb_ref request
                           \<and> jb_job_id parent < job_group request
                         then request_cancel (jb_project_name parent) (jb_job_id parent) else returnM ()))
                  else returnM ())
        (forM [spool_dir, working_dir] (\<lambda>d. bindM (listNames d) (\<lambda>names. forM names (supersede_one request d)))))"

section \<open>Putting a job back\<close>

definition resetRunForRequeue :: "CiJobRequest \<Rightarrow> nat \<Rightarrow> string \<Rightarrow> unit io" where
  "resetRunForRequeue job lost_attempt detail =
     tryM (bindM (prepareCiRunDirectory (jb_project_name job) (jb_job_id job)) (\<lambda>run_dir.
             let aside = run_dir @ [''attempt-'' @ to_dec lost_attempt] in
             thenM (callM (sys_remove_all aside)) (
             thenM (callM (sys_rename (run_dir @ [''steps'']) aside)) (
             thenM (callM (sys_remove_all (run_dir @ [''artifacts'']))) (
             thenM (callM (sys_remove_all (run_dir @ [''incoming'']))) (
             thenM (prepareCiRunDirectory (jb_project_name job) (jb_job_id job))
               (writeCiRunRecord ((run_of_job job fresh_run)\<lparr>rr_status := Pending, rr_attempt := jb_attempt job,
                  rr_detail := take kMaximumCiDetailBytes detail\<rparr>))))))))
          (returnM ())"

datatype RequeueOutcome = kRequeued | kFailed | kCancelled | kGone

text \<open>Unlinks whose result the code ignores.\<close>

definition discard :: "path \<Rightarrow> string \<Rightarrow> unit io" where
  "discard d name = thenM (unlinkAt d name) (returnM ())"

definition lost_who :: "string \<Rightarrow> string" where
  "lost_who runner = (if runner = [] then ''its runner'' else ''runner '' @ runner)"

text \<open>Past the attempt limit: the run is recorded as an error, as well as that can be done.\<close>

definition give_up :: "CiJobRequest \<Rightarrow> string \<Rightarrow> unit io" where
  "give_up job runner =
     tryM (bindM (loadCiRun (jb_project_name job) (jb_job_id job)) (\<lambda>existing.
           bindM currentEpoch (\<lambda>now.
           writeCiRunRecord ((case existing of Some r \<Rightarrow> r | None \<Rightarrow> run_of_job job fresh_run)
             \<lparr>rr_status := Error, rr_finished_epoch_seconds := now, rr_heartbeat_epoch_seconds := now,
              rr_detail := take kMaximumCiDetailBytes
                (lost_who runner @ '' was lost; gave up after '' @ to_dec (jb_attempt job) @ '' attempt'' @
                 (if jb_attempt job = 1 then [] else ''s''))\<rparr>))))
          (returnM ())"

definition requeueLocked :: "string \<Rightarrow> string \<Rightarrow> bool \<Rightarrow> nat \<Rightarrow> RequeueOutcome io" where
  "requeueLocked job_id runner enforce_limit max_attempts =
     bindM (readJobAt working_dir (ini job_id)) (\<lambda>j.
     case j of
       None \<Rightarrow> thenM (callM (sys_rename (working_dir @ [ini job_id]) (working_dir @ [ini job_id @ ''.rejected''])))
                 (thenM (discard leases_dir (ini job_id)) (returnM kGone))
     | Some job \<Rightarrow>
         bindM (if jb_parent_run_id job = [] then returnM None else loadCiRun (jb_project_name job) (jb_job_id job)) (\<lambda>done.
         if (case done of None \<Rightarrow> False | Some r \<Rightarrow> \<not> ciRunStatusIsActive (rr_status r))
         then thenM (forM [spool_dir, working_dir, leases_dir] (\<lambda>d.
                thenM (unlink_or_fail d (ini job_id) ''could not retire completed child's lease'')
                  (fsync_or_fail d ''could not persist completed child retirement'')))
              (returnM kGone)
         else bindM (isCiCancelRequested (jb_project_name job) (jb_job_id job)) (\<lambda>cancelled.
         if cancelled
         then thenM (cancelQueuedJob job ''cancelled before its runner returned'' Cancelled) (
              thenM (discard working_dir (ini job_id)) (
              thenM (discard leases_dir (ini job_id)) (
              thenM (fsyncAt working_dir) (
              thenM (clearCiCancel (jb_project_name job) (jb_job_id job)) (returnM kCancelled)))))
         else if enforce_limit \<and> jb_attempt job \<ge> max_attempts
         then thenM (give_up job runner) (
              thenM (discard working_dir (ini job_id)) (
              thenM (discard leases_dir (ini job_id)) (
              thenM (fsyncAt working_dir) (returnM kFailed))))
         else
           let again = job\<lparr>jb_attempt := jb_attempt job + 1\<rparr> in
           thenM (resetRunForRequeue again (jb_attempt job)
             (''requeued: '' @ lost_who runner @ (if enforce_limit then '' was lost'' else '' gave the job back'') @
              '' (attempt '' @ to_dec (jb_attempt again) @ '')'')) (
           thenM (atomicWriteAt spool_dir (ini job_id) (serializeJob again)) (
           thenM (discard working_dir (ini job_id)) (
           thenM (discard leases_dir (ini job_id)) (
           thenM (fsyncAt working_dir) (returnM kRequeued))))))))"

section \<open>Distributed workflows\<close>

fun status_priority :: "CiRunStatus \<Rightarrow> nat" where
  "status_priority Error = 6"
| "status_priority Timeout = 5"
| "status_priority Failure = 4"
| "status_priority Cancelled = 3"
| "status_priority Skipped = 2"
| "status_priority _ = 0"

text \<open>The variables of the loop over a workflow's children.\<close>

record reconcile_state =
  rs_summary :: CiRunRecord
  rs_done :: nat
  rs_running :: bool
  rs_terminal :: CiRunStatus

text \<open>An active child whose queue entry is missing is queued again, and a cancelled one is cancelled.\<close>

definition materialize_child :: "CiJobRequest \<Rightarrow> CiRunRecord \<Rightarrow> bool \<Rightarrow> CiRunRecord option io" where
  "materialize_child child record held =
     (if \<not> ciRunStatusIsActive (rr_status record) then returnM (Some record)
      else thenM (if held then returnM ()
                  else bindM (readJobAt spool_dir (ini (jb_job_id child))) (\<lambda>queued.
                    if queued \<noteq> None then returnM ()
                    else atomicWriteAt spool_dir (ini (jb_job_id child)) (serializeJob (child\<lparr>jb_attempt := rr_attempt record\<rparr>))))
        (if held then returnM (Some record)
         else bindM (isCiCancelRequested (jb_project_name child) (jb_job_id child)) (\<lambda>cancelled.
           if cancelled
           then thenM (cancelQueuedJob child ''workflow cancelled before job started'' Cancelled)
                  (loadCiRun (jb_project_name child) (jb_job_id child))
           else returnM (Some record))))"

definition summarize :: "reconcile_state \<Rightarrow> CiRunRecord \<Rightarrow> bool \<Rightarrow> reconcile_state" where
  "summarize s record held =
     (let ended = \<not> ciRunStatusIsActive (rr_status record); sum = rs_summary s in
      \<lparr>rs_summary = sum
         \<lparr>rr_started_epoch_seconds :=
            (if rr_started_epoch_seconds record \<noteq> 0
                \<and> (rr_started_epoch_seconds sum = 0 \<or> rr_started_epoch_seconds record < rr_started_epoch_seconds sum)
             then rr_started_epoch_seconds record else rr_started_epoch_seconds sum),
          rr_heartbeat_epoch_seconds := max (rr_heartbeat_epoch_seconds sum) (rr_heartbeat_epoch_seconds record),
          rr_finished_epoch_seconds := max (rr_finished_epoch_seconds sum) (rr_finished_epoch_seconds record)\<rparr>,
       rs_done = (if ended then rs_done s + 1 else rs_done s),
       rs_running = (rs_running s \<or> held \<or> rr_status record = Running),
       rs_terminal = (if ended \<and> status_priority (rr_status record) > status_priority (rs_terminal s)
                      then rr_status record else rs_terminal s)\<rparr>)"

definition reconcile_child :: "CiJobRequest \<Rightarrow> reconcile_state \<Rightarrow> CiJobRequest \<Rightarrow> reconcile_state io" where
  "reconcile_child parent s child =
     bindM (loadCiRun (jb_project_name child) (jb_job_id child)) (\<lambda>old.
     if (case old of None \<Rightarrow> False | Some r \<Rightarrow> rr_parent_run_id r \<noteq> jb_job_id parent
           \<or> rr_workflow_job r \<noteq> jb_workflow_job child \<or> rr_commit_id r \<noteq> jb_commit_id child \<or> rr_ref r \<noteq> jb_ref child)
     then failM ''distributed child record identity mismatch''
     else thenM (if old = None then writeCiRunRecord (queuedRecord child) else returnM ()) (
       let record = (case old of None \<Rightarrow> queuedRecord child | Some r \<Rightarrow> r) in
       bindM (readJobAt working_dir (ini (jb_job_id child))) (\<lambda>holder.
       bindM (materialize_child child record (holder \<noteq> None)) (\<lambda>now.
       case now of None \<Rightarrow> failM ''distributed child record disappeared''
       | Some current \<Rightarrow>
           thenM (if \<not> ciRunStatusIsActive (rr_status current) \<and> holder = None
                  then unlink_or_fail spool_dir (ini (jb_job_id child)) ''could not retire terminal child queue entry''
                  else returnM ())
             (returnM (summarize s current (holder \<noteq> None)))))))"

definition parent_summary :: "reconcile_state \<Rightarrow> nat \<Rightarrow> nat \<Rightarrow> CiRunRecord" where
  "parent_summary s children now =
     (let status = (if rs_done s = children then rs_terminal s
                    else if rs_running s \<or> rs_done s \<noteq> 0 then Running else Pending);
          finished = rr_finished_epoch_seconds (rs_summary s) in
      (rs_summary s)\<lparr>rr_status := status,
        rr_finished_epoch_seconds := (if ciRunStatusIsActive status then 0 else if finished = 0 then now else finished),
        rr_detail := to_dec (rs_done s) @ ''/'' @ to_dec children @ '' jobs completed''\<rparr>)"

definition reconcile_start :: "CiJobRequest \<Rightarrow> reconcile_state" where
  "reconcile_start parent =
     \<lparr>rs_summary = queuedRecord parent, rs_done = 0, rs_running = False, rs_terminal = Success\<rparr>"

text \<open>The summary of the children becomes the parent's record, and the journal of a finished workflow goes.\<close>

definition retire_journal :: "path \<Rightarrow> string \<Rightarrow> CiRunRecord \<Rightarrow> unit io" where
  "retire_journal groups file summary =
     (if ciRunStatusIsActive (rr_status summary) then returnM ()
      else thenM (unlink_or_fail groups file ''could not retire workflow journal'')
             (fsync_or_fail groups ''could not commit workflow completion''))"

definition reconcile_finish :: "path \<Rightarrow> string \<Rightarrow> WorkflowGroup \<Rightarrow> reconcile_state \<Rightarrow> unit io" where
  "reconcile_finish groups file g s =
     thenM (forM (wg_children g) supersedeCiJobs) (
     bindM currentEpoch (\<lambda>now.
     let summary = parent_summary s (length (wg_children g)) now in
     thenM (writeCiRunRecord summary) (retire_journal groups file summary)))"

definition reconcile_group :: "path \<Rightarrow> string \<Rightarrow> string \<Rightarrow> WorkflowGroup \<Rightarrow> unit io" where
  "reconcile_group groups file bytes g =
     (let parent = wg_parent g in
      if file \<noteq> ini (jb_job_id parent) then failM ''distributed journal ID mismatch''
      else thenM (prepareCiRunDirectory (jb_project_name parent) (jb_job_id parent)) (
        bindM (openRunDir (jb_project_name parent) (jb_job_id parent)) (\<lambda>r.
        case r of None \<Rightarrow> failM ''could not open a CI record''
        | Some parent_dir \<Rightarrow>
            bindM (readCappedAt parent_dir ''workflow.ini'' kMaximumWorkflowGroupBytes) (\<lambda>existing.
            if existing \<noteq> None \<and> existing \<noteq> Some bytes then failM ''distributed workflow changed after publication''
            else thenM (if existing = None then atomicWriteAt parent_dir ''workflow.ini'' bytes else returnM ()) (
              bindM (loadCiRun (jb_project_name parent) (jb_job_id parent)) (\<lambda>run.
              thenM (if run = None then writeCiRunRecord (queuedRecord parent) else returnM ()) (
              bindM (foldM (reconcile_child parent) (reconcile_start parent) (wg_children g)) (reconcile_finish groups file g))))))))"

definition reconcile_file :: "path \<Rightarrow> string \<Rightarrow> unit io" where
  "reconcile_file groups file =
     (if \<not> endsWith file ''.ini'' then returnM ()
      else bindM (readCappedAt groups file kMaximumWorkflowGroupBytes) (\<lambda>b.
        case b of None \<Rightarrow> returnM ()
        | Some bytes \<Rightarrow> bindM (liftE (parseWorkflowGroup bytes)) (reconcile_group groups file bytes)))"

definition groups_dir :: path where "groups_dir = [''ci'', ''groups'']"

definition reconcileWorkflowGroups :: "unit io" where
  "reconcileWorkflowGroups =
     withDirAt [''ci''] ''groups'' () (\<lambda>groups.
       bindM (listNames groups) (\<lambda>files. forM (sort files) (reconcile_file groups)))"

definition job_known :: "CiJobRequest \<Rightarrow> bool io" where
  "job_known child =
     bindM (loadCiRun (jb_project_name child) (jb_job_id child)) (\<lambda>run.
     if run \<noteq> None then returnM True
     else bindM (readJobAt spool_dir (ini (jb_job_id child))) (\<lambda>queued.
       if queued \<noteq> None then returnM True
       else bindM (readJobAt working_dir (ini (jb_job_id child))) (\<lambda>held. returnM (held \<noteq> None))))"

text \<open>The journal is written unless it is there already, and then the graph is materialized.\<close>

definition publish_group :: "CiJobRequest \<Rightarrow> CiJobRequest list \<Rightarrow> string \<Rightarrow> unit io" where
  "publish_group parent children bytes =
     bindM (readCappedAt groups_dir (ini (jb_job_id parent)) kMaximumWorkflowGroupBytes) (\<lambda>existing.
     if existing \<noteq> None \<and> existing \<noteq> Some bytes then failM ''refusing to replace a workflow journal''
     else thenM (if existing \<noteq> None then returnM ()
                 else thenM (forM children (\<lambda>child. bindM (job_known child) (\<lambda>known.
                               if known then failM ''child ID already belongs to a job'' else returnM ())))
                        (atomicWriteAt groups_dir (ini (jb_job_id parent)) bytes)) (
          thenM reconcileWorkflowGroups (forM children supersedeCiJobs)))"

definition enqueueCiWorkflowJobs :: "CiJobRequest \<Rightarrow> CiJobRequest list \<Rightarrow> unit io" where
  "enqueueCiWorkflowJobs parent children =
     (let g = \<lparr>wg_parent = parent, wg_children = children\<rparr> in
      thenM (liftE (validateWorkflowGroup g)) (
      bindM (liftE (serializeWorkflowGroup g)) (\<lambda>bytes.
      bindM openRoot (\<lambda>root.
      bindM (ensureDirAt root ''ci'') (\<lambda>ci.
      thenM (ensureDirAt ci ''spool'') (
      thenM (ensureDirAt ci ''working'') (
      thenM (ensureDirAt ci ''groups'') (
      thenM (lockExclusive spool_dir) (
      bindM (openRunDir (jb_project_name parent) (jb_job_id parent)) (\<lambda>r.
      case r of None \<Rightarrow> publish_group parent children bytes
      | Some parent_dir \<Rightarrow>
          bindM (readCappedAt parent_dir ''workflow.ini'' kMaximumWorkflowGroupBytes) (\<lambda>old.
          if old \<noteq> None
          then (if old \<noteq> Some bytes then failM ''refusing to replace an existing workflow graph''
                else reconcileWorkflowGroups)
          else bindM (loadCiRun (jb_project_name parent) (jb_job_id parent)) (\<lambda>run.
            if run \<noteq> None then failM ''parent ID already belongs to a run''
            else publish_group parent children bytes))))))))))))"

definition refreshCiWorkflowGroups :: "unit io" where
  "refreshCiWorkflowGroups =
     bindM openRoot (\<lambda>root.
     bindM (ensureDirAt root ''ci'') (\<lambda>ci.
     thenM (ensureDirAt ci ''spool'') (
     thenM (ensureDirAt ci ''working'') (
     thenM (lockExclusive spool_dir) reconcileWorkflowGroups))))"

section \<open>Queueing a job\<close>

definition waiting_detail :: "CiJobRequest \<Rightarrow> string" where
  "waiting_detail request =
     (if jb_runs_on request = [] then [] else ''waiting for a runner labelled '' @ formatCiLabelList (jb_runs_on request))"

definition enqueueCiJob :: "CiJobRequest \<Rightarrow> unit io" where
  "enqueueCiJob request =
     (if \<not> validDependencies request \<or> \<not> isValidCiId (jb_job_id request) \<or> \<not> isValidProjectName (jb_project_name request)
         \<or> \<not> isValidClientId (jb_client_id request) \<or> \<not> isValidObjectId (jb_commit_id request)
         \<or> length (jb_runs_on request) > kMaximumCiLabels \<or> \<not> list_all isValidCiLabel (jb_runs_on request)
      then failM ''refusing to queue an invalid CI job''
      else bindM openRoot (\<lambda>root.
        bindM (ensureDirAt root ''ci'') (\<lambda>ci.
        thenM (ensureDirAt ci ''spool'') (
        thenM (lockExclusive spool_dir) (
        thenM (atomicWriteAt spool_dir (ini (jb_job_id request)) (serializeJob request)) (
        thenM (tryM (thenM (prepareCiRunDirectory (jb_project_name request) (jb_job_id request))
                 (writeCiRunRecord ((run_of_job request fresh_run)
                    \<lparr>rr_status := Pending, rr_detail := waiting_detail request\<rparr>)))
               (returnM ())) (
        thenM (ensureDirAt ci ''working'') (supersedeCiJobs request))))))))"

definition ensureCiQueueDirectories :: "(path \<times> path) io" where
  "ensureCiQueueDirectories =
     bindM openRoot (\<lambda>root.
     bindM (ensureDirAt root ''ci'') (\<lambda>ci.
     thenM (ensureDirAt ci ''spool'') (
     thenM (ensureDirAt ci ''working'') (returnM (spool_dir, working_dir)))))"

section \<open>Claiming a job\<close>

text \<open>Division of a duration that truncates towards zero.\<close>

definition trunc_div :: "int \<Rightarrow> int \<Rightarrow> int" where
  "trunc_div a b = (if a \<ge> 0 then a div b else - ((- a) div b))"

type_synonym ref_groups = "((string \<times> string) \<times> string) list"

definition groups_of :: "ref_groups \<Rightarrow> string \<Rightarrow> string \<Rightarrow> string list" where
  "groups_of entries project ref = remdups (map snd (filter (\<lambda>e. fst e = (project, ref)) entries))"

text \<open>The groups with a job in \<open>working\<close>, by project and ref.\<close>

definition busy_groups :: "ref_groups io" where
  "busy_groups =
     bindM (listNames working_dir) (\<lambda>names. foldM (\<lambda>busy name.
       if \<not> endsWith name ''.ini'' then returnM busy
       else bindM (readJobAt working_dir name) (\<lambda>j. returnM (case j of None \<Rightarrow> busy
         | Some running \<Rightarrow> busy @ [((jb_project_name running, jb_ref running), job_group running)]))) [] names)"

text \<open>The workflows that have a queued child or unpublished outputs, by project and ref.\<close>

definition pending_groups :: "string list \<Rightarrow> ref_groups io" where
  "pending_groups names =
     bindM (foldM (\<lambda>found name. bindM (readJobAt spool_dir name) (\<lambda>j. returnM (case j of None \<Rightarrow> found
        | Some queued \<Rightarrow> if jb_parent_run_id queued = [] then found
            else found @ [((jb_project_name queued, jb_ref queued), jb_parent_run_id queued)]))) [] names) (\<lambda>queued.
     bindM listCiUnpublishedWorkflows (\<lambda>parents.
       returnM (queued @ map (\<lambda>p. ((jb_project_name p, jb_ref p), jb_job_id p)) parents)))"

text \<open>The loop over a queued job's dependencies: whether one is still to come, and whether one has failed.\<close>

fun dependency_state :: "CiJobRequest \<Rightarrow> string list \<Rightarrow> bool \<Rightarrow> bool \<Rightarrow> (bool \<times> bool) io" where
  "dependency_state queued [] waiting failed = returnM (waiting, failed)"
| "dependency_state queued (d # ds) waiting failed =
     bindM (loadCiRun (jb_project_name queued) d) (\<lambda>r.
       case r of None \<Rightarrow> dependency_state queued ds True failed
       | Some result \<Rightarrow>
           if rr_parent_run_id result \<noteq> jb_parent_run_id queued \<or> rr_commit_id result \<noteq> jb_commit_id queued
             \<or> rr_ref result \<noteq> jb_ref queued then returnM (waiting, True)
           else if ciRunStatusIsActive (rr_status result) then dependency_state queued ds True failed
           else if rr_status result \<noteq> Success then dependency_state queued ds waiting True
           else dependency_state queued ds waiting failed)"

text \<open>A job's turn on its ref: only its own group is at work there, and no older workflow is pending.\<close>

definition ref_free :: "ref_groups \<Rightarrow> ref_groups \<Rightarrow> CiJobRequest \<Rightarrow> bool" where
  "ref_free busy pending queued \<longleftrightarrow>
     (let active = groups_of busy (jb_project_name queued) (jb_ref queued);
          older = groups_of pending (jb_project_name queued) (jb_ref queued) in
      (active = [] \<or> active = [job_group queued]) \<and> \<not> list_ex (\<lambda>p. p < job_group queued) older)"

text \<open>The wait until a job is old enough, when it is not.\<close>

definition age_wait :: "CiClaimOptions \<Rightarrow> nat \<Rightarrow> string \<Rightarrow> world \<Rightarrow> int option" where
  "age_wait options now name w =
     (if co_min_age options \<le> 0 then None
      else case node_at w (spool_dir @ [name]) of
          None \<Rightarrow> None
        | Some n \<Rightarrow>
            let age = trunc_div (int now - int (nd_mtime n)) 1000000
            in if age < co_min_age options then Some (co_min_age options - age) else None)"

definition sooner :: "int option \<Rightarrow> int \<Rightarrow> int option" where
  "sooner retry wait = (case retry of None \<Rightarrow> Some wait | Some r \<Rightarrow> if wait < r then Some wait else Some r)"

text \<open>The decision on one spool entry: whether to claim it, and the retry time so far.\<close>

definition claim_turn ::
  "CiClaimOptions \<Rightarrow> ref_groups \<Rightarrow> ref_groups \<Rightarrow> nat \<Rightarrow> string \<Rightarrow> int option \<Rightarrow> CiJobRequest \<Rightarrow> (bool \<times> int option) io" where
  "claim_turn options busy pending now name retry queued =
     bindM (dependency_state queued (jb_needs queued) False False) (\<lambda>(waiting, failed).
     if failed then thenM (cancelQueuedJob queued ''skipped: a required job did not succeed'' Skipped) (returnM (False, retry))
     else if waiting then returnM (False, retry)
     else if \<not> ciRunnerMatches (co_runner options) (co_labels options) (jb_runs_on queued) then returnM (False, retry)
     else if jb_parent_run_id queued \<noteq> [] \<and> co_protocol_version options < 2 then returnM (False, retry)
     else if co_one_per_ref options \<and> \<not> ref_free busy pending queued then returnM (False, retry)
     else bindM (askM (age_wait options now name)) (\<lambda>wait.
       case wait of None \<Rightarrow> returnM (True, retry) | Some t \<Rightarrow> returnM (False, sooner retry t)))"

definition claim_job_check ::
  "CiClaimOptions \<Rightarrow> ref_groups \<Rightarrow> ref_groups \<Rightarrow> nat \<Rightarrow> string \<Rightarrow> int option \<Rightarrow> CiJobRequest \<Rightarrow> (bool \<times> int option) io" where
  "claim_job_check options busy pending now name retry queued =
     bindM (if jb_parent_run_id queued \<noteq> [] \<or> jb_dependency_lock_sha256 queued \<noteq> []
            then isCiCancelRequested (jb_project_name queued) (jb_job_id queued) else returnM False) (\<lambda>cancelled.
     if cancelled then thenM (cancelQueuedJob queued ''cancelled before it started'' Cancelled) (returnM (False, retry))
     else if jb_dependency_lock_sha256 queued \<noteq> [] then returnM (False, retry)
     else claim_turn options busy pending now name retry queued)"

definition claim_check ::
  "CiClaimOptions \<Rightarrow> ref_groups \<Rightarrow> ref_groups \<Rightarrow> nat \<Rightarrow> string \<Rightarrow> int option \<Rightarrow> (bool \<times> int option) io" where
  "claim_check options busy pending now name retry =
     bindM (readJobAt spool_dir name) (\<lambda>j.
       case j of None \<Rightarrow> returnM (True, retry)
       | Some queued \<Rightarrow> claim_job_check options busy pending now name retry queued)"

text \<open>A claimed job is read from \<open>working\<close>; what cannot be read is set aside there.\<close>

definition read_claimed :: "string \<Rightarrow> CiJobRequest option io" where
  "read_claimed name =
     tryM (bindM (readCappedAt working_dir name kMaximumCiRunRecordBytes) (\<lambda>c.
             case c of None \<Rightarrow> returnM None | Some content \<Rightarrow> bindM (liftE (parseJob content)) (\<lambda>j. returnM (Some j))))
          (thenM (callM (sys_rename (working_dir @ [name]) (working_dir @ [name @ ''.rejected'']))) (returnM None))"

definition lease_claim :: "CiClaimOptions \<Rightarrow> string \<Rightarrow> CiJobRequest \<Rightarrow> CiClaim io" where
  "lease_claim options name job =
     bindM generateLeaseToken (\<lambda>token.
     bindM currentEpoch (\<lambda>now.
     let lease = \<lparr>ls_runner = co_runner options, ls_token = token,
                  ls_expires_epoch_seconds = (now + co_lease_seconds options) mod 2 ^ 64\<rparr> in
     thenM (atomicWriteAt leases_dir name (serializeLease lease)) (
     thenM (if jb_parent_run_id job \<noteq> [] then reconcileWorkflowGroups else returnM ())
       (returnM \<lparr>cl_job = job, cl_lease = lease\<rparr>))))"

fun claim_from ::
  "CiClaimOptions \<Rightarrow> ref_groups \<Rightarrow> ref_groups \<Rightarrow> nat \<Rightarrow> string list \<Rightarrow> int option \<Rightarrow> (CiClaim option \<times> int option) io" where
  "claim_from options busy pending now [] retry = returnM (None, retry)"
| "claim_from options busy pending now (name # names) retry =
     bindM (claim_check options busy pending now name retry) (\<lambda>(take, retry').
     if \<not> take then claim_from options busy pending now names retry'
     else bindM (callM (sys_rename (spool_dir @ [name]) (working_dir @ [name]))) (\<lambda>e.
       if e = ENOENT then claim_from options busy pending now names retry'
       else if e \<noteq> OK then failM ''could not claim a CI job''
       else thenM (fsync_or_fail working_dir ''could not commit a CI claim'') (
         bindM (read_claimed name) (\<lambda>j.
         case j of None \<Rightarrow> claim_from options busy pending now names retry'
         | Some job \<Rightarrow> bindM (lease_claim options name job) (\<lambda>claim. returnM (Some claim, retry'))))))"

definition spool_names :: "string list io" where
  "spool_names = bindM (listNames spool_dir) (\<lambda>names. returnM (sort (filter (\<lambda>n. length n > 4 \<and> endsWith n ''.ini'') names)))"

definition claimCiJob :: "CiClaimOptions \<Rightarrow> (CiClaim option \<times> int option) io" where
  "claimCiJob options =
     (if \<not> isValidClientId (co_runner options) \<or> co_lease_seconds options = 0 then failM ''invalid CI claim options''
      else bindM openRoot (\<lambda>root.
        withDirAt root ''ci'' (None, None) (\<lambda>ci.
        withDirAt ci ''spool'' (None, None) (\<lambda>spool.
        thenM (ensureDirAt ci ''working'') (
        thenM (ensureDirAt ci ''leases'') (
        thenM (lockExclusive spool) (
        thenM reconcileWorkflowGroups (
        bindM spool_names (\<lambda>names.
        bindM (if co_one_per_ref options then busy_groups else returnM []) (\<lambda>busy.
        bindM (if co_one_per_ref options then pending_groups names else returnM []) (\<lambda>pending.
        bindM (askM w_clock) (\<lambda>now.
        claim_from options busy pending now names None))))))))))))"

definition claimNextCiJob :: "CiJobRequest option io" where
  "claimNextCiJob =
     bindM (claimCiJob (default_claim_options\<lparr>co_one_per_ref := False\<rparr>)) (\<lambda>(claim, _).
       returnM (map_option cl_job claim))"


section \<open>Leased jobs\<close>

definition renewCiLease :: "string \<Rightarrow> string \<Rightarrow> nat \<Rightarrow> bool io" where
  "renewCiLease job_id token lease_seconds =
     (if \<not> isValidCiId job_id \<or> \<not> isValidLeaseToken token then returnM False
      else bindM openRoot (\<lambda>root.
        withDirAt root ''ci'' False (\<lambda>ci.
        thenM (ensureDirAt ci ''spool'') (
        thenM (ensureDirAt ci ''working'') (
        thenM (ensureDirAt ci ''leases'') (
        thenM (lockExclusive spool_dir) (
        bindM (askM (\<lambda>w. node_at w (working_dir @ [ini job_id]))) (\<lambda>status.
        if status = None then returnM False
        else bindM (readLeaseAt leases_dir job_id) (\<lambda>l.
          case l of None \<Rightarrow> returnM False
          | Some lease \<Rightarrow>
              if ls_token lease \<noteq> token then returnM False
              else bindM currentEpoch (\<lambda>now.
                thenM (atomicWriteAt leases_dir (ini job_id)
                  (serializeLease (lease\<lparr>ls_expires_epoch_seconds := (now + lease_seconds) mod 2 ^ 64\<rparr>)))
                (returnM True)))))))))))"

definition loadCiClaim :: "string \<Rightarrow> CiClaim option io" where
  "loadCiClaim job_id =
     (if \<not> isValidCiId job_id then returnM None
      else tryM (bindM openRoot (\<lambda>root.
             withDirAt root ''ci'' None (\<lambda>ci.
             withDirAt ci ''working'' None (\<lambda>working.
             withDirAt ci ''leases'' None (\<lambda>leases.
             bindM (readJobAt working (ini job_id)) (\<lambda>job.
             bindM (readLeaseAt leases job_id) (\<lambda>lease.
             returnM (case (job, lease) of (Some j, Some l) \<Rightarrow> Some \<lparr>cl_job = j, cl_lease = l\<rparr> | _ \<Rightarrow> None))))))))
           (returnM None))"

text \<open>The transaction is the caller's; it runs while the claim is live, or not at all.\<close>

definition withLiveCiClaim :: "string \<Rightarrow> string \<Rightarrow> string \<Rightarrow> (CiClaim \<Rightarrow> unit io) \<Rightarrow> bool io" where
  "withLiveCiClaim job_id runner token transaction =
     (if \<not> isValidCiId job_id \<or> \<not> isValidClientId runner \<or> \<not> isValidLeaseToken token then returnM False
      else bindM openRoot (\<lambda>root.
        withDirAt root ''ci'' False (\<lambda>ci.
        withDirAt ci ''spool'' False (\<lambda>spool.
        thenM (lockExclusive spool) (
        withDirAt ci ''working'' False (\<lambda>working.
        withDirAt ci ''leases'' False (\<lambda>leases.
        bindM (readJobAt working (ini job_id)) (\<lambda>job.
        bindM (readLeaseAt leases job_id) (\<lambda>lease.
        bindM currentEpoch (\<lambda>now.
        case (job, lease) of
          (Some j, Some l) \<Rightarrow>
            if jb_job_id j \<noteq> job_id \<or> ls_runner l \<noteq> runner \<or> ls_token l \<noteq> token \<or> ls_expires_epoch_seconds l \<le> now
            then returnM False
            else thenM (transaction \<lparr>cl_job = j, cl_lease = l\<rparr>) (returnM True)
        | _ \<Rightarrow> returnM False))))))))))"

record CiReapOptions =
  ro_now_epoch_seconds :: nat
  ro_max_attempts :: nat
  ro_restarted_runner :: string

record CiReapResult =
  rp_requeued :: "string list"
  rp_failed :: "string list"
  rp_cancelled :: "string list"
  rp_next_expiry :: "nat option"

definition lease_lapsed :: "CiReapOptions \<Rightarrow> nat \<Rightarrow> CiLease option \<Rightarrow> bool" where
  "lease_lapsed options now lease =
     (case lease of None \<Rightarrow> True
      | Some l \<Rightarrow> ls_expires_epoch_seconds l \<le> now
          \<or> ro_restarted_runner options \<noteq> [] \<and> ls_runner l = ro_restarted_runner options)"

fun note_outcome :: "RequeueOutcome \<Rightarrow> string \<Rightarrow> CiReapResult \<Rightarrow> CiReapResult" where
  "note_outcome kRequeued i result = result\<lparr>rp_requeued := rp_requeued result @ [i]\<rparr>"
| "note_outcome kFailed i result = result\<lparr>rp_failed := rp_failed result @ [i]\<rparr>"
| "note_outcome kCancelled i result = result\<lparr>rp_cancelled := rp_cancelled result @ [i]\<rparr>"
| "note_outcome kGone i result = result"

definition earlier :: "nat option \<Rightarrow> nat \<Rightarrow> nat" where
  "earlier next expiry = (case next of None \<Rightarrow> expiry | Some t \<Rightarrow> if expiry < t then expiry else t)"

definition reap_one :: "CiReapOptions \<Rightarrow> nat \<Rightarrow> CiReapResult \<Rightarrow> string \<Rightarrow> CiReapResult io" where
  "reap_one options now result name =
     (let job_id = take (length name - 4) name in
      if \<not> endsWith name ''.ini'' \<or> \<not> isValidCiId job_id then returnM result
      else bindM (readLeaseAt leases_dir job_id) (\<lambda>lease.
        if \<not> lease_lapsed options now lease
        then returnM (case lease of None \<Rightarrow> result
               | Some l \<Rightarrow> result\<lparr>rp_next_expiry := Some (earlier (rp_next_expiry result) (ls_expires_epoch_seconds l))\<rparr>)
        else bindM (requeueLocked job_id (case lease of None \<Rightarrow> [] | Some l \<Rightarrow> ls_runner l) True
                     (if ro_max_attempts options = 0 then 1 else ro_max_attempts options)) (\<lambda>outcome.
          returnM (note_outcome outcome job_id result))))"

definition empty_reap :: CiReapResult where
  "empty_reap = \<lparr>rp_requeued = [], rp_failed = [], rp_cancelled = [], rp_next_expiry = None\<rparr>"

definition reapCiLeases :: "CiReapOptions \<Rightarrow> CiReapResult io" where
  "reapCiLeases options =
     bindM openRoot (\<lambda>root.
     withDirAt root ''ci'' empty_reap (\<lambda>ci.
     withDirAt ci ''working'' empty_reap (\<lambda>working.
     thenM (ensureDirAt ci ''spool'') (
     thenM (ensureDirAt ci ''leases'') (
     thenM (lockExclusive spool_dir) (
     bindM currentEpoch (\<lambda>current.
     bindM (listNames working) (\<lambda>names.
     foldM (reap_one options (if ro_now_epoch_seconds options \<noteq> 0 then ro_now_epoch_seconds options else current))
       empty_reap names))))))))"

definition abandonCiJob :: "string \<Rightarrow> string \<Rightarrow> string \<Rightarrow> bool io" where
  "abandonCiJob job_id token runner =
     (if \<not> isValidCiId job_id \<or> \<not> isValidLeaseToken token then returnM False
      else bindM openRoot (\<lambda>root.
        withDirAt root ''ci'' False (\<lambda>ci.
        withDirAt ci ''working'' False (\<lambda>working.
        thenM (ensureDirAt ci ''spool'') (
        thenM (ensureDirAt ci ''leases'') (
        thenM (lockExclusive spool_dir) (
        bindM (readLeaseAt leases_dir job_id) (\<lambda>l.
        case l of None \<Rightarrow> returnM False
        | Some lease \<Rightarrow>
            if ls_token lease \<noteq> token then returnM False
            else bindM (requeueLocked job_id runner False 0) (\<lambda>outcome. returnM (outcome = kRequeued))))))))))"

definition releaseCiClaim :: "string \<Rightarrow> string \<Rightarrow> bool io" where
  "releaseCiClaim job_id token =
     (if \<not> isValidCiId job_id \<or> \<not> isValidLeaseToken token then returnM False
      else bindM openRoot (\<lambda>root.
        withDirAt root ''ci'' False (\<lambda>ci.
        withDirAt ci ''working'' False (\<lambda>working.
        thenM (ensureDirAt ci ''spool'') (
        thenM (ensureDirAt ci ''leases'') (
        thenM (lockExclusive spool_dir) (
        bindM (readLeaseAt leases_dir job_id) (\<lambda>l.
        case l of None \<Rightarrow> returnM False
        | Some lease \<Rightarrow>
            if ls_token lease \<noteq> token then returnM False
            else thenM (unlink_or_fail working_dir (ini job_id) ''could not release a CI job'') (
                 thenM (unlink_or_fail leases_dir (ini job_id) ''could not release a CI lease'') (
                 thenM (fsync_or_fail working_dir ''could not commit CI release'') (
                 thenM (fsync_or_fail leases_dir ''could not commit CI release'') (
                 thenM reconcileWorkflowGroups (returnM True)))))))))))))"

definition releaseCiJob :: "string \<Rightarrow> unit io" where
  "releaseCiJob job_id =
     (if \<not> isValidCiId job_id then failM ''refusing to release an invalid CI job id''
      else bindM openRoot (\<lambda>root.
        withDirAt root ''ci'' () (\<lambda>ci.
        withDirAt ci ''working'' () (\<lambda>working.
        thenM (unlink_or_fail working (ini job_id) ''could not release a CI job'') (
        withDirAt ci ''leases'' () (\<lambda>leases.
        unlink_or_fail leases (ini job_id) ''could not release a CI lease''))))))"

definition listCiClaims :: "CiClaim list io" where
  "listCiClaims =
     bindM (tryM (bindM openRoot (\<lambda>root.
           withDirAt root ''ci'' [] (\<lambda>ci.
           withDirAt ci ''working'' [] (\<lambda>working.
           bindM (listNames working) (\<lambda>names. foldM (\<lambda>claims file.
             if \<not> endsWith file ''.ini'' then returnM claims
             else bindM (loadCiClaim (take (length file - 4) file)) (\<lambda>c.
               returnM (case c of None \<Rightarrow> claims | Some claim \<Rightarrow> claims @ [claim]))) [] names)))))
          (returnM []))
       (\<lambda>claims. returnM (sort_key (\<lambda>c. jb_job_id (cl_job c)) claims))"


end
