(* ===== verification/Ck_Ci_Discipline.thy ===== *)
theory Ck_Ci_Discipline
  imports Ck_Ci_Queue
begin

text \<open>
  What it takes for a property of worlds to be kept by the whole queue: the locale \<open>queue_discipline\<close> lists
  the primitive actions the operations of \<open>Ck_Ci_Queue\<close> are made of, and shows that an invariant (and a
  preorder on worlds) that these actions keep is kept by every operation, however it ends and whatever
  fails on the way.
\<close>

lemma reads_lease [reads_intro]: "reads (readLeaseAt d i)"
  unfolding readLeaseAt_def by (intro reads_intro)

lemma reads_job [reads_intro]: "reads (readJobAt d n)"
  unfolding readJobAt_def by (intro reads_intro)

lemma reads_dependencies [reads_intro]: "reads (dependency_state q ds a b)"
  by (induction ds arbitrary: a b) (auto intro!: reads_intro)

lemma reads_selection [reads_intro]: "reads busy_groups" "reads (pending_groups ns)" "reads spool_names" "reads (job_known c)"
  unfolding busy_groups_def pending_groups_def spool_names_def job_known_def by (intro reads_intro)+

lemma reads_withDirAt [reads_intro]: "(\<And>p. reads (k p)) \<Longrightarrow> reads (withDirAt d n x k)"
  unfolding withDirAt_def by (intro reads_intro)

lemma reads_claim [reads_intro]: "reads (loadCiClaim i)" "reads listCiClaims"
  unfolding loadCiClaim_def listCiClaims_def
  by (auto intro!: reads_intro simp: prod.case_eq_if split: option.splits)

lemma parseJob_valid_id: "parseJob c = Inr j \<Longrightarrow> isValidCiId (jb_job_id j)"
  using parseJob_storable [of c j] by (simp add: job_storable_def job_fields_valid_def)

lemma parse_group_children:
  assumes "parseWorkflowGroup bytes = Inr g"
  shows "list_all (\<lambda>c. isValidCiId (jb_job_id c)) (wg_children g)"
proof -
  from assms obtain ls cs where "mapE (parse_group_job ''child_hex='') ls = Inr cs" "wg_children g = cs"
    by (auto simp: parseWorkflowGroup_def result_simps Let_def split: if_splits)
  then show ?thesis
    by (auto simp: mapE_eq_Inr list_all2_conv_all_nth list_all_length parse_group_job_def bindE_eq_Inr dest: parseJob_valid_id)
qed

lemmas known_reads = reads_helpers reads_loaders reads_cancel reads_groups reads_unpublished reads_lease reads_job
  reads_dependencies reads_selection reads_claim reads_basic(3) reads_basic(4)

section \<open>The effects of the system calls\<close>

lemma keeps_callM:
  "keeps I R (callM f) (\<lambda>_. True) \<longleftrightarrow> (\<forall>w. I w \<longrightarrow> I (snd (f w)) \<and> R w (snd (f w)))"
  by (simp add: keeps_def callM_def prod.case_eq_if)

context discipline
begin

text \<open>A call either leaves the world as it is or has its one effect.\<close>

lemma keeps_mkdir:
  "(\<And>w. I w \<Longrightarrow> node_at w p = None \<Longrightarrow> I (set_node p (private_dir (w_clock w)) w) \<and> R w (set_node p (private_dir (w_clock w)) w)) \<Longrightarrow>
   keeps I R (callM (sys_mkdir p)) (\<lambda>_. True)"
  by (simp add: keeps_callM sys_mkdir_def R_refl)

lemma keeps_write:
  "(\<And>w t. I w \<Longrightarrow> I (set_node (d @ [n]) (private_file c t) w) \<and> R w (set_node (d @ [n]) (private_file c t) w)) \<Longrightarrow>
   keeps I R (atomicWriteAt d n c) (\<lambda>_. True)"
proof (rule keepsI)
  fix w assume step: "\<And>w t. I w \<Longrightarrow> I (set_node (d @ [n]) (private_file c t) w) \<and> R w (set_node (d @ [n]) (private_file c t) w)" "I w"
  show "I (snd (atomicWriteAt d n c w)) \<and> R w (snd (atomicWriteAt d n c w)) \<and> (\<forall>x. fst (atomicWriteAt d n c w) = Inr x \<longrightarrow> True)"
    using atomicWriteAt_cases [of d n c w] step by (auto simp: R_refl)
qed

lemma keeps_unlink:
  "(\<And>w. I w \<Longrightarrow> I (remove_node (d @ [n]) w) \<and> R w (remove_node (d @ [n]) w)) \<Longrightarrow> keeps I R (unlinkAt d n) (\<lambda>_. True)"
  by (simp add: unlinkAt_def keeps_callM sys_unlink_def R_refl split: option.split)

lemma keeps_rename:
  "(\<And>w. I w \<Longrightarrow> \<not> prefix s d \<Longrightarrow> \<not> prefix d s \<Longrightarrow> I (move_tree s d w) \<and> R w (move_tree s d w)) \<Longrightarrow>
   keeps I R (callM (sys_rename s d)) (\<lambda>_. True)"
  by (simp add: keeps_callM sys_rename_def R_refl split: option.split)

lemma keeps_remove_all:
  "(\<And>w. I w \<Longrightarrow> I (remove_tree p w) \<and> R w (remove_tree p w)) \<Longrightarrow> keeps I R (callM (sys_remove_all p)) (\<lambda>_. True)"
  by (simp add: keeps_callM sys_remove_all_def R_refl)

lemma keeps_draw:
  "(\<And>w k. I w \<Longrightarrow> I (w\<lparr>w_drawn := k\<rparr>) \<and> R w (w\<lparr>w_drawn := k\<rparr>)) \<Longrightarrow> keeps I R (callM draw) (\<lambda>_. True)"
  by (simp add: keeps_callM draw_def)

lemmas keeps_effects = keeps_mkdir keeps_write keeps_unlink keeps_rename keeps_remove_all keeps_draw


text \<open>The rules for reading programs, and for what opens directories.\<close>

lemma of_reads: "reads m \<Longrightarrow> keeps I R m (\<lambda>_. True)"
  by (simp add: reads_iff keeps_def R_refl)

lemmas kept_reads = known_reads [THEN of_reads]

lemma any_bind: "keeps I R m (\<lambda>_. True) \<Longrightarrow> (\<And>x. keeps I R (f x) Q) \<Longrightarrow> keeps I R (bindM m f) Q"
  by (rule keeps_bind)

lemma sum_cases:
  "(\<And>a. r = Inl a \<Longrightarrow> keeps I R (f a) Q) \<Longrightarrow> (\<And>b. r = Inr b \<Longrightarrow> keeps I R (g b) Q) \<Longrightarrow>
   keeps I R (case r of Inl a \<Rightarrow> f a | Inr b \<Rightarrow> g b) Q"
  by (cases r) simp_all

lemma any_return: "keeps I R (returnM x) (\<lambda>_. True)"
  by (rule keeps_return) simp

lemmas any_rules = keeps_if keeps_option sum_cases any_return keeps_throw keeps_try keeps_for any_bind kept_reads

lemma open_root_value: "keeps I R openRoot (\<lambda>x. x = [])"
  using of_reads [OF reads_helpers(10)] openRoot_Inr by (fastforce simp: keeps_def prod_eq_iff)

lemma root_bind: "keeps I R (k []) Q \<Longrightarrow> keeps I R (bindM openRoot k) Q"
  by (rule keeps_bind [OF open_root_value]) simp

lemma open_dir_value: "keeps I R (openDirAt d n) (\<lambda>x. \<forall>p. x = Some p \<longrightarrow> p = d @ [n])"
  using of_reads [OF reads_helpers(3), of d n] openDirAt_Some [of d n] by (fastforce simp: keeps_def prod_eq_iff)

lemma with_dir: "keeps I R (k (d @ [n])) Q \<Longrightarrow> Q x \<Longrightarrow> keeps I R (withDirAt d n x k) Q"
  unfolding withDirAt_def by (intro keeps_bind [OF open_dir_value] keeps_option keeps_return) auto

end

section \<open>The primitive actions\<close>

text \<open>The directories the operations make: \<open>ci\<close>, those right below it, and what is below \<open>ci/runs\<close>.\<close>

definition made_dir :: "path \<Rightarrow> bool" where
  "made_dir p \<longleftrightarrow> prefix [''ci''] p \<and> (length p \<le> 2 \<or> prefix [''ci'', ''runs''] p)"

text \<open>What touches the run directories only, and what touches the queue's directories as well.\<close>

locale run_discipline = discipline I R for I R +
  assumes mkdir: "made_dir p \<Longrightarrow> keeps I R (callM (sys_mkdir p)) (\<lambda>_. True)"
    and write_run: "keeps I R (atomicWriteAt (run_names pr r) n c) (\<lambda>_. True)"
    and unlink_run: "keeps I R (unlinkAt (run_names pr r) n) (\<lambda>_. True)"
    and move_run: "keeps I R (callM (sys_rename (run_names pr r @ [n]) (run_names pr r @ [m]))) (\<lambda>_. True)"
    and remove_run: "keeps I R (callM (sys_remove_all (run_names pr r @ [n]))) (\<lambda>_. True)"
begin

lemma ensure_dir:
  assumes "made_dir (d @ [n])"
  shows "keeps I R (ensureDirAt d n) (\<lambda>x. x = d @ [n])"
proof -
  have "keeps I R (ensureDirAt d n) (\<lambda>_. True)"
    unfolding ensureDirAt_def by (intro any_rules mkdir of_reads [OF reads_helpers(1)] assms)
  then show ?thesis using ensureDirAt_Inr [of d n] by (fastforce simp: keeps_def prod_eq_iff)
qed

lemma ensure_ci: "keeps I R (ensureDirAt [''ci''] n) (\<lambda>_. True)"
  using keeps_weaken [OF ensure_dir [of "[''ci'']" n]] by (simp add: made_dir_def)

lemma ci_bind: "keeps I R (k [''ci'']) Q \<Longrightarrow> keeps I R (bindM (ensureDirAt [] ''ci'') k) Q"
  using ensure_dir [of "[]" "''ci''"] by (auto intro: keeps_bind simp: made_dir_def)

lemma ensure_path:
  "(\<And>k. k < length ns \<Longrightarrow> made_dir (d @ take (Suc k) ns)) \<Longrightarrow> keeps I R (ensurePath d ns) (\<lambda>x. x = d @ ns)"
proof (induction ns arbitrary: d)
  case (Cons n ns)
  have "made_dir (d @ [n])" using Cons.prems [of 0] by simp
  moreover have "keeps I R (ensurePath (d @ [n]) ns) (\<lambda>x. x = d @ n # ns)"
    using Cons.IH [of "d @ [n]"] Cons.prems [of "Suc k" for k] by simp
  ultimately show ?case by (auto intro: keeps_bind [OF ensure_dir])
qed (simp add: keeps_return)

lemma ensure_run_path: "keeps I R (ensurePath [] (run_names p r @ ns)) (\<lambda>x. x = run_names p r @ ns)"
proof -
  have "made_dir (take (Suc k) (run_names p r @ ns))" for k
    by (cases k) (simp_all add: made_dir_def run_names_def)
  then show ?thesis using ensure_path [of "run_names p r @ ns" "[]"] by simp
qed

lemma prepare_run: "keeps I R (prepareCiRunDirectory p r) (\<lambda>x. x = run_names p r)"
  unfolding prepareCiRunDirectory_def
  by (intro keeps_if keeps_throw root_bind any_bind keeps_return)
     (simp_all add: keeps_weaken [OF ensure_run_path])

lemma write_in_run: "keeps I R (bindM (ensurePath [] (run_names p r)) (\<lambda>run. atomicWriteAt run n c)) (\<lambda>_. True)"
  using ensure_run_path [of p r "[]"] by (auto intro!: keeps_bind write_run)

lemma write_record: "keeps I R (writeCiRunRecord r) (\<lambda>_. True)"
  unfolding writeCiRunRecord_def by (intro keeps_if keeps_throw root_bind write_in_run any_bind kept_reads)

lemma open_run_value: "keeps I R (openRunDir p r) (\<lambda>x. \<forall>d. x = Some d \<longrightarrow> d = run_names p r)"
  using of_reads [OF reads_loaders(7), of p r] openRunDir_Some [of p r]
  by (fastforce simp: keeps_def prod_eq_iff)

lemma request_cancel: "keeps I R (requestCiCancel p r) (\<lambda>_. True)"
  unfolding requestCiCancel_def
  by (intro keeps_if keeps_throw keeps_bind [OF open_run_value] keeps_option any_return any_bind kept_reads)
     (simp_all add: write_run)

lemma ask_cancel: "keeps I R (request_cancel p r) (\<lambda>_. True)"
  unfolding request_cancel_def by (intro any_rules request_cancel)

lemma clear_cancel: "keeps I R (clearCiCancel p r) (\<lambda>_. True)"
  unfolding clearCiCancel_def
  by (intro keeps_if keeps_try any_return keeps_bind [OF open_run_value] keeps_option any_bind keeps_throw) (simp_all add: unlink_run)

lemma reset_run: "keeps I R (resetRunForRequeue j k d) (\<lambda>_. True)"
  unfolding resetRunForRequeue_def Let_def
  by (intro keeps_try any_return keeps_bind [OF prepare_run] any_bind write_record)
     (simp_all add: remove_run move_run)

lemma give_up_run: "keeps I R (give_up j r) (\<lambda>_. True)"
  unfolding give_up_def by (intro any_rules write_record)

lemma sync_checked: "keeps I R (fsync_or_fail d m) (\<lambda>_. True)"
  unfolding fsync_or_fail_def by (intro any_rules)

end

locale queue_discipline = run_discipline I R for I R +
  fixes P :: "string \<Rightarrow> CiJobRequest \<Rightarrow> bool"
  assumes write_lease: "keeps I R (atomicWriteAt leases_dir n c) (\<lambda>_. True)"
    and write_group: "keeps I R (atomicWriteAt groups_dir n c) (\<lambda>_. True)"
    and write_spool: "P n j \<Longrightarrow> keeps I R (atomicWriteAt spool_dir n (serializeJob j)) (\<lambda>_. True)"
    and unlink_queue: "d \<in> {spool_dir, working_dir, leases_dir, groups_dir} \<Longrightarrow> keeps I R (unlinkAt d n) (\<lambda>_. True)"
    and take_job: "keeps I R (callM (sys_rename (spool_dir @ [n]) (working_dir @ [n]))) (\<lambda>_. True)"
    and set_aside: "keeps I R (callM (sys_rename (working_dir @ [n]) (working_dir @ [n @ ''.rejected'']))) (\<lambda>_. True)"
    and draw_random: "keeps I R (callM draw) (\<lambda>_. True)"
    and read_job: "d \<in> {spool_dir, working_dir} \<Longrightarrow> keeps I R (readJobAt d n) (\<lambda>r. pred_option (P n) r)"
    and own_name: "isValidCiId (jb_job_id j) \<Longrightarrow> P (ini (jb_job_id j)) j"
    and next_attempt: "P n j \<Longrightarrow> P n (j\<lparr>jb_attempt := k\<rparr>)"
begin

section \<open>The operations\<close>

lemma unlink_checked: "d \<in> {spool_dir, working_dir, leases_dir, groups_dir} \<Longrightarrow> keeps I R (unlink_or_fail d n m) (\<lambda>_. True)"
  unfolding unlink_or_fail_def by (intro any_rules unlink_queue)

lemma unlink_ignored: "d \<in> {spool_dir, working_dir, leases_dir, groups_dir} \<Longrightarrow> keeps I R (discard d n) (\<lambda>_. True)"
  unfolding discard_def by (intro any_rules unlink_queue)

lemma cancel_queued: "keeps I R (cancelQueuedJob j d s) (\<lambda>_. True)"
  unfolding cancelQueuedJob_def Let_def
  by (intro keeps_bind [OF prepare_run] any_rules write_record unlink_checked sync_checked) simp

lemma supersede_file: "keeps I R (supersede_one q d n) (\<lambda>_. True)"
  unfolding supersede_one_def by (intro any_rules ask_cancel cancel_queued)

lemma supersede: "keeps I R (supersedeCiJobs q) (\<lambda>_. True)"
  unfolding supersedeCiJobs_def by (intro any_rules ask_cancel supersede_file)

lemma materialize:
  assumes "isValidCiId (jb_job_id child)"
  shows "keeps I R (materialize_child child record held) (\<lambda>_. True)"
  unfolding materialize_child_def
  by (intro any_rules write_spool next_attempt own_name assms cancel_queued)

lemma reconcile_one:
  assumes "isValidCiId (jb_job_id child)"
  shows "keeps I R (reconcile_child parent s child) (\<lambda>_. True)"
  unfolding reconcile_child_def Let_def
  by (intro any_rules write_record materialize assms unlink_checked) simp

lemma reconcile_journal:
  assumes "list_all (\<lambda>c. isValidCiId (jb_job_id c)) (wg_children g)" "groups = groups_dir"
  shows "keeps I R (reconcile_group groups file bytes g) (\<lambda>_. True)"
proof -
  have fold: "keeps I R (foldM (reconcile_child p) s (wg_children g)) (\<lambda>_. True)" for p s
    using assms(1) by (intro keeps_fold reconcile_one) (auto simp: list_all_iff)
  show ?thesis
    unfolding reconcile_group_def reconcile_finish_def retire_journal_def Let_def
    by (intro keeps_if keeps_throw keeps_option any_return keeps_bind [OF open_run_value] keeps_bind [OF prepare_run] any_bind write_record
        fold keeps_for supersede unlink_checked sync_checked kept_reads)
       (simp_all add: write_run assms(2))
qed

lemma reconcile_parsed:
  assumes "groups = groups_dir"
  shows "keeps I R (bindM (liftE (parseWorkflowGroup bytes)) (reconcile_group groups file bytes)) (\<lambda>_. True)"
  by (rule keeps_bind [OF keeps_lift [where Q = "\<lambda>g. list_all (\<lambda>c. isValidCiId (jb_job_id c)) (wg_children g)"]])
     (auto intro: parse_group_children reconcile_journal assms)

lemma reconcile_journal_file: "groups = groups_dir \<Longrightarrow> keeps I R (reconcile_file groups file) (\<lambda>_. True)"
  unfolding reconcile_file_def by (intro keeps_if keeps_option any_return reconcile_parsed any_bind kept_reads)

lemma with_ci: "keeps I R (k [''ci'']) Q \<Longrightarrow> Q x \<Longrightarrow> keeps I R (withDirAt [] ''ci'' x k) Q"
  by (rule with_dir) simp_all

lemma reconcile: "keeps I R reconcileWorkflowGroups (\<lambda>_. True)"
  unfolding reconcileWorkflowGroups_def
  by (intro with_dir any_bind keeps_for reconcile_journal_file kept_reads) (simp_all add: groups_dir_def)

lemma enqueue: "keeps I R (enqueueCiJob q) (\<lambda>_. True)"
proof (cases "isValidCiId (jb_job_id q)")
  case True
  then show ?thesis
    unfolding enqueueCiJob_def
    by (intro root_bind ci_bind keeps_bind [OF prepare_run] any_rules ensure_ci write_spool own_name write_record supersede)
next
  case False
  then show ?thesis by (simp add: enqueueCiJob_def keeps_throw)
qed

lemma publish: "keeps I R (publish_group parent children bytes) (\<lambda>_. True)"
  unfolding publish_group_def by (intro any_rules write_group reconcile supersede)

lemma enqueue_workflow: "keeps I R (enqueueCiWorkflowJobs parent children) (\<lambda>_. True)"
  unfolding enqueueCiWorkflowJobs_def Let_def
  by (intro root_bind ci_bind any_rules ensure_ci publish reconcile)

lemma refresh: "keeps I R refreshCiWorkflowGroups (\<lambda>_. True)"
  unfolding refreshCiWorkflowGroups_def by (intro root_bind ci_bind any_rules ensure_ci reconcile)

lemma requeue_job:
  assumes "P (ini i) j"
  shows "keeps I R (atomicWriteAt spool_dir (ini i) (serializeJob (j\<lparr>jb_attempt := k\<rparr>))) (\<lambda>_. True)"
  by (intro write_spool next_attempt assms)

lemma read_held: "keeps I R (readJobAt working_dir n) (\<lambda>r. pred_option (P n) r)"
  by (rule read_job) simp

lemma requeue: "keeps I R (requeueLocked i r b k) (\<lambda>_. True)"
  unfolding requeueLocked_def Let_def
  by (intro keeps_bind [OF read_held] keeps_option any_rules give_up_run reset_run cancel_queued clear_cancel requeue_job
      unlink_checked unlink_ignored sync_checked) (use set_aside [of "ini i"] in auto)

lemma token: "keeps I R (draw_hex n) (\<lambda>_. True)"
  by (induction n) (auto intro!: any_return any_bind draw_random)

lemma lease_taken: "keeps I R (lease_claim opt n j) (\<lambda>_. True)"
  unfolding lease_claim_def generateLeaseToken_def Let_def by (intro any_rules token write_lease reconcile)

lemma check_claim: "keeps I R (claim_check opt b p now n retry) (\<lambda>_. True)"
  unfolding claim_check_def claim_job_check_def claim_turn_def by (auto simp: case_prod_beta intro!: any_rules cancel_queued)

lemma claimed_read: "keeps I R (read_claimed n) (\<lambda>_. True)"
  unfolding read_claimed_def by (intro any_rules set_aside)

lemma claim_loop: "keeps I R (claim_from opt b p now ns retry) (\<lambda>_. True)"
  by (induction ns arbitrary: retry)
     (auto simp: case_prod_beta intro!: any_rules check_claim take_job sync_checked claimed_read lease_taken)

lemma claim: "keeps I R (claimCiJob opt) (\<lambda>_. True)"
  unfolding claimCiJob_def by (intro root_bind with_ci any_rules with_dir ensure_ci reconcile claim_loop) simp_all

lemma renew: "keeps I R (renewCiLease i t s) (\<lambda>_. True)"
  unfolding renewCiLease_def by (intro root_bind with_ci any_rules with_dir ensure_ci write_lease) simp_all

lemma reap_entry: "keeps I R (reap_one opt now res n) (\<lambda>_. True)"
  unfolding reap_one_def Let_def by (intro any_rules requeue)

lemma reap: "keeps I R (reapCiLeases opt) (\<lambda>_. True)"
  unfolding reapCiLeases_def by (intro root_bind with_ci any_rules with_dir ensure_ci keeps_fold reap_entry) simp_all

lemma abandon: "keeps I R (abandonCiJob i t r) (\<lambda>_. True)"
  unfolding abandonCiJob_def by (intro root_bind with_ci any_rules with_dir ensure_ci requeue) simp_all

lemma release_claim: "keeps I R (releaseCiClaim i t) (\<lambda>_. True)"
  unfolding releaseCiClaim_def
  by (intro root_bind with_ci any_rules with_dir ensure_ci unlink_checked sync_checked reconcile) simp_all

lemma release_job: "keeps I R (releaseCiJob i) (\<lambda>_. True)"
  unfolding releaseCiJob_def
  by (intro root_bind with_ci any_rules with_dir unlink_checked)
     (simp_all add: working_dir_def leases_dir_def)

end

section \<open>Everything the queue does\<close>

datatype queue_op =
    Enqueue CiJobRequest
  | Enqueue_Workflow CiJobRequest "CiJobRequest list"
  | Refresh
  | Claim CiClaimOptions
  | Renew string string nat
  | Reap CiReapOptions
  | Abandon string string string
  | Release_Claim string string
  | Release_Job string
  | Request_Cancel string string
  | Clear_Cancel string string
  | Write_Run CiRunRecord

text \<open>The world an operation leaves, whatever it returned or threw.\<close>

fun queue_step :: "queue_op \<Rightarrow> world \<Rightarrow> world" where
  "queue_step (Enqueue job) w = snd (enqueueCiJob job w)"
| "queue_step (Enqueue_Workflow parent children) w = snd (enqueueCiWorkflowJobs parent children w)"
| "queue_step Refresh w = snd (refreshCiWorkflowGroups w)"
| "queue_step (Claim options) w = snd (claimCiJob options w)"
| "queue_step (Renew i token seconds) w = snd (renewCiLease i token seconds w)"
| "queue_step (Reap options) w = snd (reapCiLeases options w)"
| "queue_step (Abandon i token runner) w = snd (abandonCiJob i token runner w)"
| "queue_step (Release_Claim i token) w = snd (releaseCiClaim i token w)"
| "queue_step (Release_Job i) w = snd (releaseCiJob i w)"
| "queue_step (Request_Cancel project i) w = snd (requestCiCancel project i w)"
| "queue_step (Clear_Cancel project i) w = snd (clearCiCancel project i w)"
| "queue_step (Write_Run r) w = snd (writeCiRunRecord r w)"

context queue_discipline
begin

lemma step_kept: "I w \<Longrightarrow> I (queue_step op w) \<and> R w (queue_step op w)"
  by (cases op)
     (use enqueue enqueue_workflow refresh claim renew reap abandon release_claim release_job request_cancel clear_cancel
        write_record in \<open>auto simp: keeps_def\<close>)

end

end
