(* ===== verification/Ck_Ci_Queue_Safety.thy ===== *)
theory Ck_Ci_Queue_Safety
  imports Ck_Ci_Discipline
begin

text \<open>
  What the job queue guarantees. Three disciplines of \<open>Ck_Ci_Discipline\<close> are shown for the primitive actions and
  hold then for every sequence of operations under every pattern of failing system calls: the queue touches
  nothing outside \<open>ci/\<close>, it leaves no file or directory that others can read, and every job stays filed under
  its own id.
\<close>

section \<open>The queue stays in its directory\<close>

definition only_ci :: "world \<Rightarrow> world \<Rightarrow> bool" where
  "only_ci w w' \<longleftrightarrow> (\<forall>p. \<not> prefix [''ci''] p \<longrightarrow> node_at w' p = node_at w p)"

lemma ci_places:
  "prefix [''ci''] (run_names p r @ ns)" "prefix [''ci''] (spool_dir @ ns)" "prefix [''ci''] (working_dir @ ns)"
  "prefix [''ci''] (leases_dir @ ns)" "prefix [''ci''] (groups_dir @ ns)" "made_dir q \<Longrightarrow> prefix [''ci''] q"
  by (simp_all add: made_dir_def run_names_def spool_dir_def working_dir_def leases_dir_def groups_dir_def)

lemma only_ci_effects:
  "prefix [''ci''] p \<Longrightarrow> only_ci w (set_node p n w)"
  "prefix [''ci''] p \<Longrightarrow> only_ci w (remove_node p w)"
  "prefix [''ci''] p \<Longrightarrow> only_ci w (remove_tree p w)"
  "\<not> prefix s d \<Longrightarrow> \<not> prefix d s \<Longrightarrow> prefix [''ci''] s \<Longrightarrow> prefix [''ci''] d \<Longrightarrow> only_ci w (move_tree s d w)"
  "only_ci w (w\<lparr>w_drawn := k\<rparr>)"
  unfolding only_ci_def by (auto simp: node_at_move_tree dest: prefix_order.trans)

interpretation staying: discipline "\<lambda>_. True" only_ci
  by unfold_locales (auto simp: only_ci_def)

interpretation staying: queue_discipline "\<lambda>_. True" only_ci "\<lambda>_ _. True"
proof unfold_locales
  fix d n assume "d \<in> {spool_dir, working_dir, leases_dir, groups_dir}"
  then have "prefix [''ci''] (d @ [n])" by (auto simp: spool_dir_def working_dir_def leases_dir_def groups_dir_def)
  then show "keeps (\<lambda>_. True) only_ci (unlinkAt d n) (\<lambda>_. True)"
    by (intro staying.keeps_unlink conjI TrueI only_ci_effects)
next
  fix d n show "keeps (\<lambda>_. True) only_ci (readJobAt d n) (pred_option (\<lambda>_. True))"
    using reads_job [of d n] by (simp add: keeps_def reads_iff only_ci_def option.pred_True)
qed (intro staying.keeps_effects conjI TrueI only_ci_effects ci_places; assumption)+

interpretation staying: machine queue_step "only_ci w" for w
  by unfold_locales (use staying.step_kept in \<open>auto intro: staying.R_trans\<close>)



section \<open>Every job is filed under its own id\<close>

lemma parse_serialized_id:
  assumes "isValidCiId (jb_job_id j)" "parseJob (serializeJob j) = Inr j'"
  shows "jb_job_id j' = jb_job_id j"
proof -
  let ?v = "if jb_dependency_lock_sha256 j = [] then ''schema_version=5'' else ''schema_version=6''"
  let ?i = "''job_id='' @ jb_job_id j"
  obtain rest where rest: "serializeJob j = ?v @ newline # ?i @ newline # rest"
    by (simp add: serializeJob_def job_lines_def)
  have no: "newline \<notin> set ?v" "newline \<notin> set ?i"
    using plain_no(3) [OF plain_ci_id [OF assms(1)]] by auto
  have lines: "split_on newline (serializeJob j) = ?v # ?i # split_on newline rest"
    unfolding rest using split_on_append [OF no(1)] split_on_append [OF no(2), of rest] by simp
  have "butlast (?v # ?i # split_on newline rest) ! 1 = ?i" if "2 < length (?v # ?i # split_on newline rest)"
    using that by (simp add: nth_butlast)
  moreover obtain ls where ls: "frame (serializeJob j) = Inr ls" "expectField (ls ! 1) ''job_id='' = Inr (jb_job_id j')"
    using assms(2) unfolding parseJob_def Let_def by (elim result_elims) auto
  moreover from ls(2) have "ls ! 1 = ''job_id='' @ jb_job_id j'" by (simp add: expectField_Inr)
  moreover have "ls = butlast (?v # ?i # split_on newline rest)"
    using ls(1) lines by (simp add: frame_def split: if_splits)
  moreover have "2 < length (?v # ?i # split_on newline rest)" by simp
  ultimately have "''job_id='' @ jb_job_id j' = ?i" by simp
  then show ?thesis by simp
qed

definition job_filed :: "string \<Rightarrow> string \<Rightarrow> bool" where
  "job_filed n c = (endsWith n ''.ini'' \<longrightarrow> (case parseJob c of Inl _ \<Rightarrow> True | Inr j \<Rightarrow> n = ini (jb_job_id j)))"

definition filed :: "world \<Rightarrow> bool" where
  "filed w \<longleftrightarrow> (\<forall>d \<in> {spool_dir, working_dir}. \<forall>n c. file_at w (d @ [n]) = Some c \<longrightarrow> job_filed n c)"

definition own_place :: "string \<Rightarrow> CiJobRequest \<Rightarrow> bool" where
  "own_place n j \<longleftrightarrow> isValidCiId (jb_job_id j) \<and> (endsWith n ''.ini'' \<longrightarrow> n = ini (jb_job_id j))"

lemma own_place_filed: "own_place n j \<Longrightarrow> job_filed n (serializeJob j)"
  by (auto simp: own_place_def job_filed_def dest: parse_serialized_id split: sum.split)

lemma filedI:
  assumes "filed w"
    and "\<And>d n. d \<in> {spool_dir, working_dir} \<Longrightarrow> file_at w' (d @ [n]) = None \<or> file_at w' (d @ [n]) = file_at w (d @ [n])
      \<or> (\<exists>c. file_at w' (d @ [n]) = Some c \<and> job_filed n c)"
  shows "filed w'"
  using assms unfolding filed_def by (metis option.distinct(1) option.inject)


lemmas place_defs = run_names_def spool_dir_def working_dir_def leases_dir_def groups_dir_def

lemma file_at_effects:
  "file_at (set_node p (private_file c t) w) q = (if q = p then Some c else file_at w q)"
  "file_at (remove_node p w) q = (if q = p then None else file_at w q)"
  "file_at (remove_tree p w) q = (if prefix p q then None else file_at w q)"
  "\<not> prefix s d \<Longrightarrow> \<not> prefix d s \<Longrightarrow> file_at (move_tree s d w) q =
     (if prefix d q then file_at w (s @ drop (length d) q) else if prefix s q then None else file_at w q)"
  "file_at (w\<lparr>w_drawn := k\<rparr>) q = file_at w q"
  by (simp_all add: file_at_def node_at_move_tree private_file_def)

lemma file_at_new_dir: "node_at w p = None \<Longrightarrow> file_at (set_node p (private_dir t) w) q = file_at w q"
  by (simp add: file_at_def private_dir_def)

interpretation filing: discipline filed "\<lambda>_ _. True"
  by unfold_locales auto

lemma filed_effects:
  assumes "filed w"
  shows "node_at w p = None \<Longrightarrow> filed (set_node p (private_dir t) w)"
    and "filed (set_node (run_names pr r @ ns) (private_file c t) w)"
    and "filed (set_node (leases_dir @ [n]) (private_file c t) w)"
    and "filed (set_node (groups_dir @ [n]) (private_file c t) w)"
    and "filed (remove_node p w)"
    and "filed (remove_tree p w)"
    and "filed (w\<lparr>w_drawn := k\<rparr>)"
    and "job_filed n c \<Longrightarrow> filed (set_node (spool_dir @ [n]) (private_file c t) w)"
  by (rule filedI [OF assms]; auto simp: file_at_effects file_at_new_dir place_defs; fail)+

lemma rejected_name: "\<not> endsWith (n @ ''.rejected'') ''.ini''"
  by (simp add: endsWith_def ends_with_iff append_eq_append_conv2)

lemma filed_moves:
  assumes "filed w"
  shows "\<not> prefix (run_names pr r @ ns) (run_names pr r @ ms) \<Longrightarrow> \<not> prefix (run_names pr r @ ms) (run_names pr r @ ns) \<Longrightarrow>
      filed (move_tree (run_names pr r @ ns) (run_names pr r @ ms) w)"
    and "filed (move_tree (spool_dir @ [n]) (working_dir @ [n]) w)"
    and "filed (move_tree (working_dir @ [n]) (working_dir @ [n @ ''.rejected'']) w)"
proof -
  have aside: "job_filed (n @ ''.rejected'') c" for c by (simp add: job_filed_def rejected_name)
  have taken: "file_at w (spool_dir @ [n]) = Some c \<Longrightarrow> job_filed n c" for c
    using assms by (simp add: filed_def)
  show "\<not> prefix (run_names pr r @ ns) (run_names pr r @ ms) \<Longrightarrow> \<not> prefix (run_names pr r @ ms) (run_names pr r @ ns) \<Longrightarrow>
      filed (move_tree (run_names pr r @ ns) (run_names pr r @ ms) w)"
    by (rule filedI [OF assms]) (auto simp: file_at_effects place_defs)
  show "filed (move_tree (spool_dir @ [n]) (working_dir @ [n]) w)"
    by (rule filedI [OF assms]) (use taken in \<open>auto simp: file_at_effects place_defs\<close>)
  show "filed (move_tree (working_dir @ [n]) (working_dir @ [n @ ''.rejected'']) w)"
    by (rule filedI [OF assms]) (use aside in \<open>auto simp: file_at_effects place_defs\<close>)
qed

lemma read_job_file:
  "readJobAt d n w = (Inr (Some j), w') \<Longrightarrow> w' = w \<and> (\<exists>c. private_at w (d @ [n]) c \<and> parseJob c = Inr j)"
  unfolding readJobAt_def
  by (auto simp: tryM_def run_basic bindM_Inr_iff split: prod.split_asm sum.split_asm option.split_asm dest!: readCappedAt_Some)

lemma private_at_file: "private_at w p c \<Longrightarrow> file_at w p = Some c"
  by (auto simp: private_at_iff file_at_def)

interpretation filing: queue_discipline filed "\<lambda>_ _. True" own_place
proof unfold_locales
  fix d n assume d: "d \<in> {spool_dir, working_dir}"
  show "keeps filed (\<lambda>_ _. True) (readJobAt d n) (pred_option (own_place n))"
  proof (rule keepsI)
    fix w assume w: "filed w"
    have "own_place n j" if read: "fst (readJobAt d n w) = Inr (Some j)" for j
    proof -
      obtain c where c: "private_at w (d @ [n]) c" "parseJob c = Inr j"
        using read read_job_file [of d n w j "snd (readJobAt d n w)"] by (auto simp: prod_eq_iff)
      then have "job_filed n c" using w d private_at_file by (auto simp: filed_def)
      then show ?thesis using c(2) parseJob_valid_id by (auto simp: job_filed_def own_place_def)
    qed
    then show "filed (snd (readJobAt d n w)) \<and> True \<and> (\<forall>x. fst (readJobAt d n w) = Inr x \<longrightarrow> pred_option (own_place n) x)"
      using w reads_job [of d n] by (auto simp: reads_iff option.pred_set)
  qed
next
  fix n j assume "own_place n j"
  then show "keeps filed (\<lambda>_ _. True) (atomicWriteAt spool_dir n (serializeJob j)) (\<lambda>_. True)"
    by (intro filing.keeps_write) (simp add: filed_effects own_place_filed)
next
  show "isValidCiId (jb_job_id j) \<Longrightarrow> own_place (ini (jb_job_id j)) j" for j
    by (simp add: own_place_def)
  show "own_place n j \<Longrightarrow> own_place n (j\<lparr>jb_attempt := k\<rparr>)" for n j k
    by (simp add: own_place_def)
qed (intro filing.keeps_effects; simp add: filed_effects filed_moves)+

interpretation filing: machine queue_step filed
  by unfold_locales (use filing.step_kept in blast)

text \<open>
  C7: The spool and \<open>working\<close> stay well filed: after any sequence of operations, whatever system calls fail,
  every \<open>.ini\<close> file in them that reads as a job bears the name of that job, so an operation that acts on
  a job id acts on the file of that job.
\<close>

theorem queue_stays_filed:
  assumes "filed w"
  shows "filed (fold queue_step ops w)"
  by (rule filing.run_inv) (rule assms)

lemma filed_empty: "filed empty_world"
  by (simp add: filed_def file_at_def node_at_empty place_defs)

lemma queue_stays_filed_witness:
  "filed empty_world \<and> filed (fold queue_step [Enqueue sample_job, Claim default_claim_options, Clear_Cancel ''demo'' ''j-1''] empty_world)"
  using filed_empty queue_stays_filed [OF filed_empty] by blast

end
