(* ===== verification/Ck_Ci_Leases.thy ===== *)
theory Ck_Ci_Leases
  imports Ck_Ci_Queue_Safety
begin

text \<open>
  What a lease is worth: a runner whose token is not the current one can do nothing to the job, a transaction
  runs only under the exact live lease, and a job that is put back is never lost on the way.
\<close>

section \<open>A stale token\<close>

text \<open>The lease of a job, as the queue would read it, bears this token.\<close>

definition lease_token :: "world \<Rightarrow> string \<Rightarrow> string \<Rightarrow> bool" where
  "lease_token w i t =
     (case file_at w (leases_dir @ [ini i]) of None \<Rightarrow> False
      | Some c \<Rightarrow> (case parseLease c of Inl _ \<Rightarrow> False | Inr l \<Rightarrow> ls_token l = t))"

lemma read_lease_file:
  "readLeaseAt d i w = (Inr (Some l), w') \<Longrightarrow> w' = w \<and> (\<exists>c. private_at w (d @ [ini i]) c \<and> parseLease c = Inr l)"
  unfolding readLeaseAt_def
  by (auto simp: tryM_def run_basic bindM_Inr_iff split: prod.split_asm sum.split_asm option.split_asm dest!: readCappedAt_Some)

interpretation stale: discipline "\<lambda>w. \<not> lease_token w i t" adds_dirs for i t
  by unfold_locales (auto intro: adding.R_refl adding.R_trans)

lemma stale_read: "keeps (\<lambda>w. \<not> lease_token w i t) adds_dirs (readLeaseAt leases_dir i) (\<lambda>r. \<forall>l. r = Some l \<longrightarrow> ls_token l \<noteq> t)"
proof (rule keepsI)
  fix w assume w: "\<not> lease_token w i t"
  have "ls_token l \<noteq> t" if read: "fst (readLeaseAt leases_dir i w) = Inr (Some l)" for l
    using read read_lease_file [of leases_dir i w l "snd (readLeaseAt leases_dir i w)"] w private_at_file
    by (auto simp: prod_eq_iff lease_token_def)
  then show "\<not> lease_token (snd (readLeaseAt leases_dir i w)) i t \<and> adds_dirs w (snd (readLeaseAt leases_dir i w))
      \<and> (\<forall>x. fst (readLeaseAt leases_dir i w) = Inr x \<longrightarrow> (\<forall>l. x = Some l \<longrightarrow> ls_token l \<noteq> t))"
    using w reads_lease [of leases_dir i] by (auto simp: reads_iff adding.R_refl)
qed

lemma lease_token_adds: "adds_dirs w w' \<Longrightarrow> lease_token w' i t = lease_token w i t"
  by (simp add: lease_token_def adds_dirs_file)

lemma stale_ensure: "keeps (\<lambda>w. \<not> lease_token w i t) adds_dirs (ensureDirAt d n) (\<lambda>_. True)"
  using ensureDirAt_adds [of d n] lease_token_adds unfolding keeps_def by blast

lemma stale_branch:
  "keeps (\<lambda>w. \<not> lease_token w i t) adds_dirs
     (bindM (readLeaseAt leases_dir i) (\<lambda>r. case r of None \<Rightarrow> returnM False
        | Some l \<Rightarrow> if ls_token l \<noteq> t then returnM False else k l)) Not"
  by (rule stale.keeps_bind [OF stale_read]) (auto intro!: stale.keeps_option stale.keeps_return split: option.split)

lemmas stale_rules = stale.keeps_if stale.root_bind stale.with_dir stale_branch
  stale.any_bind stale_ensure stale.kept_reads stale.keeps_return

lemma stale_calls:
  "keeps (\<lambda>w. \<not> lease_token w i t) adds_dirs (renewCiLease i t s) Not"
  "keeps (\<lambda>w. \<not> lease_token w i t) adds_dirs (abandonCiJob i t r) Not"
  "keeps (\<lambda>w. \<not> lease_token w i t) adds_dirs (releaseCiClaim i t) Not"
  unfolding renewCiLease_def abandonCiJob_def releaseCiClaim_def
  by (intro stale_rules; simp)+

text \<open>
  C1: A runner whose token is not the one in the job's lease (it lost the job, or never had it) changes nothing:
  renewing, giving back and releasing never report success and at most create missing queue directories, whatever
  system calls fail.
\<close>

theorem stale_token_refused:
  assumes "\<not> lease_token w i t"
    and "m \<in> {renewCiLease i t s, abandonCiJob i t r, releaseCiClaim i t}"
  shows "fst (m w) \<noteq> Inr True \<and> adds_dirs w (snd (m w))"
proof -
  have "keeps (\<lambda>w. \<not> lease_token w i t) adds_dirs m Not" using assms(2) stale_calls by auto
  then show ?thesis using assms(1) unfolding keeps_def by blast
qed


definition sample_lease :: CiLease where
  "sample_lease = \<lparr>ls_runner = ''primary'', ls_token = replicate 32 CHR ''a'', ls_expires_epoch_seconds = 100\<rparr>"

definition leased_world :: world where
  "leased_world =
     set_node (leases_dir @ [''j-1.ini'']) (private_file (serializeLease sample_lease) 0) (
     set_node (working_dir @ [''j-1.ini'']) (private_file (serializeJob sample_job) 0) (
     set_node leases_dir (private_dir 0) (set_node working_dir (private_dir 0) (set_node spool_dir (private_dir 0) (
     set_node [''ci''] (private_dir 0) empty_world)))))"

lemma sample_lease_storable: "lease_storable sample_lease"
  by (simp add: lease_storable_def sample_lease_def isValidClientId_def isValidLeaseToken_def u64_max_def
      is_alnum_def is_lower_hex_def is_lower_def is_upper_def is_digit_def)

lemma sample_lease_parsed: "parseLease (serializeLease sample_lease) = Inr sample_lease"
  by (rule lease_roundtrip) (rule sample_lease_storable)

lemma leased_world_nodes:
  "node_at leased_world (leases_dir @ [''j-1.ini'']) = Some (private_file (serializeLease sample_lease) 0)"
  "node_at leased_world (working_dir @ [''j-1.ini'']) = Some (private_file (serializeJob sample_job) 0)"
  "dir_ok leased_world []" "dirs_ok leased_world [] [''ci'', ''spool'']" "dirs_ok leased_world [] [''ci'', ''working'']"
  "dirs_ok leased_world [] [''ci'', ''leases'']" "calm leased_world" "w_clock leased_world = 7000000000"
  by (simp_all add: leased_world_def place_defs node_at_empty empty_world_simps dir_ok_def private_dir_def private_file_def)

lemma stale_token_refused_witness:
  "fst (abandonCiJob ''j-1'' (replicate 32 CHR ''b'') ''laptop'' leased_world) \<noteq> Inr True
   \<and> adds_dirs leased_world (snd (abandonCiJob ''j-1'' (replicate 32 CHR ''b'') ''laptop'' leased_world))"
proof (rule stale_token_refused [where s = 0 and r = "''laptop''"])
  show "\<not> lease_token leased_world ''j-1'' (replicate 32 CHR ''b'')"
    using leased_world_nodes(1) sample_lease_parsed
    by (simp add: lease_token_def file_at_def private_file_def sample_lease_def numeral_eq_Suc)
qed simp

section \<open>Transactions of a live claim\<close>

definition live_claim :: "world \<Rightarrow> string \<Rightarrow> string \<Rightarrow> string \<Rightarrow> CiClaim \<Rightarrow> bool" where
  "live_claim w i runner token c \<longleftrightarrow>
     (case (file_at w (working_dir @ [ini i]), file_at w (leases_dir @ [ini i])) of
        (Some job, Some lease) \<Rightarrow> parseJob job = Inr (cl_job c) \<and> parseLease lease = Inr (cl_lease c)
      | _ \<Rightarrow> False)
     \<and> jb_job_id (cl_job c) = i \<and> ls_runner (cl_lease c) = runner \<and> ls_token (cl_lease c) = token
     \<and> w_clock w div 1000000000 mod 2 ^ 64 < ls_expires_epoch_seconds (cl_lease c)"

text \<open>The outcomes of a transaction under a claim, and how they pass through the steps before it.\<close>

definition claim_outcome :: "string \<Rightarrow> string \<Rightarrow> string \<Rightarrow> (CiClaim \<Rightarrow> unit io) \<Rightarrow> world \<Rightarrow> bool result \<times> world \<Rightarrow> bool" where
  "claim_outcome i runner token transaction w r \<longleftrightarrow>
     fst r \<noteq> Inr True \<and> snd r = w
     \<or> (\<exists>c. live_claim w i runner token c \<and> snd r = snd (transaction c w) \<and> (fst r = Inr True \<longleftrightarrow> fst (transaction c w) = Inr ()))"

lemma outcome_reads:
  assumes "reads m" "\<And>x. fst (m w) = Inr x \<Longrightarrow> claim_outcome i r t T w (f x w)"
  shows "claim_outcome i r t T w (bindM m f w)"
  using assms by (auto simp: bindM_reads claim_outcome_def split: sum.split)

lemma outcome_root: "claim_outcome i r t T w (k [] w) \<Longrightarrow> claim_outcome i r t T w (bindM openRoot k w)"
  by (rule outcome_reads [OF reads_helpers(10)]) (use openRoot_Inr in \<open>fastforce simp: prod_eq_iff\<close>)

lemma outcome_false: "claim_outcome i r t T w (returnM False w)"
  by (simp add: claim_outcome_def run_basic)

lemma outcome_dir:
  assumes "claim_outcome i r t T w (k (d @ [n]) w)"
  shows "claim_outcome i r t T w (withDirAt d n False k w)"
  unfolding withDirAt_def
proof (rule outcome_reads [OF reads_helpers(3)])
  fix x assume "fst (openDirAt d n w) = Inr x"
  then show "claim_outcome i r t T w ((case x of None \<Rightarrow> returnM False | Some p \<Rightarrow> k p) w)"
    using assms outcome_false openDirAt_Some [of d n w _ "snd (openDirAt d n w)"] by (cases x) (auto simp: prod_eq_iff)
qed

lemma read_job_value: "fst (readJobAt d n w) = Inr (Some j) \<Longrightarrow> \<exists>c. file_at w (d @ [n]) = Some c \<and> parseJob c = Inr j"
  using read_job_file [of d n w j "snd (readJobAt d n w)"] private_at_file by (auto simp: prod_eq_iff)

lemma read_lease_value: "fst (readLeaseAt d i w) = Inr (Some l) \<Longrightarrow> \<exists>c. file_at w (d @ [ini i]) = Some c \<and> parseLease c = Inr l"
  using read_lease_file [of d i w l "snd (readLeaseAt d i w)"] private_at_file by (auto simp: prod_eq_iff)

text \<open>
  C2: A transaction of a claim runs only while the very lease it names is live: either the world is unchanged and
  success is not reported, or the job is in \<open>working\<close> under its id with an unexpired lease of that runner and
  token, the transaction is the only thing that acts on the world, and success is reported when it returns.
\<close>

theorem live_claim_only:
  assumes "withLiveCiClaim i runner token transaction w = (res, w')"
  shows "res \<noteq> Inr True \<and> w' = w
    \<or> (\<exists>c. live_claim w i runner token c \<and> w' = snd (transaction c w) \<and> (res = Inr True \<longleftrightarrow> fst (transaction c w) = Inr ()))"
proof -
  have "claim_outcome i runner token transaction w (withLiveCiClaim i runner token transaction w)"
    unfolding withLiveCiClaim_def
  proof (split if_split, intro conjI impI outcome_false outcome_root outcome_dir outcome_reads [OF reads_helpers(6)]
      outcome_reads [OF reads_job] outcome_reads [OF reads_lease] outcome_reads [OF reads_helpers(8)])
    fix job lease now
    assume "fst (readJobAt (([] @ [''ci'']) @ [''working'']) (ini i) w) = Inr job"
      "fst (readLeaseAt (([] @ [''ci'']) @ [''leases'']) i w) = Inr lease" "fst (currentEpoch w) = Inr now"
    note found = this
    let ?run = "\<lambda>j l. thenM (transaction \<lparr>cl_job = j, cl_lease = l\<rparr>) (returnM True)"
    show "claim_outcome i runner token transaction w ((case (job, lease) of (None, b) \<Rightarrow> returnM False
        | (Some j, None) \<Rightarrow> returnM False
        | (Some j, Some l) \<Rightarrow> if jb_job_id j \<noteq> i \<or> ls_runner l \<noteq> runner \<or> ls_token l \<noteq> token \<or> ls_expires_epoch_seconds l \<le> now
            then returnM False else ?run j l) w)"
    proof (cases "\<exists>j l. job = Some j \<and> lease = Some l \<and> \<not> (jb_job_id j \<noteq> i \<or> ls_runner l \<noteq> runner \<or> ls_token l \<noteq> token
        \<or> ls_expires_epoch_seconds l \<le> now)")
      case True
      then obtain j l where jl: "job = Some j" "lease = Some l" "jb_job_id j = i" "ls_runner l = runner" "ls_token l = token"
        "now < ls_expires_epoch_seconds l" by auto
      then have "live_claim w i runner token \<lparr>cl_job = j, cl_lease = l\<rparr>"
        using found read_job_value [of working_dir "ini i" w j] read_lease_value [of leases_dir i w l]
        by (auto simp: live_claim_def working_dir_def leases_dir_def currentEpoch_def run_basic)
      moreover have "fst (?run j l w) = Inr True \<longleftrightarrow> fst (transaction \<lparr>cl_job = j, cl_lease = l\<rparr> w) = Inr ()"
        "snd (?run j l w) = snd (transaction \<lparr>cl_job = j, cl_lease = l\<rparr> w)"
        by (auto simp: bindM_def run_basic split: prod.split sum.split)
      ultimately show ?thesis using jl unfolding claim_outcome_def by auto
    next
      case False
      then show ?thesis using outcome_false by (auto split: option.split)
    qed
  qed
  then show ?thesis using assms by (simp add: claim_outcome_def)
qed


lemma withDirAt_run: "calm w \<Longrightarrow> dir_ok w (d @ [n]) \<Longrightarrow> withDirAt d n x k w = k (d @ [n]) w"
  by (simp add: withDirAt_def bindM_Inr [OF openDirAt_run])

lemma lockExclusive_run: "calm w \<Longrightarrow> lockExclusive d w = (Inr (), w)"
  by (simp add: lockExclusive_def bindM_askM calm_def run_basic)

lemma readJobAt_run:
  "calm w \<Longrightarrow> private_at w (d @ [n]) c \<Longrightarrow> length c \<le> kMaximumCiRunRecordBytes \<Longrightarrow> parseJob c = Inr j \<Longrightarrow>
   readJobAt d n w = (Inr (Some j), w)"
  by (simp add: readJobAt_def tryM_def readCappedAt_run bindM_def run_basic)

lemma readLeaseAt_run:
  "calm w \<Longrightarrow> private_at w (d @ [ini i]) c \<Longrightarrow> length c \<le> 4096 \<Longrightarrow> parseLease c = Inr l \<Longrightarrow>
   readLeaseAt d i w = (Inr (Some l), w)"
  by (simp add: readLeaseAt_def tryM_def readCappedAt_run bindM_def run_basic)

lemma lease_record_bound:
  assumes "lease_storable l"
  shows "length (serializeLease l) \<le> 4096"
proof -
  have "length (ls_runner l) \<le> 64" "length (ls_token l) = 32" "length (to_dec (ls_expires_epoch_seconds l)) \<le> 20"
    using assms isValidClientId_bounds length_to_dec_u64 by (auto simp: lease_storable_def isValidLeaseToken_def)
  then show ?thesis by (simp add: serializeLease_def lease_lines_def)
qed

lemma sample_sizes: "length (serializeJob sample_job) \<le> kMaximumCiRunRecordBytes" "length (serializeLease sample_lease) \<le> 4096"
  using job_lines_bound [OF sample_job_storable] lease_record_bound [OF sample_lease_storable]
  by (simp_all add: kMaximumCiRunRecordBytes_def)

lemma live_claim_only_witness:
  "withLiveCiClaim ''j-1'' ''primary'' (replicate 32 CHR ''a'') (\<lambda>_. returnM ()) leased_world = (Inr True, leased_world)
   \<and> (\<exists>c. live_claim leased_world ''j-1'' ''primary'' (replicate 32 CHR ''a'') c)"
proof -
  let ?r = "withLiveCiClaim ''j-1'' ''primary'' (replicate 32 CHR ''a'') (\<lambda>_. returnM ()) leased_world"
  have ids: "isValidCiId ''j-1''" "isValidClientId ''primary''" "isValidLeaseToken (replicate 32 CHR ''a'')"
    by code_simp+
  have files: "private_at leased_world (working_dir @ [''j-1.ini'']) (serializeJob sample_job)"
    "private_at leased_world (leases_dir @ [''j-1.ini'']) (serializeLease sample_lease)"
    using leased_world_nodes(1,2) by (simp_all add: private_at_iff private_file_def)
  have reads: "readJobAt [''ci'', ''working''] ''j-1.ini'' leased_world = (Inr (Some sample_job), leased_world)"
    "readLeaseAt [''ci'', ''leases''] ''j-1'' leased_world = (Inr (Some sample_lease), leased_world)"
    using files leased_world_nodes(7) sample_sizes sample_lease_parsed job_roundtrip [OF sample_job_storable]
    by (auto intro!: readJobAt_run readLeaseAt_run simp: working_dir_def leases_dir_def)
  have "?r = (Inr True, leased_world)"
    using leased_world_nodes ids
    by (simp add: withLiveCiClaim_def bindM_def openRoot_run withDirAt_run lockExclusive_run reads currentEpoch_def run_basic)
      (simp add: sample_job_def sample_lease_def run_basic)
  then show ?thesis using live_claim_only [of "''j-1''" "''primary''" "replicate 32 CHR ''a''" "\<lambda>_. returnM ()" leased_world] by blast
qed


section \<open>Putting a job back loses nothing\<close>

lemma discard_run: "discard d n w = (Inr (), snd (unlinkAt d n w))"
  by (simp add: discard_def unlinkAt_def bindM_def callM_def run_basic prod.case_eq_if)

lemma unlinkAt_elsewhere: "q \<noteq> d @ [n] \<Longrightarrow> file_at (snd (unlinkAt d n w)) q = file_at w q"
  by (simp add: unlinkAt_def callM_def prod.case_eq_if sys_unlink_def file_at_effects split: option.split)

lemma never_throws:
  "fst (clearCiCancel p r w) = Inr ()" "fst (resetRunForRequeue j k d w) = Inr ()" "fst (give_up j r w) = Inr ()"
  by (auto simp: clearCiCancel_def resetRunForRequeue_def give_up_def tryM_def run_basic split: prod.split sum.split)

interpretation holding: discipline "\<lambda>w. file_at w (working_dir @ [n]) = Some c" "\<lambda>_ _. True" for n c
  by unfold_locales auto

interpretation holding: run_discipline "\<lambda>w. file_at w (working_dir @ [n]) = Some c" "\<lambda>_ _. True" for n c
  by unfold_locales (intro holding.keeps_effects; simp add: file_at_effects file_at_new_dir; auto simp: place_defs)+

lemma hold_spool_write: "keeps (\<lambda>w. file_at w (working_dir @ [n]) = Some c) (\<lambda>_ _. True) (atomicWriteAt spool_dir m x) (\<lambda>_. True)"
  by (intro holding.keeps_effects) (auto simp: file_at_effects place_defs)

lemma hold_cancel: "keeps (\<lambda>w. file_at w (working_dir @ [n]) = Some c) (\<lambda>_ _. True) (cancelQueuedJob j d s) (\<lambda>_. True)"
proof -
  have "keeps (\<lambda>w. file_at w (working_dir @ [n]) = Some c) (\<lambda>_ _. True) (unlinkAt spool_dir m) (\<lambda>_. True)" for m
    by (intro holding.keeps_effects) (auto simp: file_at_effects place_defs)
  then show ?thesis
    unfolding cancelQueuedJob_def Let_def unlink_or_fail_def
    by (intro holding.keeps_bind [OF holding.prepare_run] holding.any_rules holding.write_record holding.sync_checked) simp_all
qed

text \<open>Where a job that was in \<open>working\<close> is after an attempt to put it back.\<close>

definition job_kept :: "string \<Rightarrow> string \<Rightarrow> CiJobRequest \<Rightarrow> RequeueOutcome result \<times> world \<Rightarrow> bool" where
  "job_kept i c j r \<longleftrightarrow>
     (case fst r of
        Inl _ \<Rightarrow> file_at (snd r) (working_dir @ [ini i]) = Some c
      | Inr kRequeued \<Rightarrow> file_at (snd r) (spool_dir @ [ini i]) = Some (serializeJob (j\<lparr>jb_attempt := jb_attempt j + 1\<rparr>))
      | Inr kGone \<Rightarrow> file_at (snd r) (working_dir @ [ini i]) = Some c
          \<or> file_at (snd r) (working_dir @ [ini i @ ''.rejected'']) = Some c
      | Inr _ \<Rightarrow> True)"

lemma kept_bind:
  assumes "keeps (\<lambda>w. file_at w (working_dir @ [ini i]) = Some c) (\<lambda>_ _. True) m (\<lambda>_. True)"
    and "file_at w (working_dir @ [ini i]) = Some c"
    and "\<And>x w'. m w = (Inr x, w') \<Longrightarrow> file_at w' (working_dir @ [ini i]) = Some c \<Longrightarrow> job_kept i c j (f x w')"
  shows "job_kept i c j (bindM m f w)"
proof -
  obtain r w' where m: "m w = (r, w')" by fastforce
  have "file_at w' (working_dir @ [ini i]) = Some c" using keepsD [OF assms(1,2) m] by simp
  then show ?thesis using m assms(3) by (cases r) (auto simp: bindM_def job_kept_def)
qed

lemma bind_run: "bindM m f w = (case fst (m w) of Inl e \<Rightarrow> (Inl e, snd (m w)) | Inr x \<Rightarrow> f x (snd (m w)))"
  by (simp add: bindM_def prod.case_eq_if)

lemma callM_run: "callM f w = (Inr (fst (f w)), snd (f w))"
  by (simp add: callM_def prod.case_eq_if)

lemma dirs_apart: "working_dir \<noteq> leases_dir" "spool_dir \<noteq> leases_dir" "spool_dir \<noteq> working_dir"
  by (simp_all add: place_defs)

lemma kept_aside:
  assumes "file_at w (working_dir @ [ini i]) = Some c"
  shows "job_kept i c j (thenM (callM (sys_rename (working_dir @ [ini i]) (working_dir @ [ini i @ ''.rejected''])))
    (thenM (discard leases_dir (ini i)) (returnM kGone)) w)"
proof -
  let ?w = "snd (sys_rename (working_dir @ [ini i]) (working_dir @ [ini i @ ''.rejected'']) w)"
  have "file_at ?w (working_dir @ [ini i]) = Some c \<or> file_at ?w (working_dir @ [ini i @ ''.rejected'']) = Some c"
    using assms by (auto simp: sys_rename_def file_at_effects split: option.split)
  then show ?thesis
    by (auto simp: dirs_apart job_kept_def bind_run callM_run discard_run run_basic unlinkAt_elsewhere)
qed

lemma kept_spooled:
  "job_kept i c j (thenM (atomicWriteAt spool_dir (ini i) (serializeJob (j\<lparr>jb_attempt := jb_attempt j + 1\<rparr>))) (
     thenM (discard working_dir (ini i)) (thenM (discard leases_dir (ini i)) (
     thenM (fsyncAt working_dir) (returnM kRequeued)))) w)" if "file_at w (working_dir @ [ini i]) = Some c"
proof (rule kept_bind [OF hold_spool_write that])
  fix x :: unit and w'
  let ?s = "serializeJob (j\<lparr>jb_attempt := jb_attempt j + 1\<rparr>)"
  assume "atomicWriteAt spool_dir (ini i) ?s w = (Inr x, w')"
  then have "file_at w' (spool_dir @ [ini i]) = Some ?s" using atomicWriteAt_Inr by (fastforce simp: file_at_effects)
  then show "job_kept i c j (thenM (discard working_dir (ini i)) (thenM (discard leases_dir (ini i)) (
     thenM (fsyncAt working_dir) (returnM kRequeued))) w')"
    by (simp add: dirs_apart job_kept_def bind_run discard_run run_basic unlinkAt_elsewhere fsyncAt_def)
qed

lemma kept_cancelled:
  "file_at w (working_dir @ [ini i]) = Some c \<Longrightarrow>
   job_kept i c j (thenM (cancelQueuedJob j' d s) (thenM (discard working_dir (ini i)) (thenM (discard leases_dir (ini i)) (
     thenM (fsyncAt working_dir) (thenM (clearCiCancel p r) (returnM kCancelled))))) w)"
  by (rule kept_bind [OF hold_cancel]) (simp_all add: job_kept_def bind_run discard_run run_basic fsyncAt_def never_throws)

lemma kept_given_up:
  "job_kept i c j (thenM (give_up j r) (thenM (discard working_dir (ini i)) (thenM (discard leases_dir (ini i)) (
     thenM (fsyncAt working_dir) (returnM kFailed)))) w)"
  by (simp add: job_kept_def bind_run discard_run run_basic fsyncAt_def never_throws)

lemma requeue_outcome:
  assumes "file_at w (working_dir @ [ini i]) = Some c" "parseJob c = Inr j" "jb_parent_run_id j = []"
  shows "job_kept i c j (requeueLocked i runner enforce_limit max_attempts w)"
proof -
  let ?next = "j\<lparr>jb_attempt := jb_attempt j + 1\<rparr>"
  have found: "j' = j" if "readJobAt working_dir (ini i) w = (Inr (Some j'), w')" for j' w'
    using read_job_file [OF that] private_at_file assms(1,2) by fastforce
  show ?thesis
    unfolding requeueLocked_def Let_def
  proof (rule kept_bind [OF holding.of_reads [OF reads_job] assms(1)], goal_cases)
    case (1 x w1)
    show ?case
    proof (cases x)
      case None
      then show ?thesis using kept_aside [OF 1(2)] by simp
    next
      case (Some job)
      then have "job = j" using found 1(1) by simp
      show ?thesis
        unfolding Some \<open>job = j\<close>
      proof (simp only: option.case assms(3) simp_thms if_True if_False run_bind, rule kept_bind [OF holding.of_reads [OF reads_cancel] 1(2)], goal_cases)
        case (1 cancelled w2)
        then show ?case
          by (cases cancelled; cases "enforce_limit \<and> max_attempts \<le> jb_attempt j")
            (simp only: if_True if_False simp_thms;
             intro kept_cancelled kept_given_up kept_bind [OF holding.reset_run] kept_spooled; assumption)+
      qed
    qed
  qed
qed


lemma leased_world_job: "file_at leased_world (working_dir @ [''j-1.ini'']) = Some (serializeJob sample_job)"
  using leased_world_nodes(2) by (simp add: file_at_def private_file_def)


text \<open>The attempt of a job that is put back is not held below the bound the reader of its record enforces.\<close>

lemma parse_past_limit:
  assumes "job_storable j" "1000 < a" "a \<le> u64_max"
  shows "parseJob (serializeJob (j\<lparr>jb_attempt := a\<rparr>)) \<noteq> Inr j'"
proof
  let ?j = "j\<lparr>jb_attempt := a\<rparr>"
  assume p: "parseJob (serializeJob ?j) = Inr j'"
  have lines: "job_lines ?j = (job_lines j)[7 := ''attempt='' @ to_dec a]"
    by (simp add: job_lines_def numeral_eq_Suc)
  have "newline \<notin> set (''attempt='' @ to_dec a)" using to_dec_no by auto
  then have "\<forall>l \<in> set (job_lines ?j). newline \<notin> set l"
    using job_lines_no_newline [OF assms(1)] unfolding lines by (auto dest!: set_update_subset_insert [THEN subsetD])
  then have "frame (serializeJob ?j) = Inr (job_lines ?j)"
    unfolding serializeJob_def by (intro frame_unlines) (auto simp: job_lines_def)
  moreover have "\<exists>v. job_version (job_lines ?j) = Some v \<and> v \<ge> 2"
    by (simp add: job_version_def job_lines_def)
  ultimately obtain k where "parse_attempt (job_lines ?j ! 7) ''a CI job record has an invalid attempt'' = Inr k"
    using p unfolding parseJob_def Let_def by (elim result_elims) auto
  moreover have "job_lines ?j ! 7 = ''attempt='' @ to_dec a" by (simp add: job_lines_def)
  ultimately show False using assms(2,3)
    by (auto simp: parse_attempt_def bindE_eq_Inr expectField_Inr parseEpoch_to_dec split: if_splits)
qed

text \<open>
  C40: Giving a job back counts its attempts without a limit, but a job record is read only up to attempt 1000: a
  job at that attempt that is reported requeued is in the spool as a record no claim can read, so the next claim
  sets it aside and the run stays pending for ever.
\<close>

theorem requeue_past_limit:
  assumes "requeueLocked i runner enforce_limit max_attempts w = (Inr kRequeued, w')"
    and "file_at w (working_dir @ [ini i]) = Some c" "parseJob c = Inr j" "jb_parent_run_id j = []" "jb_attempt j = 1000"
  shows "\<exists>s. file_at w' (spool_dir @ [ini i]) = Some s \<and> ok_of (parseJob s) = None"
proof -
  have "job_kept i c j (Inr kRequeued, w')"
    using requeue_outcome [OF assms(2-4), of runner enforce_limit max_attempts] assms(1) by simp
  moreover have "parseJob (serializeJob (j\<lparr>jb_attempt := 1001\<rparr>)) \<noteq> Inr j'" for j'
    using parse_past_limit [OF parseJob_storable [OF assms(3)]] by (simp add: u64_max_def)
  then have "ok_of (parseJob (serializeJob (j\<lparr>jb_attempt := 1001\<rparr>))) = None"
    by (cases "parseJob (serializeJob (j\<lparr>jb_attempt := 1001\<rparr>))") (auto simp: ok_of_def)
  ultimately show ?thesis using assms(5) by (simp add: job_kept_def)
qed


interpretation idle: discipline "\<lambda>w. calm w \<and> node_at w (spool_dir @ [n]) = None" "\<lambda>_ _. True" for n
  by unfold_locales auto

interpretation idle: run_discipline "\<lambda>w. calm w \<and> node_at w (spool_dir @ [n]) = None" "\<lambda>_ _. True" for n
  by unfold_locales (intro idle.keeps_effects; auto simp: node_at_move_tree place_defs made_dir_def)+

lemma requeue_run:
  assumes calm: "calm w" and job: "private_at w (working_dir @ [ini i]) (serializeJob j)" "job_storable j" "jb_parent_run_id j = []"
    and uncancelled: "isCiCancelRequested (jb_project_name j) (jb_job_id j) w = (Inr False, w)"
    and free: "node_at w (spool_dir @ [ini i]) = None"
  shows "fst (requeueLocked i runner False k w) = Inr kRequeued"
proof -
  let ?j = "j\<lparr>jb_attempt := jb_attempt j + 1\<rparr>"
  have read: "readJobAt working_dir (ini i) w = (Inr (Some j), w)"
    using job_lines_bound [OF job(2)] readJobAt_run [OF calm job(1) _ job_roundtrip [OF job(2)]]
    by (simp add: kMaximumCiRunRecordBytes_def)
  have reset: "calm (snd (resetRunForRequeue ?j k' d w)) \<and> node_at (snd (resetRunForRequeue ?j k' d w)) (spool_dir @ [ini i]) = None" for k' d
    using idle.reset_run [of "ini i" ?j k' d] calm free by (simp add: keeps_def)
  have "fst (atomicWriteAt spool_dir (ini i) c (snd (resetRunForRequeue ?j k' d w))) = Inr ()" for k' d c
    using reset [of k' d] by (simp add: atomicWriteAt_run rename_allowed_def)
  then show ?thesis
    using read uncancelled job(3)
    by (simp add: requeueLocked_def Let_def bind_run discard_run run_basic fsyncAt_def never_throws)
qed

definition tired_job :: CiJobRequest where
  "tired_job = sample_job\<lparr>jb_attempt := 1000\<rparr>"

definition tired_world :: world where
  "tired_world = set_node (working_dir @ [''j-1.ini'']) (private_file (serializeJob tired_job) 0) leased_world"

lemma requeue_past_limit_witness:
  "\<exists>s. file_at (snd (requeueLocked ''j-1'' ''primary'' False 0 tired_world)) (spool_dir @ [''j-1.ini'']) = Some s \<and> ok_of (parseJob s) = None"
proof -
  have job: "job_storable tired_job" "jb_parent_run_id tired_job = []" "jb_attempt tired_job = 1000"
    "jb_project_name tired_job = ''demo''" "jb_job_id tired_job = ''j-1''"
    using sample_job_storable by (simp_all add: tired_job_def sample_job_def job_storable_def job_fields_valid_def validDependencies_def)
  have nodes: "calm tired_world" "node_at tired_world (spool_dir @ [''j-1.ini'']) = None"
    "node_at tired_world (working_dir @ [''j-1.ini'']) = Some (private_file (serializeJob tired_job) 0)"
    "dir_ok tired_world []" "dir_ok tired_world [''ci'']" "node_at tired_world [''ci'', ''runs''] = None"
    using leased_world_nodes by (simp_all add: tired_world_def leased_world_def place_defs node_at_empty dir_ok_def private_dir_def)
  have "isCiCancelRequested ''demo'' ''j-1'' tired_world = (Inr False, tired_world)"
    using nodes
    by (simp add: isCiCancelRequested_def openRunDir_def run_names_def tryM_def bind_run openRoot_run openDirAt_run openDirAt_missing run_basic)
  then have "fst (requeueLocked ''j-1'' ''primary'' False 0 tired_world) = Inr kRequeued"
    using requeue_run [of tired_world "''j-1''" tired_job "''primary''" 0] nodes job by (simp add: private_at_iff private_file_def)
  moreover have "file_at tired_world (working_dir @ [''j-1.ini'']) = Some (serializeJob tired_job)"
    using nodes(3) by (simp add: file_at_def private_file_def)
  ultimately show ?thesis
    using requeue_past_limit [of "''j-1''" "''primary''" False 0 tired_world "snd (requeueLocked ''j-1'' ''primary'' False 0 tired_world)"
        "serializeJob tired_job" tired_job] job job_roundtrip [OF job(1)]
    by (simp add: prod_eq_iff)
qed

end
