(* ===== verification/Ck_Ci_Claims.thy ===== *)
theory Ck_Ci_Claims
  imports Ck_Ci_Leases
begin

text \<open>
  What a claim grants: only an eligible job of the spool is claimed, in the order of the job ids, and the claim
  that is returned is live. Then the status of a distributed workflow as the reconciler computes it from its
  children.
\<close>

section \<open>Worlds in order\<close>

definition orderly :: "world \<Rightarrow> bool" where
  "orderly w \<longleftrightarrow> calm w \<and> filed w"

definition same_clock :: "world \<Rightarrow> world \<Rightarrow> bool" where
  "same_clock w w' \<longleftrightarrow> w_clock w' = w_clock w"

lemma keeps_conj:
  "keeps I R m Q \<Longrightarrow> keeps I' R' m Q' \<Longrightarrow> keeps (\<lambda>w. I w \<and> I' w) (\<lambda>w w'. R w w' \<and> R' w w') m (\<lambda>x. Q x \<and> Q' x)"
  unfolding keeps_def by blast

interpretation calmly: discipline calm same_clock
  by unfold_locales (simp_all add: same_clock_def)

interpretation calmly: queue_discipline calm same_clock "\<lambda>_ _. True"
proof unfold_locales
  fix d n show "keeps calm same_clock (readJobAt d n) (pred_option (\<lambda>_. True))"
    using reads_job [of d n] by (simp add: keeps_def reads_iff same_clock_def option.pred_True)
qed (intro calmly.keeps_effects TrueI; simp add: same_clock_def)+

interpretation orderly: discipline orderly same_clock
  by unfold_locales (simp_all add: same_clock_def)

lemma orderly_keeps: "keeps calm same_clock m (\<lambda>_. True) \<Longrightarrow> keeps filed (\<lambda>_ _. True) m Q \<Longrightarrow> keeps orderly same_clock m Q"
  unfolding keeps_def orderly_def by blast

interpretation orderly: queue_discipline orderly same_clock own_place
proof unfold_locales
  fix d n assume "d \<in> {spool_dir, working_dir}"
  then show "keeps orderly same_clock (readJobAt d n) (pred_option (own_place n))"
    by (intro orderly_keeps [OF calmly.of_reads [OF reads_job]] filing.read_job)
next
  show "isValidCiId (jb_job_id j) \<Longrightarrow> own_place (ini (jb_job_id j)) j" for j by (rule filing.own_name)
  show "own_place n j \<Longrightarrow> own_place n (j\<lparr>jb_attempt := k\<rparr>)" for n j k by (rule filing.next_attempt)
qed (intro orderly_keeps calmly.mkdir calmly.write_run calmly.unlink_run calmly.move_run calmly.remove_run calmly.write_lease
    calmly.write_group calmly.write_spool calmly.unlink_queue calmly.take_job calmly.set_aside calmly.draw_random TrueI
    filing.mkdir filing.write_run filing.unlink_run filing.move_run filing.remove_run filing.write_lease
    filing.write_group filing.write_spool filing.unlink_queue filing.take_job filing.set_aside filing.draw_random; assumption)+

section \<open>Eligible jobs\<close>

definition succeeded :: "CiJobRequest \<Rightarrow> world \<Rightarrow> string \<Rightarrow> bool" where
  "succeeded j w d =
     (case fst (loadCiRun (jb_project_name j) d w) of
        Inr (Some r) \<Rightarrow> rr_status r = Success \<and> rr_parent_run_id r = jb_parent_run_id j
          \<and> rr_commit_id r = jb_commit_id j \<and> rr_ref r = jb_ref j
      | _ \<Rightarrow> False)"

definition eligible :: "CiClaimOptions \<Rightarrow> CiJobRequest \<Rightarrow> world \<Rightarrow> bool" where
  "eligible options j w \<longleftrightarrow>
     jb_dependency_lock_sha256 j = [] \<and> list_all (succeeded j w) (jb_needs j)
     \<and> ciRunnerMatches (co_runner options) (co_labels options) (jb_runs_on j)
     \<and> (jb_parent_run_id j \<noteq> [] \<longrightarrow> co_protocol_version options \<ge> 2
          \<and> fst (isCiCancelRequested (jb_project_name j) (jb_job_id j) w) = Inr False)"

lemma dependency_state_ready:
  "fst (dependency_state j ds a b w) = Inr (False, False) \<Longrightarrow> \<not> a \<and> \<not> b \<and> list_all (succeeded j w) ds"
proof (induction ds arbitrary: a b)
  case (Cons d ds)
  have r: "reads (loadCiRun (jb_project_name j) d)" by (intro reads_intro)
  show ?case
    using Cons.prems Cons.IH
    by (auto simp: bindM_reads [OF r] succeeded_def run_basic split: sum.split_asm option.split_asm if_split_asm)
qed (simp add: run_basic)


lemma reads_InrE: "bindM m f w = (Inr y, w') \<Longrightarrow> reads m \<Longrightarrow> (\<And>x. fst (m w) = Inr x \<Longrightarrow> f x w = (Inr y, w') \<Longrightarrow> P) \<Longrightarrow> P"
  by (auto simp: bindM_reads split: sum.split_asm)

lemma claim_turn_True:
  assumes "claim_turn options busy pending now name retry j w = (Inr (True, r), w')"
  shows "w' = w \<and> list_all (succeeded j w) (jb_needs j) \<and> ciRunnerMatches (co_runner options) (co_labels options) (jb_runs_on j)
    \<and> (jb_parent_run_id j \<noteq> [] \<longrightarrow> co_protocol_version options \<ge> 2)"
proof -
  from assms obtain d where d: "fst (dependency_state j (jb_needs j) False False w) = Inr d"
    unfolding claim_turn_def by (elim reads_InrE) (auto intro: reads_dependencies)
  with assms have "d = (False, False) \<and> w' = w \<and> ciRunnerMatches (co_runner options) (co_labels options) (jb_runs_on j)
      \<and> (jb_parent_run_id j \<noteq> [] \<longrightarrow> co_protocol_version options \<ge> 2)"
    unfolding claim_turn_def
    by (auto simp: bindM_reads [OF reads_dependencies] bindM_Inr_iff bindM_askM run_basic split: prod.split_asm if_split_asm option.split_asm)
  then show ?thesis using d dependency_state_ready [of j "jb_needs j" False False w] by auto
qed

lemma claim_job_check_True:
  assumes "claim_job_check options busy pending now name retry j w = (Inr (True, r), w')"
  shows "w' = w \<and> eligible options j w"
proof -
  from assms obtain cancelled where c: "fst ((if jb_parent_run_id j \<noteq> [] \<or> jb_dependency_lock_sha256 j \<noteq> []
        then isCiCancelRequested (jb_project_name j) (jb_job_id j) else returnM False) w) = Inr cancelled"
    and rest: "\<not> cancelled" "jb_dependency_lock_sha256 j = []" "claim_turn options busy pending now name retry j w = (Inr (True, r), w')"
    unfolding claim_job_check_def
    by (elim reads_InrE) (auto intro!: reads_intro simp: bindM_Inr_iff run_basic split: if_split_asm)
  show ?thesis using c rest(1,2) claim_turn_True [OF rest(3)] by (auto simp: eligible_def split: if_split_asm)
qed

lemma claim_check_True:
  assumes "claim_check options busy pending now name retry w = (Inr (True, r), w')"
  shows "w' = w \<and> (\<forall>j. fst (readJobAt spool_dir name w) = Inr (Some j) \<longrightarrow> eligible options j w)"
proof -
  from assms obtain x where x: "fst (readJobAt spool_dir name w) = Inr x"
    "(case x of None \<Rightarrow> returnM (True, retry) | Some j \<Rightarrow> claim_job_check options busy pending now name retry j) w = (Inr (True, r), w')"
    unfolding claim_check_def by (elim reads_InrE) (intro reads_job)
  then show ?thesis using claim_job_check_True by (cases x) (auto simp: run_basic)
qed

text \<open>
  How a claim comes about: the job was readable in the spool and eligible in the world it was taken in; it was
  moved to \<open>working\<close> and leased there.
\<close>

definition taken :: "string \<Rightarrow> world \<Rightarrow> world" where
  "taken name = move_tree (spool_dir @ [name]) (working_dir @ [name])"

lemma read_claimed_Some:
  assumes "read_claimed name (taken name w) = (Inr (Some job), w')" "calm w"
  shows "w' = taken name w \<and> fst (readJobAt spool_dir name w) = Inr (Some job)"
proof -
  have "node_at (taken name w) (working_dir @ [name]) = node_at w (spool_dir @ [name])"
    by (simp add: taken_def node_at_move_tree place_defs)
  then have same: "private_at (taken name w) (working_dir @ [name]) c \<longleftrightarrow> private_at w (spool_dir @ [name]) c" for c
    by (simp add: private_at_def)
  let ?read = "readCappedAt working_dir name kMaximumCiRunRecordBytes (taken name w)"
  have run: "?read = (fst ?read, taken name w)" by (intro reads_run reads_intro)
  from assms(1) obtain c where c': "fst ?read = Inr (Some c)" "parseJob c = Inr job" "w' = snd ?read"
    unfolding read_claimed_def
    by (auto simp: tryM_def callM_run bind_run bindM_Inr_iff run_basic split: prod.split_asm sum.split_asm option.split_asm)
  with run have c: "?read = (Inr (Some c), taken name w)" "parseJob c = Inr job" "w' = taken name w" by (metis snd_conv)+
  then show ?thesis
    using readCappedAt_Some [OF c(1)] same readJobAt_run [OF assms(2) _ _ c(2), of spool_dir name] by simp
qed

lemma lease_claim_job: "lease_claim options name job w = (Inr claim, w') \<Longrightarrow> cl_job claim = job"
  by (auto simp: lease_claim_def Let_def bindM_Inr_iff run_basic)

lemma taken_OK: "fst (sys_rename (spool_dir @ [name]) (working_dir @ [name]) w) = OK \<Longrightarrow>
    snd (sys_rename (spool_dir @ [name]) (working_dir @ [name]) w) = taken name w"
  by (auto simp: sys_rename_def taken_def split: option.split_asm if_split_asm)

lemma orderly_runs: "keeps orderly same_clock m Q \<Longrightarrow> orderly w \<Longrightarrow> m w = (x, w') \<Longrightarrow> orderly w' \<and> same_clock w w'"
  by (auto dest: keepsD)

definition granted :: "CiClaimOptions \<Rightarrow> string list \<Rightarrow> world \<Rightarrow> CiClaim \<Rightarrow> world \<Rightarrow> bool" where
  "granted options names w claim w' \<longleftrightarrow>
     (\<exists>name w1. name \<in> set names \<and> orderly w1 \<and> same_clock w w1 \<and> fst (readJobAt spool_dir name w1) = Inr (Some (cl_job claim))
       \<and> eligible options (cl_job claim) w1 \<and> lease_claim options name (cl_job claim) (taken name w1) = (Inr claim, w'))"

lemma granted_later:
  "granted options names w1 claim w' \<Longrightarrow> same_clock w w1 \<Longrightarrow> set names \<subseteq> set names' \<Longrightarrow> granted options names' w claim w'"
  unfolding granted_def by (blast intro: calmly.R_trans)

lemma claim_from_Some:
  "claim_from options busy pending now names retry w = (Inr (Some claim, r), w') \<Longrightarrow> orderly w \<Longrightarrow> granted options names w claim w'"
proof (induction names arbitrary: retry w)
  case (Cons name names)
  let ?next = "\<lambda>r1. claim_from options busy pending now names r1"
  have later: "granted options (name # names) w claim w'" if "?next r1 w1 = (Inr (Some claim, r), w')" "orderly w1 \<and> same_clock w w1" for r1 w1
    using Cons.IH [OF that(1)] that(2) by (auto intro: granted_later)
  from Cons.prems(1) obtain tk r1 w1 where check: "claim_check options busy pending now name retry w = (Inr (tk, r1), w1)"
    and rest: "(if \<not> tk then ?next r1 else bindM (callM (sys_rename (spool_dir @ [name]) (working_dir @ [name]))) (\<lambda>e.
        if e = ENOENT then ?next r1 else if e \<noteq> OK then failM ''could not claim a CI job''
        else thenM (fsync_or_fail working_dir ''could not commit a CI claim'') (
          bindM (read_claimed name) (\<lambda>j. case j of None \<Rightarrow> ?next r1
            | Some job \<Rightarrow> bindM (lease_claim options name job) (\<lambda>claim. returnM (Some claim, r1)))))) w1 = (Inr (Some claim, r), w')"
    by (auto simp: bindM_Inr_iff)
  note w1 = orderly_runs [OF orderly.check_claim Cons.prems(2) check]
  show ?case
  proof (cases tk)
    case False
    then show ?thesis using rest w1 by (intro later) simp_all
  next
    case True
    let ?e = "sys_rename (spool_dir @ [name]) (working_dir @ [name]) w"
    have same: "w1 = w" and ok: "\<And>j. fst (readJobAt spool_dir name w) = Inr (Some j) \<Longrightarrow> eligible options j w"
      using claim_check_True [of options busy pending now name retry w r1 w1] check True by simp_all
    have w2: "orderly (snd ?e) \<and> same_clock w (snd ?e)"
      using orderly.take_job [of name] Cons.prems(2) by (simp add: keeps_callM)
    show ?thesis
    proof (cases "fst ?e = ENOENT")
      case True
      then show ?thesis using rest \<open>tk\<close> same w2 by (intro later [of r1 "snd ?e"]) (simp_all add: bind_run callM_run)
    next
      case False
      then obtain w3 j w4 where f: "fst ?e = OK" "fsync_or_fail working_dir ''could not commit a CI claim'' (snd ?e) = (Inr (), w3)"
        "read_claimed name w3 = (Inr j, w4)"
        "(case j of None \<Rightarrow> ?next r1 | Some job \<Rightarrow> bindM (lease_claim options name job) (\<lambda>claim. returnM (Some claim, r1))) w4
           = (Inr (Some claim, r), w')"
        using rest \<open>tk\<close> same by (auto simp: bind_run [of "callM _"] callM_run bindM_Inr_iff run_basic split: if_split_asm)
      have w3: "w3 = taken name w"
        using f(2) taken_OK [OF f(1)] by (auto simp: fsync_or_fail_def fsyncAt_def bindM_askM run_basic split: if_split_asm)
      have "orderly w3 \<and> same_clock w w3" using w2 w3 taken_OK [OF f(1)] by simp
      then have w4: "orderly w4 \<and> same_clock w w4"
        using orderly_runs [OF orderly.claimed_read _ f(3)] by (auto intro: calmly.R_trans)
      show ?thesis
      proof (cases j)
        case None
        then show ?thesis using f(4) w4 by (intro later [of r1 w4]) simp_all
      next
        case (Some job)
        then have l: "lease_claim options name job w4 = (Inr claim, w')" using f(4) by (auto simp: bindM_Inr_iff run_basic)
        have "w4 = taken name w \<and> fst (readJobAt spool_dir name w) = Inr (Some job)"
          using read_claimed_Some [of name w job w4] f(3) Some w3 Cons.prems(2) by (simp add: orderly_def)
        then show ?thesis
          unfolding granted_def using l ok lease_claim_job [OF l] Cons.prems(2) calmly.R_refl by (intro exI [of _ name] exI [of _ w]) auto
      qed
    qed
  qed
qed (simp add: run_basic)


section \<open>The claim operation\<close>

definition claim_grants :: "CiClaimOptions \<Rightarrow> world \<Rightarrow> (CiClaim option \<times> int option) result \<times> world \<Rightarrow> bool" where
  "claim_grants options w r \<longleftrightarrow>
     (\<forall>claim retry. fst r = Inr (Some claim, retry) \<longrightarrow>
        (\<exists>names. (\<forall>n \<in> set names. endsWith n ''.ini'') \<and> granted options names w claim (snd r)))"

lemma grants_bind:
  assumes "keeps orderly same_clock m Q" "orderly w1" "same_clock w w1"
    and "\<And>x w2. Q x \<Longrightarrow> orderly w2 \<Longrightarrow> same_clock w w2 \<Longrightarrow> claim_grants options w (f x w2)"
  shows "claim_grants options w (bindM m f w1)"
proof -
  obtain r w2 where m: "m w1 = (r, w2)" by fastforce
  show ?thesis
  proof (cases r)
    case (Inl e)
    then show ?thesis using m by (simp add: bindM_def claim_grants_def)
  next
    case (Inr x)
    then have "claim_grants options w (f x w2)"
      using keepsD [OF assms(1,2) m] assms(3,4) by (auto intro: calmly.R_trans)
    then show ?thesis using m Inr by (simp add: bindM_def)
  qed
qed

lemma grants_nothing: "claim_grants options w (returnM (None, r) w1)"
  by (simp add: claim_grants_def run_basic)

lemma grants_root:
  assumes "orderly w1" "same_clock w w1" "\<And>w2. orderly w2 \<Longrightarrow> same_clock w w2 \<Longrightarrow> claim_grants options w (k [] w2)"
  shows "claim_grants options w (bindM openRoot k w1)"
  by (rule grants_bind [OF orderly.open_root_value assms(1,2)]) (simp add: assms(3))

lemma grants_dir:
  assumes "orderly w1" "same_clock w w1"
    and "\<And>w2. orderly w2 \<Longrightarrow> same_clock w w2 \<Longrightarrow> claim_grants options w (k (d @ [n]) w2)"
  shows "claim_grants options w (withDirAt d n (None, None) k w1)"
  unfolding withDirAt_def
proof (rule grants_bind [OF orderly.open_dir_value assms(1,2)])
  fix x w2 assume "\<forall>p. x = Some p \<longrightarrow> p = d @ [n]" "orderly w2" "same_clock w w2"
  then show "claim_grants options w ((case x of None \<Rightarrow> returnM (None, None) | Some p \<Rightarrow> k p) w2)"
    using assms(3) grants_nothing by (cases x) auto
qed

lemma spool_names_value: "keeps orderly same_clock spool_names (\<lambda>ns. \<forall>n \<in> set ns. endsWith n ''.ini'')"
  unfolding spool_names_def
  by (rule orderly.keeps_bind [OF orderly.of_reads [OF reads_helpers(5)]]) (rule orderly.keeps_return, auto)

lemma claim_loop_grants:
  assumes "orderly w1" "same_clock w w1" "\<forall>n \<in> set names. endsWith n ''.ini''"
  shows "claim_grants options w (claim_from options busy pending now names retry w1)"
  unfolding claim_grants_def
proof (intro allI impI)
  fix claim r assume "fst (claim_from options busy pending now names retry w1) = Inr (Some claim, r)"
  then have "granted options names w1 claim (snd (claim_from options busy pending now names retry w1))"
    by (intro claim_from_Some assms(1)) (simp add: prod_eq_iff)
  then show "\<exists>names'. (\<forall>n \<in> set names'. endsWith n ''.ini'') \<and>
      granted options names' w claim (snd (claim_from options busy pending now names retry w1))"
    using granted_later [of options names w1] assms(2,3) by blast
qed

lemma claim_grants_claim:
  assumes "orderly w"
  shows "claim_grants options w (claimCiJob options w)"
proof (cases "\<not> isValidClientId (co_runner options) \<or> co_lease_seconds options = 0")
  case True
  then show ?thesis by (simp add: claimCiJob_def claim_grants_def run_basic)
next
  case False
  have ensure: "keeps orderly same_clock (ensureDirAt ([] @ [''ci'']) n) (\<lambda>_. True)" for n
    by (simp add: orderly.ensure_ci)
  have reading: "keeps orderly same_clock (if b then m else k) (\<lambda>_. True)" if "reads m" "reads k" for b and m k :: "ref_groups io"
    using that by (simp add: orderly.of_reads)
  show ?thesis
    unfolding claimCiJob_def if_not_P [OF False]
    by (intro grants_root grants_dir grants_bind [OF ensure] grants_bind [OF orderly.of_reads [OF reads_helpers(6)]]
        grants_bind [OF orderly.reconcile] grants_bind [OF spool_names_value] grants_bind [OF orderly.of_reads [OF reads_basic(3)]]
        grants_bind [OF reading [OF reads_selection(1) reads_basic(1)]] grants_bind [OF reading [OF reads_selection(2) reads_basic(1)]]
        claim_loop_grants assms calmly.R_refl)
qed


lemma token_drawn: "draw_hex n w = (Inr t, w') \<Longrightarrow> length t = n \<and> list_all is_lower_hex t \<and> (\<exists>k. w' = w\<lparr>w_drawn := k\<rparr>)"
proof (induction n arbitrary: t w)
  case (Suc n)
  let ?d = "w_random w (w_drawn w) mod 16"
  have "set hex_digits \<subseteq> {c. is_lower_hex c}" "length hex_digits = 16" by code_simp+
  then have "is_lower_hex (hex_digits ! ?d)" by (metis mem_Collect_eq mod_less_divisor nth_mem subsetD zero_less_numeral)
  moreover obtain t' where "draw_hex n (w\<lparr>w_drawn := Suc (w_drawn w)\<rparr>) = (Inr t', w')" "t = hex_digits ! ?d # t'"
    using Suc.prems by (auto simp: bindM_Inr_iff callM_def draw_def run_basic)
  ultimately show ?case using Suc.IH by fastforce
qed (simp add: run_basic, metis world.surjective world.update_convs(5))

lemma parent_free_lease:
  assumes "lease_claim options name job w = (Inr claim, w')" "jb_parent_run_id job = []"
  shows "isValidLeaseToken (ls_token (cl_lease claim)) \<and> ls_runner (cl_lease claim) = co_runner options
    \<and> ls_expires_epoch_seconds (cl_lease claim) = (w_clock w div 1000000000 mod 2 ^ 64 + co_lease_seconds options) mod 2 ^ 64
    \<and> (\<exists>k. w' = set_node (leases_dir @ [name]) (private_file (serializeLease (cl_lease claim)) (w_clock w)) (w\<lparr>w_drawn := k\<rparr>))"
proof -
  from assms obtain t w1 where t: "draw_hex 32 w = (Inr t, w1)"
    and rest: "thenM (atomicWriteAt leases_dir name (serializeLease (cl_lease claim))) (returnM claim) w1 = (Inr claim, w')"
      "cl_lease claim = \<lparr>ls_runner = co_runner options, ls_token = t,
         ls_expires_epoch_seconds = (w_clock w1 div 1000000000 mod 2 ^ 64 + co_lease_seconds options) mod 2 ^ 64\<rparr>"
    unfolding lease_claim_def generateLeaseToken_def Let_def currentEpoch_def
    by (auto simp: bindM_Inr_iff bindM_askM run_basic)
  from token_drawn [OF t] obtain k where k: "w1 = w\<lparr>w_drawn := k\<rparr>" "isValidLeaseToken t"
    by (auto simp: isValidLeaseToken_def list_all_iff)
  with rest show ?thesis by (auto simp: bindM_Inr_iff run_basic dest!: atomicWriteAt_Inr)
qed




section \<open>A claim, step by step\<close>

definition spool_world :: world where
  "spool_world =
     set_node (spool_dir @ [''j-1.ini'']) (private_file (serializeJob sample_job) 0) (
     set_node leases_dir (private_dir 0) (set_node working_dir (private_dir 0) (set_node spool_dir (private_dir 0) (
     set_node [''ci''] (private_dir 0) empty_world))))"

definition sample_options :: CiClaimOptions where
  "sample_options = default_claim_options\<lparr>co_one_per_ref := False\<rparr>"

lemma spool_world_nodes:
  "node_at spool_world (spool_dir @ [''j-1.ini'']) = Some (private_file (serializeJob sample_job) 0)"
  "node_at spool_world (working_dir @ [''j-1.ini'']) = None" "node_at spool_world (leases_dir @ [''j-1.ini'']) = None"
  "dir_ok spool_world []" "dir_ok spool_world [''ci'']" "dir_ok spool_world spool_dir" "dir_ok spool_world working_dir"
  "dir_ok spool_world leases_dir" "node_at spool_world groups_dir = None" "calm spool_world" "w_clock spool_world = 7000000000"
  by (simp_all add: spool_world_def place_defs node_at_empty dir_ok_def private_dir_def private_file_def)

lemma spool_world_names: "names_in spool_world spool_dir = [''j-1.ini'']"
  by (simp add: names_in_def spool_world_def set_node_def empty_world_def place_defs)

lemma spool_world_orderly: "orderly spool_world"
proof -
  have "file_at spool_world (d @ [n]) = (if d = spool_dir \<and> n = ''j-1.ini'' then Some (serializeJob sample_job) else None)"
    if "d \<in> {spool_dir, working_dir}" for d n
    using that by (auto simp: spool_world_def file_at_def place_defs node_at_empty private_dir_def private_file_def)
  moreover have "job_filed ''j-1.ini'' (serializeJob sample_job)"
    using job_roundtrip [OF sample_job_storable] by (simp add: job_filed_def sample_job_def)
  ultimately show ?thesis by (auto simp: orderly_def filed_def spool_world_nodes split: if_split_asm)
qed

lemma ensureDirAt_there: "calm w \<Longrightarrow> dir_ok w (d @ [n]) \<Longrightarrow> ensureDirAt d n w = (Inr (d @ [n]), w)"
  by (auto simp: ensureDirAt_def bindM_def callM_def askM_def sys_mkdir_def sys_open_dir_def calm_def dir_ok_iff verifyPrivate_def
      checkM_def run_basic)

lemma sample_claim_taken:
  "\<exists>claim r w'. claimCiJob sample_options spool_world = (Inr (Some claim, r), w') \<and> jb_parent_run_id (cl_job claim) = []"
proof -
  let ?w = spool_world
  let ?t = "taken ''j-1.ini'' spool_world"
  have dirs: "dir_ok ?w [''ci'', ''spool'']" "dir_ok ?w [''ci'', ''working'']" "dir_ok ?w [''ci'', ''leases'']"
    "node_at ?w [''ci'', ''groups''] = None"
    using spool_world_nodes by (simp_all add: place_defs)
  have job: "readJobAt spool_dir ''j-1.ini'' ?w = (Inr (Some sample_job), ?w)"
    using spool_world_nodes(1,10) job_roundtrip [OF sample_job_storable] sample_sizes(1)
    by (intro readJobAt_run) (auto simp: private_at_iff private_file_def)
  have check: "claim_check sample_options b p t ''j-1.ini'' None ?w = (Inr (True, None), ?w)" for b p t
    by (simp add: claim_check_def claim_job_check_def claim_turn_def bind_run job run_basic)
      (simp add: sample_job_def sample_options_def default_claim_options_def kCiPrimaryRunnerName_def ciRunnerMatches_def bind_run run_basic age_wait_def)
  have rename: "sys_rename (spool_dir @ [''j-1.ini'']) (working_dir @ [''j-1.ini'']) ?w = (OK, ?t)"
    using spool_world_nodes(1,2,10) by (simp add: sys_rename_def rename_allowed_def calm_def taken_def place_defs)
  have calm: "calm ?t" using spool_world_nodes(10) by (simp add: taken_def)
  have "private_at ?t (working_dir @ [''j-1.ini'']) (serializeJob sample_job)"
    using spool_world_nodes(1) by (simp add: private_at_iff taken_def node_at_move_tree place_defs private_file_def)
  then have claimed: "read_claimed ''j-1.ini'' ?t = (Inr (Some sample_job), ?t)"
    using calm sample_sizes(1) job_roundtrip [OF sample_job_storable]
    by (simp add: read_claimed_def tryM_def bindM_def readCappedAt_run run_basic)
  have drawn: "\<exists>t k. draw_hex n w = (Inr t, w\<lparr>w_drawn := k\<rparr>)" for n w
  proof (induction n arbitrary: w)
    case (Suc n)
    show ?case using Suc.IH [of "w\<lparr>w_drawn := Suc (w_drawn w)\<rparr>"] by (auto simp: bindM_def callM_def draw_def run_basic)
  qed (simp add: run_basic, metis world.surjective world.update_convs(5))
  have "node_at ?t (leases_dir @ [''j-1.ini'']) = None"
    using spool_world_nodes(3) by (simp add: taken_def node_at_move_tree place_defs)
  then have lease: "\<exists>claim w'. lease_claim sample_options ''j-1.ini'' sample_job ?t = (Inr claim, w')"
    using drawn [of 32 ?t] calm
    by (auto simp: lease_claim_def generateLeaseToken_def Let_def bindM_def currentEpoch_def run_basic atomicWriteAt_run rename_allowed_def)
      (simp_all add: sample_job_def run_basic)
  then obtain claim w' where l: "lease_claim sample_options ''j-1.ini'' sample_job ?t = (Inr claim, w')" by blast
  have sync: "fsync_or_fail working_dir m ?t = (Inr (), ?t)" for m
    using calm by (simp add: fsync_or_fail_def fsyncAt_def bind_run run_basic sys_sync_def calm_def)
  have "claim_from sample_options b p t [''j-1.ini''] None ?w = (Inr (Some claim, None), w')" for b p t
    by (simp add: bind_run check callM_run rename sync claimed l run_basic)
  moreover have "spool_names ?w = (Inr [''j-1.ini''], ?w)"
    using spool_world_nodes(10) by (simp add: spool_names_def listNames_def bind_run run_basic calm_def spool_world_names endsWith_def ends_with_iff)
  moreover have "isValidClientId (co_runner sample_options)" "co_lease_seconds sample_options \<noteq> 0" "\<not> co_one_per_ref sample_options"
    using sample_lease_storable
    by (simp_all add: sample_options_def default_claim_options_def kCiPrimaryRunnerName_def kCiDefaultLeaseSeconds_def
        lease_storable_def sample_lease_def)
  moreover have "reconcileWorkflowGroups ?w = (Inr (), ?w)"
    using dirs(4) spool_world_nodes(10) by (simp add: reconcileWorkflowGroups_def withDirAt_def bind_run openDirAt_missing run_basic)
  ultimately have "claimCiJob sample_options ?w = (Inr (Some claim, None), w')"
    using dirs spool_world_nodes
    by (simp add: claimCiJob_def bind_run openRoot_run withDirAt_run ensureDirAt_there lockExclusive_run run_basic del: claim_from.simps)
  moreover have "jb_parent_run_id (cl_job claim) = []"
    using lease_claim_job [OF l] by (simp add: sample_job_def)
  ultimately show ?thesis by blast
qed





text \<open>
  A job whose spool copy cannot be read at the check (also when only that one read fails) goes on to be claimed
  without any of the tests above.
\<close>

lemma unreadable_unchecked:
  "fst (readJobAt spool_dir name w) = Inr None \<Longrightarrow> claim_check options busy pending now name retry w = (Inr (True, retry), w)"
  using reads_run [OF reads_job, of spool_dir name w] by (simp add: claim_check_def bind_run run_basic)

section \<open>The status of a distributed workflow\<close>

text \<open>The status a workflow should have, from the status of each job and whether a runner holds it.\<close>

definition worst :: "CiRunStatus list \<Rightarrow> CiRunStatus" where
  "worst ss = (if Error \<in> set ss then Error else if Timeout \<in> set ss then Timeout else if Failure \<in> set ss then Failure
     else if Cancelled \<in> set ss then Cancelled else if Skipped \<in> set ss then Skipped else Success)"

definition workflow_status :: "(CiRunStatus \<times> bool) list \<Rightarrow> CiRunStatus" where
  "workflow_status jobs =
     (if list_all (\<lambda>j. \<not> ciRunStatusIsActive (fst j)) jobs then worst (map fst jobs)
      else if list_ex (\<lambda>(s, held). held \<or> s \<noteq> Pending) jobs then Running else Pending)"

definition observe :: "reconcile_state \<Rightarrow> CiRunRecord \<times> bool \<Rightarrow> reconcile_state" where
  "observe s c = summarize s (fst c) (snd c)"

lemma worst_snoc: "worst (ss @ [s]) = (if status_priority s > status_priority (worst ss) then s else worst ss)"
  by (cases s) (auto simp: worst_def)

lemma observed:
  "rs_done (foldl observe (reconcile_start parent) cs) = length (filter (\<lambda>c. \<not> ciRunStatusIsActive (rr_status (fst c))) cs)
   \<and> (rs_running (foldl observe (reconcile_start parent) cs) \<longleftrightarrow> (\<exists>c \<in> set cs. snd c \<or> rr_status (fst c) = Running))
   \<and> rs_terminal (foldl observe (reconcile_start parent) cs) = worst (map (rr_status \<circ> fst) cs)"
proof (induction cs rule: rev_induct)
  case Nil
  then show ?case by (simp add: reconcile_start_def worst_def)
next
  case (snoc c cs)
  have "status_priority s = 0" if "ciRunStatusIsActive s" for s
    using that by (cases s) (auto simp: ciRunStatusIsActive_def)
  then show ?case using snoc by (auto simp: observe_def summarize_def Let_def worst_snoc)
qed

lemma parent_status:
  "rr_status (parent_summary (foldl observe (reconcile_start parent) cs) (length cs) now)
     = workflow_status (map (\<lambda>c. (rr_status (fst c), snd c)) cs)"
proof -
  have all: "length (filter P cs) = length cs \<longleftrightarrow> list_all P cs" for P :: "CiRunRecord \<times> bool \<Rightarrow> bool"
    by (metis Ball_set filter_id_conv length_filter_less less_irrefl)
  have some: "filter P cs \<noteq> [] \<longleftrightarrow> (\<exists>c \<in> set cs. P c)" for P :: "CiRunRecord \<times> bool \<Rightarrow> bool"
    by (auto simp: filter_empty_conv)
  have ended: "\<not> ciRunStatusIsActive s \<longleftrightarrow> s \<noteq> Pending \<and> s \<noteq> Running" for s
    by (cases s) (auto simp: ciRunStatusIsActive_def)
  show ?thesis
    using observed [of parent cs]
    by (auto simp: parent_summary_def Let_def workflow_status_def all list_all_iff list_ex_iff some ended comp_def)
qed


lemma if_runE: "(if b then m else k) w = (Inr y, w') \<Longrightarrow> (b \<Longrightarrow> m w = (Inr y, w') \<Longrightarrow> P) \<Longrightarrow> (\<not> b \<Longrightarrow> k w = (Inr y, w') \<Longrightarrow> P) \<Longrightarrow> P"
  by (cases b) simp_all

lemma option_runE: "(case x of None \<Rightarrow> m | Some a \<Rightarrow> f a) w = (Inr y, w') \<Longrightarrow> (x = None \<Longrightarrow> m w = (Inr y, w') \<Longrightarrow> P) \<Longrightarrow>
    (\<And>a. x = Some a \<Longrightarrow> f a w = (Inr y, w') \<Longrightarrow> P) \<Longrightarrow> P"
  by (cases x) simp_all

lemma fail_runE: "throwM e w = (Inr y, w') \<Longrightarrow> P"
  by (simp add: run_basic)

lemma observe_identity:
  "rr_run_id (rs_summary (foldl observe s cs)) = rr_run_id (rs_summary s)"
  "rr_project_name (rs_summary (foldl observe s cs)) = rr_project_name (rs_summary s)"
  by (induction cs arbitrary: s) (simp_all add: observe_def summarize_def Let_def)

lemma reconcile_child_observes:
  "reconcile_child parent s child w = (Inr s', w') \<Longrightarrow> \<exists>c. s' = observe s c"
  unfolding reconcile_child_def observe_def
  by (auto simp: bindM_Inr_iff Let_def run_basic split: if_split_asm option.split_asm)

lemma reconcile_children_observe:
  "foldM (reconcile_child parent) s children w = (Inr s', w') \<Longrightarrow> \<exists>cs. length cs = length children \<and> s' = foldl observe s cs"
proof (induction children arbitrary: s w)
  case (Cons child children)
  then obtain s1 w1 where "reconcile_child parent s child w = (Inr s1, w1)" "foldM (reconcile_child parent) s1 children w1 = (Inr s', w')"
    by (auto simp: bindM_Inr_iff)
  then obtain c cs where "s1 = observe s c" "length cs = length children" "s' = foldl observe s1 cs"
    using Cons.IH reconcile_child_observes by blast
  then show ?case by (intro exI [of _ "c # cs"]) simp
qed (simp add: run_basic)




section \<open>A finished workflow\<close>

lemma ensurePath_there: "calm w \<Longrightarrow> dirs_ok w d ns \<Longrightarrow> ensurePath d ns w = (Inr (d @ ns), w)"
  by (induction ns arbitrary: d) (simp_all add: run_basic bind_run ensureDirAt_there)

lemma writeCiRunRecord_replaces:
  assumes "calm w" "dir_ok w []" "dirs_ok w [] (run_names (rr_project_name r) (rr_run_id r))" "run_storable r"
    and "serializeRun r = Inr content" "length content \<le> kMaximumCiRunRecordBytes"
    and "node_at w (run_names (rr_project_name r) (rr_run_id r) @ [''run.ini'']) = Some (private_file old t)"
  shows "writeCiRunRecord r w =
    (Inr (), set_node (run_names (rr_project_name r) (rr_run_id r) @ [''run.ini'']) (private_file content (w_clock w)) w)"
proof -
  have "rename_allowed (private_file content (w_clock w)) (run_names (rr_project_name r) (rr_run_id r) @ [''run.ini'']) w"
    using assms(7) by (simp add: rename_allowed_def private_file_def)
  from atomicWriteAt_run [OF assms(1) this] show ?thesis
    using assms(1-6) ensurePath_there [OF assms(1,3)]
    by (simp add: writeCiRunRecord_def run_storable_def bind_run openRoot_run run_basic)
qed

definition lone_parent :: CiJobRequest where
  "lone_parent = sample_job\<lparr>jb_job_id := ''p-1'', jb_ref := ''refs/tags/v1''\<rparr>"

definition lone_child :: CiJobRequest where
  "lone_child = sample_child ''c-1'' ''build'' [] \<lparr>jb_ref := ''refs/tags/v1''\<rparr>"

definition built :: CiRunRecord where
  "built = (queuedRecord lone_child)\<lparr>rr_status := Success, rr_finished_epoch_seconds := 9\<rparr>"

definition finished_world :: world where
  "finished_world = (let pending = unlines (run_lines (queuedRecord lone_parent) None); done = unlines (run_lines built None);
       p = run_names ''demo'' ''p-1''; c = run_names ''demo'' ''c-1'' in
     set_node (p @ [''run.ini'']) (private_file pending 0) (set_node (p @ [''workflow.ini'']) (private_file ''x'' 0) (
     set_node (c @ [''run.ini'']) (private_file done 0) (
     set_node (p @ [''steps'']) (private_dir 0) (set_node p (private_dir 0) (set_node c (private_dir 0) (
     set_node [''ci'', ''runs'', ''demo''] (private_dir 0) (set_node [''ci'', ''runs''] (private_dir 0) (
     set_node groups_dir (private_dir 0) (set_node working_dir (private_dir 0) (set_node spool_dir (private_dir 0) (
     set_node [''ci''] (private_dir 0) empty_world))))))))))))"

lemma finished_world_nodes:
  "calm finished_world" "dir_ok finished_world []" "dirs_ok finished_world [] (run_names ''demo'' ''p-1'')"
  "dirs_ok finished_world [] (run_names ''demo'' ''p-1'' @ [''steps''])" "dirs_ok finished_world [] (run_names ''demo'' ''c-1'')"
  "private_at finished_world (run_names ''demo'' ''p-1'' @ [''workflow.ini'']) ''x''"
  "node_at finished_world (run_names ''demo'' ''p-1'' @ [''run.ini'']) = Some (private_file (unlines (run_lines (queuedRecord lone_parent) None)) 0)"
  "private_at finished_world (run_names ''demo'' ''c-1'' @ [''run.ini'']) (unlines (run_lines built None))"
  "node_at finished_world (working_dir @ [n]) = None" "node_at finished_world (spool_dir @ [n]) = None"
  "node_at finished_world (groups_dir @ [n]) = None" "w_clock finished_world = 7000000000"
  by (simp_all add: finished_world_def Let_def place_defs node_at_empty dir_ok_def private_dir_def private_file_def private_at_def)

lemma lone_storable: "run_storable (queuedRecord lone_parent)" "run_storable built"
proof -
  have "isValidCiId ''p-1''" "isValidCiId ''c-1''" "isValidCiArtifactName ''build''" by code_simp+
  then show "run_storable (queuedRecord lone_parent)" "run_storable built"
    using sample_run_storable
    by (simp_all add: run_storable_def queuedRecord_def built_def lone_parent_def lone_child_def sample_child_def sample_job_def
        sample_run_def validJobMembership_def u64_max_def)
qed

lemma lone_contents:
  "serializeRun built = Inr (unlines (run_lines built None))"
  "length (unlines (run_lines built None)) \<le> kMaximumCiRunRecordBytes"
  "length (unlines (run_lines (queuedRecord lone_parent) None)) \<le> kMaximumCiRunRecordBytes"
proof -
  show "serializeRun built = Inr (unlines (run_lines built None))"
    by (simp add: serializeRun_def built_def queuedRecord_def)
  have "length (to_dec 0) = 1" "length (to_dec 9) = 1" "length (to_dec 1) = 1" "length (to_dec 2) = 1" by code_simp+
  then show "length (unlines (run_lines built None)) \<le> kMaximumCiRunRecordBytes"
    "length (unlines (run_lines (queuedRecord lone_parent) None)) \<le> kMaximumCiRunRecordBytes"
    by (simp_all add: run_lines_def built_def queuedRecord_def lone_parent_def lone_child_def sample_child_def sample_job_def
        unlines_def kMaximumCiRunRecordBytes_def)
qed


definition lone_summary :: CiRunRecord where
  "lone_summary = (queuedRecord lone_parent)\<lparr>rr_status := Success, rr_finished_epoch_seconds := 9, rr_detail := ''1/1 jobs completed''\<rparr>"

lemma lone_summary_written:
  "\<exists>w'. writeCiRunRecord lone_summary finished_world = (Inr (), w')
     \<and> (\<forall>n. node_at w' (groups_dir @ [n]) = None) \<and> calm w'"
proof -
  have "serializeRun lone_summary = Inr (unlines (run_lines lone_summary None))"
    by (simp add: serializeRun_def lone_summary_def queuedRecord_def)
  moreover have "length (to_dec 0) = 1" "length (to_dec 9) = 1" "length (to_dec 1) = 1" "length (to_dec 2) = 1" by code_simp+
  then have "length (unlines (run_lines lone_summary None)) \<le> kMaximumCiRunRecordBytes"
    by (simp add: run_lines_def lone_summary_def queuedRecord_def lone_parent_def sample_job_def unlines_def kMaximumCiRunRecordBytes_def)
  moreover have "run_storable lone_summary"
    using lone_storable(1) by (simp add: run_storable_def lone_summary_def u64_max_def kMaximumCiDetailBytes_def)
  ultimately have "writeCiRunRecord lone_summary finished_world = (Inr (),
      set_node (run_names ''demo'' ''p-1'' @ [''run.ini'']) (private_file (unlines (run_lines lone_summary None)) 7000000000) finished_world)"
    using writeCiRunRecord_replaces [of finished_world lone_summary "unlines (run_lines lone_summary None)"
        "unlines (run_lines (queuedRecord lone_parent) None)" 0] finished_world_nodes
    by (simp add: lone_summary_def queuedRecord_def lone_parent_def sample_job_def)
  then show ?thesis using finished_world_nodes(1,11) by (simp add: place_defs)
qed

lemma finished_world_runs:
  "\<exists>a. loadCiRun ''demo'' ''c-1'' finished_world = (Inr (Some (built\<lparr>rr_artifacts := a\<rparr>)), finished_world)"
  "\<exists>r. loadCiRun ''demo'' ''p-1'' finished_world = (Inr (Some r), finished_world)"
proof -
  have ids: "isValidProjectName ''demo''" "isValidCiId ''c-1''" "isValidCiId ''p-1''" by code_simp+
  have parsed: "parseRun (unlines (run_lines built None)) = Inr built"
    "parseRun (unlines (run_lines (queuedRecord lone_parent) None)) = Inr (queuedRecord lone_parent)"
    by (intro run_roundtrip_lines lone_storable; simp add: built_def queuedRecord_def)+
  show "\<exists>a. loadCiRun ''demo'' ''c-1'' finished_world = (Inr (Some (built\<lparr>rr_artifacts := a\<rparr>)), finished_world)"
    by (rule loadCiRun_stored [OF finished_world_nodes(1,2) ids(1,2) finished_world_nodes(5,8) lone_contents(2) parsed(1)])
  have "private_at finished_world (run_names ''demo'' ''p-1'' @ [''run.ini'']) (unlines (run_lines (queuedRecord lone_parent) None))"
    using finished_world_nodes(7) by (simp add: private_at_def private_file_def)
  from loadCiRun_stored [OF finished_world_nodes(1,2) ids(1,3) finished_world_nodes(3) this lone_contents(3) parsed(2)]
  show "\<exists>r. loadCiRun ''demo'' ''p-1'' finished_world = (Inr (Some r), finished_world)" by blast
qed

lemma lone_child_reconciled:
  "\<exists>a. reconcile_child lone_parent (reconcile_start lone_parent) lone_child finished_world
     = (Inr (observe (reconcile_start lone_parent) (built\<lparr>rr_artifacts := a\<rparr>, False)), finished_world)"
proof -
  obtain a where run: "loadCiRun ''demo'' ''c-1'' finished_world = (Inr (Some (built\<lparr>rr_artifacts := a\<rparr>)), finished_world)"
    using finished_world_runs(1) by blast
  have held: "readJobAt working_dir n finished_world = (Inr None, finished_world)" for n
    using finished_world_nodes(1,9) by (simp add: readJobAt_def tryM_def bind_run readCappedAt_missing run_basic)
  have gone: "unlinkAt spool_dir n finished_world = (Inr ENOENT, finished_world)" for n
    using finished_world_nodes(10) by (simp add: unlinkAt_def callM_def sys_unlink_def)
  have child: "jb_project_name lone_child = ''demo''" "jb_job_id lone_child = ''c-1''"
    by (simp_all add: lone_child_def sample_child_def sample_job_def)
  have same: "rr_parent_run_id built = jb_job_id lone_parent" "rr_workflow_job built = jb_workflow_job lone_child"
    "rr_commit_id built = jb_commit_id lone_child" "rr_ref built = jb_ref lone_child" "rr_status built = Success"
    by (simp_all add: built_def queuedRecord_def lone_parent_def lone_child_def sample_child_def sample_job_def)
  show ?thesis
    using same by (intro exI [of _ a]) (simp add: reconcile_child_def bind_run child run held materialize_child_def
        ciRunStatusIsActive_def unlink_or_fail_def gone observe_def run_basic)
qed


end
