(* ===== verification/Ck_Ci_Retention.thy ===== *)
theory Ck_Ci_Retention
  imports Ck_Ci_Claims
begin

text \<open>
  The retention sweep of \<open>src/common/ci_store.cpp\<close> (\<open>sweepCiArtifacts\<close>): it prunes the run directories beyond a
  number of pushes, drops staging that is never committed, removes bundles without a sidecar, and expires and
  evicts artifacts. What it must never do is remove a run that is still active, and what its budgets promise is
  that the artifacts left fit in them or are protected.
\<close>

section \<open>The state of a sweep\<close>

record CiArtifactSweepOptions =
  so_now_epoch_seconds :: nat
  so_max_total_bytes :: nat
  so_max_project_bytes :: nat
  so_runs_keep :: nat
  so_keep_latest :: bool

record sweep_entry =
  se_dir :: path
  se_project :: string
  se_run_id :: string
  se_name :: string
  se_bytes :: nat
  se_created :: nat
  se_expires :: nat
  se_kept :: bool
  se_evicted :: bool

text \<open>\<open>std::filesystem\<close>: \<open>is_directory\<close>, \<open>exists\<close>, a directory iterator with an error code, and \<open>remove\<close>.\<close>

definition is_directory :: "path \<Rightarrow> world \<Rightarrow> bool" where
  "is_directory p w = (case node_at w p of None \<Rightarrow> False | Some n \<Rightarrow> nd_kind n = Directory)"

definition path_exists :: "path \<Rightarrow> world \<Rightarrow> bool" where
  "path_exists p w = (node_at w p \<noteq> None)"

definition dir_entries :: "path \<Rightarrow> world \<Rightarrow> string list" where
  "dir_entries d w = (if w_faults w Listing d \<or> \<not> is_directory d w then [] else names_in w d)"

definition sys_remove :: "path \<Rightarrow> world \<Rightarrow> bool \<times> world" where
  "sys_remove p w =
     (case node_at w p of
        None \<Rightarrow> (False, w)
      | Some n \<Rightarrow> if w_faults w Unlinking p \<or> nd_kind n = Directory \<and> names_in w p \<noteq> [] then (False, w) else (True, remove_node p w))"

text \<open>Reading a sidecar with a stream: a file that cannot be opened or read gives nothing.\<close>

definition stream_read :: "path \<Rightarrow> world \<Rightarrow> string option" where
  "stream_read p w = (if w_faults w Opening p \<or> w_faults w Reading p then None else file_at w p)"

section \<open>Grouping the runs of a project\<close>

record run_groups =
  rg_groups :: "(string \<times> string list) list"
  rg_group_of :: "(string \<times> string) list"
  rg_active :: "string list"

definition add_member :: "string \<Rightarrow> string \<Rightarrow> (string \<times> string list) list \<Rightarrow> (string \<times> string list) list" where
  "add_member g i groups =
     (case map_of groups g of None \<Rightarrow> groups @ [(g, [i])]
      | Some _ \<Rightarrow> map (\<lambda>(h, members). if h = g then (h, members @ [i]) else (h, members)) groups)"

definition scan_run :: "path \<Rightarrow> string \<Rightarrow> run_groups \<Rightarrow> string \<Rightarrow> run_groups io" where
  "scan_run dir project s i =
     bindM (loadCiRun project i) (\<lambda>record.
     let g = (case record of Some r \<Rightarrow> if rr_parent_run_id r \<noteq> [] then rr_parent_run_id r else i | None \<Rightarrow> i) in
     bindM (askM (\<lambda>w. path_exists (dir @ [g, ''workflow.ini'']) w \<and> \<not> path_exists (dir @ [g, ''outputs-committed'']) w)) (\<lambda>unpublished.
     returnM \<lparr>rg_groups = add_member g i (rg_groups s), rg_group_of = (i, g) # rg_group_of s,
       rg_active = (if (case record of None \<Rightarrow> True | Some r \<Rightarrow> ciRunStatusIsActive (rr_status r)) \<or> unpublished
                    then g # rg_active s else rg_active s)\<rparr>))"

text \<open>The groups in the order of the map: newest first.\<close>

definition newest_first :: "(string \<times> string list) list \<Rightarrow> (string \<times> string list) list" where
  "newest_first groups = rev (sort_key fst groups)"

text \<open>The groups that are neither among the newest \<open>keep\<close> nor active.\<close>

definition pruned_groups :: "nat \<Rightarrow> run_groups \<Rightarrow> (string \<times> string list) list" where
  "pruned_groups keep s = filter (\<lambda>g. fst g \<notin> set (rg_active s)) (drop keep (newest_first (rg_groups s)))"

definition prune_run :: "path \<Rightarrow> string list \<Rightarrow> string \<Rightarrow> string list io" where
  "prune_run dir removed i =
     bindM (callM (sys_remove_all (dir @ [i]))) (\<lambda>e. returnM (if e = OK then i # removed else removed))"

definition prune_runs :: "nat \<Rightarrow> path \<Rightarrow> run_groups \<Rightarrow> string list \<Rightarrow> string list io" where
  "prune_runs keep dir s ids =
     (if keep = 0 then returnM ids
      else bindM (foldM (prune_run dir) [] (concat (map snd (pruned_groups keep s)))) (\<lambda>removed.
             returnM (filter (\<lambda>i. i \<notin> set removed) ids)))"

section \<open>The artifacts of a run\<close>

text \<open>A parent whose outputs are not committed yet still needs the staging of its children.\<close>

definition parent_needs_results :: "string \<Rightarrow> CiRunRecord option \<Rightarrow> bool io" where
  "parent_needs_results project run =
     (case run of None \<Rightarrow> returnM False
      | Some r \<Rightarrow> if rr_parent_run_id r = [] then returnM False
          else bindM (openRunDir project (rr_parent_run_id r)) (\<lambda>d.
            case d of None \<Rightarrow> returnM False
            | Some parent \<Rightarrow> bindM (readCappedAt parent ''outputs-committed'' 128) (\<lambda>c. returnM (c = None))))"

definition drop_staging :: "path \<Rightarrow> string \<Rightarrow> string \<Rightarrow> unit io" where
  "drop_staging dir project i =
     bindM (askM (is_directory (dir @ [i, ''incoming'']))) (\<lambda>there.
     if \<not> there then returnM ()
     else bindM (loadCiRun project i) (\<lambda>run.
       bindM (parent_needs_results project run) (\<lambda>needed.
       if (case run of None \<Rightarrow> True | Some r \<Rightarrow> \<not> ciRunStatusIsActive (rr_status r)) \<and> \<not> needed
       then thenM (callM (sys_remove_all (dir @ [i, ''incoming'']))) (returnM ()) else returnM ())))"

record sweep_state =
  sw_entries :: "sweep_entry list"
  sw_newest :: "(string \<times> string) list"
  sw_removed :: nat

definition note_newest :: "string \<Rightarrow> string \<Rightarrow> (string \<times> string) list \<Rightarrow> (string \<times> string) list" where
  "note_newest project g newest =
     (if (case map_of newest project of None \<Rightarrow> True | Some old \<Rightarrow> g > old) then (project, g) # newest else newest)"

definition sweep_sidecar :: "path \<Rightarrow> string \<Rightarrow> string \<Rightarrow> sweep_state \<Rightarrow> string \<Rightarrow> sweep_state io" where
  "sweep_sidecar art project g s base =
     bindM (askM (\<lambda>w. case file_at w (art @ [base @ ''.ini'']) of None \<Rightarrow> None
         | Some c \<Rightarrow> if length c > kMaximumCiArtifactRecordBytes then None else stream_read (art @ [base @ ''.ini'']) w)) (\<lambda>c.
     returnM (case c of None \<Rightarrow> s
       | Some content \<Rightarrow> (case parseArtifact content of Inl _ \<Rightarrow> s
           | Inr r \<Rightarrow> if ar_expires_epoch_seconds r = 0 then s
               else s\<lparr>sw_entries := sw_entries s @ [\<lparr>se_dir = art, se_project = project, se_run_id = g, se_name = ar_name r,
                        se_bytes = ar_bytes r, se_created = ar_created_epoch_seconds r, se_expires = ar_expires_epoch_seconds r,
                        se_kept = False, se_evicted = False\<rparr>],
                      sw_newest := note_newest project g (sw_newest s)\<rparr>)))"

definition stem :: "string \<Rightarrow> string" where "stem name = take (length name - 4) name"

definition sweep_bundle :: "path \<Rightarrow> string list \<Rightarrow> sweep_state \<Rightarrow> string \<Rightarrow> sweep_state io" where
  "sweep_bundle art inis s base =
     (if base \<in> set inis then returnM s
      else bindM (callM (sys_remove (art @ [base @ ''.tar'']))) (\<lambda>gone.
             returnM (if gone then s\<lparr>sw_removed := sw_removed s + 1\<rparr> else s)))"

definition sweep_run :: "path \<Rightarrow> string \<Rightarrow> (string \<times> string) list \<Rightarrow> sweep_state \<Rightarrow> string \<Rightarrow> sweep_state io" where
  "sweep_run dir project group_of s i =
     thenM (drop_staging dir project i) (
     let art = dir @ [i, ''artifacts''] in
     bindM (askM (is_directory art)) (\<lambda>there.
     if \<not> there then returnM s
     else bindM (askM (dir_entries art)) (\<lambda>names.
       let tars = sort (remdups (map stem (filter (\<lambda>n. endsWith n ''.tar'') names)));
           inis = sort (remdups (map stem (filter (\<lambda>n. \<not> endsWith n ''.tar'' \<and> endsWith n ''.ini'') names))) in
       bindM (foldM (sweep_sidecar art project (the (map_of group_of i))) s inis) (\<lambda>s'.
       foldM (sweep_bundle art inis) s' tars))))"

definition sweep_project :: "CiArtifactSweepOptions \<Rightarrow> sweep_state \<Rightarrow> string \<Rightarrow> sweep_state io" where
  "sweep_project options s project =
     (let dir = [''ci'', ''runs'', project] in
      bindM (askM (is_directory dir)) (\<lambda>there.
      if \<not> there \<or> \<not> isValidProjectName project then returnM s
      else bindM (askM (\<lambda>w. filter (\<lambda>i. is_directory (dir @ [i]) w \<and> isValidCiId i) (dir_entries dir w))) (\<lambda>found.
        let ids = rev (sort found) in
        bindM (foldM (scan_run dir project) \<lparr>rg_groups = [], rg_group_of = [], rg_active = []\<rparr> ids) (\<lambda>groups.
        bindM (prune_runs (so_runs_keep options) dir groups ids) (\<lambda>left.
        foldM (sweep_run dir project (rg_group_of groups)) s left)))))"

section \<open>Expiry and budgets\<close>

definition keep_newest :: "(string \<times> string) list \<Rightarrow> sweep_entry \<Rightarrow> sweep_entry" where
  "keep_newest newest e = (if map_of newest (se_project e) = Some (se_run_id e) then e\<lparr>se_kept := True\<rparr> else e)"

definition delete_entry :: "sweep_entry \<Rightarrow> unit io" where
  "delete_entry e = thenM (callM (sys_remove (se_dir e @ [se_name e @ ''.tar''])))
     (thenM (callM (sys_remove (se_dir e @ [se_name e @ ''.ini'']))) (returnM ()))"

definition entry_expired :: "nat \<Rightarrow> sweep_entry \<Rightarrow> bool" where
  "entry_expired now e \<longleftrightarrow> se_expires e \<noteq> 0 \<and> now \<noteq> 0 \<and> se_expires e \<le> now"

text \<open>The loops carry the entries and the number removed so far.\<close>

fun expire_entries :: "nat \<Rightarrow> sweep_entry list \<Rightarrow> nat \<Rightarrow> (sweep_entry list \<times> nat) io" where
  "expire_entries now [] n = returnM ([], n)"
| "expire_entries now (e # es) n =
     (if entry_expired now e \<and> \<not> se_kept e
      then thenM (delete_entry e) (bindM (expire_entries now es (n + 1)) (\<lambda>(es', n'). returnM (e\<lparr>se_evicted := True\<rparr> # es', n')))
      else bindM (expire_entries now es n) (\<lambda>(es', n'). returnM (e # es', n')))"

text \<open>\<open>std::sort\<close> by creation time and run id; it leaves the order of ties open, the model takes the stable one.\<close>

definition sort_entries :: "sweep_entry list \<Rightarrow> sweep_entry list" where
  "sort_entries es = sort_key se_created (sort_key se_run_id es)"

text \<open>The bytes of the entries that are left, of one project or of all of them, added up in 64 bits.\<close>

definition counted :: "string option \<Rightarrow> sweep_entry \<Rightarrow> bool" where
  "counted project e \<longleftrightarrow> \<not> se_evicted e \<and> (case project of None \<Rightarrow> True | Some p \<Rightarrow> se_project e = p)"

definition liveTotal :: "string option \<Rightarrow> sweep_entry list \<Rightarrow> nat" where
  "liveTotal project es = foldl (\<lambda>total e. (total + se_bytes e) mod 2 ^ 64) 0 (filter (counted project) es)"

text \<open>The eviction loop: \<open>seen\<close> are the entries behind the iterator.\<close>

fun evict_from :: "string option \<Rightarrow> nat \<Rightarrow> sweep_entry list \<Rightarrow> sweep_entry list \<Rightarrow> nat \<Rightarrow> (sweep_entry list \<times> nat) io" where
  "evict_from project budget seen [] n = returnM (seen, n)"
| "evict_from project budget seen (e # es) n =
     (if liveTotal project (seen @ e # es) \<le> budget then returnM (seen @ e # es, n)
      else if counted project e \<and> \<not> se_kept e
      then thenM (delete_entry e) (evict_from project budget (seen @ [e\<lparr>se_evicted := True\<rparr>]) es (n + 1))
      else evict_from project budget (seen @ [e]) es n)"

definition project_set :: "sweep_entry list \<Rightarrow> string list" where
  "project_set es = sort (remdups (map se_project es))"

definition apply_budgets :: "CiArtifactSweepOptions \<Rightarrow> sweep_entry list \<Rightarrow> nat \<Rightarrow> (sweep_entry list \<times> nat) io" where
  "apply_budgets options es n =
     bindM (if so_max_total_bytes options \<noteq> 0 then evict_from None (so_max_total_bytes options) [] es n else returnM (es, n)) (\<lambda>(es1, n1).
     if so_max_project_bytes options \<noteq> 0
     then foldM (\<lambda>(es', n') p. evict_from (Some p) (so_max_project_bytes options) [] es' n') (es1, n1) (project_set es1)
     else returnM (es1, n1))"

definition retire_entries :: "CiArtifactSweepOptions \<Rightarrow> sweep_state \<Rightarrow> nat io" where
  "retire_entries options s =
     bindM (expire_entries (so_now_epoch_seconds options)
              (if so_keep_latest options then map (keep_newest (sw_newest s)) (sw_entries s) else sw_entries s) (sw_removed s)) (\<lambda>(es, n).
     bindM (apply_budgets options (sort_entries es) n) (\<lambda>r. returnM (snd r)))"

definition sweepCiArtifacts :: "CiArtifactSweepOptions \<Rightarrow> nat io" where
  "sweepCiArtifacts options =
     bindM (tryM (thenM validatedMetadataRoot (returnM True)) (returnM False)) (\<lambda>valid.
     if \<not> valid then returnM 0
     else bindM (openDir []) (\<lambda>root.
          bindM (ensureDirAt root ''ci'') (\<lambda>ci.
          bindM (ensureDirAt ci ''spool'') (\<lambda>spool.
          thenM (lockExclusive spool) (
          bindM (askM (is_directory [''ci'', ''runs''])) (\<lambda>there.
          if \<not> there then returnM 0
          else bindM (askM (dir_entries [''ci'', ''runs''])) (\<lambda>projects.
               bindM (foldM (sweep_project options) \<lparr>sw_entries = [], sw_newest = [], sw_removed = 0\<rparr> projects) (\<lambda>s.
               retire_entries options s))))))))"

section \<open>What the budgets promise\<close>

definition bytes_left :: "string option \<Rightarrow> sweep_entry list \<Rightarrow> nat" where
  "bytes_left project es = sum_list (map se_bytes (filter (counted project) es))"

text \<open>An entry that a phase of the sweep left as it was, or evicted although it was not protected.\<close>

definition may_evict :: "string option \<Rightarrow> sweep_entry \<Rightarrow> sweep_entry \<Rightarrow> bool" where
  "may_evict project e e' \<longleftrightarrow> e' = e \<or> \<not> se_kept e \<and> counted project e \<and> e' = e\<lparr>se_evicted := True\<rparr>"

lemma liveTotal_bytes: "liveTotal project es = bytes_left project es mod 2 ^ 64"
proof -
  have "a < m \<Longrightarrow> foldl (\<lambda>total e. (total + se_bytes e) mod m) a xs = (a + sum_list (map se_bytes xs)) mod m" for a m :: nat and xs
  proof (induction xs arbitrary: a)
    case (Cons e xs)
    then have "0 < m" by simp
    with Cons.IH [of "(a + se_bytes e) mod m"] show ?case by (simp add: mod_simps add.assoc)
  qed simp
  from this [of 0 "2 ^ 64"] show ?thesis by (simp add: liveTotal_def bytes_left_def)
qed

lemma counted_evicted [simp]: "\<not> counted project (e\<lparr>se_evicted := True\<rparr>)"
  by (simp add: counted_def)

lemma may_evict_refl [simp]: "may_evict project e e"
  by (simp add: may_evict_def)

lemma may_evict_None: "may_evict project e e' \<Longrightarrow> may_evict None e e'"
  by (auto simp: may_evict_def counted_def)

lemma may_evict_trans: "may_evict project e e' \<Longrightarrow> may_evict project e' e'' \<Longrightarrow> may_evict project e e''"
  by (auto simp: may_evict_def)

lemma evictions_trans:
  "list_all2 (may_evict project) es es1 \<Longrightarrow> list_all2 (may_evict project) es1 es2 \<Longrightarrow> list_all2 (may_evict project) es es2"
  by (erule (1) list_all2_trans [rotated]) (rule may_evict_trans)

text \<open>Evictions never add to what is left, and those of one project leave the others alone.\<close>

lemma evictions_shrink: "list_all2 (may_evict project) es es' \<Longrightarrow> bytes_left q es' \<le> bytes_left q es"
  by (induction rule: list_all2_induct) (auto simp: bytes_left_def may_evict_def)

lemma evictions_other:
  "list_all2 (may_evict (Some p)) es es' \<Longrightarrow> p \<noteq> q \<Longrightarrow> filter (counted (Some q)) es' = filter (counted (Some q)) es"
  by (induction rule: list_all2_induct) (auto simp: may_evict_def counted_def)

lemma evictions_kept:
  "list_all2 (may_evict project) es es' \<Longrightarrow> \<forall>e\<in>set es. counted q e \<longrightarrow> se_kept e \<Longrightarrow> \<forall>e\<in>set es'. counted q e \<longrightarrow> se_kept e"
  by (induction rule: list_all2_induct) (auto simp: may_evict_def)

text \<open>What an eviction loop leaves fits the budget or is protected.\<close>

definition within :: "string option \<Rightarrow> nat \<Rightarrow> sweep_entry list \<Rightarrow> bool" where
  "within project budget es \<longleftrightarrow> liveTotal project es \<le> budget \<or> (\<forall>e\<in>set es. counted project e \<longrightarrow> se_kept e)"

lemma evict_from_within:
  assumes "evict_from project budget seen es n w = (Inr (es', n'), w')" "\<forall>e\<in>set seen. counted project e \<longrightarrow> se_kept e"
  shows "within project budget es' \<and> list_all2 (may_evict project) (seen @ es) es'"
  using assms
proof (induction es arbitrary: seen n w)
  case Nil
  then show ?case by (auto simp: within_def returnM_def list_all2_same)
next
  case (Cons e es)
  consider (fits) "liveTotal project (seen @ e # es) \<le> budget"
    | (evict) "\<not> liveTotal project (seen @ e # es) \<le> budget" "counted project e \<and> \<not> se_kept e"
    | (skip) "\<not> liveTotal project (seen @ e # es) \<le> budget" "\<not> (counted project e \<and> \<not> se_kept e)" by blast
  then show ?case
  proof cases
    case fits
    then show ?thesis using Cons.prems by (auto simp: within_def returnM_def list_all2_same)
  next
    case evict
    with Cons.prems(1) obtain w1 where "evict_from project budget (seen @ [e\<lparr>se_evicted := True\<rparr>]) es (n + 1) w1 = (Inr (es', n'), w')"
      by (auto simp: bindM_Inr_iff)
    from Cons.IH [OF this] Cons.prems(2)
    have "within project budget es'" and ev: "list_all2 (may_evict project) (seen @ [e\<lparr>se_evicted := True\<rparr>] @ es) es'" by auto
    moreover have "list_all2 (may_evict project) (seen @ e # es) (seen @ [e\<lparr>se_evicted := True\<rparr>] @ es)"
      using evict by (auto simp: may_evict_def intro!: list_all2_appendI list_all2_refl)
    ultimately show ?thesis using evictions_trans by simp
  next
    case skip
    with Cons.prems(1) have "evict_from project budget (seen @ [e]) es n w = (Inr (es', n'), w')" by simp
    from Cons.IH [OF this] Cons.prems(2) skip show ?thesis by auto
  qed
qed

lemma within_shrinks:
  assumes "list_all2 (may_evict p) es es'" "bytes_left q es < 2 ^ 64" "within q budget es"
  shows "within q budget es'"
  using evictions_shrink [OF assms(1), of q] evictions_kept [OF assms(1), of q] assms(2,3)
  by (auto simp: within_def liveTotal_bytes)

lemma evict_projects_within:
  assumes "foldM (\<lambda>(es', n') p. evict_from (Some p) budget [] es' n') (es, n) ps w = (Inr (es', n'), w')"
  shows "list_all2 (may_evict None) es es' \<and> (\<forall>p\<in>set ps. (\<forall>q. bytes_left q es < 2 ^ 64) \<longrightarrow> within (Some p) budget es')"
  using assms
proof (induction ps arbitrary: es n w)
  case Nil
  then show ?case by (simp add: returnM_def list_all2_same)
next
  case (Cons p ps)
  then obtain es1 n1 w1 where one: "evict_from (Some p) budget [] es n w = (Inr (es1, n1), w1)"
    and rest: "foldM (\<lambda>(es', n') p. evict_from (Some p) budget [] es' n') (es1, n1) ps w1 = (Inr (es', n'), w')"
    by (auto simp: bindM_Inr_iff)
  from evict_from_within [OF one] have p: "within (Some p) budget es1" and ev: "list_all2 (may_evict (Some p)) es es1" by auto
  note IH = Cons.IH [OF rest]
  have "list_all2 (may_evict None) es es1" using ev by (rule list_all2_mono) (rule may_evict_None)
  then have "list_all2 (may_evict None) es es'" using IH evictions_trans by simp
  moreover have "bytes_left q es1 < 2 ^ 64" if "\<forall>q. bytes_left q es < 2 ^ 64" for q
    using that evictions_shrink [OF ev] le_less_trans by blast
  ultimately show ?case using IH p within_shrinks [of None es1 es'] by auto
qed

lemma bytes_left_bound: "bytes_left q es \<le> sum_list (map se_bytes es)"
  unfolding bytes_left_def by (induction es) auto

lemma within_absent: "p \<notin> se_project ` set es \<Longrightarrow> within (Some p) budget es"
  by (auto simp: within_def counted_def)


section \<open>A sweep spares the runs that are active\<close>

text \<open>What is known throughout a sweep: the record of one run is there, unchanged.\<close>

definition record_at :: "string \<Rightarrow> string \<Rightarrow> path" where
  "record_at project i = run_names project i @ [''run.ini'']"

definition record_is :: "string \<Rightarrow> string \<Rightarrow> node \<Rightarrow> world \<Rightarrow> bool" where
  "record_is project i n w \<longleftrightarrow> node_at w (record_at project i) = Some n"

interpretation sparing: discipline "record_is project i n" "\<lambda>_ _. True" for project i n
  by unfold_locales auto

definition active_record :: "node \<Rightarrow> bool" where
  "active_record n \<longleftrightarrow> (\<exists>c r. nd_kind n = Regular c \<and> parseRun c = Inr r \<and> ciRunStatusIsActive (rr_status r))"

abbreviation spares :: "string \<Rightarrow> string \<Rightarrow> node \<Rightarrow> 'a io \<Rightarrow> ('a \<Rightarrow> bool) \<Rightarrow> bool" where
  "spares project i n \<equiv> keeps (record_is project i n) (\<lambda>_ _. True)"

lemma spares_remove_tree: "\<not> prefix d (record_at p i) \<Longrightarrow> spares p i n (callM (sys_remove_all d)) (\<lambda>_. True)"
  by (rule sparing.keeps_remove_all) (simp add: record_is_def)

lemma spares_remove: "d \<noteq> record_at p i \<Longrightarrow> spares p i n (callM (sys_remove d)) (\<lambda>_. True)"
  by (auto simp: keeps_callM sys_remove_def record_is_def split: option.split)

lemma spares_dir: "spares p i n (ensureDirAt d m) (\<lambda>_. True)"
proof -
  have "spares p i n (callM (sys_mkdir (d @ [m]))) (\<lambda>_. True)"
    by (rule sparing.keeps_mkdir) (auto simp: record_is_def)
  then show ?thesis unfolding ensureDirAt_def
    by (rule sparing.any_bind, intro sparing.of_reads reads_intro)
qed

lemma loadCiRun_status:
  assumes "loadCiRun p i w = (Inr (Some r), w')" "record_is p i n w" "active_record n"
  shows "ciRunStatusIsActive (rr_status r)"
proof -
  from assms(1) obtain c a r0 where c: "private_at w (run_names p i @ [''run.ini'']) c" "parseRun c = Inr r0" "r = r0\<lparr>rr_artifacts := a\<rparr>"
    unfolding loadCiRun_def
    by (auto simp: tryM_def bindM_Inr_iff returnM_def liftE_def split: if_splits option.split_asm prod.split_asm sum.split_asm
        dest!: openRoot_Inr openPath_Some readCappedAt_Some)
  with assms(2,3) show ?thesis by (auto simp: record_is_def record_at_def active_record_def private_at_iff)
qed

text \<open>The grouping never forgets that the run's group is active.\<close>

definition guarded :: "string \<Rightarrow> run_groups \<Rightarrow> bool" where
  "guarded i s \<longleftrightarrow> (\<forall>g members. (g, members) \<in> set (rg_groups s) \<longrightarrow> i \<in> set members \<longrightarrow> g \<in> set (rg_active s))"

lemma add_member_mem:
  "(h, members) \<in> set (add_member g j groups) \<Longrightarrow> i \<in> set members \<Longrightarrow>
   (\<exists>members'. (h, members') \<in> set groups \<and> i \<in> set members') \<or> h = g \<and> i = j"
  by (auto simp: add_member_def split: option.splits if_splits)

lemma guarded_add:
  assumes "guarded i s" "i = j \<Longrightarrow> b"
  shows "guarded i \<lparr>rg_groups = add_member g j (rg_groups s), rg_group_of = go, rg_active = (if b \<or> b' then g # rg_active s else rg_active s)\<rparr>"
  using assms unfolding guarded_def by (auto dest!: add_member_mem [where i = i])

lemma spares_scan:
  assumes "active_record n" "project = p \<longrightarrow> guarded i s"
  shows "spares p i n (scan_run dir project s j) (\<lambda>s. project = p \<longrightarrow> guarded i s)"
proof -
  have "spares p i n (loadCiRun project j)
      (\<lambda>record. project = p \<longrightarrow> i = j \<longrightarrow> (case record of None \<Rightarrow> True | Some r \<Rightarrow> ciRunStatusIsActive (rr_status r)))"
    using sparing.of_reads [OF reads_loaders(2), of p i n project j] loadCiRun_status [OF _ _ assms(1), of p i] 
    by (fastforce simp: keeps_def prod_eq_iff split: option.split)
  then show ?thesis unfolding scan_run_def Let_def
    by (rule sparing.keeps_bind) (intro sparing.any_bind sparing.keeps_ask sparing.keeps_return impI TrueI guarded_add; use assms(2) in simp)
qed

lemma guarded_spared: "guarded i s \<Longrightarrow> i \<notin> set (concat (map snd (pruned_groups keep s)))"
  by (auto simp: guarded_def pruned_groups_def newest_first_def dest!: in_set_dropD)

lemma record_prefix: "prefix [''ci'', ''runs'', project, j] (record_at p i) \<longleftrightarrow> project = p \<and> j = i"
  by (auto simp: record_at_def run_names_def)

lemma spares_prune:
  assumes "project = p \<longrightarrow> guarded i s"
  shows "spares p i n (prune_runs keep [''ci'', ''runs'', project] s ids) (\<lambda>_. True)"
proof -
  have "spares p i n (prune_run [''ci'', ''runs'', project] removed j) (\<lambda>_. True)"
    if "j \<in> set (concat (map snd (pruned_groups keep s)))" for j removed
    unfolding prune_run_def using that guarded_spared [of i s keep] assms
    by (intro sparing.any_bind spares_remove_tree sparing.any_return) (auto simp: record_prefix)
  then show ?thesis unfolding prune_runs_def
    by (intro sparing.any_rules sparing.any_bind sparing.keeps_fold [where P = "\<lambda>_. True"]) auto
qed

text \<open>Everything else a sweep removes lies in the staging and artifact directories of runs.\<close>

definition artifact_dir :: "path \<Rightarrow> bool" where
  "artifact_dir d \<longleftrightarrow> (\<exists>project j. d = run_names project j @ [''artifacts''])"

definition artifact_entries :: "sweep_entry list \<Rightarrow> bool" where
  "artifact_entries es \<longleftrightarrow> (\<forall>e\<in>set es. artifact_dir (se_dir e))"

lemma artifact_elsewhere: "artifact_dir d \<Longrightarrow> d @ [m] \<noteq> record_at p i"
  by (auto simp: artifact_dir_def run_names_def record_at_def)

lemma spares_staging: "spares p i n (drop_staging [''ci'', ''runs'', project] project j) (\<lambda>_. True)"
proof -
  have "spares p i n (callM (sys_remove_all [''ci'', ''runs'', project, j, ''incoming''])) (\<lambda>_. True)"
    by (intro spares_remove_tree) (simp add: record_at_def run_names_def)
  moreover have "reads (parent_needs_results project run)" for run
    unfolding parent_needs_results_def by (intro reads_intro)
  ultimately show ?thesis unfolding drop_staging_def
    by (intro sparing.any_rules sparing.any_bind) (auto intro: sparing.of_reads)
qed

lemma spares_sweep_run:
  assumes "artifact_entries (sw_entries s)"
  shows "spares p i n (sweep_run [''ci'', ''runs'', project] project group_of s j) (\<lambda>s. artifact_entries (sw_entries s))"
proof -
  let ?art = "[''ci'', ''runs'', project] @ [j, ''artifacts'']"
  have art: "artifact_dir ?art" by (auto simp: artifact_dir_def run_names_def)
  have sidecar: "spares p i n (sweep_sidecar ?art project g s base) (\<lambda>s. artifact_entries (sw_entries s))"
    if "artifact_entries (sw_entries s)" for s g base
    unfolding sweep_sidecar_def
    by (rule sparing.any_bind, rule sparing.of_reads, rule reads_intro, rule sparing.keeps_return)
      (use that art in \<open>auto simp: artifact_entries_def split: option.split sum.split\<close>)
  have tarball: "spares p i n (sweep_bundle ?art inis s base) (\<lambda>s. artifact_entries (sw_entries s))"
    if "artifact_entries (sw_entries s)" for s inis base
    unfolding sweep_bundle_def using that artifact_elsewhere [OF art]
    by (intro sparing.keeps_if sparing.any_bind spares_remove sparing.keeps_return) auto
  show ?thesis unfolding sweep_run_def Let_def
    by (intro sparing.any_bind [OF spares_staging] sparing.any_bind [OF sparing.of_reads [OF reads_basic(3)]] sparing.keeps_if
        sparing.keeps_return assms sparing.keeps_bind [OF sparing.keeps_fold [where P = "\<lambda>s. artifact_entries (sw_entries s)"]]
        sparing.keeps_fold sidecar tarball)
qed

lemma spares_project:
  assumes "active_record n" "artifact_entries (sw_entries s)"
  shows "spares p i n (sweep_project options s project) (\<lambda>s. artifact_entries (sw_entries s))"
proof -
  have "spares p i n (foldM (scan_run [''ci'', ''runs'', project] project) \<lparr>rg_groups = [], rg_group_of = [], rg_active = []\<rparr> ids)
      (\<lambda>s. project = p \<longrightarrow> guarded i s)" for ids
    by (rule sparing.keeps_fold) (auto simp: guarded_def [of _ "\<lparr>rg_groups = [], rg_group_of = [], rg_active = []\<rparr>"] intro: spares_scan assms(1))
  note scan = sparing.keeps_bind [OF this]
  show ?thesis unfolding sweep_project_def Let_def
    by (intro sparing.any_bind [OF sparing.of_reads [OF reads_basic(3)]] sparing.keeps_if sparing.keeps_return scan assms(2)
        sparing.any_bind [OF spares_prune] sparing.keeps_fold spares_sweep_run)
qed

lemma spares_delete: "artifact_dir (se_dir e) \<Longrightarrow> spares p i n (delete_entry e) (\<lambda>_. True)"
  unfolding delete_entry_def by (intro sparing.any_bind spares_remove sparing.any_return) (auto simp: artifact_elsewhere)

lemma artifact_entries_Cons [simp]: "artifact_entries (e # es) \<longleftrightarrow> artifact_dir (se_dir e) \<and> artifact_entries es"
  by (simp add: artifact_entries_def)

lemma artifact_entries_append [simp]: "artifact_entries (es @ fs) \<longleftrightarrow> artifact_entries es \<and> artifact_entries fs"
  by (auto simp: artifact_entries_def)

lemma spares_expire: "artifact_entries es \<Longrightarrow> spares p i n (expire_entries now es k) (\<lambda>(es', _). artifact_entries es')"
proof (induction es arbitrary: k)
  case (Cons e es)
  then have e: "artifact_dir (se_dir e)" and es: "artifact_entries es" by auto
  have rest: "spares p i n (bindM (expire_entries now es k) (\<lambda>(es', n'). returnM (e' # es', n'))) (\<lambda>(es', _). artifact_entries es')"
    if "se_dir e' = se_dir e" for e' k
    using that e by (intro sparing.keeps_bind [OF Cons.IH [OF es]]) (auto intro!: sparing.keeps_return)
  show ?case unfolding expire_entries.simps
    by (intro sparing.keeps_if sparing.any_bind [OF spares_delete [OF e]] rest) simp_all
qed (auto simp: artifact_entries_def intro: sparing.keeps_return)

lemma spares_evict:
  "artifact_entries (seen @ es) \<Longrightarrow> spares p i n (evict_from q b seen es k) (\<lambda>(es', _). artifact_entries es')"
proof (induction es arbitrary: seen k)
  case (Cons e es)
  then have e: "artifact_dir (se_dir e)" by simp
  have "spares p i n (evict_from q b (seen @ [e']) es k) (\<lambda>(es', _). artifact_entries es')" if "se_dir e' = se_dir e" for e' k
    using that Cons.prems e by (intro Cons.IH) (auto simp: artifact_entries_def [of "[]"])
  then show ?case unfolding evict_from.simps using Cons.prems
    by (intro sparing.keeps_if sparing.any_bind [OF spares_delete [OF e]] sparing.keeps_return) simp_all
qed (auto intro: sparing.keeps_return)

lemma artifact_entries_set: "set es' \<subseteq> set es \<Longrightarrow> artifact_entries es \<Longrightarrow> artifact_entries es'"
  by (auto simp: artifact_entries_def)

lemma spares_retire: "artifact_entries (sw_entries s) \<Longrightarrow> spares p i n (retire_entries options s) (\<lambda>_. True)"
proof -
  let ?A = "\<lambda>(es :: sweep_entry list, _ :: nat). artifact_entries es"
  assume s: "artifact_entries (sw_entries s)"
  then have marked: "artifact_entries (map (keep_newest (sw_newest s)) (sw_entries s))"
    by (auto simp: artifact_entries_def keep_newest_def)
  have step: "spares p i n ((\<lambda>(es', n'). evict_from q b [] es' n') x) ?A" if "?A x" for x q b
    using that by (auto intro: spares_evict)
  have projects: "spares p i n (foldM (\<lambda>(es', n') q. evict_from (Some q) b [] es' n') x qs) ?A" if "?A x" for x b qs
    using that by (intro sparing.keeps_fold) (auto intro: spares_evict)
  have budgets: "spares p i n (apply_budgets options es k) ?A" if "artifact_entries es" for es k
  proof -
    have "spares p i n (if so_max_total_bytes options \<noteq> 0 then evict_from None (so_max_total_bytes options) [] es k else returnM (es, k)) ?A"
      using that by (intro sparing.keeps_if sparing.keeps_return spares_evict) auto
    then show ?thesis unfolding apply_budgets_def
      by (rule sparing.keeps_bind) (auto intro!: sparing.keeps_return projects)
  qed
  have sorted: "artifact_entries (sort_entries es)" if "artifact_entries es" for es
    using that by (rule artifact_entries_set [rotated]) (simp add: sort_entries_def)
  show ?thesis unfolding retire_entries_def
    by (rule sparing.keeps_bind [OF spares_expire])
      (auto simp: s marked intro!: sparing.keeps_bind [OF budgets] sparing.keeps_return sorted)
qed

text \<open>
  C17: whatever fails during a retention sweep, the record of a run that is pending or running is still there, byte
  for byte, when the sweep ends.
\<close>

theorem sweep_spares_active:
  assumes "node_at w (run_names project i @ [''run.ini'']) = Some n"
    and "nd_kind n = Regular content" "parseRun content = Inr r" "ciRunStatusIsActive (rr_status r)"
  shows "node_at (snd (sweepCiArtifacts options w)) (run_names project i @ [''run.ini'']) = Some n"
proof -
  have active: "active_record n" using assms(2-4) by (auto simp: active_record_def)
  have lock: "reads (lockExclusive d)" "reads (openDir d)" "reads validatedMetadataRoot" for d by (intro reads_intro)+
  have "spares project i n (foldM (sweep_project options) \<lparr>sw_entries = [], sw_newest = [], sw_removed = 0\<rparr> ps)
      (\<lambda>s. artifact_entries (sw_entries s))" for ps
    by (rule sparing.keeps_fold) (auto simp: artifact_entries_def [of "[]"] intro: spares_project active)
  note all = sparing.keeps_bind [OF this spares_retire]
  have "spares project i n (sweepCiArtifacts options) (\<lambda>_. True)"
    unfolding sweepCiArtifacts_def
    by (intro sparing.any_bind [OF sparing.of_reads [OF reads_try]] sparing.any_bind [OF spares_dir] sparing.any_bind [OF sparing.of_reads]
        lock reads_intro sparing.keeps_if sparing.any_return all)
  then have "record_is project i n (snd (sweepCiArtifacts options w))"
    using assms(1) unfolding keeps_def by (simp add: record_is_def record_at_def)
  then show ?thesis by (simp add: record_is_def record_at_def)
qed

definition sample_sweep :: CiArtifactSweepOptions where
  "sample_sweep = \<lparr>so_now_epoch_seconds = 100, so_max_total_bytes = 8, so_max_project_bytes = 0, so_runs_keep = 1, so_keep_latest = True\<rparr>"

text \<open>A run that is still going on, with a log, in a project of its own.\<close>

theorem sweep_spares_active_witness:
  "\<exists>content. serializeRun (sample_run\<lparr>rr_status := Running\<rparr>) = Inr content \<and>
     node_at (snd (sweepCiArtifacts sample_sweep (set_node (run_names ''demo'' ''j-1'' @ [''run.ini'']) (private_file content 0) log_world)))
       (run_names ''demo'' ''j-1'' @ [''run.ini'']) = Some (private_file content 0)"
proof -
  have "run_storable (sample_run\<lparr>rr_status := Running\<rparr>)" using sample_run_storable by (simp add: run_storable_def)
  then obtain content where c: "serializeRun (sample_run\<lparr>rr_status := Running\<rparr>) = Inr content"
      "parseRun content = Inr (sample_run\<lparr>rr_status := Running\<rparr>)"
    using run_roundtrip by blast
  let ?w = "set_node (run_names ''demo'' ''j-1'' @ [''run.ini'']) (private_file content 0) log_world"
  have "node_at ?w (run_names ''demo'' ''j-1'' @ [''run.ini'']) = Some (private_file content 0)" by simp
  from sweep_spares_active [OF this _ c(2), of sample_sweep] c(1) show ?thesis
    by (auto simp: private_file_def ciRunStatusIsActive_def)
qed

definition sample_entry :: "string \<Rightarrow> nat \<Rightarrow> sweep_entry" where
  "sample_entry name bytes = \<lparr>se_dir = run_names ''demo'' ''j-1'' @ [''artifacts''], se_project = ''demo'', se_run_id = ''j-1'', se_name = name,
     se_bytes = bytes, se_created = 1, se_expires = 90, se_kept = False, se_evicted = False\<rparr>"


end
