(* ===== verification/Ck_Ci_Admin.thy ===== *)
theory Ck_Ci_Admin
  imports Ck_Ci_Retention
begin

text \<open>
  The administrative part of \<open>src/common/ci_store.cpp\<close>: how ids of runs and jobs are made, the records of
  runners, the switch that opts a project in, the release directories, and the removal of a project. Ids sort by
  time, which is what makes the queue first-in first-out; a removed project's workflow jobs lose their leases.
\<close>

section \<open>Ids\<close>

text \<open>\<open>%0<n>lld\<close>, and \<open>%08x\<close> of a 32-bit number.\<close>

definition zero_padded :: "nat \<Rightarrow> string \<Rightarrow> string" where
  "zero_padded n s = replicate (n - length s) CHR ''0'' @ s"

definition hex8 :: "nat \<Rightarrow> string" where
  "hex8 x = map (\<lambda>i. hex_digits ! (x div 16 ^ (7 - i) mod 16)) [0..<8]"

definition ci_id :: "nat \<Rightarrow> nat \<Rightarrow> string" where
  "ci_id micros noise = zero_padded 20 (to_dec micros) @ ''-'' @ hex8 noise"

definition generateCiId :: "string io" where
  "generateCiId = bindM (askM w_clock) (\<lambda>nanos. bindM (callM draw) (\<lambda>noise.
     returnM (ci_id (nanos div 1000) (noise mod 2 ^ 32))))"

section \<open>Runner records\<close>

definition writeCiRunnerRecord :: "CiRunnerRecord \<Rightarrow> unit io" where
  "writeCiRunnerRecord record =
     (if \<not> isValidClientId (rn_name record) \<or> rn_name record = kCiPrimaryRunnerName \<or> length (rn_version record) > 128
      then failM ''refusing to write an invalid runner record''
      else bindM openRoot (\<lambda>root. bindM (ensureDirAt root ''ci'') (\<lambda>ci. bindM (ensureDirAt ci ''runners'') (\<lambda>runners.
           atomicWriteAt runners (rn_name record @ ''.ini'') (serializeRunnerRecord record)))))"

definition loadCiRunnerRecord :: "string \<Rightarrow> CiRunnerRecord option io" where
  "loadCiRunnerRecord name =
     (if \<not> isValidClientId name then returnM None
      else tryM (bindM openRoot (\<lambda>root. bindM (openPath root [''ci'', ''runners'']) (\<lambda>r.
             case r of None \<Rightarrow> returnM None
             | Some runners \<Rightarrow> bindM (readCappedAt runners (name @ ''.ini'') 4096) (\<lambda>c.
                 case c of None \<Rightarrow> returnM None
                 | Some content \<Rightarrow> bindM (liftE (parseRunnerRecord name content)) (\<lambda>record. returnM (Some record))))))
           (returnM None))"

definition runner_file_name :: "string \<Rightarrow> string" where
  "runner_file_name file = take (length file - 4) file"

definition add_runner :: "CiRunnerRecord list \<Rightarrow> string \<Rightarrow> CiRunnerRecord list io" where
  "add_runner records file = bindM (loadCiRunnerRecord (runner_file_name file)) (\<lambda>r.
     returnM (case r of None \<Rightarrow> records | Some record \<Rightarrow> records @ [record]))"

text \<open>A failed listing leaves what was collected, which is nothing: loading one record never throws.\<close>

definition loadCiRunnerRecords :: "CiRunnerRecord list io" where
  "loadCiRunnerRecords =
     bindM (tryM (bindM openRoot (\<lambda>root. bindM (openPath root [''ci'', ''runners'']) (\<lambda>r.
              case r of None \<Rightarrow> returnM []
              | Some runners \<Rightarrow> bindM (listNames runners) (\<lambda>names.
                  foldM add_runner [] (filter (\<lambda>f. endsWith f ''.ini'') names)))))
            (returnM [])) (\<lambda>records. returnM (sort_key rn_name records))"


definition removeCiRunnerRecord :: "string \<Rightarrow> bool io" where
  "removeCiRunnerRecord name =
     (if \<not> isValidClientId name then returnM False
      else thenM validatedMetadataRoot (callM (sys_remove [''ci'', ''runners'', name @ ''.ini''])))"

definition new_runner :: CiRunnerRecord where
  "new_runner = \<lparr>rn_name = [], rn_enabled = True, rn_last_seen_epoch_seconds = 0, rn_version = [], rn_labels = []\<rparr>"

definition noteCiRunnerSeen :: "string \<Rightarrow> string \<Rightarrow> unit io" where
  "noteCiRunnerSeen name version =
     tryM (bindM (loadCiRunnerRecord name) (\<lambda>existing. bindM currentEpoch (\<lambda>now.
             let record = (case existing of None \<Rightarrow> new_runner | Some r \<Rightarrow> r)\<lparr>rn_name := name, rn_last_seen_epoch_seconds := now\<rparr> in
             writeCiRunnerRecord (if version = [] then record else record\<lparr>rn_version := take 128 version\<rparr>))))
          (returnM ())"

section \<open>Opting a project in\<close>

definition enabled_text :: "bool \<Rightarrow> string" where
  "enabled_text enabled = unlines [''schema_version=1'', ''ci_enabled='' @ (if enabled then ''true'' else ''false'')]"

definition setProjectCiEnabled :: "string \<Rightarrow> bool \<Rightarrow> unit io" where
  "setProjectCiEnabled project_name enabled =
     (if \<not> isValidProjectName project_name then failM ''invalid project name for CI opt-in''
      else bindM openRoot (\<lambda>root. bindM (ensureDirAt root ''ci'') (\<lambda>ci. bindM (ensureDirAt ci ''projects'') (\<lambda>projects.
           atomicWriteAt projects (project_name @ ''.ini'') (enabled_text enabled)))))"

definition parse_enabled :: "string \<Rightarrow> bool result" where
  "parse_enabled content = bindE (frame content) (\<lambda>lines.
     if length lines \<noteq> 2 \<or> lines ! 0 \<noteq> ''schema_version=1'' then Inr False
     else bindE (expectField (lines ! 1) ''ci_enabled='') (\<lambda>v. Inr (v = ''true'')))"

definition isProjectCiEnabled :: "string \<Rightarrow> bool io" where
  "isProjectCiEnabled project_name =
     (if \<not> isValidProjectName project_name then returnM False
      else tryM (bindM openRoot (\<lambda>root. bindM (openPath root [''ci'', ''projects'']) (\<lambda>r.
             case r of None \<Rightarrow> returnM False
             | Some projects \<Rightarrow> bindM (readCappedAt projects (project_name @ ''.ini'') 4096) (\<lambda>c.
                 case c of None \<Rightarrow> returnM False
                 | Some content \<Rightarrow> liftE (parse_enabled content)))))
           (returnM False))"

section \<open>Releases\<close>

definition release_names :: "string \<Rightarrow> string \<Rightarrow> string list" where
  "release_names project tag = [''releases'', project, tag]"

definition prepareCiReleaseDirectory :: "string \<Rightarrow> string \<Rightarrow> path io" where
  "prepareCiReleaseDirectory project_name tag =
     (if \<not> isValidProjectName project_name then failM ''invalid project name for a release''
      else if \<not> isValidReleaseTag tag then failM ''invalid release tag''
      else bindM openRoot (\<lambda>root. ensurePath root (release_names project_name tag)))"

definition writeCiReleaseArtifactRecord :: "string \<Rightarrow> string \<Rightarrow> CiArtifactRecord \<Rightarrow> unit io" where
  "writeCiReleaseArtifactRecord project_name tag record =
     (if \<not> isValidProjectName project_name \<or> \<not> isValidReleaseTag tag \<or> \<not> isValidCiArtifactName (ar_name record)
      then failM ''refusing to write an invalid release asset record''
      else if ar_name record = ''release'' then failM ''artifact name 'release' is reserved for the release record''
      else if length (serializeArtifact record) > kMaximumCiArtifactRecordBytes
      then failM ''a release asset record exceeds its size limit''
      else bindM openRoot (\<lambda>root. bindM (ensurePath root (release_names project_name tag)) (\<lambda>d.
           atomicWriteAt d (ar_name record @ ''.ini'') (serializeArtifact record))))"

definition writeCiReleaseRecord :: "string \<Rightarrow> CiReleaseRecord \<Rightarrow> unit io" where
  "writeCiReleaseRecord project_name record =
     (if \<not> isValidProjectName project_name \<or> \<not> isValidReleaseTag (re_tag record) \<or> \<not> isValidObjectId (re_commit_id record)
      then failM ''refusing to write an invalid release record''
      else if length (re_notes record) > kMaximumReleaseNotesBytes then failM ''release notes exceed the size limit''
      else if length (serializeRelease record) > kMaximumReleaseRecordBytes then failM ''a release record exceeds its size limit''
      else bindM openRoot (\<lambda>root. bindM (ensurePath root (release_names project_name (re_tag record))) (\<lambda>d.
           atomicWriteAt d ''release.ini'' (serializeRelease record))))"

text \<open>The assets of one release: a sidecar that is missing or malformed is left out.\<close>

definition load_assets :: "path \<Rightarrow> CiArtifactRecord list io" where
  "load_assets d = bindM (listNames d) (\<lambda>names.
     bindM (foldM (load_artifact d) [] (filter (\<lambda>n. endsWith n ''.ini'' \<and> n \<noteq> ''release.ini'') names)) (\<lambda>assets.
     returnM (sort_key ar_name assets)))"

definition load_release :: "path \<Rightarrow> CiReleaseRecord list \<Rightarrow> string \<Rightarrow> CiReleaseRecord list io" where
  "load_release project releases tag =
     (if \<not> isValidReleaseTag tag then returnM releases
      else bindM (openDirAt project tag) (\<lambda>r. case r of None \<Rightarrow> returnM releases
      | Some d \<Rightarrow> tryM (bindM (readCappedAt d ''release.ini'' kMaximumReleaseRecordBytes) (\<lambda>c. case c of None \<Rightarrow> returnM releases
          | Some content \<Rightarrow> bindM (liftE (parseRelease content)) (\<lambda>release.
              bindM (load_assets d) (\<lambda>assets. returnM (releases @ [release\<lparr>re_assets := assets\<rparr>])))))
          (returnM releases)))"

text \<open>Newest first, then by descending tag.\<close>

definition release_order :: "CiReleaseRecord list \<Rightarrow> CiReleaseRecord list" where
  "release_order releases = rev (sort_key re_created_epoch_seconds (sort_key re_tag releases))"

definition loadReleases :: "string \<Rightarrow> nat \<Rightarrow> CiReleaseRecord list io" where
  "loadReleases project_name maximum =
     (if maximum = 0 \<or> \<not> isValidProjectName project_name then returnM []
      else bindM openRoot (\<lambda>root. bindM (openPath root [''releases'', project_name]) (\<lambda>r. case r of None \<Rightarrow> returnM []
        | Some project \<Rightarrow> bindM (listNames project) (\<lambda>tags.
            bindM (foldM (load_release project) [] tags) (\<lambda>releases. returnM (take maximum (release_order releases)))))))"

definition readCiReleaseAsset :: "string \<Rightarrow> string \<Rightarrow> string \<Rightarrow> nat \<Rightarrow> string option io" where
  "readCiReleaseAsset project_name tag asset_name cap =
     (if \<not> isValidProjectName project_name \<or> \<not> isValidReleaseTag tag \<or> \<not> isValidCiArtifactName asset_name then returnM None
      else tryM (bindM openRoot (\<lambda>root. bindM (openPath root (release_names project_name tag)) (\<lambda>r. case r of None \<Rightarrow> returnM None
          | Some d \<Rightarrow> bindM (readCappedAt d ''release.ini'' kMaximumReleaseRecordBytes) (\<lambda>c. case c of None \<Rightarrow> returnM None
              | Some content \<Rightarrow> bindM (liftE (parseRelease content)) (\<lambda>release.
                  if re_tag release \<noteq> tag then returnM None else readCappedAt d (asset_name @ ''.tar'') cap)))))
        (returnM None))"

definition removeCiRelease :: "string \<Rightarrow> string \<Rightarrow> unit io" where
  "removeCiRelease project_name tag =
     (if \<not> isValidProjectName project_name \<or> \<not> isValidReleaseTag tag then failM ''invalid release for removal''
      else thenM validatedMetadataRoot (thenM (callM (sys_remove_all (release_names project_name tag))) (returnM ())))"

section \<open>Removing a project\<close>

text \<open>A child loses its running entry, its lease and its queue entry, in this order.\<close>

definition revoke_child :: "path \<Rightarrow> path \<Rightarrow> path \<Rightarrow> CiJobRequest \<Rightarrow> unit io" where
  "revoke_child spool working leases child =
     (let entry = jb_job_id child @ ''.ini'' in
      thenM (forM [working, leases] (\<lambda>directory.
               thenM (unlink_or_fail directory entry ''could not revoke deleted project's child lease'')
                     (fsync_or_fail directory ''could not commit child lease revocation'')))
            (unlink_or_fail spool entry ''could not remove deleted project's queued child''))"

definition revoke_group :: "path \<Rightarrow> path \<Rightarrow> path \<Rightarrow> string \<Rightarrow> string \<Rightarrow> unit io" where
  "revoke_group ci spool groups project_name file =
     (if \<not> endsWith file ''.ini'' then returnM ()
      else bindM (readCappedAt groups file kMaximumWorkflowGroupBytes) (\<lambda>c. case c of None \<Rightarrow> returnM ()
        | Some bytes \<Rightarrow> bindM (liftE (parseWorkflowGroup bytes)) (\<lambda>group.
            if jb_project_name (wg_parent group) \<noteq> project_name then returnM ()
            else bindM (ensureDirAt ci ''working'') (\<lambda>working. bindM (ensureDirAt ci ''leases'') (\<lambda>leases.
                 thenM (forM (wg_children group) (revoke_child spool working leases))
                       (unlink_or_fail groups file ''could not remove deleted project's workflow journal''))))))"

definition commit_removal :: "path \<Rightarrow> path \<Rightarrow> unit io" where
  "commit_removal groups spool = thenM (fsync_or_fail groups ''could not commit workflow removal'')
     (fsync_or_fail spool ''could not commit workflow removal'')"

definition revoke_groups :: "path \<Rightarrow> path \<Rightarrow> string \<Rightarrow> unit io" where
  "revoke_groups ci spool project_name = bindM (openDirAt ci ''groups'') (\<lambda>r. case r of None \<Rightarrow> returnM ()
     | Some groups \<Rightarrow> bindM (listNames groups) (\<lambda>files.
         thenM (forM files (revoke_group ci spool groups project_name)) (commit_removal groups spool)))"

definition drop_project_files :: "string \<Rightarrow> unit io" where
  "drop_project_files project_name =
     thenM (callM (sys_remove_all [''ci'', ''runs'', project_name]))
     (thenM (callM (sys_remove [''ci'', ''projects'', project_name @ ''.ini'']))
     (thenM (callM (sys_remove_all [''releases'', project_name])) (returnM ())))"

definition removeProjectCi :: "string \<Rightarrow> unit io" where
  "removeProjectCi project_name =
     (if \<not> isValidProjectName project_name then failM ''invalid project name for CI removal''
      else bindM openRoot (\<lambda>root. bindM (ensureDirAt root ''ci'') (\<lambda>ci. bindM (ensureDirAt ci ''spool'') (\<lambda>spool.
        thenM (lockExclusive spool)
        (thenM (revoke_groups ci spool project_name) (drop_project_files project_name))))))"

section \<open>Ids sort by time\<close>

lemma digit_order: "is_digit c \<Longrightarrow> is_digit d \<Longrightarrow> digit_value c < digit_value d \<Longrightarrow> c < d"
  by (auto simp: is_digit_def digit_value_def less_char_def less_eq_char_def)

lemma hex8_digits: "length (hex8 x) = 8" "c \<in> set (hex8 x) \<Longrightarrow> is_lower_hex c"
proof -
  have "\<forall>c\<in>set hex_digits. is_lower_hex c" "length hex_digits = 16" by code_simp+
  moreover assume "c \<in> set (hex8 x)"
  ultimately show "is_lower_hex c" unfolding hex8_def by auto
qed (simp add: hex8_def)

lemma digits_value_Cons: "digits_value (c # s) = digit_value c * 10 ^ length s + digits_value s"
proof (induction s rule: rev_induct)
  case (snoc d s)
  then show ?case using digits_value_snoc [of "c # s" d] by (simp add: algebra_simps)
qed simp

lemma digits_value_bound: "\<forall>c\<in>set s. is_digit c \<Longrightarrow> digits_value s < 10 ^ length s"
proof (induction s)
  case (Cons c s)
  then have "digit_value c \<le> 9" "digits_value s < 10 ^ length s" by (auto simp: is_digit_def digit_value_def less_eq_char_def)
  then have "digit_value c * 10 ^ length s \<le> 9 * 10 ^ length s" by (intro mult_right_mono) auto
  with \<open>digits_value s < _\<close> show ?case unfolding digits_value_Cons length_Cons power_Suc by linarith
qed simp

text \<open>Digit strings of one length are ordered like their values.\<close>

lemma digits_order:
  assumes "length s = length t" "\<forall>c\<in>set s. is_digit c" "\<forall>c\<in>set t. is_digit c" "digits_value s < digits_value t"
  shows "s @ u < t @ v"
  using assms
proof (induction s t rule: list_induct2)
  case (Cons c s d t)
  have b: "digits_value s < 10 ^ length t" "digits_value t < 10 ^ length t"
    using digits_value_bound [of s] digits_value_bound [of t] Cons by auto
  show ?case
  proof (cases "digit_value c" "digit_value d" rule: linorder_cases)
    case less
    then show ?thesis using digit_order Cons.prems by simp
  next
    case equal
    moreover have "48 \<le> byte c" "48 \<le> byte d" using Cons.prems by (auto simp: is_digit_def less_eq_char_def)
    ultimately have "byte c = byte d" by (simp add: digit_value_def eq_diff_iff)
    then have "c = d" by (simp only: byte_eq_iff)
    then show ?thesis using Cons equal by (simp add: digits_value_Cons)
  next
    case greater
    then have "(digit_value d + 1) * 10 ^ length t \<le> digit_value c * 10 ^ length t" by (intro mult_right_mono) auto
    then have False using Cons.prems(3) Cons.hyps b by (simp add: digits_value_Cons algebra_simps)
    then show ?thesis ..
  qed
qed simp

lemma digits_value_zeros [simp]: "digits_value (replicate k CHR ''0'' @ s) = digits_value s"
  by (induction k) (simp_all add: digits_value_Cons digit_value_def)

lemma zero_padded_digits:
  assumes "n < 10 ^ k" "0 < k"
  shows "length (zero_padded k (to_dec n)) = k \<and> (\<forall>c\<in>set (zero_padded k (to_dec n)). is_digit c) \<and> digits_value (zero_padded k (to_dec n)) = n"
  using length_to_dec [OF assms] to_dec_digit by (auto simp: zero_padded_def is_digit_def)

text \<open>
  A generated id is a valid id, and an id made later sorts after every one made before, whatever the noise, until
  the clock of microseconds has more than twenty digits.
\<close>

theorem ids_in_order:
  assumes "m < n" "n < 10 ^ 20"
  shows "isValidCiId (ci_id m x) \<and> isValidCiId (ci_id n y) \<and> ci_id m x < ci_id n y"
proof -
  have hex: "is_lower c \<or> is_digit c" if "is_lower_hex c" for c
    using that by (auto simp: is_lower_hex_def is_lower_def char_le_byte)
  have valid: "isValidCiId (ci_id k z)" if "k < 10 ^ 20" for k z
    using zero_padded_digits [OF that] hex8_digits(1) [of z] hex8_digits(2) [of _ z] by (auto simp: ci_id_def isValidCiId_def kMaximumCiIdBytes_def dest: hex)
  have m: "m < 10 ^ 20" using assms by simp
  note pm = zero_padded_digits [OF m] and pn = zero_padded_digits [OF assms(2)]
  have "ci_id m x < ci_id n y" unfolding ci_id_def
    by (rule digits_order) (use pm pn assms(1) in auto)
  with valid [OF m] valid [OF assms(2)] show ?thesis by blast
qed

theorem ids_in_order_witness: "isValidCiId (ci_id 9 255) \<and> isValidCiId (ci_id 10 3) \<and> ci_id 9 255 < ci_id 10 3"
  by (rule ids_in_order) simp_all

section \<open>CI runs only where it is switched on\<close>

lemma split_on_snoc: "split_on c (s @ [c]) = split_on c s @ [[]]"
  by (induction s) (auto simp: split: list.split)

lemma unlines_join: "ls \<noteq> [] \<Longrightarrow> unlines ls = join newline ls @ [newline]"
  by (induction newline ls rule: join.induct) auto

lemma frame_Inr: "frame content = Inr lines \<Longrightarrow> content = unlines lines"
proof -
  assume f: "frame content = Inr lines"
  then obtain s where "content = s @ [newline]" by (auto simp: frame_def split: if_splits) (metis append_butlast_last_id)
  with f show ?thesis using unlines_join [of "split_on newline s"] by (auto simp: frame_def split_on_snoc)
qed

lemma parse_enabled_True: "parse_enabled content = Inr True \<Longrightarrow> content = enabled_text True"
proof -
  assume "parse_enabled content = Inr True"
  then obtain lines where "frame content = Inr lines" "length lines = 2" "lines ! 0 = ''schema_version=1''" "lines ! 1 = ''ci_enabled='' @ ''true''"
    unfolding parse_enabled_def by (auto simp: result_simps split: if_splits)
  moreover from this have "lines = [''schema_version=1'', ''ci_enabled='' @ ''true'']"
    by (auto simp: length_Suc_conv numeral_2_eq_2)
  ultimately show ?thesis using frame_Inr [of content lines] by (simp add: enabled_text_def)
qed

lemma parse_enabled_text: "parse_enabled (enabled_text b) = Inr b"
proof -
  have "frame (enabled_text b) = Inr [''schema_version=1'', ''ci_enabled='' @ (if b then ''true'' else ''false'')]"
    unfolding enabled_text_def by (rule frame_unlines) auto
  then show ?thesis by (cases b) (simp_all add: parse_enabled_def expectField_def starts_with_def)
qed

definition switch_file :: "string \<Rightarrow> path" where
  "switch_file project_name = [''ci'', ''projects'', project_name @ ''.ini'']"

text \<open>
  C28: whatever system calls fail, asking whether a project runs CI never throws, and the answer is yes only for a valid
  name whose private settings file holds exactly the text that switches it on.
\<close>

theorem ci_switch_closed:
  "\<exists>b. isProjectCiEnabled project_name w = (Inr b, w) \<and>
     (b \<longrightarrow> isValidProjectName project_name \<and> private_at w (switch_file project_name) (enabled_text True))"
proof -
  have "reads (isProjectCiEnabled project_name)" unfolding isProjectCiEnabled_def by (intro reads_intro)
  then obtain r where r: "isProjectCiEnabled project_name w = (r, w)" using reads_run by blast
  then have "\<exists>b. r = Inr b"
    by (auto simp: isProjectCiEnabled_def tryM_def returnM_def split: if_splits prod.splits sum.splits)
  then obtain b where b: "r = Inr b" ..
  have "isValidProjectName project_name \<and> private_at w (switch_file project_name) (enabled_text True)" if "b"
  proof -
    from r b that have v: "isValidProjectName project_name" by (auto simp: isProjectCiEnabled_def returnM_def split: if_splits)
    from r b that v obtain content where "private_at w (switch_file project_name) content" "parse_enabled content = Inr True"
      unfolding isProjectCiEnabled_def
      by (auto simp: tryM_def bindM_Inr_iff returnM_def liftE_def switch_file_def split: option.split_asm prod.split_asm sum.split_asm
          dest!: openRoot_Inr openDirAt_Some readCappedAt_Some)
    with v show ?thesis using parse_enabled_True by blast
  qed
  with r b show ?thesis by blast
qed

text \<open>A project that is switched on.\<close>

definition on_world :: world where
  "on_world = set_node (switch_file ''demo'') (private_file (enabled_text True) 0)
     (set_node [''ci'', ''projects''] (private_dir 0) (set_node [''ci''] (private_dir 0) empty_world))"

theorem ci_switch_closed_witness:
  "isProjectCiEnabled ''demo'' on_world = (Inr True, on_world) \<and> private_at on_world (switch_file ''demo'') (enabled_text True)"
proof -
  have w: "calm on_world" "dir_ok on_world []" "dirs_ok on_world [] [''ci'', ''projects'']"
      "private_at on_world ([''ci'', ''projects''] @ [''demo.ini'']) (enabled_text True)"
    by (simp_all add: on_world_def switch_file_def node_at_empty dir_ok_def private_dir_def private_file_def private_at_def)
  have "isValidProjectName ''demo''" by code_simp
  moreover have "length (enabled_text True) \<le> 4096" by (simp add: enabled_text_def)
  ultimately have on: "isProjectCiEnabled ''demo'' on_world = (Inr True, on_world)"
    using openRoot_run [OF w(1,2)] openPath_run [OF w(1,3)] readCappedAt_run [OF w(1,4), of 4096]
    by (simp add: isProjectCiEnabled_def tryM_def bind_run parse_enabled_text run_basic del: openPath.simps)
  with ci_switch_closed [of "''demo''" on_world] show ?thesis by auto
qed

section \<open>A removed project loses its leases\<close>

text \<open>What stays gone, and what stays readable, while journals are worked through.\<close>

interpretation vanishing: discipline "\<lambda>w. node_at w q = None" "\<lambda>_ _. True" for q
  by unfold_locales auto

interpretation holding: discipline "\<lambda>w. file_at w q = Some c" "\<lambda>_ _. True" for q c
  by unfold_locales auto

abbreviation gone :: "path \<Rightarrow> 'a io \<Rightarrow> bool" where
  "gone q m \<equiv> keeps (\<lambda>w. node_at w q = None) (\<lambda>_ _. True) m (\<lambda>_. True)"

abbreviation held :: "path \<Rightarrow> string \<Rightarrow> 'a io \<Rightarrow> bool" where
  "held q c m \<equiv> keeps (\<lambda>w. file_at w q = Some c) (\<lambda>_ _. True) m (\<lambda>_. True)"

lemma gone_dir: "q \<noteq> d @ [n] \<Longrightarrow> gone q (ensureDirAt d n)"
  using ensureDirAt_elsewhere [of q d n] by (simp add: keeps_def)

lemma gone_unlink: "gone q (unlinkAt d n)"
  by (rule vanishing.keeps_unlink) simp

lemma held_dir: "keeps (\<lambda>w. file_at w q = Some c) (\<lambda>_ _. True) (ensureDirAt d n) (\<lambda>x. x = d @ [n])"
proof -
  have "adds_dirs w (snd (ensureDirAt d n w))" for w using ensureDirAt_adds [of d n] by (simp add: keeps_def)
  then have "file_at (snd (ensureDirAt d n w)) q = file_at w q" for w by (rule adds_dirs_file)
  then show ?thesis using ensureDirAt_Inr [of d n] by (auto simp: keeps_def) (metis prod.collapse)
qed

lemma held_unlink: "q \<noteq> d @ [n] \<Longrightarrow> held q c (unlinkAt d n)"
  by (rule holding.keeps_unlink) (simp add: file_at_def)

lemma reads_sync: "reads (fsync_or_fail d m)"
  unfolding fsync_or_fail_def by (intro reads_intro)

lemma unlink_done: "unlink_or_fail d n m w = (Inr (), w') \<Longrightarrow> node_at w' (d @ [n]) = None"
  by (auto simp: unlink_or_fail_def unlinkAt_def sys_unlink_def callM_def bindM_def run_basic split: option.splits if_splits prod.splits)

lemma gone_unlink_or_fail: "gone q (unlink_or_fail d n m)"
  unfolding unlink_or_fail_def by (intro vanishing.any_rules vanishing.any_bind [OF gone_unlink])

lemma held_unlink_or_fail: "q \<noteq> d @ [n] \<Longrightarrow> held q c (unlink_or_fail d n m)"
  unfolding unlink_or_fail_def by (intro holding.any_rules holding.any_bind [OF held_unlink])

lemma gone_child: "gone q (revoke_child spool working leases child)"
  unfolding revoke_child_def Let_def
  by (intro vanishing.any_bind vanishing.keeps_for gone_unlink_or_fail vanishing.of_reads [OF reads_sync])

lemma held_child:
  "d \<notin> {spool, working, leases} \<Longrightarrow> held (d @ [n]) c (revoke_child spool working leases child)"
  unfolding revoke_child_def Let_def
  by (intro holding.any_bind holding.keeps_for held_unlink_or_fail holding.of_reads [OF reads_sync]) auto

lemma gone_group: "length q = 3 \<Longrightarrow> gone q (revoke_group [''ci''] spool groups project file)"
  unfolding revoke_group_def
  by (intro vanishing.any_rules vanishing.any_bind gone_dir gone_child gone_unlink_or_fail vanishing.of_reads) (auto intro: reads_intro)

lemma held_group:
  "f \<noteq> file \<Longrightarrow> held (groups_dir @ [f]) c (revoke_group [''ci''] spool_dir groups_dir project file)"
  unfolding revoke_group_def
  by (intro holding.keeps_if holding.keeps_option holding.any_return holding.any_bind [OF holding.of_reads [OF reads_helpers(4)]]
        holding.any_bind [OF holding.of_reads [OF reads_basic(4)]] holding.keeps_bind [OF held_dir] holding.any_bind holding.keeps_for
        held_child held_unlink_or_fail)
    (auto simp: groups_dir_def spool_dir_def)

text \<open>A loop that reaches an element establishes what its body does there, if the others leave that alone.\<close>

lemma forM_reaches:
  assumes "forM xs f w = (Inr (), w')" "x \<in> set xs" "J w"
    and "\<And>y. y \<in> set xs \<Longrightarrow> y \<noteq> x \<Longrightarrow> keeps J (\<lambda>_ _. True) (f y) (\<lambda>_. True)"
    and "\<And>w w'. J w \<Longrightarrow> f x w = (Inr (), w') \<Longrightarrow> node_at w' q = None" and "\<And>y. y \<in> set xs \<Longrightarrow> gone q (f y)"
  shows "node_at w' q = None"
  using assms
proof (induction xs arbitrary: w)
  case (Cons y ys)
  from Cons.prems(1) obtain w1 where 1: "f y w = (Inr (), w1)" and 2: "forM ys f w1 = (Inr (), w')"
    by (auto simp: bindM_Inr_iff)
  show ?case
  proof (cases "y = x")
    case True
    then have "node_at w1 q = None" using Cons.prems(3,5) 1 by blast
    moreover have "gone q (forM ys f)" using Cons.prems(6) by (intro vanishing.keeps_for) simp
    ultimately show ?thesis using 2 keepsD by blast
  next
    case False
    then have "keeps J (\<lambda>_ _. True) (f y) (\<lambda>_. True)" using Cons.prems(4) by simp
    then have "J w1" using Cons.prems(3) keepsD 1 by blast
    with False Cons show ?thesis using 2 by auto
  qed
qed simp

lemma child_revoked:
  assumes "revoke_child spool working leases child w = (Inr (), w')" "d \<in> {spool, working, leases}"
  shows "node_at w' (d @ [jb_job_id child @ ''.ini'']) = None"
proof -
  let ?n = "jb_job_id child @ ''.ini''"
  let ?q = "d @ [?n]"
  let ?drop = "\<lambda>d. thenM (unlink_or_fail d ?n ''could not revoke deleted project's child lease'')
      (fsync_or_fail d ''could not commit child lease revocation'')"
  have gone: "gone ?q (?drop e)" for e
    by (intro vanishing.any_bind gone_unlink_or_fail vanishing.of_reads [OF reads_sync])
  have dropped: "node_at w2 ?q = None" if "?drop d w1 = (Inr (), w2)" for w1 w2
    using that reads_sync [of d] unlink_done by (auto simp: bindM_Inr_iff reads_iff) (metis snd_conv)
  from assms(1) obtain w1 where 1: "forM [working, leases] ?drop w = (Inr (), w1)"
    and 2: "unlink_or_fail spool ?n ''could not remove deleted project's queued child'' w1 = (Inr (), w')"
    unfolding revoke_child_def Let_def by (auto elim: bindM_InrE simp del: forM.simps)
  show ?thesis
  proof (cases "d \<in> {working, leases}")
    case True
    have "node_at w1 ?q = None"
      by (rule forM_reaches [OF 1, where J = "\<lambda>_. True" and x = d]) (use True gone dropped in \<open>auto simp: keeps_def\<close>)
    then show ?thesis using 2 gone_unlink_or_fail [of ?q] keepsD by blast
  next
    case False
    then show ?thesis using assms(2) unlink_done [OF 2] by simp
  qed
qed

definition revoked_places :: "string \<Rightarrow> string \<Rightarrow> path set" where
  "revoked_places file job_id = {groups_dir @ [file], spool_dir @ [job_id @ ''.ini''], working_dir @ [job_id @ ''.ini''],
     leases_dir @ [job_id @ ''.ini'']}"

lemma group_revoked:
  assumes "revoke_group [''ci''] spool_dir groups_dir project file w = (Inr (), w')" "file_at w (groups_dir @ [file]) = Some bytes"
    and "endsWith file ''.ini''" "parseWorkflowGroup bytes = Inr g" "jb_project_name (wg_parent g) = project"
    and "child \<in> set (wg_children g)" "q \<in> revoked_places file (jb_job_id child)"
  shows "node_at w' q = None"
proof -
  have "node_at w (groups_dir @ [file]) \<noteq> None" using assms(2) by (auto simp: file_at_def split: option.split_asm)
  with assms(1,3) obtain c where read: "readCappedAt groups_dir file kMaximumWorkflowGroupBytes w = (Inr (Some c), w)"
    unfolding revoke_group_def using readCappedAt_None reads_run [OF reads_helpers(4)]
    by (auto elim!: bindM_InrE split: option.split_asm) (metis not_Some_eq snd_conv)+
  then have "c = bytes" using readCappedAt_Some [OF read] assms(2) by (auto simp: private_at_iff file_at_def)
  with assms read obtain working leases w1 w2 w3
    where dirs: "ensureDirAt [''ci''] ''working'' w = (Inr working, w1)" "ensureDirAt [''ci''] ''leases'' w1 = (Inr leases, w2)"
      and children: "forM (wg_children g) (revoke_child spool_dir working leases) w2 = (Inr (), w3)"
      and journal: "unlink_or_fail groups_dir file ''could not remove deleted project's workflow journal'' w3 = (Inr (), w')"
    by (auto simp: revoke_group_def bindM_Inr [where m = "readCappedAt groups_dir file kMaximumWorkflowGroupBytes", OF read] run_simps
        elim!: bindM_InrE)
  have places: "working = working_dir" "leases = leases_dir"
    using dirs [THEN ensureDirAt_Inr] by (auto simp: working_dir_def leases_dir_def)
  consider "q = groups_dir @ [file]" | d where "d \<in> {spool_dir, working_dir, leases_dir}" "q = d @ [jb_job_id child @ ''.ini'']"
    using assms(7) by (auto simp: revoked_places_def)
  then show ?thesis
  proof cases
    case 1
    then show ?thesis using unlink_done [OF journal] by simp
  next
    case 2
    have "node_at w3 q = None"
      by (rule forM_reaches [OF children assms(6), where J = "\<lambda>_. True"])
        (use 2 places child_revoked gone_child in \<open>auto simp: keeps_def\<close>)
    then show ?thesis using journal gone_unlink_or_fail [of q] keepsD by blast
  qed
qed

lemma gone_remove_tree: "gone q (callM (sys_remove_all d))"
  by (rule vanishing.keeps_remove_all) simp

lemma gone_remove: "gone q (callM (sys_remove d))"
  by (auto simp: keeps_callM sys_remove_def split: option.split)

lemma openDirAt_None: "openDirAt d n w = (Inr None, w') \<Longrightarrow> node_at w (d @ [n]) = None"
  by (auto simp: openDirAt_def bindM_def askM_def sys_open_dir_def verifyPrivate_def checkM_def run_basic
      split: option.splits if_splits sum.splits)

lemma revoked_length: "q \<in> revoked_places file j \<Longrightarrow> length q = 3"
  by (auto simp: revoked_places_def place_defs)

text \<open>
  C19: when the removal of a project returns, no job of its distributed workflows is queued or running or holds a lease
  any more, and their journals are gone; a failed removal of any of these files makes the whole removal throw.
\<close>

theorem removed_project_revoked:
  assumes "removeProjectCi project_name w = (Inr (), w')"
    and "dir_ok w groups_dir" "endsWith file ''.ini''" "file_at w (groups_dir @ [file]) = Some bytes" "parseWorkflowGroup bytes = Inr g"
    and "jb_project_name (wg_parent g) = project_name" "child \<in> set (wg_children g)" "q \<in> revoked_places file (jb_job_id child)"
  shows "node_at w' q = None"
proof -
  from assms(1) obtain w1 w2 w3 w5 ci spool
    where dirs: "ensureDirAt [] ''ci'' w = (Inr ci, w1)" "ensureDirAt ci ''spool'' w1 = (Inr spool, w2)"
      and lock: "lockExclusive spool w2 = (Inr (), w3)"
      and loop: "revoke_groups ci spool project_name w3 = (Inr (), w5)"
      and rest: "drop_project_files project_name w5 = (Inr (), w')"
    unfolding removeProjectCi_def by (auto elim!: bindM_InrE dest!: openRoot_Inr split: if_splits simp: run_basic)
  from loop obtain r w4 where groups: "openDirAt ci ''groups'' w3 = (Inr r, w4)"
    unfolding revoke_groups_def by (auto elim!: bindM_InrE)
  have names: "ci = [''ci'']" "spool = spool_dir" using dirs [THEN ensureDirAt_Inr] by (auto simp: spool_dir_def)
  have added: "adds_dirs w w1" "adds_dirs w1 w2" using ensureDirAt_adds dirs keepsD by blast+
  have same: "w3 = w2" "w4 = w3" using lock groups reads_helpers by (metis reads_iff snd_conv)+
  have journal: "file_at w4 (groups_dir @ [file]) = Some bytes" "dir_ok w4 groups_dir"
    using added same assms(2,4) by (auto simp: adds_dirs_file adds_dirs_dir_ok)
  then have "r = Some groups_dir" using groups same names openDirAt_Some [of "[''ci'']" "''groups''"] openDirAt_None [of "[''ci'']" "''groups''"]
    by (cases r) (auto simp: groups_dir_def dir_ok_iff)
  with loop names obtain files w6 where list: "listNames groups_dir w4 = (Inr files, w4)"
    and revoke: "forM files (revoke_group [''ci''] spool_dir groups_dir project_name) w4 = (Inr (), w6)"
    and sync: "commit_removal groups_dir spool_dir w6 = (Inr (), w5)"
    using reads_run [OF reads_helpers(5), of groups_dir w4] groups
    by (auto simp: revoke_groups_def bindM_Inr [where m = "openDirAt ci ''groups''", OF groups] elim!: bindM_InrE)
  have "file \<in> set files" using list journal(1)
    by (auto simp: listNames_def bindM_askM run_simps names_in_iff file_at_def split: if_splits option.split_asm)
  then have "node_at w6 q = None"
  proof (rule forM_reaches [OF revoke, where J = "\<lambda>w. file_at w (groups_dir @ [file]) = Some bytes" and x = "file"])
    show "keeps (\<lambda>w. file_at w (groups_dir @ [file]) = Some bytes) (\<lambda>_ _. True) (revoke_group [''ci''] spool_dir groups_dir project_name y) (\<lambda>_. True)"
      if "y \<noteq> file" for y
      using that by (intro held_group) simp
    show "node_at v' q = None" if "file_at v (groups_dir @ [file]) = Some bytes"
        "revoke_group [''ci''] spool_dir groups_dir project_name file v = (Inr (), v')" for v v'
      using group_revoked [OF that(2,1) assms(3,5,6,7,8)] .
  qed (use journal(1) gone_group [OF revoked_length [OF assms(8)]] in auto)
  moreover have "gone q (commit_removal groups_dir spool_dir)"
    unfolding commit_removal_def by (intro vanishing.of_reads reads_intro reads_sync)
  moreover have "gone q (drop_project_files project_name)"
    unfolding drop_project_files_def by (intro vanishing.any_bind gone_remove_tree gone_remove vanishing.any_return)
  ultimately show ?thesis using sync rest keepsD by blast
qed

text \<open>A project whose workflow has one job with a lease.\<close>

definition doomed_world :: world where
  "doomed_world =
     set_node (leases_dir @ [''c-1.ini'']) (private_file ''x'' 0) (
     set_node (groups_dir @ [''p-1.ini'']) (private_file (unlines (group_lines sample_group)) 0) (
     set_node leases_dir (private_dir 0) (set_node groups_dir (private_dir 0) (set_node working_dir (private_dir 0) (
     set_node spool_dir (private_dir 0) (set_node [''ci''] (private_dir 0) empty_world))))))"

lemma doomed_world_nodes:
  "calm doomed_world" "dir_ok doomed_world []" "dir_ok doomed_world [''ci'']" "dir_ok doomed_world groups_dir"
  "dir_ok doomed_world spool_dir" "dir_ok doomed_world working_dir" "dir_ok doomed_world leases_dir"
  "private_at doomed_world (groups_dir @ [''p-1.ini'']) (unlines (group_lines sample_group))"
  "file_at doomed_world (groups_dir @ [''p-1.ini'']) = Some (unlines (group_lines sample_group))"
  by (simp_all add: doomed_world_def place_defs node_at_empty dir_ok_def private_dir_def private_file_def private_at_def file_at_def)

lemma doomed_world_names: "names_in doomed_world groups_dir = [''p-1.ini'']"
  by (simp add: doomed_world_def names_in_def set_node_def place_defs empty_world_def)

lemma unlink_or_fail_run:
  "calm w \<Longrightarrow> (\<And>n. node_at w (d @ [m]) = Some n \<Longrightarrow> nd_kind n \<noteq> Directory) \<Longrightarrow>
   unlink_or_fail d m e w = (Inr (), if node_at w (d @ [m]) = None then w else remove_node (d @ [m]) w)"
  by (auto simp: unlink_or_fail_def unlinkAt_def sys_unlink_def callM_def bind_run run_basic calm_def split: option.split)

lemma fsync_or_fail_run: "calm w \<Longrightarrow> fsync_or_fail d e w = (Inr (), w)"
  by (simp add: fsync_or_fail_def fsyncAt_def sys_sync_def bind_run run_basic calm_def)

definition peaceful :: "world \<Rightarrow> bool" where
  "peaceful w \<longleftrightarrow> calm w \<and> (\<forall>d i n. length d = 2 \<longrightarrow> node_at w (d @ [i @ ''.ini'']) = Some n \<longrightarrow> nd_kind n \<noteq> Directory)"

lemma peaceful_remove: "peaceful w \<Longrightarrow> peaceful (remove_node q w)"
  by (simp add: peaceful_def)

lemma peaceful_unlink:
  assumes "peaceful w" "length d = 2"
  shows "\<exists>w'. unlink_or_fail d (i @ ''.ini'') e w = (Inr (), w') \<and> peaceful w'"
  using unlink_or_fail_run [of w d "i @ ''.ini''" e] assms peaceful_remove [OF assms(1)] by (auto simp: peaceful_def)

lemma peaceful_child:
  assumes "peaceful w"
  shows "\<exists>w'. revoke_child spool_dir working_dir leases_dir child w = (Inr (), w') \<and> peaceful w'"
proof -
  have l: "length spool_dir = 2" "length working_dir = 2" "length leases_dir = 2" by (simp_all add: place_defs)
  have step: "\<exists>w'. thenM (unlink_or_fail d (i @ ''.ini'') e) (fsync_or_fail d e') w = (Inr (), w') \<and> peaceful w'"
    if "peaceful w" "length d = 2" for w d i e e'
    using peaceful_unlink [OF that, of i e] fsync_or_fail_run by (auto simp: bind_run peaceful_def)
  obtain w1 where 1: "thenM (unlink_or_fail working_dir (ini (jb_job_id child)) ''could not revoke deleted project's child lease'')
      (fsync_or_fail working_dir ''could not commit child lease revocation'') w = (Inr (), w1)" "peaceful w1"
    using step [OF assms l(2)] by blast
  obtain w2 where 2: "thenM (unlink_or_fail leases_dir (ini (jb_job_id child)) ''could not revoke deleted project's child lease'')
      (fsync_or_fail leases_dir ''could not commit child lease revocation'') w1 = (Inr (), w2)" "peaceful w2"
    using step [OF 1(2) l(3)] by blast
  obtain w3 where 3: "unlink_or_fail spool_dir (ini (jb_job_id child)) ''could not remove deleted project's queued child'' w2 = (Inr (), w3)"
      "peaceful w3"
    using peaceful_unlink [OF 2(2) l(1)] by blast
  show ?thesis using 1(1) 2(1) 3 by (simp add: revoke_child_def Let_def bindM_def returnM_def)
qed

lemma peaceful_children:
  "peaceful w \<Longrightarrow> \<exists>w'. forM children (revoke_child spool_dir working_dir leases_dir) w = (Inr (), w') \<and> peaceful w'"
proof (induction children arbitrary: w)
  case (Cons child children)
  from peaceful_child [OF Cons.prems, of child] obtain w1
    where "revoke_child spool_dir working_dir leases_dir child w = (Inr (), w1)" "peaceful w1" by blast
  with Cons.IH show ?case by (auto simp: bind_run)
qed (simp add: run_basic)

lemma doomed_removed: "\<exists>w'. removeProjectCi ''demo'' doomed_world = (Inr (), w')"
proof -
  let ?w = doomed_world
  have name: "isValidProjectName ''demo''" by code_simp

  have project: "jb_project_name (wg_parent sample_group) = ''demo''" by (simp add: sample_group_def sample_job_def)
  have "length (unlines (group_lines sample_group)) \<le> kMaximumWorkflowGroupBytes"
  proof -
    have "list_all (\<lambda>c. length (serializeJob c) \<le> 8192) (wg_children sample_group)" "length (serializeJob (wg_parent sample_group)) \<le> 8192"
      using sample_group_storable job_lines_bound by (auto simp: list_all_iff)
    then show ?thesis by (simp add: group_lines_def sample_group_def kMaximumWorkflowGroupBytes_def)
  qed
  note read = readCappedAt_run [OF doomed_world_nodes(1,8) this]
  have parsed: "parseWorkflowGroup (unlines (group_lines sample_group)) = Inr sample_group"
    by (rule group_roundtrip [OF sample_group_valid sample_group_storable])
  have dirs: "ensureDirAt [] ''ci'' ?w = (Inr [''ci''], ?w)" "ensureDirAt [''ci''] ''spool'' ?w = (Inr spool_dir, ?w)"
    "ensureDirAt [''ci''] ''working'' ?w = (Inr working_dir, ?w)" "ensureDirAt [''ci''] ''leases'' ?w = (Inr leases_dir, ?w)"
    "openDirAt [''ci''] ''groups'' ?w = (Inr (Some groups_dir), ?w)"
    using ensureDirAt_there [OF doomed_world_nodes(1), of "[]" "''ci''"] ensureDirAt_there [OF doomed_world_nodes(1), of "[''ci'']"]
      openDirAt_run [OF doomed_world_nodes(1), of "[''ci'']" "''groups''"] doomed_world_nodes(3-7)
    by (simp_all add: place_defs)
  have list: "listNames groups_dir ?w = (Inr [''p-1.ini''], ?w)"
    using doomed_world_nodes(1) by (simp add: listNames_def bindM_askM calm_def doomed_world_names run_basic)
  have "peaceful ?w"
    using doomed_world_nodes(1)
    by (auto simp: peaceful_def doomed_world_def place_defs node_at_empty private_file_def length_Suc_conv numeral_2_eq_2)
  then obtain w1 where children: "forM (wg_children sample_group) (revoke_child spool_dir working_dir leases_dir) ?w = (Inr (), w1)"
    and "peaceful w1" using peaceful_children by blast
  have "length groups_dir = 2" by (simp add: place_defs)
  then obtain w2 where journal: "unlink_or_fail groups_dir ''p-1.ini'' ''could not remove deleted project's workflow journal'' w1 = (Inr (), w2)"
    and w2: "peaceful w2" using peaceful_unlink [OF \<open>peaceful w1\<close>, of groups_dir "''p-1''"] by auto
  have "revoke_group [''ci''] spool_dir groups_dir ''demo'' ''p-1.ini'' ?w = (Inr (), w2)"
    by (simp add: revoke_group_def bind_run read parsed project dirs children journal run_basic endsWith_def ends_with_def)
  then have "revoke_groups [''ci''] spool_dir ''demo'' ?w = (Inr (), w2)"
    using w2 by (simp add: revoke_groups_def bind_run dirs list commit_removal_def fsync_or_fail_run peaceful_def run_basic)
  moreover have "\<exists>w'. drop_project_files ''demo'' w2 = (Inr (), w')"
    by (simp add: drop_project_files_def bind_run callM_run run_basic)
  ultimately show ?thesis using name
    by (auto simp: removeProjectCi_def bind_run openRoot_run [OF doomed_world_nodes(1,2)] dirs lockExclusive_run [OF doomed_world_nodes(1)])
qed

theorem removed_project_revoked_witness:
  "\<exists>w'. removeProjectCi ''demo'' doomed_world = (Inr (), w') \<and> node_at doomed_world (leases_dir @ [''c-1.ini'']) \<noteq> None
     \<and> node_at w' (leases_dir @ [''c-1.ini'']) = None"
proof -
  obtain w' where w': "removeProjectCi ''demo'' doomed_world = (Inr (), w')" using doomed_removed by blast
  have child: "sample_child ''c-1'' ''build'' [] \<in> set (wg_children sample_group)"
    and facts: "jb_project_name (wg_parent sample_group) = ''demo''" "endsWith ''p-1.ini'' ''.ini''"
      "leases_dir @ [''c-1.ini''] \<in> revoked_places ''p-1.ini'' (jb_job_id (sample_child ''c-1'' ''build'' []))"
    by (simp_all add: sample_group_def sample_job_def endsWith_def ends_with_def revoked_places_def sample_child_def)
  have parsed: "parseWorkflowGroup (unlines (group_lines sample_group)) = Inr sample_group"
    by (rule group_roundtrip [OF sample_group_valid sample_group_storable])
  have "node_at doomed_world (leases_dir @ [''c-1.ini'']) \<noteq> None" by (simp add: doomed_world_def)
  moreover have "node_at w' (leases_dir @ [''c-1.ini'']) = None"
    by (rule removed_project_revoked [OF w' doomed_world_nodes(4) facts(2) doomed_world_nodes(9) parsed facts(1) child facts(3)])
  ultimately show ?thesis using w' by blast
qed

section \<open>A runner record that cannot be read\<close>

text \<open>
  A contact of a runner whose record cannot be read once, for whatever reason, replaces the record by a fresh one: an
  administrator's decision to disable the runner is forgotten, and so are its labels.
\<close>

lemma unreadable_runner_enabled:
  assumes "loadCiRunnerRecord name w = (Inr None, w)"
    and "writeCiRunnerRecord (new_runner\<lparr>rn_name := name, rn_last_seen_epoch_seconds := fst (apfst projr (currentEpoch w))\<rparr>) w = (Inr (), w')"
  shows "noteCiRunnerSeen name [] w = (Inr (), w') \<and> rn_enabled new_runner \<and> rn_labels new_runner = []"
  using assms by (simp add: noteCiRunnerSeen_def tryM_def bind_run currentEpoch_def run_basic Let_def new_runner_def)

end
