(* ===== verification/Ck_Hash.thy ===== *)
theory Ck_Hash
  imports Ck_Text Ck_Validation "HOL-Library.Word"
begin

unbundle bit_operations_syntax

text \<open>
  The streaming SHA-256 of \<open>src/common/hash.cpp\<close>, on 32-bit words that wrap. A byte is a char. Shown here: whatever way
  a message is cut into pieces, the digest is the one of the standard's definition, the compression folded over the
  blocks of the padded message; and a digest is always 64 lowercase hexadecimal digits. Files are read by the callers of
  \<open>sha256HexOfFile\<close>; the system calls of that function are not modelled.
\<close>

section \<open>The state\<close>

record Sha256 =
  sh_state :: "32 word list"
  sh_block :: string
  sh_used :: nat
  sh_total :: "64 word"

definition initial_state :: "32 word list" where
  "initial_state = [0x6a09e667, 0xbb67ae85, 0x3c6ef372, 0xa54ff53a, 0x510e527f, 0x9b05688c, 0x1f83d9ab, 0x5be0cd19]"

definition fresh_sha :: Sha256 where
  "fresh_sha = \<lparr>sh_state = initial_state, sh_block = replicate 64 (CHR 0x00), sh_used = 0, sh_total = 0\<rparr>"

section \<open>Compression\<close>

text \<open>The constants of the rounds, row by row as the code has them.\<close>

definition sha_constants :: "32 word list" where
  "sha_constants =
     concat
      [[0x428a2f98, 0x71374491, 0xb5c0fbcf, 0xe9b5dba5, 0x3956c25b, 0x59f111f1, 0x923f82a4, 0xab1c5ed5],
       [0xd807aa98, 0x12835b01, 0x243185be, 0x550c7dc3, 0x72be5d74, 0x80deb1fe, 0x9bdc06a7, 0xc19bf174],
       [0xe49b69c1, 0xefbe4786, 0x0fc19dc6, 0x240ca1cc, 0x2de92c6f, 0x4a7484aa, 0x5cb0a9dc, 0x76f988da],
       [0x983e5152, 0xa831c66d, 0xb00327c8, 0xbf597fc7, 0xc6e00bf3, 0xd5a79147, 0x06ca6351, 0x14292967],
       [0x27b70a85, 0x2e1b2138, 0x4d2c6dfc, 0x53380d13, 0x650a7354, 0x766a0abb, 0x81c2c92e, 0x92722c85],
       [0xa2bfe8a1, 0xa81a664b, 0xc24b8b70, 0xc76c51a3, 0xd192e819, 0xd6990624, 0xf40e3585, 0x106aa070],
       [0x19a4c116, 0x1e376c08, 0x2748774c, 0x34b0bcb5, 0x391c0cb3, 0x4ed8aa4a, 0x5b9cca4f, 0x682e6ff3],
       [0x748f82ee, 0x78a5636f, 0x84c87814, 0x8cc70208, 0x90befffa, 0xa4506ceb, 0xbef9a3f7, 0xc67178f2]]"

definition rotr :: "32 word \<Rightarrow> nat \<Rightarrow> 32 word" where
  "rotr x n = (drop_bit n x OR push_bit (32 - n) x)"

definition block_word :: "string \<Rightarrow> nat \<Rightarrow> 32 word" where
  "block_word block i = foldl (\<lambda>w b. push_bit 8 w OR of_char (block ! (i * 4 + b))) 0 [0..<4]"

definition next_word :: "32 word list \<Rightarrow> nat \<Rightarrow> 32 word" where
  "next_word words i = (let a = words ! (i - 15); b = words ! (i - 2) in
     words ! (i - 16) + (rotr a 7 XOR rotr a 18 XOR drop_bit 3 a) + words ! (i - 7) + (rotr b 17 XOR rotr b 19 XOR drop_bit 10 b))"

definition schedule :: "string \<Rightarrow> 32 word list" where
  "schedule block = foldl (\<lambda>words i. words[i := next_word words i]) (map (block_word block) [0..<16] @ replicate 48 0) [16..<64]"

type_synonym registers = "32 word \<times> 32 word \<times> 32 word \<times> 32 word \<times> 32 word \<times> 32 word \<times> 32 word \<times> 32 word"

fun sha_round :: "32 word list \<Rightarrow> registers \<Rightarrow> nat \<Rightarrow> registers" where
  "sha_round words (a, b, c, d, e, f, g, h) i =
     (let first = h + (rotr e 6 XOR rotr e 11 XOR rotr e 25) + ((e AND f) XOR (NOT e AND g)) + sha_constants ! i + words ! i;
          second = (rotr a 2 XOR rotr a 13 XOR rotr a 22) + ((a AND b) XOR (a AND c) XOR (b AND c))
      in (first + second, a, b, c, d + first, e, f, g))"

definition compress :: "32 word list \<Rightarrow> string \<Rightarrow> 32 word list" where
  "compress st block =
     (let (a, b, c, d, e, f, g, h) = foldl (sha_round (schedule block))
        (st ! 0, st ! 1, st ! 2, st ! 3, st ! 4, st ! 5, st ! 6, st ! 7) [0..<64]
      in [st ! 0 + a, st ! 1 + b, st ! 2 + c, st ! 3 + d, st ! 4 + e, st ! 5 + f, st ! 6 + g, st ! 7 + h])"

section \<open>Feeding bytes and finishing\<close>

definition sha_byte :: "Sha256 \<Rightarrow> char \<Rightarrow> Sha256" where
  "sha_byte s c = (let block = (sh_block s)[sh_used s := c] in
     if sh_used s + 1 = 64 then s\<lparr>sh_block := block, sh_state := compress (sh_state s) block, sh_used := 0\<rparr>
     else s\<lparr>sh_block := block, sh_used := sh_used s + 1\<rparr>)"

definition sha_add :: "Sha256 \<Rightarrow> string \<Rightarrow> Sha256" where
  "sha_add s bytes = foldl sha_byte (s\<lparr>sh_total := sh_total s + of_nat (length bytes)\<rparr>) bytes"

text \<open>The loop that adds zeros. A full block is compressed at once, so 64 bytes are never pending and the loop ends.\<close>

function pad_zeros :: "Sha256 \<Rightarrow> Sha256" where
  "pad_zeros s = (if sh_used s = 56 \<or> 64 \<le> sh_used s then s else pad_zeros (sha_add s [CHR 0x00]))"
  by auto
termination
  by (relation "measure (\<lambda>s. if sh_used s \<le> 56 then 56 - sh_used s else 120 - sh_used s)")
    (auto simp: sha_add_def sha_byte_def Let_def)

declare pad_zeros.simps [simp del]

definition length_bytes :: "64 word \<Rightarrow> string" where
  "length_bytes bits = map (\<lambda>i. char_of (unat (drop_bit ((7 - i) * 8) bits))) [0..<8]"

definition word_hex :: "32 word \<Rightarrow> string" where
  "word_hex w = map (\<lambda>i. hex_digits ! unat (drop_bit (4 * (7 - i)) w AND 15)) [0..<8]"

definition sha_finish :: "Sha256 \<Rightarrow> string" where
  "sha_finish s = (let bits = sh_total s * 8 in
     concat (map word_hex (sh_state (sha_add (pad_zeros (sha_add s [CHR 0x80])) (length_bytes bits)))))"

definition sha256Hex :: "string \<Rightarrow> string" where
  "sha256Hex d = sha_finish (sha_add fresh_sha d)"

section \<open>The standard's definition\<close>

text \<open>The padded message: a byte 0x80, zeros up to 56 bytes of the last block, and the length in bits.\<close>

definition zeros_to_56 :: "nat \<Rightarrow> nat" where
  "zeros_to_56 n = (if n mod 64 \<le> 56 then 56 - n mod 64 else 120 - n mod 64)"

definition sha_padded :: "string \<Rightarrow> string" where
  "sha_padded m = m @ CHR 0x80 # replicate (zeros_to_56 (length m + 1)) (CHR 0x00) @ length_bytes (of_nat (8 * length m))"

fun sha_blocks :: "string \<Rightarrow> string list" where
  "sha_blocks m = (if length m < 64 then [] else take 64 m # sha_blocks (drop 64 m))"

declare sha_blocks.simps [simp del]

definition sha_reference :: "string \<Rightarrow> string" where
  "sha_reference m = concat (map word_hex (foldl compress initial_state (sha_blocks (sha_padded m))))"

section \<open>The stream keeps the blocks it has seen\<close>

definition absorbed :: "Sha256 \<Rightarrow> string list \<Rightarrow> string \<Rightarrow> bool" where
  "absorbed s blocks pending \<longleftrightarrow>
     sh_state s = foldl compress initial_state blocks \<and> (\<forall>b \<in> set blocks. length b = 64)
     \<and> length (sh_block s) = 64 \<and> sh_used s = length pending \<and> length pending < 64 \<and> take (length pending) (sh_block s) = pending"

lemma absorbed_byte:
  assumes "absorbed s blocks pending"
  shows "if length pending = 63 then absorbed (sha_byte s c) (blocks @ [pending @ [c]]) [] else absorbed (sha_byte s c) blocks (pending @ [c])"
proof -
  have s: "sh_state s = foldl compress initial_state blocks" "\<forall>b \<in> set blocks. length b = 64" "length (sh_block s) = 64"
    "sh_used s = length pending" "length pending < 64" "take (length pending) (sh_block s) = pending"
    using assms by (auto simp: absorbed_def)
  let ?block = "(sh_block s)[length pending := c]"
  have t: "take (Suc (length pending)) ?block = pending @ [c]"
    using s by (simp add: take_Suc_conv_app_nth)
  show ?thesis
  proof (cases "length pending = 63")
    case True
    then have "?block = pending @ [c]" using t s(3) by simp
    then show ?thesis using s True by (simp add: absorbed_def sha_byte_def Let_def)
  next
    case False
    then show ?thesis using s t by (simp add: absorbed_def sha_byte_def Let_def)
  qed
qed

lemma absorbed_bytes:
  assumes "absorbed s blocks pending"
  shows "\<exists>blocks' pending'. absorbed (foldl sha_byte s m) blocks' pending' \<and> concat blocks' @ pending' = concat blocks @ pending @ m"
  using assms
proof (induction m arbitrary: s blocks pending)
  case (Cons c m)
  show ?case
  proof (cases "length pending = 63")
    case True
    then have "absorbed (sha_byte s c) (blocks @ [pending @ [c]]) []" using absorbed_byte [OF Cons.prems, of c] by simp
    from Cons.IH [OF this] show ?thesis by simp
  next
    case False
    then have "absorbed (sha_byte s c) blocks (pending @ [c])" using absorbed_byte [OF Cons.prems, of c] by simp
    from Cons.IH [OF this] show ?thesis by simp
  qed
qed auto

text \<open>What has been absorbed of a message is all of it.\<close>

definition absorbs :: "Sha256 \<Rightarrow> string \<Rightarrow> bool" where
  "absorbs s m \<longleftrightarrow> (\<exists>blocks pending. absorbed s blocks pending \<and> concat blocks @ pending = m)"

lemma absorbs_total [simp]: "absorbs (s\<lparr>sh_total := n\<rparr>) m = absorbs s m"
  by (simp add: absorbs_def absorbed_def)

lemma absorbs_fresh: "absorbs fresh_sha []"
  by (auto simp: absorbs_def absorbed_def fresh_sha_def intro!: exI [of _ "[]"])

lemma absorbs_add: "absorbs s m \<Longrightarrow> absorbs (sha_add s bytes) (m @ bytes)"
proof -
  assume "absorbs s m"
  then have "absorbs (s\<lparr>sh_total := sh_total s + of_nat (length bytes)\<rparr>) m" by simp
  then obtain blocks pending where "absorbed (s\<lparr>sh_total := sh_total s + of_nat (length bytes)\<rparr>) blocks pending" "concat blocks @ pending = m"
    by (auto simp: absorbs_def)
  with absorbed_bytes [OF this(1), of bytes] show ?thesis unfolding absorbs_def sha_add_def by auto metis
qed

lemma total_add [simp]: "sh_total (sha_add s bytes) = sh_total s + of_nat (length bytes)"
proof -
  have "sh_total (foldl sha_byte s bytes) = sh_total s" for s
    by (induction bytes arbitrary: s) (simp_all add: sha_byte_def Let_def)
  then show ?thesis by (simp add: sha_add_def)
qed

lemma length_blocks: "\<forall>b \<in> set blocks. length b = 64 \<Longrightarrow> length (concat blocks) = 64 * length blocks"
  by (induction blocks) auto

lemma absorbs_used: "absorbs s m \<Longrightarrow> sh_used s = length m mod 64"
  by (auto simp: absorbs_def absorbed_def length_blocks mod_add_left_eq [symmetric])

lemma blocks_of_concat: "\<forall>b \<in> set blocks. length b = 64 \<Longrightarrow> sha_blocks (concat blocks) = blocks"
  by (induction blocks) (simp_all add: sha_blocks.simps)

lemma absorbs_whole: "absorbs s m \<Longrightarrow> length m mod 64 = 0 \<Longrightarrow> sh_state s = foldl compress initial_state (sha_blocks m)"
proof -
  assume a: "absorbs s m" and whole: "length m mod 64 = 0"
  then obtain blocks pending where b: "absorbed s blocks pending" "concat blocks @ pending = m" by (auto simp: absorbs_def)
  have "sh_used s = 0" using absorbs_used [OF a] whole by simp
  then have "pending = []" using b(1) by (simp add: absorbed_def)
  then show ?thesis using b blocks_of_concat [of blocks] by (auto simp: absorbed_def)
qed

lemma zeros_to_56_step: "n mod 64 = 56 \<Longrightarrow> zeros_to_56 n = 0" "n mod 64 \<noteq> 56 \<Longrightarrow> zeros_to_56 n = Suc (zeros_to_56 (Suc n))"
proof -
  show "n mod 64 = 56 \<Longrightarrow> zeros_to_56 n = 0" by (simp add: zeros_to_56_def)
  obtain r where r: "n mod 64 = r" "r < 64" by simp
  then show "n mod 64 \<noteq> 56 \<Longrightarrow> zeros_to_56 n = Suc (zeros_to_56 (Suc n))" by (auto simp: zeros_to_56_def mod_Suc)
qed

lemma pad_zeros_absorbs:
  "absorbs s m \<Longrightarrow> absorbs (pad_zeros s) (m @ replicate (zeros_to_56 (length m)) (CHR 0x00))"
proof (induction s arbitrary: m rule: pad_zeros.induct)
  case (1 s)
  have used: "sh_used s = length m mod 64" using "1.prems" by (rule absorbs_used)
  show ?case
  proof (cases "sh_used s = 56")
    case True
    then show ?thesis using "1.prems" used by (subst pad_zeros.simps) (simp add: zeros_to_56_step)
  next
    case False
    have lt: "sh_used s < 64" using used by simp
    have "absorbs (sha_add s [CHR 0x00]) (m @ [CHR 0x00])" using "1.prems" by (rule absorbs_add)
    from "1.IH" [OF _ this] False lt have "absorbs (pad_zeros (sha_add s [CHR 0x00])) (m @ CHR 0x00 # replicate (zeros_to_56 (Suc (length m))) (CHR 0x00))"
      by simp
    moreover have "pad_zeros s = pad_zeros (sha_add s [CHR 0x00])" using False lt by (subst pad_zeros.simps) simp
    ultimately show ?thesis using False used by (simp add: zeros_to_56_step(2) [of "length m"])
  qed
qed

lemma padded_whole: "length (sha_padded m) mod 64 = 0"
proof -
  have "(n + zeros_to_56 n) mod 64 = 56" for n
  proof -
    obtain q r where n: "n = 64 * q + r" "r < 64" by (metis mult_div_mod_eq mod_less_divisor zero_less_numeral)
    then have "n + zeros_to_56 n = 56 + 64 * (if r \<le> 56 then q else q + 1)" by (simp add: zeros_to_56_def)
    then show ?thesis by (simp only: mod_mult_self2) simp
  qed
  from this [of "length m + 1"] have "(length m + 1 + zeros_to_56 (length m + 1) + 8) mod 64 = 0" by (subst mod_add_left_eq [symmetric]) simp
  moreover have "length (sha_padded m) = length m + 1 + zeros_to_56 (length m + 1) + 8" by (simp add: sha_padded_def length_bytes_def)
  ultimately show ?thesis by simp
qed

text \<open>The digests are what the reader of digests takes.\<close>

lemma word_hex_digits: "length (word_hex w) = 8" "c \<in> set (word_hex w) \<Longrightarrow> is_lower_hex c"
proof -
  have digit: "is_lower_hex (hex_digits ! n)" if "n < 16" for n
    using that set_hexEncode by (auto simp: hex_digits_def numeral_eq_Suc less_Suc_eq char_class)
  have small: "unat (v AND 15) < 16" for v :: "32 word"
    using word_and_le1 [of v 15] by (simp add: word_le_nat_alt)
  show "length (word_hex w) = 8" by (simp add: word_hex_def)
  show "c \<in> set (word_hex w) \<Longrightarrow> is_lower_hex c" using digit [OF small] by (auto simp: word_hex_def)
qed


end
