(* ===== verification/Ck_Yaml.thy ===== *)
theory Ck_Yaml
  imports Ck_Text Ck_Charconv
begin

text \<open>
  The strict YAML subset of \<open>src/common/yaml_subset.cpp\<close>: comments, quoting, flow collections, block scalars and the
  block parser. The parser's position is the list of the lines that are still unread. Its mutually recursive loops run
  on fuel, and \<open>yaml_fuel\<close> units are shown to be enough for every document; \<open>Out_of_fuel\<close> is no value of the code.
  A document that is accepted has a tree that keeps every bound of the dialect.
\<close>

section \<open>Trees, bounds, errors\<close>

datatype YamlNode =
    Scalar (yn_line: nat) (yn_scalar: string)
  | Sequence (yn_line: nat) (yn_items: "YamlNode list")
  | Mapping (yn_line: nat) (yn_entries: "(string \<times> YamlNode) list")

record YamlBounds =
  yb_document_bytes :: nat
  yb_line_bytes :: nat
  yb_lines :: nat
  yb_key_bytes :: nat
  yb_scalar_bytes :: nat
  yb_block_scalar_bytes :: nat
  yb_flow_sequence_items :: nat
  yb_block_sequence_items :: nat
  yb_mapping_entries :: nat
  yb_nesting_depth :: nat

record YamlDialect =
  yd_bounds :: YamlBounds
  yd_prefix :: string
  yd_document :: string

datatype yaml_stop = Thrown ck_error | Out_of_fuel

type_synonym 'a parsed = "yaml_stop + 'a"

definition yamlMalformed :: "YamlDialect \<Rightarrow> string \<Rightarrow> nat \<Rightarrow> 'a parsed" where
  "yamlMalformed dialect message line =
     Inl (Thrown (Runtime_Error (yd_prefix dialect @ '': '' @ message @ '' (line '' @ to_dec line @ '')'')))"

definition yamlTooLarge :: "YamlDialect \<Rightarrow> string \<Rightarrow> 'a parsed" where
  "yamlTooLarge dialect message = Inl (Thrown (Length_Error (yd_prefix dialect @ '': '' @ message)))"

record RawLine =
  rl_indent :: nat
  rl_content :: string
  rl_number :: nat
  rl_blank :: bool

section \<open>Comments, quotes and flow collections\<close>

definition isPlainKeyByte :: "char \<Rightarrow> bool" where
  "isPlainKeyByte c \<longleftrightarrow> is_upper c \<or> is_lower c \<or> is_digit c \<or> c = CHR ''.'' \<or> c = CHR ''_'' \<or> c = CHR ''-''"

abbreviation squote :: char where "squote \<equiv> CHR 0x27"
abbreviation dquote :: char where "dquote \<equiv> CHR 0x22"
abbreviation backslash :: char where "backslash \<equiv> CHR 0x5C"

datatype quoting = Plain | Single | Double

definition opens_flow :: "char \<Rightarrow> bool" where "opens_flow c \<longleftrightarrow> c = CHR ''['' \<or> c = CHR 0x7B"
definition closes_flow :: "char \<Rightarrow> bool" where "closes_flow c \<longleftrightarrow> c = CHR '']'' \<or> c = CHR 0x7D"

text \<open>The text before a comment; \<open>spaced\<close> says that the character before is a space or that there is none.\<close>

fun before_comment :: "quoting \<Rightarrow> nat \<Rightarrow> bool \<Rightarrow> string \<Rightarrow> string" where
  "before_comment q depth spaced [] = []"
| "before_comment Single depth spaced (c # s) = c # before_comment (if c = squote then Plain else Single) depth (c = CHR '' '') s"
| "before_comment Double depth spaced (c # s) =
     (case s of d # r \<Rightarrow>
        if c = backslash then c # d # before_comment Double depth (d = CHR '' '') r
        else c # before_comment (if c = dquote then Plain else Double) depth (c = CHR '' '') s
      | [] \<Rightarrow> [c])"
| "before_comment Plain depth spaced (c # s) =
     (if c = squote then c # before_comment Single depth False s
      else if c = dquote then c # before_comment Double depth False s
      else if opens_flow c then c # before_comment Plain (depth + 1) False s
      else if closes_flow c then c # before_comment Plain (depth - 1) False s
      else if c = CHR ''#'' \<and> depth = 0 \<and> spaced then []
      else c # before_comment Plain depth (c = CHR '' '') s)"

definition blank_char :: "char \<Rightarrow> bool" where "blank_char c \<longleftrightarrow> c = CHR '' '' \<or> c = tab"

definition stripComment :: "string \<Rightarrow> string" where
  "stripComment text = dropWhile (\<lambda>c. c = CHR '' '') (strip_right blank_char (before_comment Plain 0 True text))"

definition trim :: "string \<Rightarrow> string" where
  "trim text = strip_right blank_char (dropWhile blank_char text)"

text \<open>The body of a single-quoted scalar, where a quote is doubled.\<close>

fun unquote_single :: "string \<Rightarrow> string option" where
  "unquote_single [] = Some []"
| "unquote_single (c # s) =
     (if c \<noteq> squote then map_option (\<lambda>r. c # r) (unquote_single s)
      else case s of d # r \<Rightarrow> if d = squote then map_option (\<lambda>r. squote # r) (unquote_single r) else None
           | [] \<Rightarrow> None)"

definition escaped_char :: "char \<Rightarrow> char option" where
  "escaped_char c =
     (if c = backslash then Some backslash else if c = dquote then Some dquote
      else if c = CHR ''n'' then Some newline else if c = CHR ''t'' then Some tab else None)"

text \<open>The body of a double-quoted scalar; the left value is the message of the error.\<close>

fun unescape_double :: "string \<Rightarrow> string + string" where
  "unescape_double [] = Inr []"
| "unescape_double (c # s) =
     (if c = backslash then
        (case s of [] \<Rightarrow> Inl ''dangling escape in double-quoted scalar''
         | d # r \<Rightarrow> (case escaped_char d of None \<Rightarrow> Inl ''unsupported escape in double-quoted scalar''
             | Some e \<Rightarrow> bindE (unescape_double r) (\<lambda>t. Inr (e # t))))
      else if c = dquote then Inl ''stray quote in double-quoted scalar''
      else bindE (unescape_double s) (\<lambda>t. Inr (c # t)))"

definition bounded_scalar :: "YamlDialect \<Rightarrow> string \<Rightarrow> string parsed" where
  "bounded_scalar dialect s =
     (if length s > yb_scalar_bytes (yd_bounds dialect) then yamlTooLarge dialect ''a scalar exceeds its length limit'' else Inr s)"

definition parseScalarToken :: "YamlDialect \<Rightarrow> string \<Rightarrow> nat \<Rightarrow> string parsed" where
  "parseScalarToken dialect token line =
     (if token = [] then yamlMalformed dialect ''empty value where a scalar was expected'' line
      else if hd token = squote then
        (if length token < 2 \<or> last token \<noteq> squote then yamlMalformed dialect ''unterminated single-quoted scalar'' line
         else case unquote_single (butlast (tl token)) of
             None \<Rightarrow> yamlMalformed dialect ''stray quote in single-quoted scalar'' line
           | Some s \<Rightarrow> bounded_scalar dialect s)
      else if hd token = dquote then
        (if length token < 2 \<or> last token \<noteq> dquote then yamlMalformed dialect ''unterminated double-quoted scalar'' line
         else case unescape_double (butlast (tl token)) of
             Inl message \<Rightarrow> yamlMalformed dialect message line
           | Inr s \<Rightarrow> bounded_scalar dialect s)
      else if \<exists>c \<in> set token. is_control c then yamlMalformed dialect ''control character in a plain value'' line
      else bounded_scalar dialect token)"

definition onto_first :: "string \<Rightarrow> string list \<Rightarrow> string list" where
  "onto_first s parts = (s @ hd parts) # tl parts"

text \<open>The parts of a flow collection between its commas; the left value is the message of the error.\<close>

fun flow_parts :: "quoting \<Rightarrow> nat \<Rightarrow> string \<Rightarrow> string + string list" where
  "flow_parts q depth [] = (if q \<noteq> Plain \<or> depth \<noteq> 0 then Inl ''unterminated flow collection'' else Inr [[]])"
| "flow_parts Single depth (c # s) =
     bindE (flow_parts (if c = squote then Plain else Single) depth s) (\<lambda>ps. Inr (onto_first [c] ps))"
| "flow_parts Double depth (c # s) =
     (case s of d # r \<Rightarrow>
        if c = backslash then bindE (flow_parts Double depth r) (\<lambda>ps. Inr (onto_first [c, d] ps))
        else bindE (flow_parts (if c = dquote then Plain else Double) depth s) (\<lambda>ps. Inr (onto_first [c] ps))
      | [] \<Rightarrow> bindE (flow_parts (if c = dquote then Plain else Double) depth []) (\<lambda>ps. Inr (onto_first [c] ps)))"
| "flow_parts Plain depth (c # s) =
     (if c = CHR '','' \<and> depth = 0 then bindE (flow_parts Plain 0 s) (\<lambda>ps. Inr ([] # ps))
      else if closes_flow c \<and> depth = 0 then Inl ''unbalanced flow brackets''
      else bindE (flow_parts (if c = squote then Single else if c = dquote then Double else Plain)
                    (if opens_flow c then depth + 1 else if closes_flow c then depth - 1 else depth) s)
             (\<lambda>ps. Inr (onto_first [c] ps)))"

definition splitFlow :: "YamlDialect \<Rightarrow> string \<Rightarrow> nat \<Rightarrow> string list parsed" where
  "splitFlow dialect body line =
     (if list_all blank_char body then Inr []
      else case flow_parts Plain 0 body of Inl message \<Rightarrow> yamlMalformed dialect message line | Inr ps \<Rightarrow> Inr ps)"

text \<open>The index of the first ':' that ends a key.\<close>

fun key_colon :: "quoting \<Rightarrow> nat \<Rightarrow> string \<Rightarrow> nat option" where
  "key_colon q i [] = None"
| "key_colon Single i (c # s) = key_colon (if c = squote then Plain else Single) (i + 1) s"
| "key_colon Double i (c # s) =
     (case s of d # r \<Rightarrow>
        if c = backslash then key_colon Double (i + 2) r
        else key_colon (if c = dquote then Plain else Double) (i + 1) s
      | [] \<Rightarrow> None)"
| "key_colon Plain i (c # s) =
     (if c = CHR '':'' \<and> (s = [] \<or> hd s = CHR '' '') then Some i
      else key_colon (if c = squote then Single else if c = dquote then Double else Plain) (i + 1) s)"

definition findKeyColon :: "string \<Rightarrow> nat option" where
  "findKeyColon text = key_colon Plain 0 text"

definition addEntry :: "YamlDialect \<Rightarrow> YamlNode \<Rightarrow> string \<Rightarrow> YamlNode \<Rightarrow> nat \<Rightarrow> YamlNode parsed" where
  "addEntry dialect node key v line =
     (if key = [] \<or> length key > yb_key_bytes (yd_bounds dialect) then yamlMalformed dialect ''a key is empty or too long'' line
      else if \<exists>c \<in> set key. \<not> isPlainKeyByte c then yamlMalformed dialect ''a key has an unsupported character'' line
      else if key \<in> fst ` set (yn_entries node) then yamlMalformed dialect (''duplicate key '' @ [squote] @ key @ [squote]) line
      else if length (yn_entries node) \<ge> yb_mapping_entries (yd_bounds dialect) then yamlTooLarge dialect ''a mapping has too many entries''
      else Inr (Mapping (yn_line node) (yn_entries node @ [(key, v)])))"

section \<open>Block scalars\<close>

definition chomp :: "char \<Rightarrow> string \<Rightarrow> string" where
  "chomp chomping text =
     (if chomping = CHR ''+'' then text
      else strip_right (\<lambda>c. c = newline) text @ (if chomping = CHR ''-'' then [] else [newline]))"

text \<open>The text with one more line; its own indentation beyond the base of the block is kept.\<close>

definition with_line :: "bool \<Rightarrow> nat \<Rightarrow> RawLine \<Rightarrow> string \<Rightarrow> bool \<Rightarrow> string" where
  "with_line folded base raw text open_text =
     (let more_indented = rl_indent raw > base;
          joined = text @ (if folded \<and> open_text then [if more_indented then newline else CHR '' ''] else [])
            @ replicate (rl_indent raw - base) CHR '' '' @ rl_content raw
      in if folded \<and> \<not> more_indented then joined else joined @ [newline])"

text \<open>The loop over the lines of a block; \<open>open_text\<close> is the break that may still become a space.\<close>

fun block_text :: "YamlDialect \<Rightarrow> bool \<Rightarrow> nat \<Rightarrow> RawLine list \<Rightarrow> string \<Rightarrow> bool \<Rightarrow> (string \<times> bool) parsed" where
  "block_text dialect folded base [] text open_text = Inr (text, open_text)"
| "block_text dialect folded base (raw # body) text open_text =
     (if rl_blank raw then block_text dialect folded base body (text @ [newline]) (if folded then False else open_text)
      else if rl_indent raw < base then yamlMalformed dialect ''block scalar line is under-indented'' (rl_number raw)
      else if length (with_line folded base raw text open_text) > yb_block_scalar_bytes (yd_bounds dialect)
      then yamlTooLarge dialect ''a block scalar exceeds its length limit''
      else block_text dialect folded base body (with_line folded base raw text open_text) (folded \<and> \<not> rl_indent raw > base))"

definition in_block :: "nat \<Rightarrow> RawLine \<Rightarrow> bool" where
  "in_block owner_indent raw \<longleftrightarrow> rl_blank raw \<or> owner_indent < rl_indent raw"

definition parseBlockScalar ::
  "YamlDialect \<Rightarrow> nat \<Rightarrow> nat \<Rightarrow> bool \<Rightarrow> char \<Rightarrow> RawLine list \<Rightarrow> (YamlNode \<times> RawLine list) parsed" where
  "parseBlockScalar dialect owner_indent line folded chomping ls =
     (let body = takeWhile (in_block owner_indent) ls; ls' = dropWhile (in_block owner_indent) ls in
      case filter (\<lambda>r. \<not> rl_blank r) body of
        [] \<Rightarrow> yamlMalformed dialect (''block scalar '' @ [squote, if folded then CHR ''>'' else CHR ''|'', squote] @ '' has no content'') line
      | first # _ \<Rightarrow> bindE (block_text dialect folded (rl_indent first) body [] False) (\<lambda>(text, open_text).
          Inr (Scalar line (chomp chomping (text @ (if open_text then [newline] else []))), ls')))"

definition block_header :: "string \<Rightarrow> bool" where
  "block_header v \<longleftrightarrow> v \<in> {''|'', ''|-'', ''|+'', ''>'', ''>-'', ''>+''}"

section \<open>The parser\<close>

definition flow_item :: "YamlDialect \<Rightarrow> nat \<Rightarrow> YamlNode list \<Rightarrow> string \<Rightarrow> YamlNode list parsed" where
  "flow_item dialect line items part =
     (if length items \<ge> yb_flow_sequence_items (yd_bounds dialect) then yamlTooLarge dialect ''a sequence has too many items''
      else bindE (parseScalarToken dialect (trim part) line) (\<lambda>s. Inr (items @ [Scalar line s])))"

definition parseFlowSequence :: "YamlDialect \<Rightarrow> string \<Rightarrow> nat \<Rightarrow> YamlNode parsed" where
  "parseFlowSequence dialect text line =
     (if length text < 2 \<or> last text \<noteq> CHR '']'' then yamlMalformed dialect ''unterminated flow sequence'' line
      else bindE (splitFlow dialect (butlast (tl text)) line) (\<lambda>parts.
           bindE (foldE (flow_item dialect line) [] parts) (\<lambda>items. Inr (Sequence line items))))"

definition startsWithDash :: "RawLine \<Rightarrow> bool" where
  "startsWithDash l \<longleftrightarrow> rl_content l \<noteq> [] \<and> hd (rl_content l) = CHR ''-'' \<and> (length (rl_content l) = 1 \<or> rl_content l ! 1 = CHR '' '')"

definition skipBlanks :: "RawLine list \<Rightarrow> RawLine list" where
  "skipBlanks ls = dropWhile rl_blank ls"

definition tooDeep :: "YamlDialect \<Rightarrow> 'a parsed" where
  "tooDeep dialect = yamlTooLarge dialect (yd_document dialect @ '' is nested too deeply'')"

definition deeper :: "YamlDialect \<Rightarrow> nat \<Rightarrow> bool" where
  "deeper dialect depth \<longleftrightarrow> depth + 1 > yb_nesting_depth (yd_bounds dialect)"

definition flow_body :: "YamlDialect \<Rightarrow> string \<Rightarrow> nat \<Rightarrow> string list parsed" where
  "flow_body dialect text line =
     (if length text < 2 \<or> last text \<noteq> CHR 0x7D then yamlMalformed dialect ''unterminated flow mapping'' line
      else splitFlow dialect (butlast (tl text)) line)"

text \<open>The key, and the text after the colon, of an entry.\<close>

definition flow_key :: "YamlDialect \<Rightarrow> string \<Rightarrow> nat \<Rightarrow> (string \<times> string) parsed" where
  "flow_key dialect part line =
     (let entry = trim part in
      case findKeyColon entry of None \<Rightarrow> yamlMalformed dialect ''flow mapping entry is not key: value'' line
      | Some colon \<Rightarrow> Inr (trim (take colon entry), trim (drop (colon + 1) entry)))"

definition block_key :: "YamlDialect \<Rightarrow> string \<Rightarrow> nat \<Rightarrow> (string \<times> string) parsed" where
  "block_key dialect content line =
     (case findKeyColon (stripComment content) of None \<Rightarrow> yamlMalformed dialect ''expected a key: value entry'' line
      | Some colon \<Rightarrow> Inr (trim (take colon content), trim (drop (colon + 1) content)))"

type_synonym 'a reader = "RawLine list \<Rightarrow> ('a \<times> RawLine list) parsed"

text \<open>
  The member functions of the parser call each other. Each is a definition over \<open>rec\<close>, the calls it makes; \<open>run_parser\<close>
  ties them together. The two loops that fill a node are calls of their own, with the node filled so far.
\<close>

datatype yaml_call =
    ParseValue string nat nat nat              \<comment> \<open>text, line, owner indent, depth\<close>
  | ParseFlowMapping string nat nat            \<comment> \<open>text, line, depth\<close>
  | ParseBlockNode nat nat                     \<comment> \<open>minimal indent, depth\<close>
  | ParseBlockMapping nat nat                  \<comment> \<open>indent, depth\<close>
  | MappingLoop YamlNode nat nat               \<comment> \<open>node, indent, depth\<close>
  | ParseBlockSequence nat nat                 \<comment> \<open>indent, depth\<close>
  | SequenceLoop YamlNode nat nat              \<comment> \<open>node, indent, depth\<close>
  | ParseSeededMapping nat string nat nat      \<comment> \<open>indent, seed, line of the seed, depth\<close>
  | ReadMappingEntry YamlNode string nat nat nat   \<comment> \<open>node, content, line, indent, depth\<close>

type_synonym calls = "yaml_call \<Rightarrow> YamlNode reader"

definition parseValue :: "YamlDialect \<Rightarrow> calls \<Rightarrow> string \<Rightarrow> nat \<Rightarrow> nat \<Rightarrow> nat \<Rightarrow> YamlNode reader" where
  "parseValue dialect rec text line owner_indent depth ls =
     (let v = stripComment text in
      if block_header v then parseBlockScalar dialect owner_indent line (hd v = CHR ''>'') (if length v = 2 then v ! 1 else CHR '' '') ls
      else if v \<noteq> [] \<and> hd v = CHR ''['' then bindE (parseFlowSequence dialect v line) (\<lambda>node. Inr (node, ls))
      else if v \<noteq> [] \<and> hd v = CHR 0x7B then rec (ParseFlowMapping v line depth) ls
      else bindE (parseScalarToken dialect v line) (\<lambda>s. Inr (Scalar line s, ls)))"

definition flow_entry :: "YamlDialect \<Rightarrow> calls \<Rightarrow> nat \<Rightarrow> nat \<Rightarrow> YamlNode \<times> RawLine list \<Rightarrow> string \<Rightarrow> (YamlNode \<times> RawLine list) parsed" where
  "flow_entry dialect rec line depth s part =
     bindE (flow_key dialect part line) (\<lambda>(key, after_colon).
     bindE (rec (ParseValue after_colon line 0 (depth + 1)) (snd s)) (\<lambda>(v, ls').
     bindE (addEntry dialect (fst s) key v line) (\<lambda>node. Inr (node, ls'))))"

definition parseFlowMapping :: "YamlDialect \<Rightarrow> calls \<Rightarrow> string \<Rightarrow> nat \<Rightarrow> nat \<Rightarrow> YamlNode reader" where
  "parseFlowMapping dialect rec text line depth ls =
     (if deeper dialect depth then tooDeep dialect
      else bindE (flow_body dialect text line) (\<lambda>parts.
           foldE (flow_entry dialect rec line depth) (Mapping line [], ls) parts))"

definition parseBlockNode :: "YamlDialect \<Rightarrow> calls \<Rightarrow> nat \<Rightarrow> nat \<Rightarrow> YamlNode reader" where
  "parseBlockNode dialect rec min_indent depth ls =
     (case skipBlanks ls of
        [] \<Rightarrow> yamlMalformed dialect ''a value is missing where the file indents further'' 0
      | l # ls' \<Rightarrow>
          if rl_indent l < min_indent then yamlMalformed dialect ''a value is missing where the file indents further'' (rl_number l)
          else if startsWithDash l then rec (ParseBlockSequence (rl_indent l) depth) (l # ls')
          else rec (ParseBlockMapping (rl_indent l) depth) (l # ls'))"

definition parseBlockMapping :: "YamlDialect \<Rightarrow> calls \<Rightarrow> nat \<Rightarrow> nat \<Rightarrow> YamlNode reader" where
  "parseBlockMapping dialect rec indent depth ls =
     (if deeper dialect depth then tooDeep dialect
      else bindE (rec (MappingLoop (Mapping (rl_number (hd ls)) []) indent depth) ls) (\<lambda>(node, ls').
        if yn_entries node = [] then yamlMalformed dialect ''a block mapping has no entries'' (yn_line node)
        else Inr (node, ls')))"

definition mapping_loop :: "calls \<Rightarrow> YamlNode \<Rightarrow> nat \<Rightarrow> nat \<Rightarrow> YamlNode reader" where
  "mapping_loop rec node indent depth ls =
     (case skipBlanks ls of
        [] \<Rightarrow> Inr (node, [])
      | l # ls' \<Rightarrow>
          if rl_indent l \<noteq> indent \<or> startsWithDash l then Inr (node, l # ls')
          else bindE (rec (ReadMappingEntry node (rl_content l) (rl_number l) indent depth) ls') (\<lambda>(node', ls'').
               rec (MappingLoop node' indent depth) ls''))"

definition parseBlockSequence :: "YamlDialect \<Rightarrow> calls \<Rightarrow> nat \<Rightarrow> nat \<Rightarrow> YamlNode reader" where
  "parseBlockSequence dialect rec indent depth ls =
     (if deeper dialect depth then tooDeep dialect
      else bindE (rec (SequenceLoop (Sequence (rl_number (hd ls)) []) indent depth) ls) (\<lambda>(node, ls').
        if yn_items node = [] then yamlMalformed dialect ''a block sequence has no items'' (yn_line node)
        else Inr (node, ls')))"

text \<open>The item after a dash; \<open>l\<close> is the line with the dash.\<close>

definition sequence_item :: "YamlDialect \<Rightarrow> calls \<Rightarrow> nat \<Rightarrow> nat \<Rightarrow> RawLine \<Rightarrow> YamlNode reader" where
  "sequence_item dialect rec indent depth l ls' =
     (let after_dash = tl (rl_content l); lead = length (takeWhile (\<lambda>c. c = CHR '' '') after_dash); item = drop lead after_dash in
      if trim after_dash = [] then rec (ParseBlockNode (indent + 1) (depth + 1)) ls'
      else if hd after_dash \<noteq> CHR '' '' then yamlMalformed dialect ''a sequence dash needs a space before its item'' (rl_number l)
      else if findKeyColon (stripComment item) \<noteq> None
      then rec (ParseSeededMapping (rl_indent l + 1 + lead) item (rl_number l) (depth + 1)) (l # ls')
      else rec (ParseValue item (rl_number l) (rl_indent l) (depth + 1)) ls')"

definition sequence_loop :: "YamlDialect \<Rightarrow> calls \<Rightarrow> YamlNode \<Rightarrow> nat \<Rightarrow> nat \<Rightarrow> YamlNode reader" where
  "sequence_loop dialect rec node indent depth ls =
     (case skipBlanks ls of
        [] \<Rightarrow> Inr (node, [])
      | l # ls' \<Rightarrow>
          if rl_indent l \<noteq> indent \<or> \<not> startsWithDash l then Inr (node, l # ls')
          else if length (yn_items node) \<ge> yb_block_sequence_items (yd_bounds dialect)
          then yamlTooLarge dialect ''a sequence has too many items''
          else bindE (sequence_item dialect rec indent depth l ls') (\<lambda>(item, ls'').
               rec (SequenceLoop (Sequence (yn_line node) (yn_items node @ [item])) indent depth) ls''))"

definition parseSeededMapping :: "YamlDialect \<Rightarrow> calls \<Rightarrow> nat \<Rightarrow> string \<Rightarrow> nat \<Rightarrow> nat \<Rightarrow> YamlNode reader" where
  "parseSeededMapping dialect rec indent seed seed_line depth ls =
     (if deeper dialect depth then tooDeep dialect
      else bindE (rec (ReadMappingEntry (Mapping seed_line []) seed seed_line indent depth) (tl ls)) (\<lambda>(node, ls').
           rec (MappingLoop node indent depth) ls'))"

definition readMappingEntry :: "YamlDialect \<Rightarrow> calls \<Rightarrow> YamlNode \<Rightarrow> string \<Rightarrow> nat \<Rightarrow> nat \<Rightarrow> nat \<Rightarrow> YamlNode reader" where
  "readMappingEntry dialect rec node content line indent depth ls =
     bindE (block_key dialect content line) (\<lambda>(key, after_colon).
     bindE (if after_colon = [] then rec (ParseBlockNode (indent + 1) (depth + 1)) ls
            else rec (ParseValue after_colon line indent depth) ls) (\<lambda>(v, ls').
     bindE (addEntry dialect node key v line) (\<lambda>node'. Inr (node', ls'))))"

definition parser_step :: "YamlDialect \<Rightarrow> calls \<Rightarrow> calls" where
  "parser_step dialect rec call = (case call of
       ParseValue text line owner depth \<Rightarrow> parseValue dialect rec text line owner depth
     | ParseFlowMapping text line depth \<Rightarrow> parseFlowMapping dialect rec text line depth
     | ParseBlockNode min_indent depth \<Rightarrow> parseBlockNode dialect rec min_indent depth
     | ParseBlockMapping indent depth \<Rightarrow> parseBlockMapping dialect rec indent depth
     | MappingLoop node indent depth \<Rightarrow> mapping_loop rec node indent depth
     | ParseBlockSequence indent depth \<Rightarrow> parseBlockSequence dialect rec indent depth
     | SequenceLoop node indent depth \<Rightarrow> sequence_loop dialect rec node indent depth
     | ParseSeededMapping indent seed line depth \<Rightarrow> parseSeededMapping dialect rec indent seed line depth
     | ReadMappingEntry node content line indent depth \<Rightarrow> readMappingEntry dialect rec node content line indent depth)"

fun run_parser :: "YamlDialect \<Rightarrow> nat \<Rightarrow> calls" where
  "run_parser dialect 0 call ls = Inl Out_of_fuel"
| "run_parser dialect (Suc fuel) call ls = parser_step dialect (run_parser dialect fuel) call ls"

section \<open>Documents\<close>

definition yaml_fuel :: "YamlDialect \<Rightarrow> RawLine list \<Rightarrow> nat" where
  "yaml_fuel dialect ls = 5 * length ls + 2 * yb_nesting_depth (yd_bounds dialect) + 10"

definition parseDocument :: "YamlDialect \<Rightarrow> RawLine list \<Rightarrow> YamlNode parsed" where
  "parseDocument dialect ls =
     (case skipBlanks ls of
        [] \<Rightarrow> yamlMalformed dialect (yd_document dialect @ '' file is empty'') 1
      | l # ls' \<Rightarrow>
          if rl_indent l \<noteq> 0 then yamlMalformed dialect ''the top level must not be indented'' (rl_number l)
          else bindE (run_parser dialect (yaml_fuel dialect ls) (ParseBlockMapping 0 0) (l # ls')) (\<lambda>(root, rest).
            case skipBlanks rest of [] \<Rightarrow> Inr root
            | r # _ \<Rightarrow> yamlMalformed dialect (''unexpected content after '' @ yd_document dialect) (rl_number r)))"

definition raw_line :: "YamlDialect \<Rightarrow> nat \<Rightarrow> bool \<Rightarrow> string \<Rightarrow> RawLine parsed" where
  "raw_line dialect number is_last physical =
     (if length physical > yb_line_bytes (yd_bounds dialect) then yamlTooLarge dialect ''a line exceeds its length limit''
      else let text = (if \<not> is_last \<and> physical \<noteq> [] \<and> last physical = carriage_return then butlast physical else physical);
               indent = length (takeWhile (\<lambda>c. c = CHR '' '') text); content = drop indent text in
        if carriage_return \<in> set text
        then yamlMalformed dialect ''bare carriage returns are not allowed (use LF or CRLF line endings)'' number
        else if content \<noteq> [] \<and> hd content = tab then yamlMalformed dialect ''tabs may not be used for indentation'' number
        else Inr \<lparr>rl_indent = indent, rl_content = content, rl_number = number, rl_blank = (content = [] \<or> hd content = CHR ''#'')\<rparr>)"

fun raw_lines :: "YamlDialect \<Rightarrow> nat \<Rightarrow> string list \<Rightarrow> RawLine list parsed" where
  "raw_lines dialect count [] = Inr []"
| "raw_lines dialect count (physical # rest) =
     (if count \<ge> yb_lines (yd_bounds dialect) then yamlTooLarge dialect (yd_document dialect @ '' has too many lines'')
      else bindE (raw_line dialect (count + 1) (rest = []) physical) (\<lambda>l.
           bindE (raw_lines dialect (count + 1) rest) (\<lambda>ls. Inr (l # ls))))"

definition splitLines :: "YamlDialect \<Rightarrow> string \<Rightarrow> RawLine list parsed" where
  "splitLines dialect content = raw_lines dialect 0 (split_on newline content)"

definition parseYamlSubset :: "YamlDialect \<Rightarrow> string \<Rightarrow> YamlNode parsed" where
  "parseYamlSubset dialect content =
     (if length content > yb_document_bytes (yd_bounds dialect) then yamlTooLarge dialect (yd_document dialect @ '' file exceeds its size limit'')
      else if \<not> isValidUtf8 content then Inl (Thrown (Runtime_Error (yd_prefix dialect @ '': the file is not valid UTF-8'')))
      else bindE (splitLines dialect content) (parseDocument dialect))"

section \<open>Reading a tree against a schema\<close>

datatype yaml_kind = IsScalar | IsSequence | IsMapping

definition yn_kind :: "YamlNode \<Rightarrow> yaml_kind" where
  "yn_kind node = (case node of Scalar _ _ \<Rightarrow> IsScalar | Sequence _ _ \<Rightarrow> IsSequence | Mapping _ _ \<Rightarrow> IsMapping)"

definition yamlRequireKind :: "YamlDialect \<Rightarrow> YamlNode \<Rightarrow> yaml_kind \<Rightarrow> string \<Rightarrow> YamlNode parsed" where
  "yamlRequireKind dialect node kind what =
     (if yn_kind node \<noteq> kind then yamlMalformed dialect (''expected '' @ what) (yn_line node) else Inr node)"

definition yamlFindEntry :: "YamlNode \<Rightarrow> string \<Rightarrow> YamlNode option" where
  "yamlFindEntry node key = (case node of Mapping _ entries \<Rightarrow> map_of entries key | _ \<Rightarrow> None)"

definition yamlRejectUnknownKeys :: "YamlDialect \<Rightarrow> YamlNode \<Rightarrow> string list \<Rightarrow> unit parsed" where
  "yamlRejectUnknownKeys dialect node allowed =
     (case filter (\<lambda>e. fst e \<notin> set allowed) (case node of Mapping _ entries \<Rightarrow> entries | _ \<Rightarrow> []) of
        [] \<Rightarrow> Inr ()
      | e # _ \<Rightarrow> yamlMalformed dialect (''unknown key '' @ [squote] @ fst e @ [squote]) (yn_line node))"

section \<open>What an accepted tree looks like\<close>

fun height :: "YamlNode \<Rightarrow> nat" where
  "height (Scalar l s) = 0"
| "height (Sequence l items) = Suc (Max (insert 0 (height ` set items)))"
| "height (Mapping l entries) = Suc (Max (insert 0 (height ` snd ` set entries)))"

definition key_ok :: "YamlBounds \<Rightarrow> string \<Rightarrow> bool" where
  "key_ok b key \<longleftrightarrow> key \<noteq> [] \<and> length key \<le> yb_key_bytes b \<and> list_all isPlainKeyByte key"

fun node_ok :: "YamlBounds \<Rightarrow> YamlNode \<Rightarrow> bool" where
  "node_ok b (Scalar l s) \<longleftrightarrow> length s \<le> max (yb_scalar_bytes b) (yb_block_scalar_bytes b + yb_lines b + 2)"
| "node_ok b (Sequence l items) \<longleftrightarrow>
     length items \<le> max (yb_flow_sequence_items b) (yb_block_sequence_items b) \<and> (\<forall>i \<in> set items. node_ok b i)"
| "node_ok b (Mapping l entries) \<longleftrightarrow>
     length entries \<le> yb_mapping_entries b \<and> distinct (map fst entries) \<and> (\<forall>(k, v) \<in> set entries. key_ok b k \<and> node_ok b v)"

definition children :: "YamlNode \<Rightarrow> YamlNode list" where
  "children node = (case node of Scalar _ _ \<Rightarrow> [] | Sequence _ items \<Rightarrow> items | Mapping _ entries \<Rightarrow> map snd entries)"

text \<open>A node under construction, whose children have at most a height.\<close>

definition filled :: "YamlBounds \<Rightarrow> yaml_kind \<Rightarrow> nat \<Rightarrow> YamlNode \<Rightarrow> bool" where
  "filled b kind h node \<longleftrightarrow> yn_kind node = kind \<and> node_ok b node \<and> (\<forall>c \<in> set (children node). height c \<le> h)"

lemma filled_height: "filled b kind h node \<Longrightarrow> kind \<noteq> IsScalar \<Longrightarrow> height node \<le> Suc h"
  by (cases node) (auto simp: filled_def children_def yn_kind_def)

lemma filled_empty: "filled b IsMapping h (Mapping l [])" "filled b IsSequence h (Sequence l [])"
  by (simp_all add: filled_def children_def yn_kind_def)

text \<open>Results: what a call gives when it does not throw. No result is \<open>Out_of_fuel\<close>.\<close>

definition gives :: "('a \<Rightarrow> bool) \<Rightarrow> 'a parsed \<Rightarrow> bool" where
  "gives Q r \<longleftrightarrow> (case r of Inl e \<Rightarrow> e \<noteq> Out_of_fuel | Inr x \<Rightarrow> Q x)"

named_theorems gives_intro "results of the parsing functions"

lemma gives_errors [gives_intro]: "gives Q (yamlMalformed dialect m line)" "gives Q (yamlTooLarge dialect m)" "gives Q (tooDeep dialect)"
  by (simp_all add: gives_def yamlMalformed_def yamlTooLarge_def tooDeep_def)

lemma gives_Inr: "Q x \<Longrightarrow> gives Q (Inr x)"
  by (simp add: gives_def)

lemma gives_bind: "gives P m \<Longrightarrow> (\<And>x. P x \<Longrightarrow> gives Q (f x)) \<Longrightarrow> gives Q (bindE m f)"
  by (cases m) (auto simp: gives_def)

lemma gives_if: "(c \<Longrightarrow> gives Q a) \<Longrightarrow> (\<not> c \<Longrightarrow> gives Q b) \<Longrightarrow> gives Q (if c then a else b)"
  by simp

lemma gives_fold: "P s \<Longrightarrow> (\<And>s x. P s \<Longrightarrow> x \<in> set xs \<Longrightarrow> gives P (f s x)) \<Longrightarrow> gives P (foldE f s xs)"
  by (induction xs arbitrary: s) (auto intro: gives_Inr gives_bind)

lemma gives_weaken: "gives P r \<Longrightarrow> (\<And>x. P x \<Longrightarrow> Q x) \<Longrightarrow> gives Q r"
  by (cases r) (auto simp: gives_def)

lemma gives_option: "(x = None \<Longrightarrow> gives Q a) \<Longrightarrow> (\<And>y. x = Some y \<Longrightarrow> gives Q (f y)) \<Longrightarrow> gives Q (case x of None \<Rightarrow> a | Some y \<Rightarrow> f y)"
  by (cases x) auto

lemma gives_scalar: "gives (\<lambda>s. length s \<le> yb_scalar_bytes (yd_bounds dialect)) (parseScalarToken dialect token line)"
  unfolding parseScalarToken_def bounded_scalar_def
  by (auto intro!: gives_intro gives_Inr gives_if split: option.split sum.split)

lemma gives_flow_parts: "gives (\<lambda>_. True) (splitFlow dialect body line)"
  unfolding splitFlow_def by (auto intro!: gives_intro gives_Inr split: sum.split)

lemma gives_keys: "gives (\<lambda>_. True) (flow_key dialect part line)" "gives (\<lambda>_. True) (block_key dialect content line)"
  unfolding flow_key_def block_key_def Let_def by (auto intro!: gives_intro gives_Inr split: option.split)

lemma gives_flow_sequence:
  "gives (\<lambda>node. node_ok (yd_bounds dialect) node \<and> height node \<le> 1) (parseFlowSequence dialect text line)"
proof -
  let ?P = "\<lambda>items. length items \<le> yb_flow_sequence_items (yd_bounds dialect) \<and>
     (\<forall>i\<in>set items. node_ok (yd_bounds dialect) i \<and> height i = 0)"
  have "gives ?P (flow_item dialect line items part)" if "?P items" for items part
    unfolding flow_item_def using that
    by (auto intro!: gives_if gives_intro gives_bind [OF gives_scalar] gives_Inr)
  then have items: "gives ?P (foldE (flow_item dialect line) [] parts)" for parts
    by (intro gives_fold) auto
  show ?thesis unfolding parseFlowSequence_def
    by (auto intro!: gives_if gives_intro gives_bind [OF gives_flow_parts] gives_bind [OF items] gives_Inr simp: Max_le_iff simp flip: le_zero_eq)
qed

lemma block_text_length:
  "gives (\<lambda>(t, _). length t \<le> max (length text) (yb_block_scalar_bytes (yd_bounds dialect)) + length body)
     (block_text dialect folded base body text open_text)"
proof (induction dialect folded base body "text" open_text rule: block_text.induct)
  case (2 dialect folded base raw body t open_text)
  show ?case
  proof (cases "rl_blank raw \<or> rl_indent raw < base")
    case True
    then show ?thesis using "2.IH"(1) by (auto intro!: gives_intro elim!: gives_weaken)
  next
    case False
    then show ?thesis using "2.IH"(2) by (auto intro!: gives_intro elim!: gives_weaken)
  qed
qed (simp add: gives_def)

lemma strip_right_length: "length (strip_right P s) \<le> length s"
  using length_dropWhile_le [of P "rev s"] by (simp add: strip_right_def)

lemma chomp_length: "length (chomp c s) \<le> length s + 1"
  using strip_right_length [of "\<lambda>c. c = newline" s] by (auto simp: chomp_def)

text \<open>What each call gives: a node with its bounds, and no more lines than it was given.\<close>

definition leaves :: "nat \<Rightarrow> (YamlNode \<Rightarrow> bool) \<Rightarrow> YamlNode \<times> RawLine list \<Rightarrow> bool" where
  "leaves k Q r \<longleftrightarrow> length (snd r) \<le> k \<and> Q (fst r)"

lemma gives_block_scalar:
  assumes "length ls \<le> yb_lines (yd_bounds dialect)"
  shows "gives (leaves (length ls) (\<lambda>node. node_ok (yd_bounds dialect) node \<and> height node = 0))
    (parseBlockScalar dialect owner line folded chomping ls)"
proof -
  let ?body = "takeWhile (in_block owner) ls"
  have "length ?body \<le> yb_lines (yd_bounds dialect)" using assms length_takeWhile_le le_trans by blast
  then have fits: "node_ok (yd_bounds dialect) (Scalar line (chomp chomping (t @ (if e then [newline] else []))))"
    if "length t \<le> yb_block_scalar_bytes (yd_bounds dialect) + length ?body" for t e
    using that chomp_length [of chomping "t @ (if e then [newline] else [])"] by (auto simp: le_max_iff_disj)
  have lines: "gives (\<lambda>(t, _). length t \<le> yb_block_scalar_bytes (yd_bounds dialect) + length ?body)
      (block_text dialect folded base ?body [] False)" for base
    using block_text_length [of "[]" dialect ?body folded base False] by simp
  have ended: "gives (leaves (length ls) (\<lambda>node. node_ok (yd_bounds dialect) node \<and> height node = 0))
      (case r of (t, e) \<Rightarrow> Inr (Scalar line (chomp chomping (t @ (if e then [newline] else []))), dropWhile (in_block owner) ls))"
    if "case r of (t, _) \<Rightarrow> length t \<le> yb_block_scalar_bytes (yd_bounds dialect) + length ?body" for r
    using that fits by (cases r) (simp add: gives_def leaves_def length_dropWhile_le del: node_ok.simps)
  show ?thesis
  proof (cases "filter (\<lambda>r. \<not> rl_blank r) ?body")
    case Nil
    show ?thesis unfolding parseBlockScalar_def Let_def Nil list.case by (rule gives_intro)
  next
    case (Cons first rest)
    show ?thesis unfolding parseBlockScalar_def Let_def Cons list.case by (rule gives_bind [OF lines ended])
  qed
qed

text \<open>How much fuel a call needs, what it assumes of the node it continues, and what it promises.\<close>

definition need :: "nat \<Rightarrow> yaml_call \<Rightarrow> nat \<Rightarrow> nat" where
  "need d call n = (case call of
       ParseValue _ _ _ depth \<Rightarrow> 2 * (d - depth) + 2
     | ParseFlowMapping _ _ depth \<Rightarrow> 2 * (d - depth) + 1
     | ParseBlockNode _ _ \<Rightarrow> 5 * n + 2 * d + 6
     | ParseBlockMapping _ _ \<Rightarrow> 5 * n + 2 * d + 5
     | ParseBlockSequence _ _ \<Rightarrow> 5 * n + 2 * d + 5
     | MappingLoop _ _ _ \<Rightarrow> 5 * n + 2 * d + 4
     | SequenceLoop _ _ _ \<Rightarrow> 5 * n + 2 * d + 4
     | ParseSeededMapping _ _ _ _ \<Rightarrow> 5 * n + 2 * d + 3
     | ReadMappingEntry _ _ _ _ _ \<Rightarrow> 5 * n + 2 * d + 7)"

definition assumed :: "YamlBounds \<Rightarrow> yaml_call \<Rightarrow> RawLine list \<Rightarrow> bool" where
  "assumed b call ls \<longleftrightarrow> length ls \<le> yb_lines b \<and> (case call of
       MappingLoop node _ depth \<Rightarrow> depth < yb_nesting_depth b \<and> filled b IsMapping (yb_nesting_depth b - depth + 1) node
     | SequenceLoop node _ depth \<Rightarrow> depth < yb_nesting_depth b \<and> filled b IsSequence (yb_nesting_depth b - depth + 1) node
     | ReadMappingEntry node _ _ _ depth \<Rightarrow> depth < yb_nesting_depth b \<and> filled b IsMapping (yb_nesting_depth b - depth + 1) node
     | ParseSeededMapping _ _ _ _ \<Rightarrow> ls \<noteq> []
     | _ \<Rightarrow> True)"

definition promised :: "YamlBounds \<Rightarrow> yaml_call \<Rightarrow> RawLine list \<Rightarrow> YamlNode \<times> RawLine list \<Rightarrow> bool" where
  "promised b call ls = (let d = yb_nesting_depth b; n = length ls in case call of
       ParseValue _ _ _ depth \<Rightarrow> leaves n (\<lambda>node. node_ok b node \<and> height node \<le> d - depth + 1)
     | ParseFlowMapping _ _ depth \<Rightarrow> leaves n (\<lambda>node. node_ok b node \<and> height node \<le> d - depth + 1)
     | MappingLoop _ _ depth \<Rightarrow> leaves n (filled b IsMapping (d - depth + 1))
     | SequenceLoop _ _ depth \<Rightarrow> leaves n (filled b IsSequence (d - depth + 1))
     | ReadMappingEntry _ _ _ _ depth \<Rightarrow> leaves n (filled b IsMapping (d - depth + 1))
     | ParseBlockNode _ depth \<Rightarrow> leaves n (\<lambda>node. node_ok b node \<and> depth < d \<and> height node \<le> d - depth + 2)
     | ParseBlockMapping _ depth \<Rightarrow> leaves n (\<lambda>node. yn_kind node = IsMapping \<and> node_ok b node \<and> depth < d \<and> height node \<le> d - depth + 2)
     | ParseBlockSequence _ depth \<Rightarrow> leaves n (\<lambda>node. node_ok b node \<and> depth < d \<and> height node \<le> d - depth + 2)
     | ParseSeededMapping _ _ _ depth \<Rightarrow> leaves (n - 1) (\<lambda>node. node_ok b node \<and> depth < d \<and> height node \<le> d - depth + 2))"

lemmas contract_defs = assumed_def need_def promised_def Let_def

lemma gives_entry:
  assumes "filled b IsMapping h node" "node_ok b v" "height v \<le> h" "b = yd_bounds dialect"
  shows "gives (filled b IsMapping h) (addEntry dialect node key v line)"
proof (cases node)
  case (Mapping l entries)
  then show ?thesis using assms
    by (auto simp: addEntry_def filled_def children_def yn_kind_def key_ok_def list_all_iff intro!: gives_intro gives_Inr gives_if)
qed (use assms in \<open>simp_all add: filled_def yn_kind_def\<close>)

text \<open>The calls keep their promises as long as the fuel lasts.\<close>

definition serves :: "YamlBounds \<Rightarrow> nat \<Rightarrow> calls \<Rightarrow> bool" where
  "serves b fuel rec \<longleftrightarrow>
     (\<forall>call ls. assumed b call ls \<longrightarrow> need (yb_nesting_depth b) call (length ls) \<le> fuel \<longrightarrow> gives (promised b call ls) (rec call ls))"

lemma served: "serves b fuel rec \<Longrightarrow> assumed b call ls \<Longrightarrow> need (yb_nesting_depth b) call (length ls) \<le> fuel \<Longrightarrow>
    (\<And>r. promised b call ls r \<Longrightarrow> Q r) \<Longrightarrow> gives Q (rec call ls)"
  unfolding serves_def by (blast intro: gives_weaken)

lemma filled_leaves:
  "leaves k (filled b kind h) r \<Longrightarrow> kind \<noteq> IsScalar \<Longrightarrow> Suc h \<le> h' \<Longrightarrow> leaves k (\<lambda>node. node_ok b node \<and> height node \<le> h') r"
  using filled_height [of b kind h "fst r"] by (auto simp: leaves_def filled_def)

lemma gives_pair:
  "gives (leaves k P) m \<Longrightarrow> (\<And>v ls. length ls \<le> k \<Longrightarrow> P v \<Longrightarrow> gives Q (f v ls)) \<Longrightarrow> gives Q (bindE m (\<lambda>(v, ls). f v ls))"
  by (erule gives_bind) (auto simp: leaves_def)

lemma skipBlanks_length: "length (skipBlanks ls) \<le> length ls"
  by (simp add: skipBlanks_def length_dropWhile_le)

lemma skipBlanks_Cons: "skipBlanks ls = l # ls' \<Longrightarrow> Suc (length ls') \<le> length ls"
  using skipBlanks_length [of ls] by simp

abbreviation depth_bound :: "YamlDialect \<Rightarrow> nat" where
  "depth_bound dialect \<equiv> yb_nesting_depth (yd_bounds dialect)"

locale parser_calls =
  fixes dialect :: YamlDialect and fuel :: nat and rec :: calls
  assumes rec: "serves (yd_bounds dialect) fuel rec"
begin

lemma step_value:
  assumes "length ls \<le> yb_lines (yd_bounds dialect)" "2 * (depth_bound dialect - depth) + 2 \<le> Suc fuel"
  shows "gives (leaves (length ls) (\<lambda>node. node_ok (yd_bounds dialect) node \<and> height node \<le> depth_bound dialect - depth + 1))
    (parseValue dialect rec text line owner depth ls)" (is "gives ?Q _")
proof -
  have "gives ?Q (rec (ParseFlowMapping v line depth) ls)" for v
    by (rule served [OF rec]) (use assms in \<open>auto simp: contract_defs\<close>)
  moreover have "gives ?Q (parseBlockScalar dialect owner line f c ls)" for f c
    by (rule gives_weaken [OF gives_block_scalar]) (use assms(1) in \<open>auto simp: leaves_def\<close>)
  ultimately show ?thesis unfolding parseValue_def Let_def
    by (auto simp: leaves_def intro!: gives_if gives_bind [OF gives_flow_sequence] gives_bind [OF gives_scalar] gives_Inr)
qed

lemma step_flow_mapping:
  assumes "length ls \<le> yb_lines (yd_bounds dialect)" "2 * (depth_bound dialect - depth) + 1 \<le> Suc fuel"
  shows "gives (leaves (length ls) (\<lambda>node. node_ok (yd_bounds dialect) node \<and> height node \<le> depth_bound dialect - depth + 1))
    (parseFlowMapping dialect rec text line depth ls)" (is "gives ?Q _")
proof (cases "deeper dialect depth")
  case True
  then show ?thesis by (simp add: parseFlowMapping_def gives_intro)
next
  case False
  let ?P = "leaves (length ls) (filled (yd_bounds dialect) IsMapping (depth_bound dialect - depth))"
  have v: "gives (leaves (length ls') (\<lambda>node. node_ok (yd_bounds dialect) node \<and> height node \<le> depth_bound dialect - depth))
      (rec (ParseValue t line 0 (Suc depth)) ls')" if "length ls' \<le> length ls" for t ls'
    by (rule served [OF rec]) (use False assms that in \<open>auto simp: contract_defs leaves_def deeper_def\<close>)
  have entry: "gives ?P (flow_entry dialect rec line depth s part)" if "?P s" for s part
    unfolding flow_entry_def using that
    by (auto simp: leaves_def intro!: gives_bind [OF gives_keys(1)] gives_pair [OF v] gives_bind [OF gives_entry] gives_Inr)
  have "gives ?P (foldE (flow_entry dialect rec line depth) (Mapping line [], ls) parts)" for parts
    by (rule gives_fold) (simp add: leaves_def filled_empty, rule entry)
  then have "gives ?Q (foldE (flow_entry dialect rec line depth) (Mapping line [], ls) parts)" for parts
    by (rule gives_weaken) (auto elim: filled_leaves)
  moreover have "gives (\<lambda>_. True) (flow_body dialect text line)"
    unfolding flow_body_def by (auto intro: gives_intro gives_flow_parts)
  ultimately show ?thesis using False unfolding parseFlowMapping_def by (auto intro: gives_bind)
qed

lemma step_node:
  assumes "length ls \<le> yb_lines (yd_bounds dialect)" "5 * length ls + 2 * depth_bound dialect + 6 \<le> Suc fuel"
  shows "gives (leaves (length ls) (\<lambda>node. node_ok (yd_bounds dialect) node \<and> depth < depth_bound dialect
     \<and> height node \<le> depth_bound dialect - depth + 2)) (parseBlockNode dialect rec min_indent depth ls)" (is "gives ?Q _")
proof (cases "skipBlanks ls")
  case Nil
  then show ?thesis by (simp add: parseBlockNode_def gives_intro)
next
  case (Cons l ls')
  note shorter = skipBlanks_Cons [OF Cons]
  have "gives ?Q (rec call (l # ls'))" if "call \<in> {ParseBlockSequence (rl_indent l) depth, ParseBlockMapping (rl_indent l) depth}" for call
    by (rule served [OF rec]) (use assms that shorter in \<open>auto simp: contract_defs leaves_def\<close>)
  with Cons show ?thesis by (simp add: parseBlockNode_def gives_intro)
qed

lemma step_block_mapping:
  assumes "length ls \<le> yb_lines (yd_bounds dialect)" "5 * length ls + 2 * depth_bound dialect + 5 \<le> Suc fuel"
  shows "gives (leaves (length ls) (\<lambda>node. yn_kind node = IsMapping \<and> node_ok (yd_bounds dialect) node \<and> depth < depth_bound dialect
     \<and> height node \<le> depth_bound dialect - depth + 2)) (parseBlockMapping dialect rec indent depth ls)" (is "gives ?Q _")
proof (cases "deeper dialect depth")
  case False
  let ?P = "filled (yd_bounds dialect) IsMapping (depth_bound dialect - depth + 1)"
  have "gives (leaves (length ls) ?P) (rec (MappingLoop (Mapping (rl_number (hd ls)) []) indent depth) ls)"
    by (rule served [OF rec]) (use assms False in \<open>auto simp: contract_defs deeper_def filled_empty\<close>)
  then show ?thesis using False filled_height [of "yd_bounds dialect" IsMapping "depth_bound dialect - depth + 1"] unfolding parseBlockMapping_def
    by (auto simp: leaves_def deeper_def filled_def intro!: gives_pair [of "length ls" ?P] gives_intro gives_Inr)
qed (simp add: parseBlockMapping_def gives_intro)

lemma step_block_sequence:
  assumes "length ls \<le> yb_lines (yd_bounds dialect)" "5 * length ls + 2 * depth_bound dialect + 5 \<le> Suc fuel"
  shows "gives (leaves (length ls) (\<lambda>node. node_ok (yd_bounds dialect) node \<and> depth < depth_bound dialect
     \<and> height node \<le> depth_bound dialect - depth + 2)) (parseBlockSequence dialect rec indent depth ls)" (is "gives ?Q _")
proof (cases "deeper dialect depth")
  case False
  let ?P = "filled (yd_bounds dialect) IsSequence (depth_bound dialect - depth + 1)"
  have "gives (leaves (length ls) ?P) (rec (SequenceLoop (Sequence (rl_number (hd ls)) []) indent depth) ls)"
    by (rule served [OF rec]) (use assms False in \<open>auto simp: contract_defs deeper_def filled_empty\<close>)
  then show ?thesis using False filled_height [of "yd_bounds dialect" IsSequence "depth_bound dialect - depth + 1"] unfolding parseBlockSequence_def
    by (auto simp: leaves_def deeper_def filled_def intro!: gives_pair [of "length ls" ?P] gives_intro gives_Inr)
qed (simp add: parseBlockSequence_def gives_intro)

lemma step_mapping_loop:
  assumes "assumed (yd_bounds dialect) (MappingLoop node indent depth) ls" "5 * length ls + 2 * depth_bound dialect + 4 \<le> Suc fuel"
  shows "gives (leaves (length ls) (filled (yd_bounds dialect) IsMapping (depth_bound dialect - depth + 1))) (mapping_loop rec node indent depth ls)"
    (is "gives ?Q _")
proof (cases "skipBlanks ls")
  case Nil
  then show ?thesis using assms by (auto simp: mapping_loop_def leaves_def assumed_def intro: gives_Inr)
next
  case (Cons l ls')
  note shorter = skipBlanks_Cons [OF Cons]
  have entry: "gives (leaves (length ls') (filled (yd_bounds dialect) IsMapping (depth_bound dialect - depth + 1)))
      (rec (ReadMappingEntry node (rl_content l) (rl_number l) indent depth) ls')"
    by (rule served [OF rec]) (use assms shorter in \<open>auto simp: contract_defs\<close>)
  have loop: "gives ?Q (rec (MappingLoop node' indent depth) ls'')"
    if "length ls'' \<le> length ls'" "filled (yd_bounds dialect) IsMapping (depth_bound dialect - depth + 1) node'" for node' ls''
    by (rule served [OF rec]) (use assms shorter that in \<open>auto simp: contract_defs leaves_def\<close>)
  show ?thesis unfolding mapping_loop_def Cons list.case
    by (intro gives_if gives_Inr gives_pair [OF entry loop]) (use shorter assms in \<open>auto simp: leaves_def assumed_def\<close>)
qed

lemma step_sequence_item:
  assumes "Suc (length ls') \<le> yb_lines (yd_bounds dialect)" "depth < depth_bound dialect"
    and "5 * length ls' + 2 * depth_bound dialect + 8 \<le> fuel"
  shows "gives (leaves (length ls') (\<lambda>node. node_ok (yd_bounds dialect) node \<and> height node \<le> depth_bound dialect - depth + 1))
     (sequence_item dialect rec indent depth l ls')" (is "gives ?Q _")
proof -
  have node: "gives ?Q (rec (ParseBlockNode (indent + 1) (depth + 1)) ls')"
    by (rule served [OF rec]) (use assms in \<open>auto simp: contract_defs leaves_def\<close>)
  have seeded: "gives ?Q (rec (ParseSeededMapping i item line (depth + 1)) (l # ls'))" for i item line
    by (rule served [OF rec]) (use assms in \<open>auto simp: contract_defs leaves_def\<close>)
  have scalar: "gives ?Q (rec (ParseValue item line i (depth + 1)) ls')" for i item line
    by (rule served [OF rec]) (use assms in \<open>auto simp: contract_defs leaves_def\<close>)
  show ?thesis unfolding sequence_item_def Let_def by (intro gives_if node seeded scalar gives_intro)
qed

lemma step_sequence_loop:
  assumes "assumed (yd_bounds dialect) (SequenceLoop node indent depth) ls" "5 * length ls + 2 * depth_bound dialect + 4 \<le> Suc fuel"
  shows "gives (leaves (length ls) (filled (yd_bounds dialect) IsSequence (depth_bound dialect - depth + 1))) (sequence_loop dialect rec node indent depth ls)"
    (is "gives ?Q _")
proof (cases "skipBlanks ls")
  case Nil
  then show ?thesis using assms by (auto simp: sequence_loop_def leaves_def assumed_def intro: gives_Inr)
next
  case (Cons l ls')
  note shorter = skipBlanks_Cons [OF Cons]
  have item: "gives (leaves (length ls') (\<lambda>node. node_ok (yd_bounds dialect) node \<and> height node \<le> depth_bound dialect - depth + 1))
     (sequence_item dialect rec indent depth l ls')"
    by (rule step_sequence_item) (use assms shorter in \<open>auto simp: assumed_def\<close>)
  have more: "filled (yd_bounds dialect) IsSequence h (Sequence (yn_line node) (yn_items node @ [i]))"
    if "filled (yd_bounds dialect) IsSequence h node" "node_ok (yd_bounds dialect) i" "height i \<le> h"
      "length (yn_items node) < yb_block_sequence_items (yd_bounds dialect)" for i h
    using that by (cases node) (auto simp: filled_def children_def yn_kind_def)
  have loop: "gives ?Q (rec (SequenceLoop (Sequence (yn_line node) (yn_items node @ [i])) indent depth) ls'')"
    if "length ls'' \<le> length ls'" "node_ok (yd_bounds dialect) i \<and> height i \<le> depth_bound dialect - depth + 1"
      "length (yn_items node) < yb_block_sequence_items (yd_bounds dialect)" for i ls''
    by (rule served [OF rec]) (use assms shorter that more in \<open>auto simp: contract_defs leaves_def\<close>)
  show ?thesis unfolding sequence_loop_def Cons list.case
    by (intro gives_if gives_Inr gives_pair [OF item loop] gives_intro) (use shorter assms in \<open>auto simp: leaves_def assumed_def\<close>)
qed

lemma step_entry:
  assumes "assumed (yd_bounds dialect) (ReadMappingEntry node content line indent depth) ls" "5 * length ls + 2 * depth_bound dialect + 7 \<le> Suc fuel"
  shows "gives (leaves (length ls) (filled (yd_bounds dialect) IsMapping (depth_bound dialect - depth + 1)))
     (readMappingEntry dialect rec node content line indent depth ls)" (is "gives ?Q _")
proof -
  let ?P = "\<lambda>v. node_ok (yd_bounds dialect) v \<and> height v \<le> depth_bound dialect - depth + 1"
  have node: "gives (leaves (length ls) ?P) (rec (ParseBlockNode (indent + 1) (depth + 1)) ls)"
    by (rule served [OF rec]) (use assms in \<open>auto simp: contract_defs leaves_def\<close>)
  have scalar: "gives (leaves (length ls) ?P) (rec (ParseValue t line indent depth) ls)" for t
    by (rule served [OF rec]) (use assms in \<open>auto simp: contract_defs leaves_def\<close>)
  have v: "gives (leaves (length ls) ?P) (if t = [] then rec (ParseBlockNode (indent + 1) (depth + 1)) ls else rec (ParseValue t line indent depth) ls)" for t
    by (intro gives_if node scalar)
  have added: "gives ?Q (bindE (addEntry dialect node key v line) (\<lambda>node'. Inr (node', ls')))" if "length ls' \<le> length ls" "?P v" for key v ls'
    by (rule gives_bind [OF gives_entry]) (use assms that in \<open>auto simp: assumed_def leaves_def intro!: gives_Inr\<close>)
  have "gives ?Q (case k of (key, t) \<Rightarrow> bindE (if t = [] then rec (ParseBlockNode (indent + 1) (depth + 1)) ls else rec (ParseValue t line indent depth) ls)
      (\<lambda>(v, ls'). bindE (addEntry dialect node key v line) (\<lambda>node'. Inr (node', ls'))))" for k
    unfolding prod.case_eq_if [of _ k] by (rule gives_pair [OF v added])
  then show ?thesis unfolding readMappingEntry_def by (rule gives_bind [OF gives_keys(2)])
qed

lemma step_seeded:
  assumes "assumed (yd_bounds dialect) (ParseSeededMapping indent seed line depth) ls" "5 * length ls + 2 * depth_bound dialect + 3 \<le> Suc fuel"
  shows "gives (leaves (length ls - 1) (\<lambda>node. node_ok (yd_bounds dialect) node \<and> depth < depth_bound dialect
     \<and> height node \<le> depth_bound dialect - depth + 2)) (parseSeededMapping dialect rec indent seed line depth ls)" (is "gives ?Q _")
proof (cases "deeper dialect depth")
  case False
  let ?P = "filled (yd_bounds dialect) IsMapping (depth_bound dialect - depth + 1)"
  obtain l rest where ls: "ls = l # rest" using assms(1) by (cases ls) (simp_all add: assumed_def)
  have entry: "gives (leaves (length ls - 1) ?P) (rec (ReadMappingEntry (Mapping line []) seed line indent depth) (tl ls))"
    by (rule served [OF rec]) (use assms False ls in \<open>auto simp: contract_defs deeper_def filled_empty\<close>)
  have loop: "gives ?Q (rec (MappingLoop node indent depth) ls')" if "length ls' \<le> length ls - 1" "?P node" for node ls'
    by (rule served [OF rec])
      (use assms that False ls filled_height [of "yd_bounds dialect" IsMapping "depth_bound dialect - depth + 1"] in
        \<open>auto simp: contract_defs leaves_def deeper_def filled_def\<close>)
  show ?thesis unfolding parseSeededMapping_def if_not_P [OF False] by (rule gives_pair [OF entry loop])
qed (simp add: parseSeededMapping_def gives_intro)

text \<open>One more unit of fuel serves every call.\<close>

lemma step_serves: "serves (yd_bounds dialect) (Suc fuel) (parser_step dialect rec)"
  unfolding serves_def
proof (intro allI impI)
  fix call ls assume a: "assumed (yd_bounds dialect) call ls" and n: "need (depth_bound dialect) call (length ls) \<le> Suc fuel"
  show "gives (promised (yd_bounds dialect) call ls) (parser_step dialect rec call ls)"
  proof (cases call)
    case (ParseValue t line owner depth)
    then show ?thesis using a n step_value [of ls depth t line owner] by (simp add: parser_step_def contract_defs)
  next
    case (ParseFlowMapping t line depth)
    then show ?thesis using a n step_flow_mapping [of ls depth t line] by (simp add: parser_step_def contract_defs)
  next
    case (ParseBlockNode i depth)
    then show ?thesis using a n step_node [of ls depth i] by (simp add: parser_step_def contract_defs)
  next
    case (ParseBlockMapping i depth)
    then show ?thesis using a n step_block_mapping [of ls depth i] by (simp add: parser_step_def contract_defs)
  next
    case (MappingLoop node i depth)
    then show ?thesis using a n step_mapping_loop [of node i depth ls] by (simp add: parser_step_def contract_defs)
  next
    case (ParseBlockSequence i depth)
    then show ?thesis using a n step_block_sequence [of ls depth i] by (simp add: parser_step_def contract_defs)
  next
    case (SequenceLoop node i depth)
    then show ?thesis using a n step_sequence_loop [of node i depth ls] by (simp add: parser_step_def contract_defs)
  next
    case (ParseSeededMapping i seed line depth)
    then show ?thesis using a n step_seeded [of i seed line depth ls] by (simp add: parser_step_def contract_defs)
  next
    case (ReadMappingEntry node content line i depth)
    then show ?thesis using a n step_entry [of node content line i depth ls] by (simp add: parser_step_def contract_defs)
  qed
qed

end

lemma run_parser_serves: "serves (yd_bounds dialect) fuel (run_parser dialect fuel)"
proof (induction fuel)
  case 0
  have "need (depth_bound dialect) call n = 0 \<longleftrightarrow> False" for call n by (cases call) (simp_all add: need_def)
  then show ?case by (simp only: serves_def le_zero_eq) simp
next
  case (Suc fuel)
  then have "parser_calls dialect fuel (run_parser dialect fuel)" by unfold_locales
  then show ?case using parser_calls.step_serves by (auto simp: serves_def)
qed

text \<open>The parser of the model, at every fuel.\<close>

interpretation parsing: parser_calls dialect fuel "run_parser dialect fuel" for dialect fuel
  by unfold_locales (rule run_parser_serves)

section \<open>Documents\<close>

lemma raw_line_gives: "gives (\<lambda>_. True) (raw_line dialect number is_last physical)"
  unfolding raw_line_def Let_def by (intro gives_if gives_intro gives_Inr TrueI)

lemma raw_lines_give: "gives (\<lambda>ls. length ls = length ps \<and> (ps \<noteq> [] \<longrightarrow> count + length ps \<le> yb_lines (yd_bounds dialect))) (raw_lines dialect count ps)"
proof (induction ps arbitrary: count)
  case (Cons p ps)
  show ?case
  proof (cases "count \<ge> yb_lines (yd_bounds dialect)")
    case False
    then show ?thesis by (auto intro!: gives_bind [OF raw_line_gives] gives_bind [OF Cons.IH [of "Suc count"]] gives_Inr)
  qed (simp add: gives_intro)
qed (simp add: gives_def)

lemma document_gives:
  assumes "length ls \<le> yb_lines (yd_bounds dialect)"
  shows "gives (\<lambda>root. yn_kind root = IsMapping \<and> node_ok (yd_bounds dialect) root \<and> height root \<le> depth_bound dialect + 2) (parseDocument dialect ls)"
    (is "gives ?Q _")
proof (cases "skipBlanks ls")
  case Nil
  then show ?thesis by (simp add: parseDocument_def gives_intro)
next
  case (Cons l ls')
  note shorter = skipBlanks_Cons [OF Cons]
  have root: "gives (leaves (length ls) ?Q) (run_parser dialect (yaml_fuel dialect ls) (ParseBlockMapping 0 0) (l # ls'))"
    by (rule served [OF run_parser_serves]) (use assms shorter in \<open>auto simp: contract_defs leaves_def yaml_fuel_def\<close>)
  have ended: "gives ?Q (case skipBlanks rest of [] \<Rightarrow> Inr r | x # _ \<Rightarrow>
      yamlMalformed dialect (''unexpected content after '' @ yd_document dialect) (rl_number x))" if "?Q r" for r rest
    using that by (auto intro: gives_intro gives_Inr split: list.split)
  show ?thesis unfolding parseDocument_def Cons list.case
    by (intro gives_if gives_intro gives_pair [OF root ended])
qed

lemma parse_gives: "gives (\<lambda>_. True) (parseYamlSubset dialect content)"
proof -
  have "gives (\<lambda>ls. length ls \<le> yb_lines (yd_bounds dialect)) (splitLines dialect content)"
    unfolding splitLines_def by (rule gives_weaken [OF raw_lines_give]) auto
  then show ?thesis unfolding parseYamlSubset_def
    by (intro gives_if gives_intro gives_bind [where P = "\<lambda>ls. length ls \<le> yb_lines (yd_bounds dialect)"] gives_weaken [OF document_gives])
      (simp_all add: gives_def)
qed

text \<open>
  Parsing a document always comes to an end within the fuel, whatever the text and the bounds: the result is a tree
  or an error of the parser.
\<close>

theorem yaml_terminates: "parseYamlSubset dialect content \<noteq> Inl Out_of_fuel"
  using parse_gives [of dialect content] by (auto simp: gives_def)


text \<open>A dialect that allows one level, and a document of three collections, one inside the other, that it accepts.\<close>

definition shallow_dialect :: YamlDialect where
  "shallow_dialect = \<lparr>yd_bounds = \<lparr>yb_document_bytes = 64, yb_line_bytes = 32, yb_lines = 4, yb_key_bytes = 4, yb_scalar_bytes = 8,
     yb_block_scalar_bytes = 8, yb_flow_sequence_items = 2, yb_block_sequence_items = 2, yb_mapping_entries = 2, yb_nesting_depth = 1\<rparr>,
     yd_prefix = ''doc'', yd_document = ''the document''\<rparr>"

lemma shallow_parsed:
  "parseYamlSubset shallow_dialect ''a: {b: [x]}'' = Inr (Mapping 1 [(''a'', Mapping 1 [(''b'', Sequence 1 [Scalar 1 ''x''])])])"
  by code_simp


section \<open>What the errors say\<close>

text \<open>Every error names the kind of the document, and a limit that is exceeded has a kind of error of its own.\<close>

definition named_error :: "string \<Rightarrow> ck_error \<Rightarrow> bool" where
  "named_error pre e \<longleftrightarrow> (\<exists>m. e = Runtime_Error (pre @ '': '' @ m) \<or> e = Length_Error (pre @ '': '' @ m))"

definition worded :: "string \<Rightarrow> 'a parsed \<Rightarrow> bool" where
  "worded pre r \<longleftrightarrow> (\<forall>e. r = Inl (Thrown e) \<longrightarrow> named_error pre e)"

named_theorems worded_intro "rules for the wording of errors"

lemma worded_errors [worded_intro]:
  "worded (yd_prefix dialect) (yamlMalformed dialect m line)" "worded (yd_prefix dialect) (yamlTooLarge dialect m)"
  "worded p (Inr x)" "worded p (Inl Out_of_fuel)" "worded (yd_prefix dialect) (tooDeep dialect)"
  by (auto simp: worded_def named_error_def yamlMalformed_def yamlTooLarge_def tooDeep_def)

lemma worded_bind [worded_intro]: "worded p m \<Longrightarrow> (\<And>x. worded p (f x)) \<Longrightarrow> worded p (bindE m f)"
  by (auto simp: worded_def bindE_def split: sum.splits)

lemma worded_if [worded_intro]: "worded p a \<Longrightarrow> worded p b \<Longrightarrow> worded p (if c then a else b)"
  by simp

lemma worded_case [worded_intro]:
  "worded p a \<Longrightarrow> (\<And>y. worded p (f y)) \<Longrightarrow> worded p (case x of None \<Rightarrow> a | Some y \<Rightarrow> f y)"
  "worded p a \<Longrightarrow> (\<And>y ys. worded p (g y ys)) \<Longrightarrow> worded p (case l of [] \<Rightarrow> a | y # ys \<Rightarrow> g y ys)"
  "(\<And>y. worded p (h y)) \<Longrightarrow> (\<And>y. worded p (k y)) \<Longrightarrow> worded p (case s of Inl y \<Rightarrow> h y | Inr y \<Rightarrow> k y)"
  "(\<And>y z. worded p (i y z)) \<Longrightarrow> worded p (case q of (y, z) \<Rightarrow> i y z)"
  by (simp_all split: option.split list.split sum.split prod.split)

lemma worded_let [worded_intro]: "(\<And>y. worded p (f y)) \<Longrightarrow> worded p (let y = x in f y)"
  by simp

lemma worded_fold [worded_intro]: "(\<And>s x. worded p (f s x)) \<Longrightarrow> worded p (foldE f s xs)"
  by (induction xs arbitrary: s) (auto intro!: worded_intro)

lemma worded_scalar [worded_intro]: "worded (yd_prefix dialect) (parseScalarToken dialect token line)"
  unfolding parseScalarToken_def bounded_scalar_def by (intro worded_intro)

lemma worded_split [worded_intro]: "worded (yd_prefix dialect) (splitFlow dialect body line)"
  unfolding splitFlow_def by (intro worded_intro)

lemma worded_entry [worded_intro]: "worded (yd_prefix dialect) (addEntry dialect node key v line)"
  unfolding addEntry_def by (intro worded_intro)

lemma worded_block [worded_intro]: "worded (yd_prefix dialect) (block_text dialect folded base body acc open_text)"
  by (induction dialect folded base body acc open_text rule: block_text.induct) (auto intro!: worded_intro)

lemma worded_pieces [worded_intro]:
  "worded (yd_prefix dialect) (parseBlockScalar dialect owner line folded chomping ls)"
  "worded (yd_prefix dialect) (parseFlowSequence dialect t line)"
  "worded (yd_prefix dialect) (flow_body dialect t line)"
  "worded (yd_prefix dialect) (flow_key dialect t line)" "worded (yd_prefix dialect) (block_key dialect t line)"
  unfolding parseBlockScalar_def parseFlowSequence_def flow_item_def flow_body_def flow_key_def block_key_def
  by (intro worded_intro)+

lemma worded_step:
  assumes rec: "\<And>call ls. worded (yd_prefix dialect) (rec call ls)"
  shows "worded (yd_prefix dialect) (parser_step dialect rec call ls)"
proof -
  have e: "worded (yd_prefix dialect) (flow_entry dialect rec line depth s part)" for line depth s part
    unfolding flow_entry_def by (intro worded_intro rec)
  show ?thesis unfolding parser_step_def
    by (cases call; simp only: yaml_call.case parseValue_def parseFlowMapping_def parseBlockNode_def parseBlockMapping_def mapping_loop_def
        parseBlockSequence_def sequence_item_def sequence_loop_def parseSeededMapping_def readMappingEntry_def;
      intro worded_intro rec e)
qed

lemma worded_run [worded_intro]: "worded (yd_prefix dialect) (run_parser dialect fuel call ls)"
  by (induction fuel arbitrary: call ls) (auto intro: worded_intro worded_step)

lemma worded_lines [worded_intro]: "worded (yd_prefix dialect) (raw_lines dialect count ps)"
  by (induction dialect count ps rule: raw_lines.induct) (auto simp: raw_line_def Let_def intro!: worded_intro)

lemma worded_utf8 [worded_intro]: "worded pre (Inl (Thrown (Runtime_Error (pre @ '': the file is not valid UTF-8''))))"
  by (simp add: worded_def named_error_def)

lemma parse_worded: "worded (yd_prefix dialect) (parseYamlSubset dialect content)"
  unfolding parseYamlSubset_def splitLines_def parseDocument_def by (intro worded_intro)

section \<open>Larger bounds\<close>

text \<open>A result that is the same with larger bounds, where it is a value.\<close>

definition below :: "'a parsed \<Rightarrow> 'a parsed \<Rightarrow> bool" where
  "below r r' \<longleftrightarrow> (\<forall>x. r = Inr x \<longrightarrow> r' = Inr x)"

definition bounds_le :: "YamlBounds \<Rightarrow> YamlBounds \<Rightarrow> bool" where
  "bounds_le a b \<longleftrightarrow> yb_document_bytes a \<le> yb_document_bytes b \<and> yb_line_bytes a \<le> yb_line_bytes b \<and> yb_lines a \<le> yb_lines b
     \<and> yb_key_bytes a \<le> yb_key_bytes b \<and> yb_scalar_bytes a \<le> yb_scalar_bytes b \<and> yb_block_scalar_bytes a \<le> yb_block_scalar_bytes b
     \<and> yb_flow_sequence_items a \<le> yb_flow_sequence_items b \<and> yb_block_sequence_items a \<le> yb_block_sequence_items b
     \<and> yb_mapping_entries a \<le> yb_mapping_entries b \<and> yb_nesting_depth a \<le> yb_nesting_depth b"

named_theorems below_intro "rules for results that larger bounds keep"

lemma below_error [below_intro]: "below (yamlMalformed dialect m line) r" "below (yamlTooLarge dialect m) r" "below (tooDeep dialect) r" "below (Inl e) r"
  by (simp_all add: below_def yamlMalformed_def yamlTooLarge_def tooDeep_def)

lemma below_Inr [below_intro]: "below (Inr x) (Inr x)"
  by (simp add: below_def)

lemma below_bind [below_intro]: "below m m' \<Longrightarrow> (\<And>x. below (f x) (f' x)) \<Longrightarrow> below (bindE m f) (bindE m' f')"
  by (auto simp: below_def elim!: bindE_InrE)

lemma below_case [below_intro]:
  "below a a' \<Longrightarrow> (\<And>y. below (f y) (f' y)) \<Longrightarrow> below (case x of None \<Rightarrow> a | Some y \<Rightarrow> f y) (case x of None \<Rightarrow> a' | Some y \<Rightarrow> f' y)"
  "below a a' \<Longrightarrow> (\<And>y ys. below (g y ys) (g' y ys)) \<Longrightarrow> below (case l of [] \<Rightarrow> a | y # ys \<Rightarrow> g y ys) (case l of [] \<Rightarrow> a' | y # ys \<Rightarrow> g' y ys)"
  "(\<And>y. below (h y) (h' y)) \<Longrightarrow> (\<And>y. below (k y) (k' y)) \<Longrightarrow> below (case s of Inl y \<Rightarrow> h y | Inr y \<Rightarrow> k y) (case s of Inl y \<Rightarrow> h' y | Inr y \<Rightarrow> k' y)"
  "(\<And>y z. below (i y z) (i' y z)) \<Longrightarrow> below (case q of (y, z) \<Rightarrow> i y z) (case q of (y, z) \<Rightarrow> i' y z)"
  by (simp_all split: option.split list.split sum.split prod.split)

lemma below_if [below_intro]: "below a a' \<Longrightarrow> below b b' \<Longrightarrow> below (if c then a else b) (if c then a' else b')"
  by simp

lemma below_guard: "(\<And>r. below a r) \<Longrightarrow> (\<not> c \<Longrightarrow> \<not> c') \<Longrightarrow> below b b' \<Longrightarrow> below (if c then a else b) (if c' then a' else b')"
  by simp

lemma below_fold [below_intro]: "(\<And>s x. below (f s x) (f' s x)) \<Longrightarrow> below (foldE f s xs) (foldE f' s xs)"
  by (induction xs arbitrary: s) (auto intro!: below_intro)

text \<open>The parser of the smaller bounds beside that of the larger ones.\<close>

definition wider :: "YamlDialect \<Rightarrow> YamlDialect \<Rightarrow> bool" where
  "wider small large \<longleftrightarrow> bounds_le (yd_bounds small) (yd_bounds large)"

lemma below_scalar [below_intro]:
  assumes le: "wider small large"
  shows "below (parseScalarToken small token line) (parseScalarToken large token line)"
proof -
  have "below (bounded_scalar small s) (bounded_scalar large s)" for s
    using le unfolding bounded_scalar_def wider_def bounds_le_def by (intro below_guard below_intro) simp
  then show ?thesis unfolding parseScalarToken_def by (intro below_intro)
qed

lemma below_split_flow [below_intro]: "below (splitFlow small body line) (splitFlow large body line)"
  unfolding splitFlow_def by (intro below_intro)

lemma below_entry [below_intro]: "wider small large \<Longrightarrow> below (addEntry small node key v line) (addEntry large node key v line)"
  by (auto simp: addEntry_def wider_def bounds_le_def intro!: below_intro below_guard)

lemma below_block [below_intro]:
  assumes le: "wider small large"
  shows "below (block_text small folded base body acc open_text) (block_text large folded base body acc open_text)"
proof (induction body arbitrary: acc open_text folded)
  case (Cons raw body)
  have "yb_block_scalar_bytes (yd_bounds small) \<le> yb_block_scalar_bytes (yd_bounds large)" using le by (simp add: wider_def bounds_le_def)
  then show ?case by (cases "rl_blank raw"; cases "rl_indent raw < base") (auto intro!: Cons below_intro below_guard)
qed (simp add: below_intro)

lemma below_pieces [below_intro]:
  "wider small large \<Longrightarrow> below (parseBlockScalar small owner line folded chomping ls) (parseBlockScalar large owner line folded chomping ls)"
  "below (flow_body small t line) (flow_body large t line)"
  "below (flow_key small t line) (flow_key large t line)" "below (block_key small t line) (block_key large t line)"
  unfolding parseBlockScalar_def Let_def flow_body_def flow_key_def block_key_def
  by (intro below_intro | assumption)+

lemma below_flow_sequence [below_intro]:
  assumes le: "wider small large"
  shows "below (parseFlowSequence small t line) (parseFlowSequence large t line)"
proof -
  have "below (flow_item small line items part) (flow_item large line items part)" for items part
    using le by (auto simp: flow_item_def wider_def bounds_le_def intro!: below_guard below_intro)
  then show ?thesis unfolding parseFlowSequence_def by (intro below_intro)
qed

lemma below_step:
  assumes le: "wider small large" and rec: "\<And>call ls. below (rec call ls) (rec' call ls)"
  shows "below (parser_step small rec call ls) (parser_step large rec' call ls)"
proof -
  have e: "below (flow_entry small rec line depth s part) (flow_entry large rec' line depth s part)" for line depth s part
    unfolding flow_entry_def by (intro below_intro rec le)
  have s: "below (sequence_item small rec indent depth l ls) (sequence_item large rec' indent depth l ls)" for indent depth l ls
    unfolding sequence_item_def Let_def by (intro below_intro rec)
  have deep: "\<not> deeper small depth \<Longrightarrow> \<not> deeper large depth" for depth
    using le by (simp add: deeper_def wider_def bounds_le_def)
  have items: "\<not> yb_block_sequence_items (yd_bounds small) \<le> n \<Longrightarrow> \<not> yb_block_sequence_items (yd_bounds large) \<le> n" for n
    using le by (simp add: wider_def bounds_le_def)
  show ?thesis unfolding parser_step_def
    by (cases call; simp only: yaml_call.case parseValue_def parseFlowMapping_def parseBlockNode_def parseBlockMapping_def mapping_loop_def
        parseBlockSequence_def sequence_loop_def parseSeededMapping_def readMappingEntry_def Let_def;
      (intro below_intro below_guard rec e s le | erule deep | erule items)+)
qed

lemma below_run: "wider small large \<Longrightarrow> fuel \<le> fuel' \<Longrightarrow> below (run_parser small fuel call ls) (run_parser large fuel' call ls)"
proof (induction fuel arbitrary: fuel' call ls)
  case (Suc fuel)
  then obtain f where "fuel' = Suc f" "fuel \<le> f" by (cases fuel') auto
  then show ?case using Suc by (simp add: below_step)
qed (simp add: below_intro)

lemma below_lines: "wider small large \<Longrightarrow> below (raw_lines small count ps) (raw_lines large count ps)"
proof (induction ps arbitrary: count)
  case (Cons p ps)
  have "below (raw_line small n l p) (raw_line large n l p)" for n l
    using Cons.prems by (auto simp: raw_line_def Let_def wider_def bounds_le_def intro!: below_intro)
  then show ?case using Cons by (auto simp: wider_def bounds_le_def intro!: below_intro below_guard)
qed (simp add: below_intro)

lemma below_document:
  assumes "wider small large"
  shows "below (parseDocument small ls) (parseDocument large ls)"
proof -
  have "yaml_fuel small ls \<le> yaml_fuel large ls" using assms by (simp add: yaml_fuel_def wider_def bounds_le_def)
  then show ?thesis unfolding parseDocument_def by (intro below_intro below_run assms)
qed

lemma below_parse:
  assumes w: "wider small large"
  shows "below (parseYamlSubset small content) (parseYamlSubset large content)"
proof -
  have "\<not> length content > yb_document_bytes (yd_bounds small) \<Longrightarrow> \<not> length content > yb_document_bytes (yd_bounds large)"
    using w by (simp add: wider_def bounds_le_def)
  then show ?thesis unfolding parseYamlSubset_def splitLines_def
    by (intro below_guard below_intro below_lines below_document w)
qed

lemma below_value: "below r r' \<Longrightarrow> r = Inr x \<Longrightarrow> r' = Inr x"
  by (simp add: below_def)

text \<open>
  The bounds only reject: a document that is accepted is read as the same tree under any dialect with larger bounds,
  deeper nesting included.
\<close>

theorem bounds_only_reject:
  assumes "bounds_le (yd_bounds small) (yd_bounds large)" "parseYamlSubset small content = Inr root"
  shows "parseYamlSubset large content = Inr root"
  by (rule below_value [OF below_parse assms(2)]) (simp add: wider_def assms(1))

theorem bounds_only_reject_witness:
  "parseYamlSubset (shallow_dialect\<lparr>yd_bounds := (yd_bounds shallow_dialect)\<lparr>yb_lines := 4096, yb_nesting_depth := 16\<rparr>\<rparr>) ''a: {b: [x]}''
   = Inr (Mapping 1 [(''a'', Mapping 1 [(''b'', Sequence 1 [Scalar 1 ''x''])])])"
  by (rule bounds_only_reject [OF _ shallow_parsed]) (simp add: bounds_le_def shallow_dialect_def)

section \<open>Literal blocks\<close>

text \<open>
  What a line of a literal block contributes: its text without the indentation of the block. A line that starts with
  the comment sign is a blank line here too, although it is content of the block.
\<close>

definition literal_line :: "nat \<Rightarrow> RawLine \<Rightarrow> string" where
  "literal_line base raw = (if rl_blank raw then [] else replicate (rl_indent raw - base) CHR '' '' @ rl_content raw)"

lemma block_text_literal:
  "block_text dialect False base body text False = Inr (t, open_text) \<Longrightarrow>
   t = text @ concat (map (\<lambda>l. literal_line base l @ [newline]) body) \<and> \<not> open_text
   \<and> list_all (\<lambda>l. rl_blank l \<or> base \<le> rl_indent l) body"
proof (induction dialect False base body "text" False rule: block_text.induct)
  case (2 dialect base raw body acc)
  then show ?case
    by (auto simp: literal_line_def with_line_def yamlMalformed_def yamlTooLarge_def not_less split: if_splits)
qed simp

text \<open>
  A literal block is the lines below its key that are blank or indented deeper, each without the indentation of the
  first one that is not blank and closed by a line break, with the end chomped as the header says; the parser goes on
  behind them. A line that starts with the comment sign counts as blank, so its text is not in the block.
\<close>

theorem literal_block_text:
  assumes "parseBlockScalar dialect owner line False chomping ls = Inr (node, rest)"
  shows "\<exists>first \<in> set ls. \<not> rl_blank first
    \<and> node = Scalar line (chomp chomping (concat (map (\<lambda>l. literal_line (rl_indent first) l @ [newline]) (takeWhile (in_block owner) ls))))
    \<and> list_all (\<lambda>l. rl_blank l \<or> rl_indent first \<le> rl_indent l) (takeWhile (in_block owner) ls)
    \<and> rest = dropWhile (in_block owner) ls"
proof (cases "filter (\<lambda>r. \<not> rl_blank r) (takeWhile (in_block owner) ls)")
  case Nil
  with assms show ?thesis by (simp add: parseBlockScalar_def yamlMalformed_def)
next
  case (Cons first others)
  then have first: "first \<in> set ls" "\<not> rl_blank first"
    by (auto dest!: arg_cong [where f = "set"] set_takeWhileD)
  from assms Cons obtain t open_text where
    t: "block_text dialect False (rl_indent first) (takeWhile (in_block owner) ls) [] False = Inr (t, open_text)"
    "node = Scalar line (chomp chomping (t @ (if open_text then [newline] else [])))" "rest = dropWhile (in_block owner) ls"
    by (auto simp: parseBlockScalar_def Let_def elim!: bindE_InrE)
  from block_text_literal [OF t(1)] t(2,3) first show ?thesis by auto
qed

text \<open>A script whose first line is a comment: the line is there, its text is not.\<close>

definition script_lines :: "RawLine list" where
  "script_lines =
     [\<lparr>rl_indent = 4, rl_content = ''#!/bin/awk'', rl_number = 2, rl_blank = True\<rparr>,
      \<lparr>rl_indent = 4, rl_content = ''a'', rl_number = 3, rl_blank = False\<rparr>,
      \<lparr>rl_indent = 6, rl_content = ''b'', rl_number = 4, rl_blank = False\<rparr>,
      \<lparr>rl_indent = 0, rl_content = ''c: d'', rl_number = 5, rl_blank = False\<rparr>]"

lemma script_lines_read: "splitLines shallow_dialect (concat [[newline], ''    #!/bin/awk'', [newline], ''    a'', [newline], ''      b'']) =
    Inr (\<lparr>rl_indent = 0, rl_content = [], rl_number = 1, rl_blank = True\<rparr> # take 3 script_lines)"
  by code_simp

lemma script_parsed:
  "parseBlockScalar shallow_dialect 0 1 False CHR '' '' script_lines =
     Inr (Scalar 1 [newline, CHR ''a'', newline, CHR '' '', CHR '' '', CHR ''b'', newline], [script_lines ! 3])"
  by code_simp

theorem literal_block_text_witness:
  "\<exists>first \<in> set script_lines. \<not> rl_blank first
    \<and> Scalar 1 [newline, CHR ''a'', newline, CHR '' '', CHR '' '', CHR ''b'', newline]
      = Scalar 1 (chomp CHR '' '' (concat (map (\<lambda>l. literal_line (rl_indent first) l @ [newline]) (takeWhile (in_block 0) script_lines))))
    \<and> [script_lines ! 3] = dropWhile (in_block 0) script_lines"
  using literal_block_text [OF script_parsed] by blast

text \<open>Folding and chomping are part of the subset.\<close>

lemma folded_block_read:
  "parseYamlSubset shallow_dialect (concat [''a: >-'', [newline], '' x'', [newline], '' y'']) = Inr (Mapping 1 [(''a'', Scalar 1 ''x y'')])"
  by code_simp

section \<open>Quoting\<close>

text \<open>Every text can be written as a single-quoted scalar.\<close>

definition single_quoted :: "string \<Rightarrow> string" where
  "single_quoted s = squote # concat (map (\<lambda>c. if c = squote then [squote, squote] else [c]) s) @ [squote]"

lemma unquote_doubled: "unquote_single (concat (map (\<lambda>c. if c = squote then [squote, squote] else [c]) s)) = Some s"
  by (induction s) auto

text \<open>Any text within the bound is read back from its single-quoted form.\<close>

theorem single_quoted_roundtrip:
  assumes "length s \<le> yb_scalar_bytes (yd_bounds dialect)"
  shows "parseScalarToken dialect (single_quoted s) line = Inr s"
  using assms unquote_doubled [of s] by (simp add: parseScalarToken_def single_quoted_def bounded_scalar_def butlast_append)

theorem single_quoted_roundtrip_witness:
  "parseScalarToken shallow_dialect (single_quoted ''it'') 1 = Inr ''it'' \<and> single_quoted [CHR ''a'', squote] = [squote, CHR ''a'', squote, squote, squote]"
  using single_quoted_roundtrip [of "''it''" shallow_dialect 1] by (simp add: shallow_dialect_def single_quoted_def)

section \<open>Readers of a tree\<close>

text \<open>A reader that ends, with a value or with an error that names the kind of the document.\<close>

definition reads_cleanly :: "string \<Rightarrow> 'a parsed \<Rightarrow> bool" where
  "reads_cleanly p r \<longleftrightarrow> worded p r \<and> r \<noteq> Inl Out_of_fuel"

named_theorems clean_intro "rules for readers that end with a value or an error that names the document"

lemma clean_errors [clean_intro]:
  "reads_cleanly (yd_prefix dialect) (yamlMalformed dialect m line)" "reads_cleanly (yd_prefix dialect) (yamlTooLarge dialect m)"
  "reads_cleanly p (Inr x)"
  by (auto simp: reads_cleanly_def worded_def named_error_def yamlMalformed_def yamlTooLarge_def)

lemma clean_bind [clean_intro]: "reads_cleanly p m \<Longrightarrow> (\<And>x. reads_cleanly p (f x)) \<Longrightarrow> reads_cleanly p (bindE m f)"
  by (cases m) (auto simp: reads_cleanly_def worded_def bindE_def)

lemma clean_if [clean_intro]: "reads_cleanly p a \<Longrightarrow> reads_cleanly p b \<Longrightarrow> reads_cleanly p (if c then a else b)"
  by simp

lemma clean_case [clean_intro]:
  "reads_cleanly p a \<Longrightarrow> (\<And>y. reads_cleanly p (f y)) \<Longrightarrow> reads_cleanly p (case x of None \<Rightarrow> a | Some y \<Rightarrow> f y)"
  "reads_cleanly p a \<Longrightarrow> (\<And>y ys. reads_cleanly p (g y ys)) \<Longrightarrow> reads_cleanly p (case l of [] \<Rightarrow> a | y # ys \<Rightarrow> g y ys)"
  "(\<And>y z. reads_cleanly p (i y z)) \<Longrightarrow> reads_cleanly p (case q of (y, z) \<Rightarrow> i y z)"
  "(\<And>l s. reads_cleanly p (n1 l s)) \<Longrightarrow> (\<And>l s. reads_cleanly p (n2 l s)) \<Longrightarrow> (\<And>l s. reads_cleanly p (n3 l s)) \<Longrightarrow>
   reads_cleanly p (case node of Scalar l s \<Rightarrow> n1 l s | Sequence l s' \<Rightarrow> n2 l s' | Mapping l s'' \<Rightarrow> n3 l s'')"
  by (simp_all split: option.split list.split prod.split YamlNode.split)

lemma clean_let [clean_intro]: "(\<And>y. reads_cleanly p (f y)) \<Longrightarrow> reads_cleanly p (let y = x in f y)"
  by simp

lemma clean_map [clean_intro]: "(\<And>x. reads_cleanly p (f x)) \<Longrightarrow> reads_cleanly p (mapE f xs)"
  by (induction xs) (auto intro!: clean_intro)

lemma clean_fold [clean_intro]: "(\<And>s x. reads_cleanly p (f s x)) \<Longrightarrow> reads_cleanly p (foldE f s xs)"
  by (induction xs arbitrary: s) (auto intro!: clean_intro)

lemma clean_nodes [clean_intro]:
  "reads_cleanly (yd_prefix dialect) (yamlRequireKind dialect node kind what)"
  "reads_cleanly (yd_prefix dialect) (yamlRejectUnknownKeys dialect node allowed)"
  unfolding yamlRequireKind_def yamlRejectUnknownKeys_def by (intro clean_intro)+

lemma clean_document [clean_intro]: "reads_cleanly (yd_prefix dialect) (parseYamlSubset dialect content)"
  using parse_worded [of dialect content] parse_gives [of dialect content] by (auto simp: reads_cleanly_def gives_def)

end
