(* ===== verification/Ck_Ci_Dependency_Lock.thy ===== *)
theory Ck_Ci_Dependency_Lock
  imports Ck_Hash Ck_Yaml Ck_Ready
begin

text \<open>
  The lock of a project's build dependencies, \<open>src/common/ci_dependency_lock.cpp\<close>: a document of the YAML subset that names
  source files with their digests and packages that need each other. The packages are searched depth first from the
  direct ones; the recursion of the search is on fuel, one unit for every package and one more, which is shown to be
  enough. Shown here: the search succeeds exactly when the packages are closed, without a cycle and all reachable; an
  accepted lock has everything the reader checks; and the inputs are verified by their digests.
\<close>

section \<open>Locks\<close>

record CiDependencyInput =
  di_path :: string
  di_sha256 :: string

record CiDependencyPackage =
  pk_name :: string
  pk_version :: string
  pk_registry :: string
  pk_pkg_sha256 :: string
  pk_recipe_sha256 :: string
  pk_direct :: bool
  pk_needs :: "string list"

record CiDependencyLock =
  dl_sha256 :: string
  dl_platform :: string
  dl_architecture :: string
  dl_abi :: string
  dl_inputs :: "CiDependencyInput list"
  dl_packages :: "CiDependencyPackage list"

definition lock_dialect :: YamlDialect where
  "lock_dialect = \<lparr>yd_bounds =
     \<lparr>yb_document_bytes = 256 * 1024, yb_line_bytes = 4096, yb_lines = 8192, yb_key_bytes = 128, yb_scalar_bytes = 1024,
      yb_block_scalar_bytes = 1024, yb_flow_sequence_items = 256, yb_block_sequence_items = 1024, yb_mapping_entries = 16,
      yb_nesting_depth = 10\<rparr>,
     yd_prefix = ''dependency lock'', yd_document = ''the dependency lock''\<rparr>"

abbreviation lock_malformed :: "string \<Rightarrow> nat \<Rightarrow> 'a parsed" where
  "lock_malformed \<equiv> yamlMalformed lock_dialect"

section \<open>Fields\<close>

definition lock_field :: "YamlNode \<Rightarrow> string \<Rightarrow> yaml_kind \<Rightarrow> YamlNode parsed" where
  "lock_field node name kind =
     (case yamlFindEntry node name of
        None \<Rightarrow> lock_malformed (''missing required field '' @ [squote] @ name @ [squote]) (yn_line node)
      | Some entry \<Rightarrow> yamlRequireKind lock_dialect entry kind ''the field to have the expected type'')"

definition lock_scalar :: "YamlNode \<Rightarrow> string \<Rightarrow> string parsed" where
  "lock_scalar node name = bindE (lock_field node name IsScalar) (\<lambda>n. Inr (yn_scalar n))"

definition safeToken :: "string \<Rightarrow> nat \<Rightarrow> bool" where
  "safeToken v limit \<longleftrightarrow> v \<noteq> [] \<and> length v \<le> limit \<and>
     list_all (\<lambda>c. is_lower c \<or> is_upper c \<or> is_digit c \<or> c = CHR ''.'' \<or> c = CHR ''_'' \<or> c = CHR ''-'' \<or> c = CHR ''+'') v"

definition check_digest :: "string \<Rightarrow> nat \<Rightarrow> unit parsed" where
  "check_digest v line =
     (if \<not> isValidSha256Hex v then lock_malformed ''SHA-256 must be 64 lowercase hexadecimal digits'' line else Inr ())"

definition printable_ascii :: "string \<Rightarrow> bool" where
  "printable_ascii path \<longleftrightarrow> list_all (\<lambda>c. 0x20 \<le> byte c \<and> byte c \<le> 0x7E) path"

definition lock_input :: "CiDependencyInput list \<Rightarrow> YamlNode \<Rightarrow> CiDependencyInput list parsed" where
  "lock_input inputs node =
     bindE (yamlRequireKind lock_dialect node IsMapping ''an input to be a mapping'') (\<lambda>_.
     bindE (yamlRejectUnknownKeys lock_dialect node [''path'', ''sha256'']) (\<lambda>_.
     bindE (lock_scalar node ''path'') (\<lambda>path.
     bindE (lock_scalar node ''sha256'') (\<lambda>digest.
     if \<not> printable_ascii path \<or> \<not> isSafeRelativePath path \<or> last path = CHR ''/'' \<or> path \<in> di_path ` set inputs
     then lock_malformed ''invalid or duplicate input path'' (yn_line node)
     else bindE (check_digest digest (yn_line node)) (\<lambda>_. Inr (inputs @ [\<lparr>di_path = path, di_sha256 = digest\<rparr>]))))))"

definition lock_need :: "string list \<Rightarrow> YamlNode \<Rightarrow> string list parsed" where
  "lock_need needs item =
     bindE (yamlRequireKind lock_dialect item IsScalar ''a dependency name to be a scalar'') (\<lambda>n.
     if \<not> safeToken (yn_scalar n) 128 \<or> yn_scalar n \<in> set needs then lock_malformed ''invalid or duplicate dependency name'' (yn_line item)
     else Inr (needs @ [yn_scalar n]))"

definition lock_package :: "CiDependencyPackage list \<Rightarrow> YamlNode \<Rightarrow> CiDependencyPackage list parsed" where
  "lock_package packages node =
     bindE (yamlRequireKind lock_dialect node IsMapping ''a package to be a mapping'') (\<lambda>_.
     bindE (yamlRejectUnknownKeys lock_dialect node [''name'', ''version'', ''registry'', ''sha256'', ''recipe_sha256'', ''direct'', ''needs'']) (\<lambda>_.
     bindE (lock_scalar node ''name'') (\<lambda>name.
     bindE (lock_scalar node ''version'') (\<lambda>version.
     bindE (lock_scalar node ''registry'') (\<lambda>registry.
     bindE (lock_scalar node ''sha256'') (\<lambda>digest.
     bindE (lock_scalar node ''recipe_sha256'') (\<lambda>recipe.
     if \<not> safeToken name 128 \<or> \<not> safeToken version 128 \<or> \<not> isValidCiLabel registry \<or> name \<in> pk_name ` set packages
     then lock_malformed ''invalid or duplicate package identity'' (yn_line node)
     else bindE (check_digest digest (yn_line node)) (\<lambda>_.
     bindE (check_digest recipe (yn_line node)) (\<lambda>_.
     bindE (lock_scalar node ''direct'') (\<lambda>direct.
     if direct \<noteq> ''true'' \<and> direct \<noteq> ''false'' then lock_malformed ''direct must be true or false'' (yn_line node)
     else bindE (lock_field node ''needs'' IsSequence) (\<lambda>needs.
     if length (yn_items needs) > 256 then lock_malformed ''too many package dependencies'' (yn_line node)
     else bindE (foldE lock_need [] (yn_items needs)) (\<lambda>names.
     Inr (packages @ [\<lparr>pk_name = name, pk_version = version, pk_registry = registry, pk_pkg_sha256 = digest,
       pk_recipe_sha256 = recipe, pk_direct = (direct = ''true''), pk_needs = names\<rparr>])))))))))))))"

section \<open>The search\<close>

text \<open>The number a name has in the map of the packages read so far.\<close>

fun index_of :: "string \<Rightarrow> string list \<Rightarrow> nat option" where
  "index_of name [] = None"
| "index_of name (n # ns) = (if n = name then Some 0 else map_option Suc (index_of name ns))"

definition lock_error :: "string \<Rightarrow> 'a parsed" where
  "lock_error m = Inl (Thrown (Runtime_Error (''dependency lock: '' @ m)))"

text \<open>0 is a package that was not seen, 1 one that is being visited, 2 one that is done.\<close>

fun visit :: "nat \<Rightarrow> CiDependencyPackage list \<Rightarrow> nat list \<Rightarrow> nat \<Rightarrow> nat list parsed" where
  "visit 0 packages state i = Inl Out_of_fuel"
| "visit (Suc fuel) packages state i =
     (if state ! i = 1 then lock_error ''dependency cycle''
      else if state ! i = 2 then Inr state
      else bindE (foldE (\<lambda>state name. case index_of name (map pk_name packages) of
               None \<Rightarrow> lock_error ''unresolved dependency''
             | Some j \<Rightarrow> visit fuel packages state j) (state[i := 1]) (pk_needs (packages ! i)))
           (\<lambda>state'. Inr (state'[i := 2])))"

definition check_graph :: "CiDependencyPackage list \<Rightarrow> unit parsed" where
  "check_graph packages =
     bindE (foldE (\<lambda>state i. if pk_direct (packages ! i) then visit (length packages + 1) packages state i else Inr state)
       (replicate (length packages) 0) [0..<length packages]) (\<lambda>state.
     if list_ex (\<lambda>v. v \<noteq> 2) state then lock_error ''packages must be reachable from a direct dependency'' else Inr ())"

definition interpret_lock :: "string \<Rightarrow> YamlNode \<Rightarrow> CiDependencyLock parsed" where
  "interpret_lock content root =
     bindE (yamlRejectUnknownKeys lock_dialect root [''version'', ''platform'', ''architecture'', ''abi'', ''inputs'', ''packages'']) (\<lambda>_.
     bindE (lock_scalar root ''version'') (\<lambda>version.
     if version \<noteq> ''1'' then lock_malformed ''version must be 1'' (yn_line root)
     else bindE (lock_scalar root ''platform'') (\<lambda>platform.
     bindE (lock_scalar root ''architecture'') (\<lambda>architecture.
     bindE (lock_scalar root ''abi'') (\<lambda>abi.
     if platform \<notin> {''windows'', ''macos'', ''linux''} \<or> architecture \<notin> {''x64'', ''arm64''} \<or> \<not> safeToken abi 128
     then lock_malformed ''invalid target platform, architecture or ABI'' (yn_line root)
     else bindE (lock_field root ''inputs'' IsSequence) (\<lambda>inputs.
     if yn_items inputs = [] \<or> length (yn_items inputs) > 128 then lock_malformed ''inputs must contain 1 to 128 entries'' (yn_line inputs)
     else bindE (foldE lock_input [] (yn_items inputs)) (\<lambda>input_list.
     bindE (lock_field root ''packages'' IsSequence) (\<lambda>packages.
     if yn_items packages = [] \<or> length (yn_items packages) > 1024 then lock_malformed ''packages must contain 1 to 1024 entries'' (yn_line packages)
     else bindE (foldE lock_package [] (yn_items packages)) (\<lambda>package_list.
     bindE (check_graph package_list) (\<lambda>_.
     Inr \<lparr>dl_sha256 = sha256Hex content, dl_platform = platform, dl_architecture = architecture, dl_abi = abi,
       dl_inputs = input_list, dl_packages = package_list\<rparr>))))))))))"

definition parseCiDependencyLock :: "string \<Rightarrow> CiDependencyLock parsed" where
  "parseCiDependencyLock content = bindE (parseYamlSubset lock_dialect content) (interpret_lock content)"

section \<open>Verification of the inputs\<close>

text \<open>The reader of the inputs is the caller's: it returns the bytes of a path, or throws.\<close>

definition verify_input :: "(string \<Rightarrow> string result) \<Rightarrow> CiDependencyInput \<Rightarrow> unit result" where
  "verify_input read_input i =
     (if \<not> printable_ascii (di_path i) \<or> \<not> isSafeRelativePath (di_path i) \<or> \<not> isValidSha256Hex (di_sha256 i)
      then Inl (Invalid_Argument ''dependency lock: invalid input identity'')
      else bindE (read_input (di_path i)) (\<lambda>content.
        if sha256Hex content \<noteq> di_sha256 i
        then Inl (Runtime_Error (''dependency lock: source input is missing or changed: '' @ di_path i)) else Inr ()))"

definition verifyCiDependencyInputs :: "CiDependencyLock \<Rightarrow> (string \<Rightarrow> string result) option \<Rightarrow> unit result" where
  "verifyCiDependencyInputs lock read_input =
     (case read_input of None \<Rightarrow> Inl (Invalid_Argument ''dependency lock: no input verifier'')
      | Some read \<Rightarrow>
          if dl_inputs lock = [] then Inl (Invalid_Argument ''dependency lock: no input verifier'')
          else foldE (\<lambda>_ i. verify_input read i) () (dl_inputs lock))"

section \<open>What the search finds\<close>

lemma index_of_Some: "index_of name ns = Some j \<Longrightarrow> j < length ns \<and> ns ! j = name"
  by (induction ns arbitrary: j) (auto split: if_splits)

lemma index_of_None: "index_of name ns = None \<longleftrightarrow> name \<notin> set ns"
  by (induction ns) auto

abbreviation name_at :: "CiDependencyPackage list \<Rightarrow> nat \<Rightarrow> string" where
  "name_at ps i \<equiv> pk_name (ps ! i)"

abbreviation needed :: "CiDependencyPackage list \<Rightarrow> (string \<times> string) set" where
  "needed ps \<equiv> needs_relation pk_name pk_needs ps"

definition done_names :: "CiDependencyPackage list \<Rightarrow> nat list \<Rightarrow> string set" where
  "done_names ps st = {name_at ps i | i. i < length ps \<and> st ! i = 2}"

definition busy :: "nat list \<Rightarrow> nat set" where
  "busy st = {i. i < length st \<and> st ! i = 1}"

definition unseen :: "nat list \<Rightarrow> nat set" where
  "unseen st = {i. i < length st \<and> st ! i \<noteq> 1 \<and> st ! i \<noteq> 2}"

text \<open>What is done has an order in which everything comes after what it needs.\<close>

definition ordered :: "CiDependencyPackage list \<Rightarrow> nat list \<Rightarrow> bool" where
  "ordered ps st \<longleftrightarrow> length st = length ps \<and> (\<exists>order. needs_earlier pk_name pk_needs ps order \<and> set order = done_names ps st)"

text \<open>A part of the search: it has done the names \<open>X\<close>, and nothing else than what they need.\<close>

definition settled :: "CiDependencyPackage list \<Rightarrow> nat list \<Rightarrow> nat list \<Rightarrow> string set \<Rightarrow> bool" where
  "settled ps st st' X \<longleftrightarrow> ordered ps st' \<and> busy st' = busy st \<and> done_names ps st \<subseteq> done_names ps st' \<and> X \<subseteq> done_names ps st'
     \<and> done_names ps st' \<subseteq> done_names ps st \<union> {x. \<exists>y \<in> X. (x, y) \<in> (needed ps)\<^sup>*}"

lemma settled_none: "ordered ps st \<Longrightarrow> settled ps st st {}"
  by (simp add: settled_def)

lemma settled_trans: "settled ps st st' X \<Longrightarrow> settled ps st' st'' Y \<Longrightarrow> settled ps st st'' (X \<union> Y)"
  unfolding settled_def by blast

lemma settled_fold:
  assumes "\<And>st x st'. ordered ps st \<Longrightarrow> x \<in> set xs \<Longrightarrow> f st x = Inr st' \<Longrightarrow> settled ps st st' (g x)"
    and "ordered ps st" "foldE f st xs = Inr st'"
  shows "settled ps st st' (\<Union>(g ` set xs))"
  using assms
proof (induction xs arbitrary: st)
  case Nil
  then show ?case by (simp add: settled_none)
next
  case (Cons x xs)
  from Cons.prems(3) obtain s where s: "f st x = Inr s" "foldE f s xs = Inr st'" by (auto elim: bindE_InrE)
  have "settled ps st s (g x)" using Cons.prems(1,2) s(1) by simp
  moreover from this have "ordered ps s" by (simp add: settled_def)
  then have "settled ps s st' (\<Union>(g ` set xs))" using Cons.IH Cons.prems(1) s(2) by simp
  ultimately show ?case using settled_trans by simp
qed

lemma visit_settles:
  assumes "distinct (map pk_name ps)"
  shows "ordered ps st \<Longrightarrow> i < length ps \<Longrightarrow> visit fuel ps st i = Inr st' \<Longrightarrow> settled ps st st' {name_at ps i}"
proof (induction fuel arbitrary: st i st')
  case (Suc fuel)
  have len: "length st = length ps" using Suc.prems(1) by (simp add: ordered_def)
  show ?case
  proof (cases "st ! i = 2")
    case True
    then have "st' = st" using Suc.prems(3) by simp
    then show ?thesis using True Suc.prems(1,2) by (auto simp: settled_def done_names_def)
  next
    case False
    let ?step = "\<lambda>state name. case index_of name (map pk_name ps) of
        None \<Rightarrow> lock_error ''unresolved dependency'' | Some j \<Rightarrow> visit fuel ps state j"
    from False Suc.prems(3) have "st ! i \<noteq> 1" by (auto simp: lock_error_def split: if_splits)
    with False Suc.prems(3) obtain st2 where st2: "foldE ?step (st[i := 1]) (pk_needs (ps ! i)) = Inr st2" "st' = st2[i := 2]"
      by (auto elim: bindE_InrE)
    have d1: "done_names ps (st[i := 1]) = done_names ps st" "busy (st[i := 1]) = insert i (busy st)"
      using False \<open>st ! i \<noteq> 1\<close> Suc.prems(2) len by (auto simp: done_names_def busy_def nth_list_update)
    then have o1: "ordered ps (st[i := 1])" using Suc.prems(1) by (simp add: ordered_def)
    have step: "settled ps s s' {x}" if "ordered ps s" "?step s x = Inr s'" for s x s'
    proof -
      from that(2) obtain j where j: "index_of x (map pk_name ps) = Some j" "visit fuel ps s j = Inr s'"
        by (auto simp: lock_error_def split: option.splits)
      then show ?thesis using Suc.IH [OF that(1) _ j(2)] index_of_Some [OF j(1)] by auto
    qed
    have s2: "settled ps (st[i := 1]) st2 (set (pk_needs (ps ! i)))"
      using settled_fold [of ps _ ?step "\<lambda>x. {x}", OF step o1 st2(1)] by simp
    have len2: "length st2 = length ps" and busy2: "busy st2 = insert i (busy st)"
      using s2 d1 by (simp_all add: settled_def ordered_def)
    have i2: "st2 ! i = 1" "i \<notin> busy st" using busy2 \<open>st ! i \<noteq> 1\<close> by (auto simp: busy_def)
    have d': "done_names ps st' = insert (name_at ps i) (done_names ps st2)"
      using Suc.prems(2) len2 st2(2) by (auto simp: done_names_def nth_list_update)
    have b': "busy st' = busy st"
      using busy2 i2 Suc.prems(2) len2 st2(2) by (auto simp: busy_def nth_list_update set_eq_iff split: if_splits)
    have fresh: "name_at ps i \<notin> done_names ps st2"
    proof
      assume "name_at ps i \<in> done_names ps st2"
      then obtain k where k: "k < length ps" "st2 ! k = 2" "name_at ps k = name_at ps i" by (auto simp: done_names_def)
      then have "k = i" using nth_eq_iff_index_eq [OF assms, of k i] Suc.prems(2) by simp
      then show False using k(2) i2(1) by simp
    qed
    from s2 obtain order where o: "needs_earlier pk_name pk_needs ps order" "set order = done_names ps st2"
      by (auto simp: settled_def ordered_def)
    have "needs_earlier pk_name pk_needs ps (order @ [name_at ps i])"
      using needs_earlier_snoc [OF assms, of "ps ! i"] o fresh s2 Suc.prems(2) by (auto simp: settled_def)
    then have "ordered ps st'" using o(2) d' len2 st2(2) by (auto simp: ordered_def intro!: exI [of _ "order @ [name_at ps i]"])
    moreover have "(y, name_at ps i) \<in> needed ps" if "y \<in> set (pk_needs (ps ! i))" for y
      using that Suc.prems(2) by (auto simp: needs_relation_def)
    then have "done_names ps st2 \<subseteq> done_names ps st \<union> {x. (x, name_at ps i) \<in> (needed ps)\<^sup>*}"
    proof -
      have "x \<in> done_names ps st \<or> (x, name_at ps i) \<in> (needed ps)\<^sup>*" if "x \<in> done_names ps st2" for x
      proof -
        have "x \<in> done_names ps st \<or> (\<exists>y \<in> set (pk_needs (ps ! i)). (x, y) \<in> (needed ps)\<^sup>*)"
          using that s2 d1(1) unfolding settled_def by blast
        then show ?thesis using \<open>\<And>y. y \<in> set (pk_needs (ps ! i)) \<Longrightarrow> (y, name_at ps i) \<in> needed ps\<close> by (meson rtrancl_into_rtrancl)
      qed
      then show ?thesis by blast
    qed
    moreover have "done_names ps st \<subseteq> done_names ps st2" using s2 d1(1) by (simp add: settled_def)
    ultimately show ?thesis using d' b' unfolding settled_def by auto
  qed
qed simp

section \<open>The fuel is enough\<close>

lemma visit_gives:
  "length st = length ps \<Longrightarrow> i < length ps \<Longrightarrow> card (unseen st) < fuel \<Longrightarrow>
   gives (\<lambda>st'. length st' = length ps \<and> unseen st' \<subseteq> unseen st) (visit fuel ps st i)"
proof (induction fuel arbitrary: st i)
  case (Suc fuel)
  show ?case
  proof (cases "st ! i = 1 \<or> st ! i = 2")
    case True
    then show ?thesis using Suc.prems by (auto simp: gives_def lock_error_def)
  next
    case False
    let ?st = "st[i := 1]"
    let ?step = "\<lambda>state name. case index_of name (map pk_name ps) of
        None \<Rightarrow> lock_error ''unresolved dependency'' | Some j \<Rightarrow> visit fuel ps state j"
    let ?P = "\<lambda>s. length s = length ps \<and> unseen s \<subseteq> unseen ?st"
    have new: "unseen ?st = unseen st - {i}" "i \<in> unseen st"
      using False Suc.prems(1,2) by (auto simp: unseen_def nth_list_update)
    have fin: "finite (unseen s)" for s by (simp add: unseen_def)
    have "Suc (card (unseen ?st)) = card (unseen st)" using new fin by (simp only: card_Suc_Diff1)
    then have small: "card (unseen s) < fuel" if "?P s" for s
      using that card_mono [OF fin, of "unseen s" "?st"] Suc.prems(3) by simp
    have "gives ?P (?step s name)" if "?P s" for s name
    proof (cases "index_of name (map pk_name ps)")
      case (Some j)
      have "gives (\<lambda>st'. length st' = length ps \<and> unseen st' \<subseteq> unseen s) (visit fuel ps s j)"
        using Suc.IH [OF _ _ small [OF that]] that index_of_Some [OF Some] by simp
      then show ?thesis using that Some by (auto simp: gives_def split: sum.splits)
    qed (simp add: gives_def lock_error_def)
    then have g: "gives ?P (foldE ?step ?st (pk_needs (ps ! i)))"
      using Suc.prems(1) by (intro gives_fold) simp_all
    have "unseen (s[i := 2]) \<subseteq> unseen st" if "?P s" for s
    proof -
      have "unseen (s[i := 2]) \<subseteq> unseen s"
      proof
        fix x assume "x \<in> unseen (s[i := 2])"
        then show "x \<in> unseen s" by (cases "x = i") (auto simp: unseen_def)
      qed
      then show ?thesis using that new(1) by blast
    qed
    then show ?thesis using g False by (auto simp: gives_def bindE_def split: sum.splits)
  qed
qed simp

section \<open>The search succeeds exactly on sound packages\<close>

lemma fold_succeeds:
  "P s \<Longrightarrow> (\<And>s x. P s \<Longrightarrow> x \<in> set xs \<Longrightarrow> \<exists>s'. f s x = Inr s' \<and> P s') \<Longrightarrow> \<exists>s'. foldE f s xs = Inr s' \<and> P s'"
proof (induction xs arbitrary: s)
  case (Cons x xs)
  from Cons.prems obtain s1 where "f s x = Inr s1" "P s1" by (metis list.set_intros(1))
  then show ?case using Cons.IH [of s1] Cons.prems(2) by simp
qed simp

lemma visit_succeeds:
  assumes "distinct (map pk_name ps)" "siblings_only pk_name pk_needs ps" "acyclic (needed ps)"
  shows "ordered ps st \<Longrightarrow> i < length ps \<Longrightarrow> card (unseen st) < fuel \<Longrightarrow> \<forall>g \<in> busy st. (name_at ps i, name_at ps g) \<in> (needed ps)\<^sup>+ \<Longrightarrow>
    \<exists>st'. visit fuel ps st i = Inr st'"
proof (induction fuel arbitrary: st i)
  case (Suc fuel)
  have len: "length st = length ps" using Suc.prems(1) by (simp add: ordered_def)
  have "st ! i \<noteq> 1"
  proof
    assume "st ! i = 1"
    then have "(name_at ps i, name_at ps i) \<in> (needed ps)\<^sup>+" using Suc.prems(2,4) len by (simp add: busy_def)
    then show False using assms(3) by (simp add: acyclic_def)
  qed
  show ?case
  proof (cases "st ! i = 2")
    case False
    let ?st = "st[i := 1]"
    let ?step = "\<lambda>state name. case index_of name (map pk_name ps) of
        None \<Rightarrow> lock_error ''unresolved dependency'' | Some j \<Rightarrow> visit fuel ps state j"
    have new: "unseen ?st = unseen st - {i}" "i \<in> unseen st" "busy ?st = insert i (busy st)" "done_names ps ?st = done_names ps st"
      using False \<open>st ! i \<noteq> 1\<close> Suc.prems(2) len by (auto simp: unseen_def busy_def done_names_def nth_list_update)
    have "finite (unseen st)" by (simp add: unseen_def)
    then have "Suc (card (unseen ?st)) = card (unseen st)" using new(1,2) by (simp only: card_Suc_Diff1)
    then have small: "card (unseen ?st) < fuel" using Suc.prems(3) by simp
    let ?P = "\<lambda>s. ordered ps s \<and> busy s = busy ?st \<and> card (unseen s) < fuel"
    have "\<exists>s'. ?step s name = Inr s' \<and> ?P s'" if s: "?P s" and name: "name \<in> set (pk_needs (ps ! i))" for s name
    proof -
      have "name \<in> set (map pk_name ps)" using assms(2) name Suc.prems(2) by (auto simp: siblings_only_def)
      then obtain j where j: "index_of name (map pk_name ps) = Some j" using index_of_None by fastforce
      then have jn: "j < length ps" "name_at ps j = name" using index_of_Some [OF j] by auto
      have edge: "(name, name_at ps i) \<in> needed ps" using name Suc.prems(2) by (auto simp: needs_relation_def)
      then have "\<forall>g \<in> busy s. (name_at ps j, name_at ps g) \<in> (needed ps)\<^sup>+"
        using s new(3) Suc.prems(4) jn(2) by (auto intro: trancl_into_trancl2)
      then obtain s' where s': "visit fuel ps s j = Inr s'" using Suc.IH jn(1) s by blast
      have "settled ps s s' {name_at ps j}" using visit_settles [OF assms(1) _ jn(1) s'] s by simp
      moreover have "unseen s' \<subseteq> unseen s"
        using visit_gives [of s ps j fuel] s jn(1) s' by (simp add: gives_def ordered_def)
      then have "card (unseen s') \<le> card (unseen s)" by (intro card_mono) (simp_all add: unseen_def)
      ultimately show ?thesis using s j s' by (simp add: settled_def)
    qed
    moreover have "?P ?st" using Suc.prems(1) new(4) small by (simp add: ordered_def)
    ultimately have "\<exists>s'. foldE ?step ?st (pk_needs (ps ! i)) = Inr s' \<and> ?P s'" by (intro fold_succeeds)
    then show ?thesis using False \<open>st ! i \<noteq> 1\<close> by auto
  qed simp
qed simp

definition all_reachable :: "CiDependencyPackage list \<Rightarrow> bool" where
  "all_reachable ps \<longleftrightarrow> (\<forall>p \<in> set ps. \<exists>q \<in> set ps. pk_direct q \<and> (pk_name p, pk_name q) \<in> (needed ps)\<^sup>*)"

abbreviation graph_step :: "CiDependencyPackage list \<Rightarrow> nat list \<Rightarrow> nat \<Rightarrow> nat list parsed" where
  "graph_step ps \<equiv> \<lambda>state i. if pk_direct (ps ! i) then visit (length ps + 1) ps state i else Inr state"

declare visit.simps [simp del]

lemma graph_start: "ordered ps (replicate (length ps) 0)" "done_names ps (replicate (length ps) 0) = {}" "busy (replicate (length ps) 0) = {}"
proof -
  show none: "done_names ps (replicate (length ps) 0) = {}" "busy (replicate (length ps) 0) = {}" by (auto simp: done_names_def busy_def)
  show "ordered ps (replicate (length ps) 0)" unfolding ordered_def none by (auto simp: needs_earlier_def)
qed

lemma unseen_small: "length st = length ps \<Longrightarrow> card (unseen st) < length ps + 1"
proof -
  assume "length st = length ps"
  then have "unseen st \<subseteq> {..<length ps}" by (auto simp: unseen_def)
  then have "card (unseen st) \<le> card {..<length ps}" by (intro card_mono) simp_all
  then show ?thesis by simp
qed

lemma check_graph_ends: "check_graph ps \<noteq> Inl Out_of_fuel"
proof -
  have "gives (\<lambda>s. length s = length ps) (foldE (graph_step ps) (replicate (length ps) 0) [0..<length ps])"
  proof (rule gives_fold)
    fix s :: "nat list" and i assume s: "length s = length ps" "i \<in> set [0..<length ps]"
    then have "gives (\<lambda>s'. length s' = length ps) (visit (length ps + 1) ps s i)"
      by (intro gives_weaken [OF visit_gives]) (use unseen_small [OF s(1)] in auto)
    then show "gives (\<lambda>s. length s = length ps) (graph_step ps s i)" using s by (simp add: gives_Inr)
  qed simp
  then show ?thesis by (auto simp: check_graph_def gives_def bindE_def lock_error_def split: sum.splits)
qed

lemma search_settled:
  assumes "distinct (map pk_name ps)" "foldE (graph_step ps) (replicate (length ps) 0) [0..<length ps] = Inr st'"
  shows "settled ps (replicate (length ps) 0) st' (\<Union>i \<in> set [0..<length ps]. if pk_direct (ps ! i) then {name_at ps i} else {})"
  using assms(2)
  by (intro settled_fold [OF _ graph_start(1)]) (auto dest: visit_settles [OF assms(1)] intro: settled_none split: if_splits)

lemma done_whole:
  assumes "distinct (map pk_name ps)" "length st = length ps"
  shows "done_names ps st = pk_name ` set ps \<longleftrightarrow> \<not> list_ex (\<lambda>v. v \<noteq> 2) st"
proof
  assume all: "done_names ps st = pk_name ` set ps"
  have "st ! i = 2" if i: "i < length ps" for i
  proof -
    have "name_at ps i \<in> done_names ps st" using all i by simp
    then obtain k where "k < length ps" "st ! k = 2" "name_at ps k = name_at ps i" by (auto simp: done_names_def)
    then show ?thesis using nth_eq_iff_index_eq [OF assms(1), of k i] i by simp
  qed
  then show "\<not> list_ex (\<lambda>v. v \<noteq> 2) st" using assms(2) by (auto simp: list_ex_iff in_set_conv_nth)
next
  assume "\<not> list_ex (\<lambda>v. v \<noteq> 2) st"
  then have "\<forall>i < length ps. st ! i = 2" using assms(2) by (simp add: list_ex_iff)
  then have "done_names ps st = {name_at ps i | i. i < length ps}" unfolding done_names_def by blast
  also have "\<dots> = pk_name ` set ps" unfolding set_conv_nth by blast
  finally show "done_names ps st = pk_name ` set ps" .
qed

text \<open>What the search has done is closed under needs.\<close>

lemma order_closed:
  assumes "needs_earlier pk_name pk_needs ps order" "c \<in> set ps" "pk_name c \<in> set order"
  shows "set (pk_needs c) \<subseteq> set order"
proof -
  from assms(3) obtain k where "k < length order" "order ! k = pk_name c" by (auto simp: in_set_conv_nth)
  then have "set (pk_needs c) \<subseteq> set (take k order)" using assms(1,2) unfolding needs_earlier_def by metis
  then show ?thesis using set_take_subset [of k order] by blast
qed

lemma order_closed_under:
  assumes "needs_earlier pk_name pk_needs ps order"
  shows "(x, y) \<in> (needed ps)\<^sup>* \<Longrightarrow> y \<in> set order \<Longrightarrow> x \<in> set order"
proof (induction rule: converse_rtrancl_induct)
  case (step x z)
  then obtain c where "c \<in> set ps" "pk_name c = z" "x \<in> set (pk_needs c)" by (auto simp: needs_relation_def)
  then show ?case using order_closed [OF assms, of c] step by blast
qed

lemma search_sound:
  assumes "distinct (map pk_name ps)" "check_graph ps = Inr ()"
  shows "siblings_only pk_name pk_needs ps" "acyclic (needed ps)" "all_reachable ps"
proof -
  let ?start = "replicate (length ps) 0"
  from assms(2) obtain st' where f: "foldE (graph_step ps) ?start [0..<length ps] = Inr st'" and two: "\<not> list_ex (\<lambda>v. v \<noteq> 2) st'"
    by (auto simp: check_graph_def lock_error_def elim!: bindE_InrE split: if_splits)
  note s = search_settled [OF assms(1) f]
  from s obtain order where o: "needs_earlier pk_name pk_needs ps order" "set order = done_names ps st'" and len: "length st' = length ps"
    by (auto simp: settled_def ordered_def)
  have all: "set order = pk_name ` set ps" using o(2) done_whole [OF assms(1) len] two by simp
  have "length order = card (set order)" using o(1) by (simp add: needs_earlier_def distinct_card)
  also have "\<dots> = length ps" using all assms(1) by (metis distinct_card length_map list.set_map)
  finally show "acyclic (needed ps)" by (rule needs_earlier_acyclic [OF o(1) _ assms(1)])
  show "siblings_only pk_name pk_needs ps" using order_closed [OF o(1)] all by (simp add: siblings_only_def)
  show "all_reachable ps"
    unfolding all_reachable_def
  proof
    fix p assume "p \<in> set ps"
    then have "pk_name p \<in> done_names ps st'" using all o(2) by simp
    then obtain i where "i < length ps" "pk_direct (ps ! i)" "(pk_name p, name_at ps i) \<in> (needed ps)\<^sup>*"
      using s graph_start(2) unfolding settled_def by (auto split: if_splits)
    then show "\<exists>q \<in> set ps. pk_direct q \<and> (pk_name p, pk_name q) \<in> (needed ps)\<^sup>*" by (metis nth_mem)
  qed
qed

lemma search_complete:
  assumes "distinct (map pk_name ps)" "siblings_only pk_name pk_needs ps" "acyclic (needed ps)" "all_reachable ps"
  shows "check_graph ps = Inr ()"
proof -
  let ?start = "replicate (length ps) 0"
  let ?P = "\<lambda>s. ordered ps s \<and> busy s = {}"
  have "\<exists>s'. graph_step ps s i = Inr s' \<and> ?P s'" if s: "?P s" and i: "i \<in> set [0..<length ps]" for s i
  proof (cases "pk_direct (ps ! i)")
    case True
    have "length s = length ps" using s by (simp add: ordered_def)
    from unseen_small [OF this] obtain s' where s': "visit (length ps + 1) ps s i = Inr s'"
      using visit_succeeds [OF assms(1-3), of s i "length ps + 1"] s i by auto
    from visit_settles [OF assms(1) _ _ s'] s i have "?P s'" by (simp add: settled_def)
    then show ?thesis using True s' by simp
  qed (use s in simp)
  then obtain st' where f: "foldE (graph_step ps) ?start [0..<length ps] = Inr st'"
    using fold_succeeds [of ?P ?start "[0..<length ps]" "graph_step ps"] graph_start by blast
  note s = search_settled [OF assms(1) f]
  from s obtain order where o: "needs_earlier pk_name pk_needs ps order" "set order = done_names ps st'" and len: "length st' = length ps"
    by (auto simp: settled_def ordered_def)
  have "pk_name p \<in> set order" if "p \<in> set ps" for p
  proof -
    from assms(4) that obtain q where q: "q \<in> set ps" "pk_direct q" "(pk_name p, pk_name q) \<in> (needed ps)\<^sup>*" by (auto simp: all_reachable_def)
    then obtain i where "i < length ps" "ps ! i = q" by (auto simp: in_set_conv_nth)
    then have "pk_name q \<in> (\<Union>i \<in> set [0..<length ps]. if pk_direct (ps ! i) then {name_at ps i} else {})"
      using q(2) by (intro UN_I [of i]) simp_all
    then have "pk_name q \<in> set order" using s o(2) unfolding settled_def by blast
    then show ?thesis by (rule order_closed_under [OF o(1) q(3)])
  qed
  moreover have "set order \<subseteq> pk_name ` set ps" using o(1) by (simp add: needs_earlier_def)
  ultimately have "done_names ps st' = pk_name ` set ps" using o(2) by blast
  then have "\<not> list_ex (\<lambda>v. v \<noteq> 2) st'" using done_whole [OF assms(1) len] by simp
  then show ?thesis using f by (simp add: check_graph_def)
qed

text \<open>
  C14: the search of the dependency packages accepts exactly the sound ones: every needed name is a package, no package
  needs itself, directly or through others, and every package is needed by a direct one.
\<close>

theorem dependency_graph_iff:
  assumes "distinct (map pk_name ps)"
  shows "check_graph ps = Inr () \<longleftrightarrow>
    siblings_only pk_name pk_needs ps \<and> acyclic (needs_relation pk_name pk_needs ps) \<and> all_reachable ps"
  using search_sound [OF assms] search_complete [OF assms] by blast

definition sample_packages :: "CiDependencyPackage list" where
  "sample_packages =
     [\<lparr>pk_name = ''app'', pk_version = ''1.0'', pk_registry = ''main'', pk_pkg_sha256 = replicate 64 (CHR ''a''),
       pk_recipe_sha256 = replicate 64 (CHR ''b''), pk_direct = True, pk_needs = [''zlib'', ''png'']\<rparr>,
      \<lparr>pk_name = ''png'', pk_version = ''1.6'', pk_registry = ''main'', pk_pkg_sha256 = replicate 64 (CHR ''c''),
       pk_recipe_sha256 = replicate 64 (CHR ''d''), pk_direct = False, pk_needs = [''zlib'']\<rparr>,
      \<lparr>pk_name = ''zlib'', pk_version = ''1.3'', pk_registry = ''main'', pk_pkg_sha256 = replicate 64 (CHR ''e''),
       pk_recipe_sha256 = replicate 64 (CHR ''f''), pk_direct = False, pk_needs = []\<rparr>]"

theorem dependency_graph_iff_witness:
  "acyclic (needs_relation pk_name pk_needs sample_packages) \<and> all_reachable sample_packages"
proof -
  have "distinct (map pk_name sample_packages)" by (simp add: sample_packages_def)
  moreover have "check_graph sample_packages = Inr ()"
    by (simp add: check_graph_def sample_packages_def visit.simps numeral_eq_Suc upt_rec)
  ultimately show ?thesis using dependency_graph_iff by blast
qed

section \<open>What an accepted lock promises\<close>

definition input_valid :: "CiDependencyInput \<Rightarrow> bool" where
  "input_valid i \<longleftrightarrow> printable_ascii (di_path i) \<and> isSafeRelativePath (di_path i) \<and> last (di_path i) \<noteq> CHR ''/''
     \<and> isValidSha256Hex (di_sha256 i)"

definition package_valid :: "CiDependencyPackage \<Rightarrow> bool" where
  "package_valid p \<longleftrightarrow> safeToken (pk_name p) 128 \<and> safeToken (pk_version p) 128 \<and> isValidCiLabel (pk_registry p)
     \<and> isValidSha256Hex (pk_pkg_sha256 p) \<and> isValidSha256Hex (pk_recipe_sha256 p)
     \<and> distinct (pk_needs p) \<and> length (pk_needs p) \<le> 256 \<and> list_all (\<lambda>n. safeToken n 128) (pk_needs p)"

definition lock_valid :: "string \<Rightarrow> CiDependencyLock \<Rightarrow> bool" where
  "lock_valid content lock \<longleftrightarrow>
     dl_sha256 lock = sha256Hex content \<and> dl_platform lock \<in> {''windows'', ''macos'', ''linux''}
     \<and> dl_architecture lock \<in> {''x64'', ''arm64''} \<and> safeToken (dl_abi lock) 128
     \<and> dl_inputs lock \<noteq> [] \<and> length (dl_inputs lock) \<le> 128 \<and> list_all input_valid (dl_inputs lock) \<and> distinct (map di_path (dl_inputs lock))
     \<and> dl_packages lock \<noteq> [] \<and> length (dl_packages lock) \<le> 1024 \<and> list_all package_valid (dl_packages lock)
     \<and> distinct (map pk_name (dl_packages lock))
     \<and> siblings_only pk_name pk_needs (dl_packages lock) \<and> acyclic (needs_relation pk_name pk_needs (dl_packages lock))
     \<and> all_reachable (dl_packages lock)"

text \<open>A loop that appends keeps what every turn keeps, and has one entry for every turn.\<close>

lemma fold_appends:
  assumes "\<And>s x s'. P s \<Longrightarrow> f s x = Inr s' \<Longrightarrow> P s' \<and> length s' = Suc (length s)" "P s" "foldE f s xs = Inr s'"
  shows "P s' \<and> length s' = length s + length xs"
  using assms(2,3)
proof (induction xs arbitrary: s)
  case (Cons x xs)
  from Cons.prems(2) obtain t where t: "f s x = Inr t" "foldE f t xs = Inr s'" by (auto elim: bindE_InrE)
  with Cons.IH [of t] assms(1) [OF Cons.prems(1) t(1)] show ?case by simp
qed simp

lemma lock_errors [simp]: "lock_malformed m line \<noteq> Inr x" "Inr x \<noteq> lock_malformed m line" "lock_error m \<noteq> Inr x" "Inr x \<noteq> lock_error m"
  by (simp_all add: yamlMalformed_def lock_error_def)

lemma check_digest_Inr [simp]: "check_digest v line = Inr u \<longleftrightarrow> isValidSha256Hex v"
  by (simp add: check_digest_def)

lemma lock_input_Inr:
  assumes "list_all input_valid s \<and> distinct (map di_path s)" "lock_input s node = Inr s'"
  shows "(list_all input_valid s' \<and> distinct (map di_path s')) \<and> length s' = Suc (length s)"
  using assms by (auto simp: lock_input_def input_valid_def elim!: bindE_InrE split: if_splits)

lemma lock_need_Inr:
  assumes "list_all (\<lambda>n. safeToken n 128) s \<and> distinct s" "lock_need s node = Inr s'"
  shows "(list_all (\<lambda>n. safeToken n 128) s' \<and> distinct s') \<and> length s' = Suc (length s)"
  using assms by (auto simp: lock_need_def elim!: bindE_InrE split: if_splits)

lemma lock_package_Inr:
  assumes "list_all package_valid s \<and> distinct (map pk_name s)" "lock_package s node = Inr s'"
  shows "(list_all package_valid s' \<and> distinct (map pk_name s')) \<and> length s' = Suc (length s)"
proof -
  have needs: "list_all (\<lambda>n. safeToken n 128) names \<and> distinct names \<and> length names = length items"
    if "foldE lock_need [] items = Inr names" for items names
    using fold_appends [OF lock_need_Inr _ that] by simp
  show ?thesis using assms
    by (auto simp: lock_package_def package_valid_def elim!: bindE_InrE dest!: needs split: if_splits)
qed

lemma interpret_lock_Inr: "interpret_lock content root = Inr lock \<Longrightarrow> lock_valid content lock"
proof -
  assume "interpret_lock content root = Inr lock"
  then obtain platform architecture abi inputs input_list packages package_list where
    l: "platform \<in> {''windows'', ''macos'', ''linux''}" "architecture \<in> {''x64'', ''arm64''}" "safeToken abi 128"
    "yn_items inputs \<noteq> []" "length (yn_items inputs) \<le> 128" "foldE lock_input [] (yn_items inputs) = Inr input_list"
    "yn_items packages \<noteq> []" "length (yn_items packages) \<le> 1024" "foldE lock_package [] (yn_items packages) = Inr package_list"
    "check_graph package_list = Inr ()"
    "lock = \<lparr>dl_sha256 = sha256Hex content, dl_platform = platform, dl_architecture = architecture, dl_abi = abi,
       dl_inputs = input_list, dl_packages = package_list\<rparr>"
    unfolding interpret_lock_def by (elim bindE_InrE) (auto elim!: bindE_InrE split: if_splits)
  have i: "(list_all input_valid input_list \<and> distinct (map di_path input_list)) \<and> length input_list = length (yn_items inputs)"
    using fold_appends [OF lock_input_Inr _ l(6)] by simp
  have p: "(list_all package_valid package_list \<and> distinct (map pk_name package_list)) \<and> length package_list = length (yn_items packages)"
    using fold_appends [OF lock_package_Inr _ l(9)] by simp
  then have "siblings_only pk_name pk_needs package_list" "acyclic (needed package_list)" "all_reachable package_list"
    using search_sound l(10) by blast+
  then show ?thesis using l i p by (auto simp: lock_valid_def)
qed

section \<open>Every rejection names the lock\<close>

lemma prefix_of_lock: "yd_prefix lock_dialect = ''dependency lock''"
  by (simp add: lock_dialect_def)

abbreviation clean_lock :: "'a parsed \<Rightarrow> bool" where
  "clean_lock \<equiv> reads_cleanly ''dependency lock''"

lemmas clean_lock_here [clean_intro] =
  clean_errors(1,2) [of lock_dialect, unfolded prefix_of_lock] clean_nodes [of lock_dialect, unfolded prefix_of_lock]
  clean_document [of lock_dialect, unfolded prefix_of_lock]

lemma worded_lock_error: "worded ''dependency lock'' (lock_error m)"
  by (auto simp: worded_def named_error_def lock_error_def)

lemma clean_lock_error [clean_intro]: "clean_lock (lock_error m)"
  using worded_lock_error [of m] by (auto simp: reads_cleanly_def lock_error_def)

lemma worded_visit: "worded ''dependency lock'' (visit fuel ps st i)"
proof (induction fuel arbitrary: st i)
  case (Suc fuel)
  show ?case unfolding visit.simps by (intro worded_intro worded_lock_error Suc)
qed (simp add: visit.simps worded_def)

lemma clean_graph [clean_intro]: "clean_lock (check_graph ps)"
proof -
  have "worded ''dependency lock'' (check_graph ps)" unfolding check_graph_def by (intro worded_intro worded_lock_error worded_visit)
  then show ?thesis using check_graph_ends by (simp add: reads_cleanly_def)
qed

lemma clean_fields [clean_intro]: "clean_lock (lock_field node name kind)" "clean_lock (lock_scalar node name)" "clean_lock (check_digest v line)"
  unfolding lock_scalar_def lock_field_def check_digest_def by (intro clean_intro)+

lemma clean_entries [clean_intro]: "clean_lock (lock_input inputs node)" "clean_lock (lock_package packages node)"
  unfolding lock_input_def lock_package_def lock_need_def by (intro clean_intro)+

text \<open>
  C15: reading a dependency lock always ends. An accepted lock carries the digest of its own bytes, safe and distinct input
  paths, and packages with distinct names that are closed under their needs, free of cycles and all needed by a direct
  package; every rejection is an error that names the dependency lock.
\<close>

theorem dependency_lock_checked:
  "case parseCiDependencyLock content of
     Inr lock \<Rightarrow> lock_valid content lock
   | Inl (Thrown e) \<Rightarrow> named_error ''dependency lock'' e
   | Inl Out_of_fuel \<Rightarrow> False"
proof -
  have "clean_lock (parseCiDependencyLock content)"
    unfolding parseCiDependencyLock_def interpret_lock_def by (intro clean_intro)
  moreover have "parseCiDependencyLock content = Inr lock \<Longrightarrow> lock_valid content lock" for lock
    by (auto simp: parseCiDependencyLock_def elim!: bindE_InrE dest: interpret_lock_Inr)
  ultimately show ?thesis by (auto simp: reads_cleanly_def worded_def split: sum.split yaml_stop.split)
qed

text \<open>The inputs are verified exactly when each one can be read and has its digest.\<close>

lemma verifyCiDependencyInputs_iff:
  "verifyCiDependencyInputs lock (Some read) = Inr () \<longleftrightarrow> dl_inputs lock \<noteq> [] \<and>
     (\<forall>i \<in> set (dl_inputs lock). printable_ascii (di_path i) \<and> isSafeRelativePath (di_path i) \<and> isValidSha256Hex (di_sha256 i)
        \<and> (\<exists>content. read (di_path i) = Inr content \<and> sha256Hex content = di_sha256 i))"
proof -
  have fold: "foldE (\<lambda>_ i. verify_input read i) () is = Inr () \<longleftrightarrow> (\<forall>i \<in> set is. verify_input read i = Inr ())" for "is"
    by (induction "is") (auto simp: result_simps)
  have one: "verify_input read i = Inr () \<longleftrightarrow> printable_ascii (di_path i) \<and> isSafeRelativePath (di_path i) \<and> isValidSha256Hex (di_sha256 i)
        \<and> (\<exists>content. read (di_path i) = Inr content \<and> sha256Hex content = di_sha256 i)" for i
    by (auto simp: verify_input_def result_simps)
  show ?thesis by (simp add: verifyCiDependencyInputs_def fold one)
qed

end
