(* ===== verification/Ck_Ci_Workflow.thy ===== *)
theory Ck_Ci_Workflow
  imports Ck_Yaml Ck_Ready Ck_Ci_Records
begin

text \<open>
  The workflow file \<open>.ckgit/ci.yml\<close>: \<open>src/common/ci_workflow.cpp\<close> reads the tree of the YAML subset against the schema.
  Each \<open>interpret\<close> function is a definition; a loop over the items of a node is \<open>mapE\<close>, or \<open>read_unique\<close> where the
  names read before matter. An accepted workflow is shown to be valid as the schema promises and its jobs to have an
  order; every rejection is worded and thrown as the header says.
\<close>

section \<open>Workflows\<close>

type_synonym CiEnv = "(string \<times> string) list"

record CiStep =
  ws_name :: string
  ws_argv :: "string list"
  ws_script :: string
  ws_shell :: string

record CiArtifact =
  wa_name :: string
  wa_paths :: "string list"
  wa_retention_days :: nat

record CiJob =
  wj_name :: string
  wj_env :: CiEnv
  wj_steps :: "CiStep list"
  wj_artifact :: "CiArtifact option"
  wj_runs_on :: "string list"
  wj_needs :: "string list"

record CiCheckout =
  cc_depth :: nat
  cc_since :: string
  cc_tags :: bool
  cc_archive :: bool

record CiSister =
  si_name :: string
  si_ref :: string
  si_checkout :: CiCheckout

record CiCache =
  ca_name :: string
  ca_env :: "string list"

record CiWorkflow =
  wf_version :: int
  wf_auto_cancel :: bool
  wf_branches :: "string list"
  wf_tags :: "string list"
  wf_triggers_default_branch :: bool
  wf_env :: CiEnv
  wf_sisters :: "CiSister list"
  wf_checkout :: CiCheckout
  wf_runs_on :: "string list"
  wf_caches :: "CiCache list"
  wf_jobs :: "CiJob list"
  wf_pages_path :: "string option"
  wf_pages_job :: string

definition fresh_checkout :: CiCheckout where
  "fresh_checkout = \<lparr>cc_depth = 1, cc_since = [], cc_tags = False, cc_archive = False\<rparr>"

definition kMaximumCiStepsPerJob :: nat where "kMaximumCiStepsPerJob = 128"
definition kMaximumCiEnvEntries :: nat where "kMaximumCiEnvEntries = 64"
definition kMaximumCiBranches :: nat where "kMaximumCiBranches = 64"
definition kMaximumCiArgvItems :: nat where "kMaximumCiArgvItems = 64"
definition kMaximumCiNameBytes :: nat where "kMaximumCiNameBytes = 64"
definition kMaximumCiKeyBytes :: nat where "kMaximumCiKeyBytes = 128"
definition kMaximumCiScriptBytes :: nat where "kMaximumCiScriptBytes = 16 * 1024"
definition kMaximumCiArtifactPaths :: nat where "kMaximumCiArtifactPaths = 64"
definition kMaximumCiSisters :: nat where "kMaximumCiSisters = 16"
definition kMaximumCiCaches :: nat where "kMaximumCiCaches = 8"
definition kMaximumCiCacheEnv :: nat where "kMaximumCiCacheEnv = 8"
definition kMaximumCiRetentionDaysCap :: nat where "kMaximumCiRetentionDaysCap = 3650"
definition kMaximumCiCheckoutDepth :: nat where "kMaximumCiCheckoutDepth = 100000"

definition kCiWorkflowYamlDialect :: YamlDialect where
  "kCiWorkflowYamlDialect = \<lparr>yd_bounds =
     \<lparr>yb_document_bytes = 64 * 1024, yb_line_bytes = 4096, yb_lines = 4096, yb_key_bytes = kMaximumCiKeyBytes,
      yb_scalar_bytes = 4096, yb_block_scalar_bytes = kMaximumCiScriptBytes, yb_flow_sequence_items = kMaximumCiArgvItems,
      yb_block_sequence_items = (if kMaximumCiJobs > kMaximumCiStepsPerJob then kMaximumCiJobs else kMaximumCiStepsPerJob),
      yb_mapping_entries = kMaximumCiEnvEntries + 8, yb_nesting_depth = 16\<rparr>,
     yd_prefix = ''ci workflow'', yd_document = ''the workflow''\<rparr>"

section \<open>Names, patterns and dates\<close>

definition name_char :: "char \<Rightarrow> bool" where
  "name_char c \<longleftrightarrow> is_upper c \<or> is_lower c \<or> is_digit c \<or> c = CHR ''.'' \<or> c = CHR ''_'' \<or> c = CHR ''-''"

definition isValidEnvName :: "string \<Rightarrow> bool" where
  "isValidEnvName name =
     (if name = [] \<or> length name > kMaximumCiKeyBytes then False
      else if \<not> (is_upper (hd name) \<or> is_lower (hd name) \<or> hd name = CHR ''_'') then False
      else list_all (\<lambda>c. is_upper c \<or> is_lower c \<or> is_digit c \<or> c = CHR ''_'') name)"

definition isValidTagPattern :: "string \<Rightarrow> bool" where
  "isValidTagPattern pattern =
     (if pattern = [] \<or> length pattern > 128 then False
      else list_all name_char (if last pattern = CHR ''*'' then butlast pattern else pattern))"

definition isValidSisterRef :: "string \<Rightarrow> bool" where
  "isValidSisterRef ref =
     (if ref = [] \<or> length ref > 255 \<or> hd ref = CHR ''-'' \<or> hd ref = CHR ''/'' \<or> contains ''..'' ref then False
      else list_all (\<lambda>c. name_char c \<or> c = CHR ''/'') ref)"

definition isValidCiName :: "string \<Rightarrow> bool" where
  "isValidCiName name \<longleftrightarrow> name \<noteq> [] \<and> length name \<le> kMaximumCiNameBytes \<and> list_all name_char name"

definition isValidIsoDate :: "string \<Rightarrow> bool" where
  "isValidIsoDate v =
     (if length v \<noteq> 10 \<or> v ! 4 \<noteq> CHR ''-'' \<or> v ! 7 \<noteq> CHR ''-'' then False
      else if \<not> list_all (\<lambda>k. is_digit (v ! k)) [0, 1, 2, 3, 5, 6, 8, 9] then False
      else let month = digit_value (v ! 5) * 10 + digit_value (v ! 6); day = digit_value (v ! 8) * 10 + digit_value (v ! 9)
           in 1 \<le> month \<and> month \<le> 12 \<and> 1 \<le> day \<and> day \<le> 31)"

section \<open>Reading the tree\<close>

abbreviation "malformed \<equiv> yamlMalformed kCiWorkflowYamlDialect"
abbreviation "tooLarge \<equiv> yamlTooLarge kCiWorkflowYamlDialect"
abbreviation "requireKind \<equiv> yamlRequireKind kCiWorkflowYamlDialect"
abbreviation "findEntry \<equiv> yamlFindEntry"
abbreviation "rejectUnknownKeys \<equiv> yamlRejectUnknownKeys kCiWorkflowYamlDialect"

definition in_quotes :: "string \<Rightarrow> string" where
  "in_quotes s = [squote] @ s @ [squote]"

definition read_scalar :: "string \<Rightarrow> YamlNode \<Rightarrow> string parsed" where
  "read_scalar what node = bindE (requireKind node IsScalar what) (\<lambda>n. Inr (yn_scalar n))"

definition read_items :: "string \<Rightarrow> YamlNode \<Rightarrow> YamlNode list parsed" where
  "read_items what node = bindE (requireKind node IsSequence what) (\<lambda>n. Inr (yn_items n))"

text \<open>What an entry says, or a default where it is missing.\<close>

definition with_entry :: "YamlNode \<Rightarrow> string \<Rightarrow> 'a parsed \<Rightarrow> (YamlNode \<Rightarrow> 'a parsed) \<Rightarrow> 'a parsed" where
  "with_entry node key missing f = (case findEntry node key of None \<Rightarrow> missing | Some entry \<Rightarrow> f entry)"

text \<open>A scalar that has to pass a check.\<close>

definition checked_scalar :: "string \<Rightarrow> (string \<Rightarrow> bool) \<Rightarrow> (string \<Rightarrow> string) \<Rightarrow> nat \<Rightarrow> YamlNode \<Rightarrow> string parsed" where
  "checked_scalar what valid complaint line node =
     bindE (read_scalar what node) (\<lambda>v. if \<not> valid v then malformed (complaint v) line else Inr v)"

text \<open>A loop that also refuses a name it has seen.\<close>

fun read_unique :: "('a \<Rightarrow> string) \<Rightarrow> (YamlNode \<Rightarrow> 'a \<Rightarrow> string \<times> nat) \<Rightarrow> (YamlNode \<Rightarrow> 'a parsed) \<Rightarrow> string list \<Rightarrow> YamlNode list \<Rightarrow> 'a list parsed" where
  "read_unique key complaint read seen [] = Inr []"
| "read_unique key complaint read seen (node # nodes) =
     bindE (read node) (\<lambda>x.
     if key x \<in> set seen then malformed (fst (complaint node x)) (snd (complaint node x))
     else bindE (read_unique key complaint read (key x # seen) nodes) (\<lambda>xs. Inr (x # xs)))"

definition interpretBoolean :: "string \<Rightarrow> YamlNode \<Rightarrow> bool parsed" where
  "interpretBoolean what node =
     bindE (read_scalar what node) (\<lambda>v.
     if v = ''true'' then Inr True else if v = ''false'' then Inr False
     else malformed (what @ '' (true or false)'') (yn_line node))"

definition read_depth :: "nat \<Rightarrow> YamlNode \<Rightarrow> nat parsed" where
  "read_depth line node =
     bindE (read_scalar ''depth to be a number'' node) (\<lambda>text.
     case whole_number u32_max text of
       None \<Rightarrow> malformed (''depth must be 0 (full history) to '' @ to_dec kMaximumCiCheckoutDepth) line
     | Some v \<Rightarrow> if v > kMaximumCiCheckoutDepth
         then malformed (''depth must be 0 (full history) to '' @ to_dec kMaximumCiCheckoutDepth) line else Inr v)"

definition interpretHistory :: "YamlNode \<Rightarrow> CiCheckout \<Rightarrow> CiCheckout parsed" where
  "interpretHistory mapping checkout =
     (if findEntry mapping ''depth'' \<noteq> None \<and> findEntry mapping ''since'' \<noteq> None
      then malformed (''give either '' @ in_quotes ''depth'' @ '' or '' @ in_quotes ''since'' @ '', not both'') (yn_line mapping)
      else bindE (with_entry mapping ''depth'' (Inr (cc_depth checkout)) (read_depth (yn_line mapping))) (\<lambda>depth.
           bindE (with_entry mapping ''since'' (Inr (cc_since checkout))
             (checked_scalar ''since to be a date'' isValidIsoDate (\<lambda>_. ''since must be a date like 2026-01-31'') (yn_line mapping))) (\<lambda>since.
           bindE (with_entry mapping ''tags'' (Inr (cc_tags checkout)) (interpretBoolean ''tags must be a boolean'')) (\<lambda>tags.
           Inr (checkout\<lparr>cc_depth := depth, cc_since := since, cc_tags := tags\<rparr>)))))"

definition interpretCheckout :: "YamlNode \<Rightarrow> CiCheckout parsed" where
  "interpretCheckout node =
     bindE (requireKind node IsMapping ''checkout to be a mapping'') (\<lambda>_.
     bindE (rejectUnknownKeys node [''depth'', ''since'', ''tags'', ''mode'']) (\<lambda>_.
     bindE (interpretHistory node fresh_checkout) (\<lambda>checkout.
     with_entry node ''mode'' (Inr checkout) (\<lambda>mode.
     bindE (read_scalar ''checkout mode to be a scalar'' mode) (\<lambda>v.
     if v = ''archive'' then Inr (checkout\<lparr>cc_archive := True\<rparr>)
     else if v \<noteq> ''git'' then malformed (''checkout mode must be '' @ in_quotes ''git'' @ '' or '' @ in_quotes ''archive'') (yn_line node)
     else Inr checkout)))))"

definition env_entry :: "nat \<Rightarrow> string \<times> YamlNode \<Rightarrow> (string \<times> string) parsed" where
  "env_entry line e =
     (if \<not> isValidEnvName (fst e) then malformed (''invalid environment name '' @ in_quotes (fst e)) line
      else bindE (read_scalar ''an env value to be a scalar'' (snd e)) (\<lambda>v. Inr (fst e, v)))"

definition interpretEnv :: "YamlNode \<Rightarrow> CiEnv parsed" where
  "interpretEnv node =
     bindE (requireKind node IsMapping ''env to be a mapping of name: value'') (\<lambda>_.
     if length (yn_entries node) > kMaximumCiEnvEntries then tooLarge ''env has too many entries''
     else mapE (env_entry (yn_line node)) (yn_entries node))"

section \<open>Artifacts, labels, steps\<close>

definition artifact_name :: "YamlNode \<Rightarrow> string \<Rightarrow> string parsed" where
  "artifact_name node job_name =
     with_entry node ''name'' (Inr job_name) (\<lambda>name.
       bindE (read_scalar ''an artifact name to be a scalar'' name) (\<lambda>v.
       if \<not> isValidCiName v then malformed (''invalid artifact name '' @ in_quotes v) (yn_line node) else Inr v))"

definition artifact_path :: "nat \<Rightarrow> YamlNode \<Rightarrow> string parsed" where
  "artifact_path line = checked_scalar ''each artifact path to be a scalar'' isSafeRelativePath
     (\<lambda>v. ''unsafe or absolute artifact path '' @ in_quotes v) line"

definition read_retention :: "nat \<Rightarrow> YamlNode \<Rightarrow> nat parsed" where
  "read_retention line node =
     bindE (read_scalar ''retention_days to be a number'' node) (\<lambda>text.
     case whole_number u32_max text of
       None \<Rightarrow> malformed ''retention_days must be a positive number of days'' line
     | Some v \<Rightarrow> if v = 0 \<or> v > kMaximumCiRetentionDaysCap
         then malformed ''retention_days must be a positive number of days'' line else Inr v)"

definition interpretArtifact :: "YamlNode \<Rightarrow> string \<Rightarrow> CiArtifact parsed" where
  "interpretArtifact node job_name =
     bindE (requireKind node IsMapping ''artifacts to be a mapping'') (\<lambda>_.
     bindE (rejectUnknownKeys node [''paths'', ''name'', ''retention_days'']) (\<lambda>_.
     bindE (artifact_name node job_name) (\<lambda>name.
     if name = ''release'' then malformed (''artifact name '' @ in_quotes ''release'' @ '' is reserved for the release record'') (yn_line node)
     else bindE (with_entry node ''paths'' (malformed (''artifacts needs a '' @ in_quotes ''paths'' @ '' list'') (yn_line node))
            (read_items ''artifact paths to be a list'')) (\<lambda>items.
     if items = [] then malformed ''artifact paths is empty'' (yn_line node)
     else if length items > kMaximumCiArtifactPaths then tooLarge ''too many artifact paths''
     else bindE (mapE (artifact_path (yn_line node)) items) (\<lambda>paths.
     bindE (with_entry node ''retention_days'' (Inr 0) (read_retention (yn_line node))) (\<lambda>days.
     Inr \<lparr>wa_name = name, wa_paths = paths, wa_retention_days = days\<rparr>))))))"

definition label_texts :: "YamlNode \<Rightarrow> string list parsed" where
  "label_texts runs_on =
     (if yn_kind runs_on = IsScalar then Inr [yn_scalar runs_on]
      else bindE (read_items ''runs_on to be a label or a list of labels'' runs_on) (\<lambda>items.
        if length items > kMaximumCiLabels then tooLarge ''too many runs_on labels''
        else mapE (read_scalar ''each runs_on label to be a scalar'') items))"

definition bad_label :: "string \<Rightarrow> string" where
  "bad_label label = ''invalid runs_on label '' @ in_quotes label @ '' (lowercase letters, digits, '' @ in_quotes ''.'' @ '', ''
     @ in_quotes ''_'' @ '', '' @ in_quotes ''-'' @ ''; at most 32)''"

definition interpretLabels :: "YamlNode option \<Rightarrow> string list parsed" where
  "interpretLabels runs_on =
     (case runs_on of None \<Rightarrow> Inr []
      | Some node \<Rightarrow> bindE (label_texts node) (\<lambda>labels.
          case filter (\<lambda>l. \<not> isValidCiLabel l) labels of
            [] \<Rightarrow> Inr (remdups_adj (sort labels))
          | l # _ \<Rightarrow> malformed (bad_label l) (yn_line node)))"

definition interpretShell :: "YamlNode option \<Rightarrow> string parsed" where
  "interpretShell entry =
     (case entry of None \<Rightarrow> Inr []
      | Some node \<Rightarrow> checked_scalar ''shell to be a name'' (\<lambda>v. v \<in> {''sh'', ''powershell'', ''pwsh''})
          (\<lambda>_. ''shell must be sh, powershell, or pwsh'') (yn_line node) node)"

definition step_script :: "YamlNode \<Rightarrow> YamlNode \<Rightarrow> CiStep \<Rightarrow> CiStep parsed" where
  "step_script node script step =
     bindE (read_scalar ''script to be text'' script) (\<lambda>v.
     if v = [] then malformed ''a script is empty'' (yn_line node)
     else if length v > kMaximumCiScriptBytes then tooLarge ''a script exceeds its length limit''
     else Inr (step\<lparr>ws_script := v\<rparr>))"

definition argv_item :: "nat \<Rightarrow> YamlNode \<Rightarrow> string parsed" where
  "argv_item line = checked_scalar ''each argv item to be a scalar'' (\<lambda>v. v \<noteq> []) (\<lambda>_. ''an argv item is empty'') line"

definition step_run :: "YamlNode \<Rightarrow> YamlNode \<Rightarrow> CiStep \<Rightarrow> CiStep parsed" where
  "step_run node run step =
     (if yn_kind run = IsScalar then
        (if yn_scalar run = [] then malformed ''a run command is empty'' (yn_line node)
         else Inr (step\<lparr>ws_script := yn_scalar run\<rparr>))
      else if ws_shell step \<noteq> [] then malformed ''shell cannot be combined with an argv list'' (yn_line node)
      else bindE (read_items ''run to be a command line or an argv list'' run) (\<lambda>items.
        if items = [] then malformed ''a run argv list is empty'' (yn_line node)
        else if length items > kMaximumCiArgvItems then tooLarge ''a run argv list is too long''
        else bindE (mapE (argv_item (yn_line node)) items) (\<lambda>argv. Inr (step\<lparr>ws_argv := argv\<rparr>))))"

definition interpretStep :: "int \<Rightarrow> YamlNode \<Rightarrow> CiStep parsed" where
  "interpretStep version node =
     bindE (requireKind node IsMapping ''a step to be a mapping'') (\<lambda>_.
     bindE (rejectUnknownKeys node ([''name'', ''run'', ''script''] @ (if version = 1 then [] else [''shell'']))) (\<lambda>_.
     bindE (interpretShell (findEntry node ''shell'')) (\<lambda>shell.
     bindE (with_entry node ''name'' (Inr [])
       (checked_scalar ''a step name to be a scalar'' (\<lambda>v. v \<noteq> [] \<and> length v \<le> kMaximumCiNameBytes)
          (\<lambda>_. ''a step name is empty or too long'') (yn_line node))) (\<lambda>name.
     let step = \<lparr>ws_name = name, ws_argv = [], ws_script = [], ws_shell = shell\<rparr> in
     case (findEntry node ''run'', findEntry node ''script'') of
       (None, Some script) \<Rightarrow> step_script node script step
     | (Some run, None) \<Rightarrow> step_run node run step
     | _ \<Rightarrow> malformed (''a step needs exactly one of '' @ in_quotes ''run'' @ '' or '' @ in_quotes ''script'') (yn_line node)))))"

definition usesShell :: "CiStep \<Rightarrow> bool" where
  "usesShell step \<longleftrightarrow> ws_argv step = []"

definition inherit_shell :: "string \<Rightarrow> CiStep \<Rightarrow> CiStep" where
  "inherit_shell shell step = (if usesShell step \<and> ws_shell step = [] then step\<lparr>ws_shell := shell\<rparr> else step)"

section \<open>Jobs\<close>

definition job_needs :: "YamlNode \<Rightarrow> string list parsed" where
  "job_needs needs =
     bindE (read_items ''needs to be a list of job names'' needs) (\<lambda>items.
     if length items > kMaximumCiJobs then tooLarge ''too many job dependencies''
     else read_unique (\<lambda>v. v) (\<lambda>item v. (''invalid or duplicate job dependency'', yn_line item))
       (\<lambda>item. checked_scalar ''dependency to be a job name'' isValidCiName (\<lambda>_. ''invalid or duplicate job dependency'') (yn_line item) item)
       [] items)"

definition no_steps :: "string \<Rightarrow> nat \<Rightarrow> 'a parsed" where
  "no_steps name line = malformed (''job '' @ in_quotes name @ '' has no steps'') line"

definition job_steps :: "int \<Rightarrow> YamlNode \<Rightarrow> string \<Rightarrow> string \<Rightarrow> CiStep list parsed" where
  "job_steps version node name shell =
     bindE (with_entry node ''steps'' (no_steps name (yn_line node)) (read_items ''steps to be a list'')) (\<lambda>items.
     if items = [] then no_steps name (yn_line node)
     else if length items > kMaximumCiStepsPerJob then tooLarge ''a job has too many steps''
     else bindE (mapE (interpretStep version) items) (\<lambda>steps. Inr (map (inherit_shell shell) steps)))"

definition interpretJob :: "int \<Rightarrow> YamlNode \<Rightarrow> CiJob parsed" where
  "interpretJob version node =
     bindE (requireKind node IsMapping ''each job to be a mapping'') (\<lambda>_.
     bindE (rejectUnknownKeys node ([''name'', ''env'', ''steps'', ''artifacts''] @
       (if version = 1 then [] else [''runs_on'', ''needs'', ''shell'']))) (\<lambda>_.
     bindE (interpretShell (findEntry node ''shell'')) (\<lambda>shell.
     bindE (interpretLabels (findEntry node ''runs_on'')) (\<lambda>runs_on.
     bindE (with_entry node ''needs'' (Inr []) job_needs) (\<lambda>needs.
     bindE (with_entry node ''name'' (malformed (''a job is missing '' @ in_quotes ''name'') (yn_line node))
       (read_scalar ''a job name to be a scalar'')) (\<lambda>name.
     if \<not> isValidCiName name then malformed (''invalid job name '' @ in_quotes name) (yn_line node)
     else if version = 2 \<and> runs_on = []
     then malformed (''version 2 job '' @ in_quotes name @ '' requires non-empty runs_on labels'') (yn_line node)
     else bindE (with_entry node ''env'' (Inr []) interpretEnv) (\<lambda>env.
     bindE (job_steps version node name shell) (\<lambda>steps.
     bindE (with_entry node ''artifacts'' (Inr None) (\<lambda>a. bindE (interpretArtifact a name) (\<lambda>artifact. Inr (Some artifact)))) (\<lambda>artifact.
     Inr \<lparr>wj_name = name, wj_env = env, wj_steps = steps, wj_artifact = artifact, wj_runs_on = runs_on, wj_needs = needs\<rparr>)))))))))"

section \<open>Triggers, sisters, caches, pages\<close>

definition read_version :: "YamlNode \<Rightarrow> int parsed" where
  "read_version root =
     bindE (with_entry root ''version'' (malformed (''the workflow is missing '' @ in_quotes ''version'') (yn_line root))
       (read_scalar ''version to be a number'')) (\<lambda>text.
     case int_from_chars text of
       None \<Rightarrow> malformed ''version must be 1 or 2'' (yn_line root)
     | Some v \<Rightarrow> if v \<noteq> 1 \<and> v \<noteq> 2 then malformed ''version must be 1 or 2'' (yn_line root) else Inr v)"

definition trigger_list :: "string \<Rightarrow> (string \<Rightarrow> bool) \<Rightarrow> (string \<Rightarrow> string) \<Rightarrow> nat \<Rightarrow> string \<Rightarrow> string \<Rightarrow> YamlNode \<Rightarrow> string list parsed" where
  "trigger_list what valid complaint line one many node =
     bindE (read_items what node) (\<lambda>items.
     if length items > kMaximumCiBranches then tooLarge many
     else mapE (checked_scalar one valid complaint line) items)"

definition read_triggers :: "YamlNode \<Rightarrow> (string list \<times> string list \<times> bool) parsed" where
  "read_triggers root =
     with_entry root ''on'' (Inr ([], [''*''], True)) (\<lambda>on_node.
       bindE (requireKind on_node IsMapping (in_quotes ''on'' @ '' to be a mapping'')) (\<lambda>_.
       bindE (rejectUnknownKeys on_node [''branches'', ''tags'']) (\<lambda>_.
       bindE (with_entry on_node ''branches'' (Inr []) (trigger_list ''branches to be a list'' isValidBranchName
         (\<lambda>v. ''invalid branch name '' @ in_quotes v) (yn_line on_node) ''each branch to be a scalar'' ''too many branches'')) (\<lambda>branches.
       bindE (with_entry on_node ''tags'' (Inr []) (trigger_list ''tags to be a list'' isValidTagPattern
         (\<lambda>v. ''invalid tag pattern '' @ in_quotes v) (yn_line on_node) ''each tag to be a scalar'' ''too many tags'')) (\<lambda>tags.
       Inr (branches, tags, False))))))"

definition sister_mapping :: "YamlNode \<Rightarrow> CiSister parsed" where
  "sister_mapping item =
     bindE (rejectUnknownKeys item [''name'', ''ref'', ''depth'', ''since'', ''tags'']) (\<lambda>_.
     bindE (with_entry item ''name'' (malformed (''a sister needs a '' @ in_quotes ''name'') (yn_line item))
       (read_scalar ''a sister name to be a scalar'')) (\<lambda>name.
     bindE (with_entry item ''ref'' (Inr [])
       (checked_scalar ''a sister ref to be a scalar'' isValidSisterRef (\<lambda>v. ''invalid sister ref '' @ in_quotes v) (yn_line item))) (\<lambda>ref.
     bindE (interpretHistory item fresh_checkout) (\<lambda>checkout.
     Inr \<lparr>si_name = name, si_ref = ref, si_checkout = checkout\<rparr>))))"

definition read_sister :: "nat \<Rightarrow> YamlNode \<Rightarrow> CiSister parsed" where
  "read_sister line item =
     bindE (case item of
         Scalar _ s \<Rightarrow> Inr \<lparr>si_name = s, si_ref = [], si_checkout = fresh_checkout\<rparr>
       | Mapping _ _ \<Rightarrow> sister_mapping item
       | _ \<Rightarrow> malformed ''each sister to be a name or a { name, ref } mapping'' (yn_line item)) (\<lambda>sister.
     if \<not> isValidProjectName (si_name sister)
     then malformed (''invalid sister project name '' @ in_quotes (si_name sister)) line else Inr sister)"

definition read_sisters :: "YamlNode \<Rightarrow> CiSister list parsed" where
  "read_sisters node =
     bindE (read_items ''sisters to be a list'' node) (\<lambda>items.
     if length items > kMaximumCiSisters then tooLarge ''too many sisters''
     else read_unique si_name (\<lambda>_ s. (''duplicate sister project '' @ in_quotes (si_name s), yn_line node)) (read_sister (yn_line node)) [] items)"

definition cache_env :: "nat \<Rightarrow> YamlNode \<Rightarrow> string list parsed" where
  "cache_env line node =
     bindE (read_items ''cache env to be a list'' node) (\<lambda>items.
     if length items > kMaximumCiCacheEnv then tooLarge ''a cache has too many env bindings''
     else mapE (checked_scalar ''a cache env name to be a scalar'' isValidEnvName (\<lambda>v. ''invalid cache env name '' @ in_quotes v) line) items)"

definition cache_mapping :: "YamlNode \<Rightarrow> CiCache parsed" where
  "cache_mapping item =
     bindE (rejectUnknownKeys item [''name'', ''env'']) (\<lambda>_.
     bindE (with_entry item ''name'' (malformed (''a cache needs a '' @ in_quotes ''name'') (yn_line item))
       (read_scalar ''a cache name to be a scalar'')) (\<lambda>name.
     bindE (with_entry item ''env'' (Inr []) (cache_env (yn_line item))) (\<lambda>env.
     Inr \<lparr>ca_name = name, ca_env = env\<rparr>)))"

definition read_cache :: "nat \<Rightarrow> YamlNode \<Rightarrow> CiCache parsed" where
  "read_cache line item =
     bindE (case item of
         Scalar _ s \<Rightarrow> Inr \<lparr>ca_name = s, ca_env = []\<rparr>
       | Mapping _ _ \<Rightarrow> cache_mapping item
       | _ \<Rightarrow> malformed ''each cache to be a name or a { name, env } mapping'' (yn_line item)) (\<lambda>cache.
     if \<not> isValidCiName (ca_name cache) then malformed (''invalid cache name '' @ in_quotes (ca_name cache)) line else Inr cache)"

definition read_caches :: "YamlNode \<Rightarrow> CiCache list parsed" where
  "read_caches node =
     bindE (read_items ''cache to be a list'' node) (\<lambda>items.
     if length items > kMaximumCiCaches then tooLarge ''too many caches''
     else read_unique ca_name (\<lambda>_ c. (''duplicate cache '' @ in_quotes (ca_name c), yn_line node)) (read_cache (yn_line node)) [] items)"

definition pages_producer :: "int \<Rightarrow> YamlNode \<Rightarrow> string parsed" where
  "pages_producer version pages =
     (if version \<noteq> 2 then Inr []
      else with_entry pages ''job'' (malformed ''version-2 pages requires its producing job'' (yn_line pages))
        (checked_scalar ''pages job to be a name'' isValidCiName (\<lambda>_. ''invalid pages job name'') (yn_line pages)))"

definition read_pages :: "int \<Rightarrow> YamlNode \<Rightarrow> (string option \<times> string) parsed" where
  "read_pages version pages =
     bindE (requireKind pages IsMapping ''pages to be a mapping'') (\<lambda>_.
     bindE (rejectUnknownKeys pages (if version = 1 then [''path''] else [''path'', ''job''])) (\<lambda>_.
     bindE (pages_producer version pages) (\<lambda>job.
     bindE (with_entry pages ''path'' (malformed (''pages needs a '' @ in_quotes ''path'') (yn_line pages))
       (checked_scalar ''pages path to be a scalar'' isSafeRelativePath (\<lambda>v. ''unsafe or absolute pages path '' @ in_quotes v) (yn_line pages))) (\<lambda>path.
     Inr (Some path, job)))))"

section \<open>The jobs of a workflow\<close>

definition read_jobs :: "int \<Rightarrow> YamlNode \<Rightarrow> YamlNode \<Rightarrow> CiJob list parsed" where
  "read_jobs version root jobs =
     bindE (read_items ''jobs to be a list'' jobs) (\<lambda>items.
     if items = [] then malformed ''the workflow has no jobs'' (yn_line root)
     else if length items > kMaximumCiJobs then tooLarge ''too many jobs''
     else read_unique wj_name (\<lambda>node job. (''duplicate job name '' @ in_quotes (wj_name job), yn_line node)) (interpretJob version) [] items)"

definition artifact_names :: "CiJob list \<Rightarrow> string list" where
  "artifact_names jobs = map wa_name (List.map_filter wj_artifact jobs)"

definition distributed_checks :: "nat \<Rightarrow> int \<Rightarrow> string \<Rightarrow> CiJob list \<Rightarrow> unit parsed" where
  "distributed_checks line version pages_job jobs =
     (if version \<noteq> 2 then Inr ()
      else if pages_job \<noteq> [] \<and> pages_job \<notin> wj_name ` set jobs then malformed ''pages names an unknown producing job'' line
      else if \<not> distinct (artifact_names jobs) then malformed ''distributed jobs must use unique artifact names'' line
      else Inr ())"

definition unresolved :: "CiJob list \<Rightarrow> (CiJob \<times> string) list" where
  "unresolved jobs = concat (map (\<lambda>job. map (Pair job)
     (filter (\<lambda>d. d = wj_name job \<or> d \<notin> wj_name ` set jobs) (wj_needs job))) jobs)"

definition resolve_needs :: "nat \<Rightarrow> CiJob list \<Rightarrow> unit parsed" where
  "resolve_needs line jobs =
     (case unresolved jobs of
        (job, d) # _ \<Rightarrow> malformed (''unknown or self dependency '' @ in_quotes d @ '' in job '' @ in_quotes (wj_name job)) line
      | [] \<Rightarrow> if ready_loop wj_name wj_needs jobs [] then Inr () else malformed ''job dependencies contain a cycle'' line)"

definition interpret_jobs :: "int \<Rightarrow> string \<Rightarrow> YamlNode \<Rightarrow> YamlNode \<Rightarrow> CiJob list parsed" where
  "interpret_jobs version pages_job root jobs_node =
     bindE (read_jobs version root jobs_node) (\<lambda>jobs.
     bindE (distributed_checks (yn_line jobs_node) version pages_job jobs) (\<lambda>_.
     bindE (resolve_needs (yn_line jobs_node) jobs) (\<lambda>_. Inr jobs)))"

definition root_labels :: "int \<Rightarrow> YamlNode \<Rightarrow> string list parsed" where
  "root_labels version root =
     (if version = 2 \<and> findEntry root ''runs_on'' \<noteq> None
      then malformed ''version 2 requires runs_on on each job, not at workflow level'' (yn_line root)
      else interpretLabels (findEntry root ''runs_on''))"

definition workflow_keys :: "string list" where
  "workflow_keys = [''version'', ''on'', ''env'', ''sisters'', ''checkout'', ''runs_on'', ''cache'', ''jobs'', ''pages'', ''auto_cancel'']"

definition interpret_root :: "YamlNode \<Rightarrow> CiWorkflow parsed" where
  "interpret_root root =
     bindE (requireKind root IsMapping ''the workflow to be a mapping'') (\<lambda>_.
     bindE (rejectUnknownKeys root workflow_keys) (\<lambda>_.
     bindE (read_version root) (\<lambda>version.
     bindE (with_entry root ''auto_cancel'' (Inr True) (interpretBoolean ''auto_cancel must be a boolean'')) (\<lambda>auto_cancel.
     bindE (read_triggers root) (\<lambda>(branches, tags, default_branch).
     bindE (with_entry root ''env'' (Inr []) interpretEnv) (\<lambda>env.
     bindE (with_entry root ''sisters'' (Inr []) read_sisters) (\<lambda>sisters.
     bindE (with_entry root ''checkout'' (Inr fresh_checkout) interpretCheckout) (\<lambda>checkout.
     bindE (root_labels version root) (\<lambda>runs_on.
     bindE (with_entry root ''cache'' (Inr []) read_caches) (\<lambda>caches.
     bindE (with_entry root ''pages'' (Inr (None, [])) (read_pages version)) (\<lambda>(pages_path, pages_job).
     bindE (with_entry root ''jobs'' (malformed (''the workflow is missing '' @ in_quotes ''jobs'') (yn_line root))
       (interpret_jobs version pages_job root)) (\<lambda>jobs.
     Inr \<lparr>wf_version = version, wf_auto_cancel = auto_cancel, wf_branches = branches, wf_tags = tags,
       wf_triggers_default_branch = default_branch, wf_env = env, wf_sisters = sisters, wf_checkout = checkout,
       wf_runs_on = runs_on, wf_caches = caches, wf_jobs = jobs, wf_pages_path = pages_path, wf_pages_job = pages_job\<rparr>))))))))))))"

definition parseCiWorkflow :: "string \<Rightarrow> CiWorkflow parsed" where
  "parseCiWorkflow content = bindE (parseYamlSubset kCiWorkflowYamlDialect content) interpret_root"

definition selectCiWorkflowJob :: "CiWorkflow \<Rightarrow> string \<Rightarrow> CiWorkflow result" where
  "selectCiWorkflowJob workflow name =
     (if wf_version workflow \<noteq> 2 then Inl (Invalid_Argument ''job selection requires workflow version 2'')
      else case filter (\<lambda>job. wj_name job = name) (wf_jobs workflow) of
        [] \<Rightarrow> Inl (Invalid_Argument ''assigned workflow job does not exist'')
      | selected # _ \<Rightarrow> Inr (workflow\<lparr>
          wf_pages_path := (if wf_pages_job workflow \<noteq> name then None else wf_pages_path workflow),
          wf_runs_on := wj_runs_on selected, wf_jobs := [selected]\<rparr>))"

text \<open>A date is checked by its parts: February has 31 days here.\<close>

lemma impossible_date: "isValidIsoDate ''2026-02-31''"
  by code_simp

section \<open>Every rejection is an error of the file\<close>

lemma prefix_of_dialect: "yd_prefix kCiWorkflowYamlDialect = ''ci workflow''"
  by (simp add: kCiWorkflowYamlDialect_def)

text \<open>The errors of the readers here name the workflow.\<close>

abbreviation clean :: "'a parsed \<Rightarrow> bool" where
  "clean \<equiv> reads_cleanly ''ci workflow''"

lemmas clean_here [clean_intro] =
  clean_errors(1,2) [of kCiWorkflowYamlDialect, unfolded prefix_of_dialect] clean_nodes [of kCiWorkflowYamlDialect, unfolded prefix_of_dialect]
  clean_document [of kCiWorkflowYamlDialect, unfolded prefix_of_dialect]

lemma clean_unique [clean_intro]: "(\<And>x. clean (read x)) \<Longrightarrow> clean (read_unique key complaint read seen nodes)"
proof (induction nodes arbitrary: seen)
  case (Cons node nodes)
  show ?case unfolding read_unique.simps by (intro clean_intro Cons)
qed (auto intro: clean_intro)

lemma clean_entry [clean_intro]: "clean missing \<Longrightarrow> (\<And>e. clean (f e)) \<Longrightarrow> clean (with_entry node key missing f)"
  unfolding with_entry_def by (intro clean_intro)

lemma clean_values [clean_intro]:
  "clean (read_scalar what node)" "clean (read_items what node)" "clean (checked_scalar what valid complaint line node)"
  unfolding checked_scalar_def read_scalar_def read_items_def by (intro clean_intro)+

lemma clean_history [clean_intro]: "clean (interpretBoolean what node)" "clean (interpretHistory node checkout)" "clean (interpretCheckout node)"
  unfolding interpretCheckout_def interpretHistory_def interpretBoolean_def read_depth_def by (intro clean_intro)+

lemma clean_env [clean_intro]: "clean (interpretEnv node)"
  unfolding interpretEnv_def env_entry_def by (intro clean_intro)

lemma clean_artifact [clean_intro]: "clean (interpretArtifact node name)"
  unfolding interpretArtifact_def artifact_name_def artifact_path_def read_retention_def by (intro clean_intro)

lemma clean_labels [clean_intro]: "clean (interpretLabels entry)" "clean (interpretShell entry)"
  unfolding interpretLabels_def label_texts_def interpretShell_def by (intro clean_intro)+

lemma clean_step [clean_intro]: "clean (interpretStep version node)"
  unfolding interpretStep_def step_script_def step_run_def argv_item_def by (intro clean_intro)

lemma clean_job [clean_intro]: "clean (interpretJob version node)"
  unfolding interpretJob_def job_steps_def no_steps_def job_needs_def by (intro clean_intro)

lemma clean_lists [clean_intro]: "clean (read_sisters node)" "clean (read_caches node)" "clean (read_pages version node)"
  unfolding read_sisters_def read_sister_def sister_mapping_def read_caches_def read_cache_def cache_mapping_def cache_env_def
    read_pages_def pages_producer_def
  by (intro clean_intro)+

lemma clean_root: "clean (interpret_root root)"
  unfolding interpret_root_def read_version_def read_triggers_def trigger_list_def root_labels_def interpret_jobs_def read_jobs_def
    distributed_checks_def resolve_needs_def
  by (intro clean_intro)

lemma clean_workflow: "clean (parseCiWorkflow content)"
  unfolding parseCiWorkflow_def by (intro clean_intro clean_root)

section \<open>What the schema promises\<close>

definition env_valid :: "CiEnv \<Rightarrow> bool" where
  "env_valid env \<longleftrightarrow> length env \<le> 64 \<and> list_all (\<lambda>e. isValidEnvName (fst e)) env"

definition shell_ok :: "string \<Rightarrow> bool" where
  "shell_ok s \<longleftrightarrow> s \<in> {[], ''sh'', ''powershell'', ''pwsh''}"

text \<open>Exactly one execution form, and a shell only where one is used.\<close>

definition step_valid :: "int \<Rightarrow> CiStep \<Rightarrow> bool" where
  "step_valid version step \<longleftrightarrow>
     (ws_argv step = []) \<noteq> (ws_script step = []) \<and> length (ws_argv step) \<le> 64 \<and> [] \<notin> set (ws_argv step)
     \<and> length (ws_name step) \<le> 64 \<and> shell_ok (ws_shell step)
     \<and> (ws_argv step \<noteq> [] \<or> version = 1 \<longrightarrow> ws_shell step = [])"

definition artifact_valid :: "CiArtifact \<Rightarrow> bool" where
  "artifact_valid artifact \<longleftrightarrow>
     isValidCiName (wa_name artifact) \<and> wa_name artifact \<noteq> ''release'' \<and> wa_paths artifact \<noteq> []
     \<and> length (wa_paths artifact) \<le> 64 \<and> list_all isSafeRelativePath (wa_paths artifact) \<and> wa_retention_days artifact \<le> 3650"

definition job_valid :: "int \<Rightarrow> CiJob \<Rightarrow> bool" where
  "job_valid version job \<longleftrightarrow>
     isValidCiName (wj_name job) \<and> env_valid (wj_env job)
     \<and> wj_steps job \<noteq> [] \<and> length (wj_steps job) \<le> 128 \<and> list_all (step_valid version) (wj_steps job)
     \<and> (case wj_artifact job of None \<Rightarrow> True | Some artifact \<Rightarrow> artifact_valid artifact)
     \<and> canonical_labels (wj_runs_on job) \<and> distinct (wj_needs job)
     \<and> (if version = 1 then wj_runs_on job = [] \<and> wj_needs job = [] else wj_runs_on job \<noteq> [])"

definition checkout_valid :: "CiCheckout \<Rightarrow> bool" where
  "checkout_valid checkout \<longleftrightarrow> cc_depth checkout \<le> 100000
     \<and> (cc_since checkout \<noteq> [] \<longrightarrow> isValidIsoDate (cc_since checkout) \<and> cc_depth checkout = 1)"

definition sister_valid :: "CiSister \<Rightarrow> bool" where
  "sister_valid sister \<longleftrightarrow> isValidProjectName (si_name sister) \<and> (si_ref sister = [] \<or> isValidSisterRef (si_ref sister))
     \<and> checkout_valid (si_checkout sister) \<and> \<not> cc_archive (si_checkout sister)"

definition cache_valid :: "CiCache \<Rightarrow> bool" where
  "cache_valid cache \<longleftrightarrow> isValidCiName (ca_name cache) \<and> length (ca_env cache) \<le> 8 \<and> list_all isValidEnvName (ca_env cache)"

definition pages_valid :: "CiWorkflow \<Rightarrow> bool" where
  "pages_valid w \<longleftrightarrow> (case wf_pages_path w of
       None \<Rightarrow> wf_pages_job w = []
     | Some p \<Rightarrow> isSafeRelativePath p \<and> (if wf_version w = 2 then wf_pages_job w \<in> wj_name ` set (wf_jobs w) else wf_pages_job w = []))"

definition triggers_valid :: "CiWorkflow \<Rightarrow> bool" where
  "triggers_valid w \<longleftrightarrow> list_all isValidBranchName (wf_branches w) \<and> list_all isValidTagPattern (wf_tags w)
     \<and> length (wf_branches w) \<le> 64 \<and> length (wf_tags w) \<le> 64
     \<and> (wf_triggers_default_branch w \<longrightarrow> wf_branches w = [] \<and> wf_tags w = [''*''])"

definition jobs_valid :: "int \<Rightarrow> CiJob list \<Rightarrow> bool" where
  "jobs_valid version jobs \<longleftrightarrow>
     jobs \<noteq> [] \<and> length jobs \<le> 64 \<and> list_all (job_valid version) jobs \<and> distinct (map wj_name jobs)
     \<and> (version = 2 \<longrightarrow> distinct (artifact_names jobs))
     \<and> siblings_only wj_name wj_needs jobs \<and> acyclic (needs_relation wj_name wj_needs jobs)"

definition workflow_valid :: "CiWorkflow \<Rightarrow> bool" where
  "workflow_valid w \<longleftrightarrow>
     wf_version w \<in> {1, 2} \<and> triggers_valid w \<and> env_valid (wf_env w)
     \<and> length (wf_sisters w) \<le> 16 \<and> list_all sister_valid (wf_sisters w) \<and> distinct (map si_name (wf_sisters w))
     \<and> checkout_valid (wf_checkout w) \<and> canonical_labels (wf_runs_on w) \<and> (wf_version w = 2 \<longrightarrow> wf_runs_on w = [])
     \<and> length (wf_caches w) \<le> 8 \<and> list_all cache_valid (wf_caches w) \<and> distinct (map ca_name (wf_caches w))
     \<and> pages_valid w \<and> jobs_valid (wf_version w) (wf_jobs w)"

section \<open>The readers keep it\<close>

lemma errors_no_value [simp]: "malformed m line \<noteq> Inr x" "tooLarge m \<noteq> Inr x" "Inr x \<noteq> malformed m line" "Inr x \<noteq> tooLarge m"
  by (simp_all add: yamlMalformed_def yamlTooLarge_def)

lemma requireKind_Inr [simp]: "requireKind node kind what = Inr n \<longleftrightarrow> n = node \<and> yn_kind node = kind"
  by (auto simp: yamlRequireKind_def)

lemma with_entry_InrE:
  "with_entry node key missing f = Inr x \<Longrightarrow> (findEntry node key = None \<Longrightarrow> missing = Inr x \<Longrightarrow> P) \<Longrightarrow>
   (\<And>e. findEntry node key = Some e \<Longrightarrow> f e = Inr x \<Longrightarrow> P) \<Longrightarrow> P"
  by (cases "findEntry node key") (auto simp: with_entry_def)

lemma checked_scalar_Inr: "checked_scalar what valid complaint line node = Inr v \<Longrightarrow> valid v"
  by (auto simp: checked_scalar_def elim!: bindE_InrE split: if_splits)

lemma accepted_InrE: "(if b then malformed m line else r) = Inr y \<Longrightarrow> (\<not> b \<Longrightarrow> r = Inr y \<Longrightarrow> P) \<Longrightarrow> P"
  by (cases b) simp_all

lemma mapE_checked: "mapE (checked_scalar what valid complaint line) items = Inr vs \<Longrightarrow> list_all valid vs \<and> length vs = length items"
  by (rule mapE_Inr_all) (auto dest: checked_scalar_Inr)

lemma read_unique_Inr:
  "read_unique key complaint read seen nodes = Inr xs \<Longrightarrow> (\<And>n x. read n = Inr x \<Longrightarrow> P x) \<Longrightarrow>
   list_all P xs \<and> length xs = length nodes \<and> distinct (map key xs) \<and> set (map key xs) \<inter> set seen = {}"
proof (induction nodes arbitrary: seen xs)
  case (Cons node nodes)
  then obtain x ys where "read node = Inr x" "key x \<notin> set seen" "read_unique key complaint read (key x # seen) nodes = Inr ys" "xs = x # ys"
    by (auto elim!: bindE_InrE split: if_splits)
  then show ?case using Cons.IH [of "key x # seen" ys] Cons.prems(2) by auto
qed simp

lemma known_keys: "rejectUnknownKeys node allowed = Inr u \<Longrightarrow> key \<notin> set allowed \<Longrightarrow> findEntry node key = None"
  by (cases node) (auto simp: yamlRejectUnknownKeys_def yamlFindEntry_def map_of_eq_None_iff filter_empty_conv split: list.splits)

lemma history_Inr:
  assumes "interpretHistory mapping checkout = Inr c" "checkout = fresh_checkout"
  shows "checkout_valid c \<and> \<not> cc_archive c"
proof -
  have depth: "read_depth line node = Inr d \<Longrightarrow> d \<le> 100000" for line node d
    by (auto simp: read_depth_def kMaximumCiCheckoutDepth_def elim!: bindE_InrE split: option.splits if_splits)
  show ?thesis using assms
    by (auto simp: interpretHistory_def checkout_valid_def fresh_checkout_def elim!: bindE_InrE with_entry_InrE split: if_splits
        dest!: depth checked_scalar_Inr)
qed

lemma checkout_Inr: "interpretCheckout node = Inr c \<Longrightarrow> checkout_valid c"
  by (auto simp: interpretCheckout_def checkout_valid_def elim!: bindE_InrE with_entry_InrE split: if_splits dest!: history_Inr)

lemma env_Inr:
  assumes "interpretEnv node = Inr env"
  shows "env_valid env"
proof -
  have "mapE (env_entry (yn_line node)) (yn_entries node) = Inr env" "length (yn_entries node) \<le> 64"
    using assms by (auto simp: interpretEnv_def kMaximumCiEnvEntries_def elim!: bindE_InrE split: if_splits)
  moreover have "env_entry line e = Inr p \<Longrightarrow> isValidEnvName (fst p)" for line e p
    by (auto simp: env_entry_def elim!: bindE_InrE split: if_splits)
  ultimately show ?thesis using mapE_Inr_all unfolding env_valid_def by metis
qed

lemma artifact_Inr:
  assumes "interpretArtifact node name = Inr a" "isValidCiName name"
  shows "artifact_valid a"
proof -
  have paths: "mapE (artifact_path line) items = Inr ps \<Longrightarrow> list_all isSafeRelativePath ps \<and> length ps = length items" for line items ps
    by (rule mapE_Inr_all) (auto simp: artifact_path_def dest: checked_scalar_Inr)
  have days: "read_retention line n = Inr d \<Longrightarrow> d \<le> 3650" for line n d
    by (auto simp: read_retention_def kMaximumCiRetentionDaysCap_def elim!: bindE_InrE split: option.splits if_splits)
  have name: "artifact_name node name = Inr n \<Longrightarrow> isValidCiName n" for n
    using assms(2) by (auto simp: artifact_name_def elim!: bindE_InrE with_entry_InrE split: if_splits)
  show ?thesis using assms(1) unfolding artifact_valid_def
    by (auto simp: interpretArtifact_def kMaximumCiArtifactPaths_def elim!: bindE_InrE with_entry_InrE split: if_splits
        dest!: paths days name)
qed

lemma labels_Inr:
  assumes "interpretLabels entry = Inr ls"
  shows "canonical_labels ls"
proof (cases entry)
  case None
  with assms show ?thesis by (simp add: interpretLabels_def canonical_labels_def)
next
  case (Some node)
  with assms obtain labels where l: "label_texts node = Inr labels" "list_all isValidCiLabel labels" "ls = remdups_adj (sort labels)"
    by (auto simp: interpretLabels_def filter_empty_conv list_all_iff elim!: bindE_InrE split: list.splits)
  have "length labels \<le> kMaximumCiLabels" using l(1)
    by (auto simp: label_texts_def kMaximumCiLabels_def mapE_eq_Inr list_all2_lengthD elim!: bindE_InrE split: if_splits)
  moreover have "length (remdups_adj (sort labels)) \<le> length labels" using remdups_adj_length [of "sort labels"] by simp
  moreover have "distinct (remdups_adj (sort labels)) \<and> sorted (remdups_adj (sort labels))" by (rule remdups_adj_sorted) simp
  ultimately show ?thesis using l(2,3) by (simp add: canonical_labels_def list_all_iff)
qed

lemma shell_Inr: "interpretShell entry = Inr s \<Longrightarrow> shell_ok s \<and> (entry = None \<longrightarrow> s = [])"
  by (auto simp: interpretShell_def shell_ok_def split: option.splits dest!: checked_scalar_Inr)

text \<open>A step before its command is known.\<close>

definition step_start :: "int \<Rightarrow> CiStep \<Rightarrow> bool" where
  "step_start version s \<longleftrightarrow> ws_argv s = [] \<and> ws_script s = [] \<and> length (ws_name s) \<le> 64
     \<and> shell_ok (ws_shell s) \<and> (version = 1 \<longrightarrow> ws_shell s = [])"

lemma step_script_Inr: "step_script node script s = Inr step \<Longrightarrow> step_start version s \<Longrightarrow> step_valid version step"
  by (auto simp: step_valid_def step_start_def step_script_def elim!: bindE_InrE split: if_splits)

lemma step_run_Inr:
  assumes "step_run node run s = Inr step" "step_start version s"
  shows "step_valid version step"
proof -
  have argv: "mapE (argv_item line) items = Inr argv \<Longrightarrow> [] \<notin> set argv \<and> length argv = length items" for line items argv
    using mapE_Inr_all [of "argv_item line" items argv "\<lambda>v. v \<noteq> []"] by (auto simp: argv_item_def list_all_iff dest: checked_scalar_Inr)
  show ?thesis using assms
    by (auto simp: step_valid_def step_start_def step_run_def kMaximumCiArgvItems_def elim!: bindE_InrE split: if_splits dest!: argv)
qed

lemma step_Inr:
  assumes "interpretStep version node = Inr step"
  shows "step_valid version step"
proof -
  from assms obtain u shell name where
    keys: "rejectUnknownKeys node ([''name'', ''run'', ''script''] @ (if version = 1 then [] else [''shell''])) = Inr u"
    and shell: "interpretShell (findEntry node ''shell'') = Inr shell"
    and name: "with_entry node ''name'' (Inr []) (checked_scalar ''a step name to be a scalar''
       (\<lambda>v. v \<noteq> [] \<and> length v \<le> kMaximumCiNameBytes) (\<lambda>_. ''a step name is empty or too long'') (yn_line node)) = Inr name"
    and command: "(case (findEntry node ''run'', findEntry node ''script'') of
       (None, Some script) \<Rightarrow> step_script node script \<lparr>ws_name = name, ws_argv = [], ws_script = [], ws_shell = shell\<rparr>
     | (Some run, None) \<Rightarrow> step_run node run \<lparr>ws_name = name, ws_argv = [], ws_script = [], ws_shell = shell\<rparr>
     | _ \<Rightarrow> malformed (''a step needs exactly one of '' @ in_quotes ''run'' @ '' or '' @ in_quotes ''script'') (yn_line node)) = Inr step"
    unfolding interpretStep_def Let_def by (elim bindE_InrE)
  have "version = 1 \<Longrightarrow> findEntry node ''shell'' = None" using keys by (intro known_keys [OF keys]) simp
  moreover have "length name \<le> 64" using name
    by (auto simp: kMaximumCiNameBytes_def elim!: with_entry_InrE dest!: checked_scalar_Inr)
  ultimately have "step_start version \<lparr>ws_name = name, ws_argv = [], ws_script = [], ws_shell = shell\<rparr>"
    using shell_Inr [OF shell] by (auto simp: step_start_def)
  with command show ?thesis by (auto split: option.splits intro: step_script_Inr step_run_Inr)
qed

lemma inherit_valid: "step_valid version step \<Longrightarrow> shell_ok shell \<Longrightarrow> (version = 1 \<longrightarrow> shell = []) \<Longrightarrow>
   step_valid version (inherit_shell shell step)"
  unfolding inherit_shell_def usesShell_def step_valid_def by (cases "ws_argv step = []"; cases "ws_shell step = []") simp_all

lemma steps_Inr:
  assumes "job_steps version node name shell = Inr steps" "shell_ok shell" "version = 1 \<longrightarrow> shell = []"
  shows "steps \<noteq> [] \<and> length steps \<le> 128 \<and> list_all (step_valid version) steps"
proof -
  have steps: "mapE (interpretStep version) items = Inr ss \<Longrightarrow> list_all (step_valid version) ss \<and> length ss = length items" for items ss
    by (rule mapE_Inr_all) (auto dest: step_Inr)
  from assms(1) obtain items ss where i: "items \<noteq> []" "length items \<le> 128" "mapE (interpretStep version) items = Inr ss"
    "steps = map (inherit_shell shell) ss"
    by (auto simp: job_steps_def no_steps_def kMaximumCiStepsPerJob_def elim!: bindE_InrE with_entry_InrE split: if_splits)
  from steps [OF i(3)] i(1,2,4) show ?thesis using inherit_valid [OF _ assms(2,3)] by (auto simp: list_all_iff)
qed

lemma needs_Inr: "job_needs node = Inr needs \<Longrightarrow> distinct needs"
  by (auto simp: job_needs_def elim!: bindE_InrE split: if_splits dest!: read_unique_Inr [where P = "\<lambda>_. True"])

lemma job_Inr:
  assumes "interpretJob version node = Inr job" "version = 1 \<or> version = 2"
  shows "job_valid version job"
proof -
  from assms(1) obtain u shell runs_on needs name env steps artifact where
    keys: "rejectUnknownKeys node ([''name'', ''env'', ''steps'', ''artifacts''] @
       (if version = 1 then [] else [''runs_on'', ''needs'', ''shell''])) = Inr u"
    and shell: "interpretShell (findEntry node ''shell'') = Inr shell"
    and runs_on: "interpretLabels (findEntry node ''runs_on'') = Inr runs_on" "version = 2 \<Longrightarrow> runs_on \<noteq> []"
    and needs: "with_entry node ''needs'' (Inr []) job_needs = Inr needs"
    and name: "isValidCiName name"
    and env: "with_entry node ''env'' (Inr []) interpretEnv = Inr env"
    and steps: "job_steps version node name shell = Inr steps"
    and artifact: "with_entry node ''artifacts'' (Inr None) (\<lambda>a. bindE (interpretArtifact a name) (\<lambda>artifact. Inr (Some artifact))) = Inr artifact"
    and job: "Inr \<lparr>wj_name = name, wj_env = env, wj_steps = steps, wj_artifact = artifact, wj_runs_on = runs_on, wj_needs = needs\<rparr>
       = (Inr job :: CiJob parsed)"
    unfolding interpretJob_def by (elim bindE_InrE accepted_InrE) blast
  have none: "version = 1 \<Longrightarrow> key \<in> {''runs_on'', ''needs'', ''shell''} \<Longrightarrow> findEntry node key = None" for key
    using keys by (intro known_keys [OF keys]) auto
  have s: "shell_ok shell" "version = 1 \<longrightarrow> shell = []"
    using shell_Inr [OF shell] none by auto
  have "version = 1 \<Longrightarrow> runs_on = [] \<and> needs = []"
    using none [of "''runs_on''"] none [of "''needs''"] runs_on(1) needs by (auto simp: interpretLabels_def with_entry_def)
  moreover have "distinct needs" using needs by (auto elim!: with_entry_InrE dest: needs_Inr)
  moreover have "env_valid env" using env by (auto elim!: with_entry_InrE dest: env_Inr simp: env_valid_def)
  moreover have "case artifact of None \<Rightarrow> True | Some a \<Rightarrow> artifact_valid a"
    using artifact by (auto elim!: with_entry_InrE bindE_InrE dest: artifact_Inr [OF _ name])
  ultimately show ?thesis using steps_Inr [OF steps s] labels_Inr [OF runs_on(1)] runs_on(2) name assms(2)
    using job by (auto simp: job_valid_def)
qed

lemma sister_Inr:
  assumes "read_sister line item = Inr s"
  shows "sister_valid s"
proof -
  from assms have s: "isValidProjectName (si_name s)"
    "sister_mapping item = Inr s \<or> (si_ref s = [] \<and> si_checkout s = fresh_checkout)"
    by (auto simp: read_sister_def elim!: bindE_InrE split: if_splits YamlNode.splits)
  from s(2) have "(si_ref s = [] \<or> isValidSisterRef (si_ref s)) \<and> checkout_valid (si_checkout s) \<and> \<not> cc_archive (si_checkout s)"
  proof
    assume "sister_mapping item = Inr s"
    then show ?thesis by (auto simp: sister_mapping_def elim!: bindE_InrE with_entry_InrE dest!: history_Inr checked_scalar_Inr)
  qed (simp add: checkout_valid_def fresh_checkout_def)
  with s(1) show ?thesis by (simp add: sister_valid_def)
qed

lemma cache_Inr:
  assumes "read_cache line item = Inr c"
  shows "cache_valid c"
proof -
  have env: "cache_env l n = Inr names \<Longrightarrow> list_all isValidEnvName names \<and> length names \<le> 8" for l n names
    by (auto simp: cache_env_def kMaximumCiCacheEnv_def elim!: bindE_InrE split: if_splits dest!: mapE_checked)
  from assms have c: "isValidCiName (ca_name c)" "cache_mapping item = Inr c \<or> ca_env c = []"
    by (auto simp: read_cache_def elim!: bindE_InrE split: if_splits YamlNode.splits)
  from c(2) have "length (ca_env c) \<le> 8 \<and> list_all isValidEnvName (ca_env c)"
  proof
    assume "cache_mapping item = Inr c"
    then show ?thesis by (auto simp: cache_mapping_def elim!: bindE_InrE with_entry_InrE dest!: env)
  qed simp
  with c(1) show ?thesis by (simp add: cache_valid_def)
qed

lemma sisters_Inr: "read_sisters node = Inr ss \<Longrightarrow> length ss \<le> 16 \<and> list_all sister_valid ss \<and> distinct (map si_name ss)"
  by (auto simp: read_sisters_def kMaximumCiSisters_def elim!: bindE_InrE split: if_splits
      dest!: read_unique_Inr [where P = sister_valid] dest: sister_Inr)

lemma caches_Inr: "read_caches node = Inr cs \<Longrightarrow> length cs \<le> 8 \<and> list_all cache_valid cs \<and> distinct (map ca_name cs)"
  by (auto simp: read_caches_def kMaximumCiCaches_def elim!: bindE_InrE split: if_splits
      dest!: read_unique_Inr [where P = cache_valid] dest: cache_Inr)

section \<open>The whole file\<close>

lemma version_Inr: "read_version root = Inr v \<Longrightarrow> v = 1 \<or> v = 2"
  by (auto simp: read_version_def elim!: bindE_InrE split: option.splits if_splits)

lemma triggers_Inr:
  assumes "read_triggers root = Inr (branches, tags, default_branch)"
  shows "list_all isValidBranchName branches \<and> list_all isValidTagPattern tags \<and> length branches \<le> 64 \<and> length tags \<le> 64
    \<and> (default_branch \<longrightarrow> branches = [] \<and> tags = [''*''])"
proof -
  have each: "trigger_list what valid complaint line one many node = Inr vs \<Longrightarrow> list_all valid vs \<and> length vs \<le> 64"
    for what valid complaint line one many node vs
    by (auto simp: trigger_list_def kMaximumCiBranches_def elim!: bindE_InrE split: if_splits dest!: mapE_checked)
  show ?thesis
  proof (cases "findEntry root ''on''")
    case None
    moreover have "isValidTagPattern ''*''" by code_simp
    ultimately show ?thesis using assms by (auto simp: read_triggers_def with_entry_def)
  next
    case (Some e)
    from assms obtain missing1 missing2 where
      "branches = [] \<or> trigger_list ''branches to be a list'' isValidBranchName missing1 (yn_line e) ''each branch to be a scalar'' ''too many branches'' (the (findEntry e ''branches'')) = Inr branches"
      "tags = [] \<or> trigger_list ''tags to be a list'' isValidTagPattern missing2 (yn_line e) ''each tag to be a scalar'' ''too many tags'' (the (findEntry e ''tags'')) = Inr tags"
      "\<not> default_branch"
      unfolding read_triggers_def with_entry_def Some option.case
      by (elim bindE_InrE) (simp split: option.splits; blast)
    then show ?thesis using each by (auto; blast)
  qed
qed

lemma pages_Inr:
  assumes "with_entry root ''pages'' (Inr (None, [])) (read_pages version) = Inr (path, job)"
  shows "case path of None \<Rightarrow> job = [] | Some p \<Rightarrow> isSafeRelativePath p \<and> (if version = 2 then job \<noteq> [] else job = [])"
  using assms
  by (auto simp: read_pages_def pages_producer_def isValidCiName_def elim!: bindE_InrE with_entry_InrE split: if_splits dest!: checked_scalar_Inr)

lemma resolve_needs_iff:
  assumes "distinct (map wj_name jobs)"
  shows "resolve_needs line jobs = Inr () \<longleftrightarrow> siblings_only wj_name wj_needs jobs \<and> acyclic (needs_relation wj_name wj_needs jobs)"
proof -
  have unresolved: "unresolved jobs = [] \<longleftrightarrow> siblings_only wj_name wj_needs jobs \<and> (\<forall>job \<in> set jobs. wj_name job \<notin> set (wj_needs job))"
    by (auto simp: unresolved_def siblings_only_def filter_empty_conv)
  have no_self: "acyclic (needs_relation wj_name wj_needs jobs) \<Longrightarrow> job \<in> set jobs \<Longrightarrow> wj_name job \<notin> set (wj_needs job)" for job
    by (auto simp: acyclic_def needs_relation_def)
  have "ready_loop wj_name wj_needs jobs [] \<longleftrightarrow> acyclic (needs_relation wj_name wj_needs jobs)" if "siblings_only wj_name wj_needs jobs"
    using ready_loop_Inr [OF assms, where ready = "[]"] ready_loop_complete [OF assms _ that, where ready = "[]"]
    by (auto simp: needs_earlier_def)
  then show ?thesis using unresolved no_self by (auto simp: resolve_needs_def split: list.splits)
qed

lemma jobs_Inr:
  assumes "interpret_jobs version pages_job root node = Inr jobs" "version = 1 \<or> version = 2"
  shows "jobs_valid version jobs \<and> (version = 2 \<and> pages_job \<noteq> [] \<longrightarrow> pages_job \<in> wj_name ` set jobs)"
proof -
  from assms(1) have read: "read_jobs version root node = Inr jobs"
    and checks: "distributed_checks (yn_line node) version pages_job jobs = Inr ()"
    and needs: "resolve_needs (yn_line node) jobs = Inr ()"
    by (auto simp: interpret_jobs_def elim!: bindE_InrE)
  from read have j: "jobs \<noteq> [] \<and> length jobs \<le> 64 \<and> list_all (job_valid version) jobs \<and> distinct (map wj_name jobs)"
    using job_Inr [OF _ assms(2)]
    by (auto simp: read_jobs_def kMaximumCiJobs_def elim!: bindE_InrE split: if_splits dest!: read_unique_Inr [where P = "job_valid version"])
  then have "siblings_only wj_name wj_needs jobs \<and> acyclic (needs_relation wj_name wj_needs jobs)"
    using needs resolve_needs_iff by blast
  with j show ?thesis using checks by (auto simp: jobs_valid_def distributed_checks_def split: if_splits)
qed

lemma bindE_tupleE:
  "bindE m (\<lambda>(x, y, z). f x y z) = Inr r \<Longrightarrow> (\<And>x y z. m = Inr (x, y, z) \<Longrightarrow> f x y z = Inr r \<Longrightarrow> P) \<Longrightarrow> P"
  "bindE m' (\<lambda>(x, y). g x y) = Inr r \<Longrightarrow> (\<And>x y. m' = Inr (x, y) \<Longrightarrow> g x y = Inr r \<Longrightarrow> P) \<Longrightarrow> P"
  by (auto elim!: bindE_InrE)

lemma root_Inr:
  assumes "interpret_root root = Inr w"
  shows "workflow_valid w"
proof -
  from assms obtain version auto_cancel branches tags default_branch env sisters checkout runs_on caches path job jobs where
    version: "read_version root = Inr version" and triggers: "read_triggers root = Inr (branches, tags, default_branch)"
    and env: "with_entry root ''env'' (Inr []) interpretEnv = Inr env"
    and sisters: "with_entry root ''sisters'' (Inr []) read_sisters = Inr sisters"
    and checkout: "with_entry root ''checkout'' (Inr fresh_checkout) interpretCheckout = Inr checkout"
    and runs_on: "root_labels version root = Inr runs_on"
    and caches: "with_entry root ''cache'' (Inr []) read_caches = Inr caches"
    and pages: "with_entry root ''pages'' (Inr (None, [])) (read_pages version) = Inr (path, job)"
    and jobs: "with_entry root ''jobs'' (malformed (''the workflow is missing '' @ in_quotes ''jobs'') (yn_line root))
       (interpret_jobs version job root) = Inr jobs"
    and w: "Inr \<lparr>wf_version = version, wf_auto_cancel = auto_cancel, wf_branches = branches, wf_tags = tags,
       wf_triggers_default_branch = default_branch, wf_env = env, wf_sisters = sisters, wf_checkout = checkout,
       wf_runs_on = runs_on, wf_caches = caches, wf_jobs = jobs, wf_pages_path = path, wf_pages_job = job\<rparr> = (Inr w :: CiWorkflow parsed)"
    unfolding interpret_root_def by (elim bindE_tupleE bindE_InrE) blast
  note v = version_Inr [OF version]
  have "env_valid env" using env by (auto elim!: with_entry_InrE dest: env_Inr simp: env_valid_def)
  moreover have "length sisters \<le> 16 \<and> list_all sister_valid sisters \<and> distinct (map si_name sisters)"
    using sisters by (auto elim!: with_entry_InrE dest!: sisters_Inr)
  moreover have "checkout_valid checkout"
    using checkout by (auto elim!: with_entry_InrE dest: checkout_Inr simp: checkout_valid_def fresh_checkout_def)
  moreover have "canonical_labels runs_on \<and> (version = 2 \<longrightarrow> runs_on = [])"
    using runs_on labels_Inr by (auto simp: root_labels_def interpretLabels_def split: if_splits)
  moreover have "length caches \<le> 8 \<and> list_all cache_valid caches \<and> distinct (map ca_name caches)"
    using caches by (auto elim!: with_entry_InrE dest!: caches_Inr)
  moreover have "jobs_valid version jobs \<and> (version = 2 \<and> job \<noteq> [] \<longrightarrow> job \<in> wj_name ` set jobs)"
    using jobs by (elim with_entry_InrE) (simp, rule jobs_Inr [OF _ v])
  moreover have "pages_valid w"
    using pages_Inr [OF pages] w calculation v by (cases path) (auto simp: pages_valid_def split: if_splits)
  moreover have "triggers_valid w" using triggers_Inr [OF triggers] w by (auto simp: triggers_valid_def)
  moreover have "wf_version w = version" "wf_env w = env" "wf_sisters w = sisters" "wf_checkout w = checkout" "wf_runs_on w = runs_on"
    "wf_caches w = caches" "wf_jobs w = jobs"
    using w by auto
  ultimately show ?thesis using v unfolding workflow_valid_def by simp
qed

lemma workflow_Inr: "parseCiWorkflow content = Inr w \<Longrightarrow> workflow_valid w"
  by (auto simp: parseCiWorkflow_def elim!: bindE_InrE dest: root_Inr)


section \<open>The jobs can run\<close>

text \<open>A small distributed workflow.\<close>

definition sample_file :: string where
  "sample_file = concat (map (\<lambda>l. l @ [newline])
     [''version: 2'', ''jobs:'',
      '' - name: test'', ''   runs_on: [linux, arm64]'', ''   needs: [build]'', ''   steps:'', ''    - run: make check'',
      '' - name: build'', ''   runs_on: linux'', ''   steps:'', ''    - run: [make, all]''])"

definition sample_jobs :: "CiJob list" where
  "sample_jobs =
     [\<lparr>wj_name = ''test'', wj_env = [], wj_steps = [\<lparr>ws_name = [], ws_argv = [], ws_script = ''make check'', ws_shell = []\<rparr>],
       wj_artifact = None, wj_runs_on = [''arm64'', ''linux''], wj_needs = [''build'']\<rparr>,
      \<lparr>wj_name = ''build'', wj_env = [], wj_steps = [\<lparr>ws_name = [], ws_argv = [''make'', ''all''], ws_script = [], ws_shell = []\<rparr>],
       wj_artifact = None, wj_runs_on = [''linux''], wj_needs = []\<rparr>]"

definition sample_workflow :: CiWorkflow where
  "sample_workflow = \<lparr>wf_version = 2, wf_auto_cancel = True, wf_branches = [], wf_tags = [''*''], wf_triggers_default_branch = True,
     wf_env = [], wf_sisters = [], wf_checkout = fresh_checkout, wf_runs_on = [], wf_caches = [], wf_jobs = sample_jobs,
     wf_pages_path = None, wf_pages_job = []\<rparr>"

definition sample_tree :: YamlNode where
  "sample_tree = Mapping 1 [(''version'', Scalar 1 ''2''),
     (''jobs'', Sequence 3
       [Mapping 3 [(''name'', Scalar 3 ''test''), (''runs_on'', Sequence 4 [Scalar 4 ''linux'', Scalar 4 ''arm64'']),
          (''needs'', Sequence 5 [Scalar 5 ''build'']), (''steps'', Sequence 7 [Mapping 7 [(''run'', Scalar 7 ''make check'')]])],
        Mapping 8 [(''name'', Scalar 8 ''build''), (''runs_on'', Scalar 9 ''linux''),
          (''steps'', Sequence 11 [Mapping 11 [(''run'', Sequence 11 [Scalar 11 ''make'', Scalar 11 ''all''])]])]])]"

text \<open>Its tree, read with bounds that are small enough to compute with.\<close>

definition small_dialect :: YamlDialect where
  "small_dialect = \<lparr>yd_bounds =
     \<lparr>yb_document_bytes = 250, yb_line_bytes = 40, yb_lines = 16, yb_key_bytes = 9, yb_scalar_bytes = 12, yb_block_scalar_bytes = 9,
      yb_flow_sequence_items = 4, yb_block_sequence_items = 4, yb_mapping_entries = 8, yb_nesting_depth = 6\<rparr>,
     yd_prefix = ''ci workflow'', yd_document = ''the workflow''\<rparr>"

lemma sample_tree_small: "parseYamlSubset small_dialect sample_file = Inr sample_tree"
  by code_simp

lemma sample_tree_read: "parseYamlSubset kCiWorkflowYamlDialect sample_file = Inr sample_tree"
  by (rule below_value [OF below_parse sample_tree_small])
    (simp add: wider_def bounds_le_def small_dialect_def kCiWorkflowYamlDialect_def kMaximumCiKeyBytes_def kMaximumCiScriptBytes_def
      kMaximumCiArgvItems_def kMaximumCiJobs_def kMaximumCiStepsPerJob_def kMaximumCiEnvEntries_def)

lemma bindE_weak: "m = m' \<Longrightarrow> bindE m f = bindE m' f"
  by simp

lemma sample_interpreted: "interpret_root sample_tree = Inr sample_workflow"
  unfolding interpret_root_def sample_tree_def sample_workflow_def sample_jobs_def
  by (simp cong: bindE_weak if_weak_cong option.case_cong_weak list.case_cong_weak sum.case_cong_weak
    add: yamlRequireKind_def yn_kind_def yamlRejectUnknownKeys_def yamlFindEntry_def read_scalar_def read_items_def with_entry_def
    checked_scalar_def workflow_keys_def read_version_def int_from_chars_def decimal_eval read_triggers_def root_labels_def interpretLabels_def
    interpret_jobs_def read_jobs_def kMaximumCiJobs_def interpretJob_def interpretShell_def label_texts_def kMaximumCiLabels_def
    isValidCiLabel_def kMaximumCiLabelBytes_def lower_or_digit_def is_lower_def is_digit_def is_upper_def job_needs_def isValidCiName_def kMaximumCiNameBytes_def name_char_def
    job_steps_def kMaximumCiStepsPerJob_def interpretStep_def step_run_def kMaximumCiArgvItems_def argv_item_def inherit_shell_def usesShell_def
    distributed_checks_def artifact_names_def List.map_filter_def resolve_needs_def unresolved_def ready_loop.simps item_ready_def)

lemma sample_read: "parseCiWorkflow sample_file = Inr sample_workflow"
  by (simp add: parseCiWorkflow_def sample_tree_read sample_interpreted)

text \<open>
  The jobs of an accepted workflow can be run one after the other: there is an order of all of them in which every job
  comes after the jobs it needs.
\<close>

theorem workflow_jobs_ordered:
  assumes "parseCiWorkflow content = Inr w"
  shows "\<exists>order. distinct order \<and> set order = wj_name ` set (wf_jobs w)
    \<and> (\<forall>k < length order. \<forall>job \<in> set (wf_jobs w). wj_name job = order ! k \<longrightarrow> set (wj_needs job) \<subseteq> set (take k order))"
proof -
  let ?jobs = "wf_jobs w"
  have v: "distinct (map wj_name ?jobs)" "siblings_only wj_name wj_needs ?jobs" "acyclic (needs_relation wj_name wj_needs ?jobs)"
    using workflow_Inr [OF assms] by (simp_all add: workflow_valid_def jobs_valid_def)
  have start: "needs_earlier wj_name wj_needs ?jobs []" by (simp add: needs_earlier_def)
  have "ready_loop wj_name wj_needs ?jobs []" using ready_loop_complete [OF v(1,3,2)] by simp
  from ready_loop_order [OF v(1) start this] obtain order where
    order: "needs_earlier wj_name wj_needs ?jobs order" "length order = length ?jobs" by blast
  show ?thesis
  proof (intro exI conjI)
    show "distinct order" using order(1) by (simp add: needs_earlier_def)
    show "set order = wj_name ` set ?jobs" by (rule needs_earlier_all [OF v(1) order])
    show "\<forall>k < length order. \<forall>job \<in> set ?jobs. wj_name job = order ! k \<longrightarrow> set (wj_needs job) \<subseteq> set (take k order)"
      using order(1) by (simp add: needs_earlier_def)
  qed
qed

theorem workflow_jobs_ordered_witness:
  "\<exists>order. distinct order \<and> set order = wj_name ` set sample_jobs
    \<and> (\<forall>k < length order. \<forall>job \<in> set sample_jobs. wj_name job = order ! k \<longrightarrow> set (wj_needs job) \<subseteq> set (take k order))"
  using workflow_jobs_ordered [OF sample_read] by (simp add: sample_workflow_def)

text \<open>Selecting a job of a distributed workflow succeeds exactly for the names of its jobs, of which each name has one.\<close>

lemma selected_job:
  assumes "workflow_valid w"
  shows "selectCiWorkflowJob w name = Inr w' \<longleftrightarrow>
     wf_version w = 2 \<and> (\<exists>job \<in> set (wf_jobs w). wj_name job = name \<and>
       w' = w\<lparr>wf_pages_path := (if wf_pages_job w \<noteq> name then None else wf_pages_path w), wf_runs_on := wj_runs_on job, wf_jobs := [job]\<rparr>)"
proof -
  have d: "distinct (map wj_name (wf_jobs w))" using assms by (simp add: workflow_valid_def jobs_valid_def)
  have one: "filter (\<lambda>j. wj_name j = name) (wf_jobs w) = [job]" if "job \<in> set (wf_jobs w)" "wj_name job = name" for job
  proof -
    from that(1) obtain xs ys where s: "wf_jobs w = xs @ job # ys" by (meson split_list)
    with d that(2) have "name \<notin> wj_name ` set xs" "name \<notin> wj_name ` set ys" by auto
    then have "filter (\<lambda>j. wj_name j = name) xs = []" "filter (\<lambda>j. wj_name j = name) ys = []"
      by (auto simp: filter_empty_conv)
    then show ?thesis using s that(2) by simp
  qed
  show ?thesis
  proof (cases "\<exists>job \<in> set (wf_jobs w). wj_name job = name")
    case True
    then obtain job where j: "job \<in> set (wf_jobs w)" "wj_name job = name" by blast
    have "job' = job" if "job' \<in> set (wf_jobs w)" "wj_name job' = name" for job'
      using one [OF j] one [OF that] by simp
    with j have ex: "(\<exists>job' \<in> set (wf_jobs w). wj_name job' = name \<and> Q job') \<longleftrightarrow> Q job" for Q by blast
    show ?thesis unfolding ex selectCiWorkflowJob_def one [OF j] list.case by (cases "wf_version w = 2") auto
  next
    case False
    then have "filter (\<lambda>j. wj_name j = name) (wf_jobs w) = []" by (auto simp: filter_empty_conv)
    then have "selectCiWorkflowJob w name \<noteq> Inr w'" by (simp add: selectCiWorkflowJob_def)
    with False show ?thesis by blast
  qed
qed

end
