(* ===== verification/Ck_Ci_Runner_Protocol.thy ===== *)
theory Ck_Ci_Runner_Protocol
  imports Ck_Ci_Workflow
begin

text \<open>
  What a remote runner and the main host say to each other: \<open>src/common/ci_runner_protocol.cpp\<close>. The command lines of
  the runner, the dependency permits, the answer to a claim and the final report of a run, each with its printer and its
  parser. Shown here: commands and permits have exactly one text each, an answer and a report that are sent are the ones
  that are read, and which reports the reader refuses although the runner sends them.
\<close>

section \<open>Tokens, numbers, lines\<close>

definition isToken :: "string \<Rightarrow> bool" where
  "isToken token \<longleftrightarrow> token \<noteq> [] \<and> length token \<le> 256 \<and>
     list_all (\<lambda>c. is_upper c \<or> is_lower c \<or> is_digit c \<or> c = CHR ''.'' \<or> c = CHR ''_'' \<or> c = CHR ''-'') token"

definition canonicalNumber :: "string \<Rightarrow> nat option" where
  "canonicalNumber token =
     (if token = [] \<or> length token > 20 \<or> (length token > 1 \<and> hd token = CHR ''0'') then None else whole_number u64_max token)"

definition isLeaseToken :: "string \<Rightarrow> bool" where
  "isLeaseToken token \<longleftrightarrow> length token = 32 \<and> list_all is_lower_hex token"

function protocol_lines :: "string \<Rightarrow> string list result" where
  "protocol_lines t =
     (case after newline t of
        None \<Rightarrow> if t = [] then Inr [] else Inl (Invalid_Argument ''an unterminated line'')
      | Some rest \<Rightarrow> bindE (protocol_lines rest) (\<lambda>ls. Inr (before newline t # ls)))"
  by auto
termination
  by (relation "measure length") (auto dest: after_length)

declare protocol_lines.simps [simp del]

definition protocol_field :: "string \<Rightarrow> string \<Rightarrow> string result" where
  "protocol_field line key =
     (if \<not> starts_with line key then Inl (Invalid_Argument (''expected field '' @ key)) else Inr (drop (length key) line))"

definition protocol_number :: "string \<Rightarrow> string \<Rightarrow> nat result" where
  "protocol_number t what = (case whole_number u64_max t of None \<Rightarrow> Inl (Invalid_Argument (''malformed '' @ what)) | Some n \<Rightarrow> Inr n)"

definition decodeHex :: "string \<Rightarrow> nat \<Rightarrow> string \<Rightarrow> string result" where
  "decodeHex t cap what = (case hexDecode t cap of None \<Rightarrow> Inl (Invalid_Argument (''malformed '' @ what)) | Some d \<Rightarrow> Inr d)"

definition hexOrDash :: "string \<Rightarrow> string" where
  "hexOrDash t = (if t = [] then ''-'' else hexEncode t)"

definition fromHexOrDash :: "string \<Rightarrow> nat \<Rightarrow> string option" where
  "fromHexOrDash token cap = (if token = ''-'' then Some [] else hexDecode token cap)"

section \<open>Commands\<close>

definition kMaximumCiClaimWaitSeconds :: nat where "kMaximumCiClaimWaitSeconds = 120"

datatype CiRunnerOp = kHello | kClaim | kUploadPack | kStream | kHeartbeat | kPut | kFinish | kAbandon

record CiRunnerCommand =
  rc_protocol_version :: nat
  rc_op :: CiRunnerOp
  rc_version_hex :: string
  rc_wait_seconds :: nat
  rc_job_id :: string
  rc_token :: string
  rc_project :: string
  rc_kind :: string
  rc_name :: string
  rc_offset :: nat
  rc_total :: nat
  rc_sha256 :: string

definition fresh_command :: CiRunnerCommand where
  "fresh_command = \<lparr>rc_protocol_version = 1, rc_op = kHello, rc_version_hex = [], rc_wait_seconds = 0, rc_job_id = [], rc_token = [],
     rc_project = [], rc_kind = [], rc_name = [], rc_offset = 0, rc_total = 0, rc_sha256 = []\<rparr>"

text \<open>The loop over the tokens; \<open>n\<close> of them have been read. The left value is the reason of the rejection.\<close>

function runner_tokens :: "nat \<Rightarrow> string \<Rightarrow> string + string list" where
  "runner_tokens n command =
     (if \<not> isToken (before CHR '' '' command) then Inl ''command contains an empty or unsupported token''
      else if n + 1 > 10 then Inl ''command has too many arguments''
      else case after CHR '' '' command of
        None \<Rightarrow> Inr [before CHR '' '' command]
      | Some rest \<Rightarrow> bindE (runner_tokens (n + 1) rest) (\<lambda>ts. Inr (before CHR '' '' command # ts)))"
  by auto
termination
  by (relation "measure (\<lambda>(n, command). length command)") (auto dest: after_length)

declare runner_tokens.simps [simp del]

definition job_command :: "CiRunnerCommand \<Rightarrow> CiRunnerOp \<Rightarrow> string list \<Rightarrow> CiRunnerCommand option" where
  "job_command c op args =
     (if \<not> isValidCiId (args ! 0) \<or> \<not> isLeaseToken (args ! 1) then None
      else Some (c\<lparr>rc_op := op, rc_job_id := args ! 0, rc_token := args ! 1\<rparr>))"

definition claim_command :: "CiRunnerCommand \<Rightarrow> string list \<Rightarrow> CiRunnerCommand option" where
  "claim_command c args =
     (case canonicalNumber (args ! 0) of None \<Rightarrow> None
      | Some wait \<Rightarrow> if wait \<le> kMaximumCiClaimWaitSeconds then Some (c\<lparr>rc_op := kClaim, rc_wait_seconds := wait\<rparr>) else None)"

definition put_command :: "CiRunnerCommand \<Rightarrow> string list \<Rightarrow> CiRunnerCommand option" where
  "put_command c args =
     (case (job_command c kPut args, ciUploadKindFromName (args ! 2), canonicalNumber (args ! 4), canonicalNumber (args ! 5)) of
        (Some c', Some _, Some offset, Some full) \<Rightarrow>
          if isValidCiArtifactName (args ! 3) \<and> offset \<le> full \<and> isValidSha256Hex (args ! 6)
          then Some (c'\<lparr>rc_kind := args ! 2, rc_name := args ! 3, rc_offset := offset, rc_total := full, rc_sha256 := args ! 6\<rparr>)
          else None
      | _ \<Rightarrow> None)"

definition runner_operation :: "CiRunnerCommand \<Rightarrow> string \<Rightarrow> string list \<Rightarrow> CiRunnerCommand option" where
  "runner_operation c op args =
     (if op = ''hello'' \<and> length args = 1 then
        (if hexDecode (args ! 0) 128 \<noteq> None then Some (c\<lparr>rc_op := kHello, rc_version_hex := args ! 0\<rparr>) else None)
      else if op = ''claim'' \<and> length args = 1 then claim_command c args
      else if op = ''upload-pack'' \<and> length args = 3 then
        (case job_command c kUploadPack args of None \<Rightarrow> None
         | Some c' \<Rightarrow> if isValidProjectName (args ! 2) then Some (c'\<lparr>rc_project := args ! 2\<rparr>) else None)
      else if (op = ''stream'' \<or> op = ''heartbeat'' \<or> op = ''finish'' \<or> op = ''abandon'') \<and> length args = 2 then
        job_command c (if op = ''stream'' then kStream else if op = ''heartbeat'' then kHeartbeat
          else if op = ''finish'' then kFinish else kAbandon) args
      else if op = ''put'' \<and> length args = 7 then put_command c args
      else None)"

definition parseCiRunnerCommand :: "string \<Rightarrow> string + CiRunnerCommand" where
  "parseCiRunnerCommand command =
     (if command = [] \<or> length command > 1024 then Inl ''command is empty or exceeds 1024 bytes''
      else bindE (runner_tokens 0 command) (\<lambda>tokens.
      if length tokens < 3 \<or> tokens ! 0 \<noteq> ''ckgit-runner'' then Inl ''command is not a ckgit-runner operation''
      else if tokens ! 1 \<noteq> ''1'' \<and> tokens ! 1 \<noteq> ''2'' then Inl ''unsupported ckgit-runner protocol version''
      else case runner_operation (fresh_command\<lparr>rc_protocol_version := (if tokens ! 1 = ''2'' then 2 else 1)\<rparr>) (tokens ! 2) (drop 3 tokens) of
        None \<Rightarrow> Inl ''command is not an allowed ckgit-runner operation''
      | Some parsed \<Rightarrow> Inr parsed))"

fun op_name :: "CiRunnerOp \<Rightarrow> string" where
  "op_name kHello = ''hello''"
| "op_name kClaim = ''claim''"
| "op_name kUploadPack = ''upload-pack''"
| "op_name kStream = ''stream''"
| "op_name kHeartbeat = ''heartbeat''"
| "op_name kPut = ''put''"
| "op_name kFinish = ''finish''"
| "op_name kAbandon = ''abandon''"

definition op_arguments :: "CiRunnerCommand \<Rightarrow> string list" where
  "op_arguments c = (case rc_op c of
       kHello \<Rightarrow> [rc_version_hex c]
     | kClaim \<Rightarrow> [to_dec (rc_wait_seconds c)]
     | kUploadPack \<Rightarrow> [rc_job_id c, rc_token c, rc_project c]
     | kPut \<Rightarrow> [rc_job_id c, rc_token c, rc_kind c, rc_name c, to_dec (rc_offset c), to_dec (rc_total c), rc_sha256 c]
     | _ \<Rightarrow> [rc_job_id c, rc_token c])"

definition formatCiRunnerCommand :: "CiRunnerCommand \<Rightarrow> string result" where
  "formatCiRunnerCommand c =
     (if rc_protocol_version c \<noteq> 1 \<and> rc_protocol_version c \<noteq> 2 then Inl (Invalid_Argument ''unsupported runner protocol version'')
      else Inr (join CHR '' '' (''ckgit-runner'' # to_dec (rc_protocol_version c) # op_name (rc_op c) # op_arguments c)))"

section \<open>Facts about tokens\<close>

lemma isToken_plain: "isToken t \<longleftrightarrow> t \<noteq> [] \<and> length t \<le> 256 \<and> plain t"
  by (auto simp: isToken_def plain_def plain_char_def list_all_iff is_alnum_def)

lemma isLeaseToken_eq: "isLeaseToken = isValidLeaseToken"
  by (auto simp: isLeaseToken_def isValidLeaseToken_def list_all_iff fun_eq_iff)

lemma canonicalNumber_iff: "canonicalNumber t = Some n \<longleftrightarrow> t = to_dec n \<and> n \<le> u64_max"
proof -
  have "canonicalNumber t = Some n \<longleftrightarrow> canonical_digits t \<and> length t \<le> 20 \<and> n = digits_value t \<and> n \<le> u64_max"
    by (cases t) (auto simp: canonicalNumber_def whole_number_iff canonical_digits_def list_all_iff)
  also have "\<dots> \<longleftrightarrow> t = to_dec n \<and> n \<le> u64_max"
    using length_to_dec_u64 canonical_to_dec to_dec_digits_value by auto
  finally show ?thesis .
qed

lemma runner_tokens_iff:
  "runner_tokens n s = Inr ts \<longleftrightarrow> s = join CHR '' '' ts \<and> ts \<noteq> [] \<and> list_all isToken ts \<and> n + length ts \<le> 10"
proof (induction n s arbitrary: ts rule: runner_tokens.induct)
  case (1 n s)
  have no: "isToken t \<Longrightarrow> CHR '' '' \<notin> set t" for t by (simp add: isToken_plain)
  show ?case
  proof (cases "after CHR '' '' s")
    case None
    then have s: "CHR '' '' \<notin> set s" by (rule after_None_no_sep)
    have "s = join CHR '' '' ts \<Longrightarrow> ts \<noteq> [] \<Longrightarrow> ts = [s]"
    proof (cases ts)
      case (Cons u us)
      moreover assume "s = join CHR '' '' ts"
      ultimately show ?thesis using s by (cases us) auto
    qed simp
    then have one: "s = join CHR '' '' ts \<and> ts \<noteq> [] \<Longrightarrow> ts = [s]" by simp
    have "s = join CHR '' '' ts \<and> ts \<noteq> [] \<and> list_all isToken ts \<and> n + length ts \<le> 10 \<longleftrightarrow> ts = [s] \<and> isToken s \<and> n + 1 \<le> 10"
    proof
      assume r: "s = join CHR '' '' ts \<and> ts \<noteq> [] \<and> list_all isToken ts \<and> n + length ts \<le> 10"
      then have "ts = [s]" using one by blast
      with r show "ts = [s] \<and> isToken s \<and> n + 1 \<le> 10" by simp
    qed simp
    with None s show ?thesis by (subst runner_tokens.simps) auto
  next
    case (Some rest)
    then have s: "s = before CHR '' '' s @ CHR '' '' # rest" by (simp add: after_Some)
    have IH: "runner_tokens (n + 1) rest = Inr us \<longleftrightarrow> rest = join CHR '' '' us \<and> us \<noteq> [] \<and> list_all isToken us \<and> n + 1 + length us \<le> 10"
      if "isToken (before CHR '' '' s)" "n + 1 \<le> 10" for us using "1.IH" that Some by simp
    show ?thesis
    proof
      assume "runner_tokens n s = Inr ts"
      then obtain us where us: "isToken (before CHR '' '' s)" "n + 1 \<le> 10" "runner_tokens (n + 1) rest = Inr us" "ts = before CHR '' '' s # us"
        using Some by (subst (asm) runner_tokens.simps) (auto elim!: bindE_InrE split: if_splits)
      with IH [OF us(1,2)] s show "s = join CHR '' '' ts \<and> ts \<noteq> [] \<and> list_all isToken ts \<and> n + length ts \<le> 10"
        by (cases us) auto
    next
      assume r: "s = join CHR '' '' ts \<and> ts \<noteq> [] \<and> list_all isToken ts \<and> n + length ts \<le> 10"
      then obtain t us where t: "ts = t # us" by (cases ts) auto
      have "us \<noteq> []" using r t Some no by auto
      then have e: "s = t @ CHR '' '' # join CHR '' '' us" using r t by (cases us) auto
      have k: "isToken t" "CHR '' '' \<notin> set t" "list_all isToken us" "n + 1 + length us \<le> 10" using r t no by auto
      have b: "before CHR '' '' s = t" "rest = join CHR '' '' us" using k(2) Some unfolding e by auto
      have "runner_tokens (n + 1) rest = Inr us" using IH [of us] b k \<open>us \<noteq> []\<close> by simp
      then show "runner_tokens n s = Inr ts" unfolding t
        by (subst runner_tokens.simps) (use k(1,4) in \<open>simp add: b(1) Some\<close>)
    qed
  qed
qed

section \<open>A command has one text\<close>

text \<open>The commands of the protocol: every field that the operation does not use has its default.\<close>

definition command_valid :: "CiRunnerCommand \<Rightarrow> bool" where
  "command_valid c \<longleftrightarrow> (rc_protocol_version c = 1 \<or> rc_protocol_version c = 2) \<and>
     (let base = fresh_command\<lparr>rc_protocol_version := rc_protocol_version c, rc_op := rc_op c\<rparr>;
          job = base\<lparr>rc_job_id := rc_job_id c, rc_token := rc_token c\<rparr>;
          leased = isValidCiId (rc_job_id c) \<and> isLeaseToken (rc_token c) in
      case rc_op c of
        kHello \<Rightarrow> rc_version_hex c \<noteq> [] \<and> hexDecode (rc_version_hex c) 128 \<noteq> None \<and> c = base\<lparr>rc_version_hex := rc_version_hex c\<rparr>
      | kClaim \<Rightarrow> rc_wait_seconds c \<le> kMaximumCiClaimWaitSeconds \<and> c = base\<lparr>rc_wait_seconds := rc_wait_seconds c\<rparr>
      | kUploadPack \<Rightarrow> leased \<and> isValidProjectName (rc_project c) \<and> c = job\<lparr>rc_project := rc_project c\<rparr>
      | kPut \<Rightarrow> leased \<and> ciUploadKindFromName (rc_kind c) \<noteq> None \<and> isValidCiArtifactName (rc_name c) \<and> isValidSha256Hex (rc_sha256 c)
          \<and> rc_offset c \<le> rc_total c \<and> rc_total c \<le> u64_max
          \<and> c = job\<lparr>rc_kind := rc_kind c, rc_name := rc_name c, rc_offset := rc_offset c, rc_total := rc_total c, rc_sha256 := rc_sha256 c\<rparr>
      | _ \<Rightarrow> leased \<and> c = job)"

lemma list_of_length:
  "length args = 1 \<Longrightarrow> \<exists>a. args = [a]" "length args = 2 \<Longrightarrow> \<exists>a b. args = [a, b]"
  "length args = 3 \<Longrightarrow> \<exists>a b c. args = [a, b, c]"
  "length args = 7 \<Longrightarrow> \<exists>a b c d e f g. args = [a, b, c, d, e, f, g]"
  by (auto simp: length_Suc_conv numeral_eq_Suc)

lemma operation_read:
  assumes "runner_operation (fresh_command\<lparr>rc_protocol_version := v\<rparr>) op args = Some c" "v = 1 \<or> v = 2" "list_all isToken args"
  shows "command_valid c \<and> rc_protocol_version c = v \<and> op = op_name (rc_op c) \<and> args = op_arguments c"
proof -
  note defs = runner_operation_def job_command_def claim_command_def put_command_def command_valid_def Let_def op_arguments_def
  consider "op = ''hello''" "length args = 1" | "op = ''claim''" "length args = 1" | "op = ''upload-pack''" "length args = 3"
    | "op \<in> {''stream'', ''heartbeat'', ''finish'', ''abandon''}" "length args = 2" | "op = ''put''" "length args = 7"
    using assms(1) by (auto simp: runner_operation_def split: if_splits)
  then show ?thesis
  proof cases
    case 1
    then show ?thesis using assms list_of_length(1) [OF 1(2)]
      by (auto simp: defs fresh_command_def isToken_def split: if_splits)
  next
    case 2
    then show ?thesis using assms list_of_length(1) [OF 2(2)]
      by (auto simp: defs fresh_command_def canonicalNumber_iff split: if_splits option.splits)
  next
    case 3
    then show ?thesis using assms list_of_length(3) [OF 3(2)]
      by (auto simp: defs fresh_command_def split: if_splits option.splits)
  next
    case 4
    then show ?thesis using assms list_of_length(2) [OF 4(2)]
      by (auto simp: defs fresh_command_def split: if_splits)
  next
    case 5
    then show ?thesis using assms list_of_length(4) [OF 5(2)]
      by (auto simp: defs fresh_command_def canonicalNumber_iff split: if_splits option.splits)
  qed
qed

lemma operation_written:
  assumes "command_valid c"
  shows "runner_operation (fresh_command\<lparr>rc_protocol_version := rc_protocol_version c\<rparr>) (op_name (rc_op c)) (op_arguments c) = Some c"
proof -
  have n: "canonicalNumber (to_dec k) = Some k" if "k \<le> u64_max" for k using that by (simp add: canonicalNumber_iff)
  have "rc_wait_seconds c \<le> u64_max" if "rc_op c = kClaim"
    using assms that by (simp add: command_valid_def Let_def kMaximumCiClaimWaitSeconds_def u64_max_def)
  moreover have "rc_offset c \<le> u64_max" if "rc_op c = kPut" using assms that by (simp add: command_valid_def Let_def)
  ultimately show ?thesis using assms n
    by (cases "rc_op c")
      (auto simp: runner_operation_def job_command_def claim_command_def put_command_def command_valid_def Let_def op_arguments_def
        split: option.splits)
qed

lemma command_tokens:
  assumes "command_valid c"
  shows "list_all isToken (''ckgit-runner'' # to_dec (rc_protocol_version c) # op_name (rc_op c) # op_arguments c)"
    "3 + length (op_arguments c) \<le> 10"
    "sum_list (map length (op_arguments c)) \<le> 900"
proof -
  have dec: "isToken (to_dec k) \<and> length (to_dec k) \<le> 20" if "k \<le> u64_max" for k
  proof -
    have "plain (to_dec k)" using to_dec_digit by (auto simp: plain_def plain_char_def is_alnum_def)
    then show ?thesis using length_to_dec_u64 [OF that] by (simp add: isToken_plain)
  qed
  have ids: "isValidCiId i \<Longrightarrow> isToken i \<and> length i \<le> 64" for i
    using plain_ci_id by (auto simp: isToken_plain isValidCiId_def kMaximumCiIdBytes_def)
  have tokens: "isLeaseToken k \<Longrightarrow> isToken k \<and> length k = 32" for k
    by (auto simp: isLeaseToken_def isToken_plain plain_def plain_char_def list_all_iff is_lower_hex_alnum)
  have names: "isValidCiArtifactName k \<Longrightarrow> isToken k \<and> length k \<le> 64" for k
    using plain_artifact_name by (auto simp: isToken_plain isValidCiArtifactName_def kMaximumCiArtifactNameBytes_def)
  have projects: "isValidProjectName k \<Longrightarrow> isToken k \<and> length k \<le> 64" for k
    using plain_project isValidProjectName_bounds [of k] by (auto simp: isToken_plain)
  have sums: "isValidSha256Hex k \<Longrightarrow> isToken k \<and> length k = 64" for k
    using plain_sha256 by (auto simp: isToken_plain isValidSha256Hex_def)
  have kinds: "ciUploadKindFromName k = Some u \<Longrightarrow> isToken k \<and> length k \<le> 8" for k u
    by (cases u) (auto simp: ciUploadKindFromName_Some isToken_plain plain_def plain_char_def char_class)
  have hex: "hexDecode h 128 = Some d \<Longrightarrow> h \<noteq> [] \<Longrightarrow> isToken h \<and> length h \<le> 256" for h d
    using hexDecode_Some [of h 128 d] set_hexEncode [of d] length_hexEncode [of d]
    by (auto simp: isToken_plain plain_def plain_char_def is_lower_hex_alnum)
  have small: "k \<le> kMaximumCiClaimWaitSeconds \<Longrightarrow> k \<le> u64_max" for k
    by (simp add: kMaximumCiClaimWaitSeconds_def u64_max_def)
  have "isToken (op_name op)" for op by (cases op) (simp_all add: isToken_def char_class)
  moreover have "isToken ''ckgit-runner''" by code_simp
  moreover have "isToken (to_dec (rc_protocol_version c))"
    using dec [of "rc_protocol_version c"] assms by (auto simp: command_valid_def u64_max_def)
  moreover have "list_all isToken (op_arguments c) \<and> 3 + length (op_arguments c) \<le> 10 \<and> sum_list (map length (op_arguments c)) \<le> 900"
  proof (cases "rc_op c")
    case kHello
    then have "isToken (rc_version_hex c) \<and> length (rc_version_hex c) \<le> 256"
      using assms hex by (auto simp: command_valid_def Let_def)
    then show ?thesis using kHello by (simp add: op_arguments_def)
  next
    case kClaim
    then have "isToken (to_dec (rc_wait_seconds c)) \<and> length (to_dec (rc_wait_seconds c)) \<le> 20"
      using assms dec [OF small] by (auto simp: command_valid_def Let_def)
    then show ?thesis using kClaim by (simp add: op_arguments_def)
  next
    case kUploadPack
    then have "isToken (rc_job_id c) \<and> length (rc_job_id c) \<le> 64" "isToken (rc_token c) \<and> length (rc_token c) = 32"
      "isToken (rc_project c) \<and> length (rc_project c) \<le> 64"
      using assms ids tokens projects by (simp_all add: command_valid_def Let_def)
    then show ?thesis using kUploadPack by (simp add: op_arguments_def)
  next
    case kPut
    then have "isToken (rc_job_id c) \<and> length (rc_job_id c) \<le> 64" "isToken (rc_token c) \<and> length (rc_token c) = 32"
      "isToken (rc_kind c) \<and> length (rc_kind c) \<le> 8" "isToken (rc_name c) \<and> length (rc_name c) \<le> 64"
      "isToken (rc_sha256 c) \<and> length (rc_sha256 c) = 64" "rc_offset c \<le> u64_max" "rc_total c \<le> u64_max"
      using assms ids tokens names sums kinds by (auto simp: command_valid_def Let_def)
    then show ?thesis using kPut dec [of "rc_offset c"] dec [of "rc_total c"] by (simp add: op_arguments_def)
  qed (use assms ids [of "rc_job_id c"] tokens [of "rc_token c"] in \<open>simp_all add: command_valid_def Let_def op_arguments_def\<close>)
  ultimately show "list_all isToken (''ckgit-runner'' # to_dec (rc_protocol_version c) # op_name (rc_op c) # op_arguments c)"
    "3 + length (op_arguments c) \<le> 10" "sum_list (map length (op_arguments c)) \<le> 900" by simp_all
qed

lemma length_joined: "length (join c xs) \<le> sum_list (map length xs) + length xs"
  by (induction c xs rule: join.induct) auto

text \<open>
  C36: the main host accepts a command line exactly when it is the line that the runner prints for a valid command: an
  operation on a job carries a well-formed lease token, a number has one spelling, and every field keeps its bounds.
\<close>

theorem parseCiRunnerCommand_iff:
  "parseCiRunnerCommand s = Inr c \<longleftrightarrow> command_valid c \<and> formatCiRunnerCommand c = Inr s"
proof
  assume "parseCiRunnerCommand s = Inr c"
  then obtain tokens where t: "runner_tokens 0 s = Inr tokens" "\<not> length tokens < 3" "tokens ! 0 = ''ckgit-runner''"
    "tokens ! 1 = ''1'' \<or> tokens ! 1 = ''2''"
    "runner_operation (fresh_command\<lparr>rc_protocol_version := (if tokens ! 1 = ''2'' then 2 else 1)\<rparr>) (tokens ! 2) (drop 3 tokens) = Some c"
    by (auto simp: parseCiRunnerCommand_def elim!: bindE_InrE split: if_splits option.splits)
  from t(2) obtain a b d args where tokens: "tokens = a # b # d # args"
    by (cases tokens; cases "tl tokens"; cases "tl (tl tokens)") auto
  have s: "s = join CHR '' '' tokens" "list_all isToken tokens" using t(1) by (simp_all add: runner_tokens_iff)
  have c: "command_valid c \<and> rc_protocol_version c = (if tokens ! 1 = ''2'' then 2 else 1) \<and> tokens ! 2 = op_name (rc_op c)
      \<and> drop 3 tokens = op_arguments c"
    by (rule operation_read [OF t(5)]) (use s(2) tokens in auto)
  have "to_dec 1 = ''1''" "to_dec 2 = ''2''" by code_simp+
  then have "tokens = ''ckgit-runner'' # to_dec (rc_protocol_version c) # op_name (rc_op c) # op_arguments c"
    using c t(3,4) tokens by auto
  with c s(1) show "command_valid c \<and> formatCiRunnerCommand c = Inr s"
    by (auto simp: formatCiRunnerCommand_def command_valid_def)
next
  assume a: "command_valid c \<and> formatCiRunnerCommand c = Inr s"
  let ?ts = "''ckgit-runner'' # to_dec (rc_protocol_version c) # op_name (rc_op c) # op_arguments c"
  have c: "command_valid c" and s: "s = join CHR '' '' ?ts" "rc_protocol_version c = 1 \<or> rc_protocol_version c = 2"
    using a by (auto simp: formatCiRunnerCommand_def split: if_splits)
  have tokens: "runner_tokens 0 s = Inr ?ts" using command_tokens [OF c] s(1) by (simp add: runner_tokens_iff)
  have ver: "to_dec 1 = ''1''" "to_dec 2 = ''2''" by code_simp+
  have "length (op_name op) \<le> 11" for op by (cases op) (simp_all add:)
  then have "length (op_name (rc_op c)) \<le> 11" .
  then have "length s \<le> 1024"
    using length_joined [of "CHR '' ''" ?ts] command_tokens(2,3) [OF c] s ver by auto
  moreover have "s \<noteq> []" using s(1) by simp
  ultimately show "parseCiRunnerCommand s = Inr c"
    using tokens operation_written [OF c] s(2) ver by (auto simp: parseCiRunnerCommand_def)
qed

section \<open>Dependency permits\<close>

definition kMaximumCiDependencyPermitLifetimeSeconds :: nat where "kMaximumCiDependencyPermitLifetimeSeconds = 120"

record CiDependencyStartPermit =
  dp_project :: string
  dp_commit :: string
  dp_lock_sha256 :: string
  dp_inventory_sha256 :: string
  dp_platform :: string
  dp_architecture :: string
  dp_abi :: string
  dp_job_id :: string
  dp_lease_sha256 :: string
  dp_nonce :: string
  dp_attempt :: nat
  dp_issued_epoch :: nat
  dp_expires_epoch :: nat

definition permit_offer :: "string \<Rightarrow> bool" where
  "permit_offer line \<longleftrightarrow> starts_with line ''dependency_admission=''"

definition ciServerAdvertisesDependencyPermitV1 :: "string \<Rightarrow> nat \<Rightarrow> bool" where
  "ciServerAdvertisesDependencyPermitV1 hello negotiated_protocol =
     (if negotiated_protocol \<noteq> 3 \<or> length hello > 4096 then False
      else case protocol_lines hello of
        Inl _ \<Rightarrow> False
      | Inr items \<Rightarrow>
          if length items < 3 \<or> items ! 0 \<noteq> ''ok'' \<or> items ! 1 \<noteq> ''protocol=3'' then False
          else if list_ex (\<lambda>l. l = ''ok'' \<or> starts_with l ''protocol='' \<or> (permit_offer l \<and> l \<noteq> ''dependency_admission=permit-v1'')) (drop 2 items)
          then False
          else length (filter permit_offer (drop 2 items)) = 1)"

definition permit_keys :: "string list" where
  "permit_keys = [''project='', ''commit='', ''lock_sha256='', ''inventory_sha256='', ''platform='', ''architecture='', ''abi='',
     ''job_id='', ''lease_sha256='', ''nonce='', ''attempt='', ''issued='', ''expires='']"

text \<open>The thirteen fields of a permit, each behind its key.\<close>

definition permit_fields :: "string list \<Rightarrow> string list result" where
  "permit_fields items = mapE (\<lambda>(line, key). protocol_field line key) (zip items permit_keys)"

definition invalid_permit :: "'a result" where
  "invalid_permit = Inl (Invalid_Argument ''invalid dependency permit field or lifetime'')"

definition permit_names_valid :: "CiDependencyStartPermit \<Rightarrow> bool" where
  "permit_names_valid p \<longleftrightarrow> isValidProjectName (dp_project p) \<and> isValidObjectId (dp_commit p) \<and> isValidSha256Hex (dp_lock_sha256 p)
     \<and> isValidSha256Hex (dp_inventory_sha256 p) \<and> isValidSha256Hex (dp_lease_sha256 p) \<and> isLeaseToken (dp_nonce p)
     \<and> (dp_platform p = ''windows'' \<or> dp_platform p = ''macos'' \<or> dp_platform p = ''linux'')
     \<and> (dp_architecture p = ''x64'' \<or> dp_architecture p = ''arm64'') \<and> isValidCiLabel (dp_abi p) \<and> isValidCiId (dp_job_id p)"

definition permit_of :: "string list \<Rightarrow> CiDependencyStartPermit result" where
  "permit_of f =
     (case (canonicalNumber (f ! 10), canonicalNumber (f ! 11), canonicalNumber (f ! 12)) of
        (Some attempt, Some issued, Some expires) \<Rightarrow>
          let p = \<lparr>dp_project = f ! 0, dp_commit = f ! 1, dp_lock_sha256 = f ! 2, dp_inventory_sha256 = f ! 3, dp_platform = f ! 4,
                dp_architecture = f ! 5, dp_abi = f ! 6, dp_job_id = f ! 7, dp_lease_sha256 = f ! 8, dp_nonce = f ! 9,
                dp_attempt = attempt, dp_issued_epoch = issued, dp_expires_epoch = expires\<rparr> in
          if \<not> permit_names_valid p \<or> attempt = 0 \<or> attempt > 1000 \<or> issued = 0 \<or> expires \<le> issued
             \<or> expires - issued > kMaximumCiDependencyPermitLifetimeSeconds then invalid_permit else Inr p
      | _ \<Rightarrow> invalid_permit)"

definition parseCiDependencyStartPermit :: "string \<Rightarrow> CiDependencyStartPermit result" where
  "parseCiDependencyStartPermit payload =
     (if payload = [] \<or> length payload > 4096 then Inl (Invalid_Argument ''invalid dependency permit size'')
      else bindE (protocol_lines payload) (\<lambda>items.
      if length items \<noteq> 14 \<or> items ! 0 \<noteq> ''dependency-permit-v1''
      then Inl (Invalid_Argument ''invalid dependency permit version or shape'')
      else bindE (permit_fields (drop 1 items)) permit_of))"

definition permit_values :: "CiDependencyStartPermit \<Rightarrow> string list" where
  "permit_values p = [dp_project p, dp_commit p, dp_lock_sha256 p, dp_inventory_sha256 p, dp_platform p, dp_architecture p, dp_abi p,
     dp_job_id p, dp_lease_sha256 p, dp_nonce p, to_dec (dp_attempt p), to_dec (dp_issued_epoch p), to_dec (dp_expires_epoch p)]"

definition permit_text :: "CiDependencyStartPermit \<Rightarrow> string" where
  "permit_text p = unlines (''dependency-permit-v1'' # map (\<lambda>(key, v). key @ v) (zip permit_keys (permit_values p)))"

definition formatCiDependencyStartPermit :: "CiDependencyStartPermit \<Rightarrow> string result" where
  "formatCiDependencyStartPermit p = bindE (parseCiDependencyStartPermit (permit_text p)) (\<lambda>_. Inr (permit_text p))"

definition ciDependencyStartPermitValidAt :: "CiDependencyStartPermit \<Rightarrow> nat \<Rightarrow> bool" where
  "ciDependencyStartPermitValidAt permit now =
     (case formatCiDependencyStartPermit permit of Inl _ \<Rightarrow> False
      | Inr _ \<Rightarrow> now \<ge> dp_issued_epoch permit \<and> now < dp_expires_epoch permit)"

lemma protocol_lines_iff: "protocol_lines t = Inr ls \<longleftrightarrow> t = unlines ls \<and> (\<forall>l \<in> set ls. newline \<notin> set l)"
proof (induction t arbitrary: ls rule: protocol_lines.induct)
  case (1 t)
  show ?case
  proof (cases "after newline t")
    case None
    then have t: "newline \<notin> set t" by (rule after_None_no_sep)
    have "ls \<noteq> [] \<Longrightarrow> t \<noteq> unlines ls" using t by (cases ls) auto
    then have "t = unlines ls \<longleftrightarrow> t = [] \<and> ls = []" by (cases "ls = []") auto
    then show ?thesis using None by (subst protocol_lines.simps) auto
  next
    case (Some rest)
    then have t: "t = before newline t @ newline # rest" by (simp add: after_Some)
    show ?thesis
    proof (cases ls)
      case Nil
      have "t \<noteq> []" using t by auto
      then show ?thesis using Some Nil by (subst protocol_lines.simps) (auto elim!: bindE_InrE)
    next
      case (Cons l us)
      have "t = unlines ls \<and> newline \<notin> set l \<longleftrightarrow> before newline t = l \<and> rest = unlines us"
      proof
        assume e: "t = unlines ls \<and> newline \<notin> set l"
        then have "t = l @ newline # unlines us" by (simp add: Cons)
        then show "before newline t = l \<and> rest = unlines us" using e Some by auto
      next
        assume e: "before newline t = l \<and> rest = unlines us"
        then have "t = unlines ls" using t by (simp add: Cons)
        moreover have "newline \<notin> set l" using e before_no_sep by blast
        ultimately show "t = unlines ls \<and> newline \<notin> set l" by simp
      qed
      moreover have "protocol_lines t = Inr ls \<longleftrightarrow> before newline t = l \<and> protocol_lines rest = Inr us"
        using Some Cons by (subst protocol_lines.simps) (auto elim!: bindE_InrE)
      ultimately show ?thesis using "1.IH" [OF Some, of us] by (auto simp: Cons)
    qed
  qed
qed

lemma protocol_field_Inr [result_simps]: "protocol_field line key = Inr v \<longleftrightarrow> line = key @ v"
  unfolding protocol_field_def using starts_with_drop [of line key] by auto

text \<open>A permit with values that may be sent: the lifetime is at most two minutes.\<close>

definition permit_valid :: "CiDependencyStartPermit \<Rightarrow> bool" where
  "permit_valid p \<longleftrightarrow> permit_names_valid p \<and> 1 \<le> dp_attempt p \<and> dp_attempt p \<le> 1000
     \<and> 0 < dp_issued_epoch p \<and> dp_issued_epoch p < dp_expires_epoch p \<and> dp_expires_epoch p \<le> dp_issued_epoch p + 120
     \<and> dp_expires_epoch p \<le> u64_max"

lemma permit_fields_iff:
  assumes "length items = 13"
  shows "permit_fields items = Inr f \<longleftrightarrow> length f = 13 \<and> items = map (\<lambda>(key, v). key @ v) (zip permit_keys f)"
proof -
  have k: "length permit_keys = 13" by (simp add: permit_keys_def)
  have "permit_fields items = Inr f \<longleftrightarrow> length f = 13 \<and> (\<forall>i < 13. items ! i = permit_keys ! i @ f ! i)"
    using assms k by (auto simp: permit_fields_def mapE_eq_Inr list_all2_conv_all_nth protocol_field_Inr)
  also have "\<dots> \<longleftrightarrow> length f = 13 \<and> items = map (\<lambda>(key, v). key @ v) (zip permit_keys f)"
    using assms k by (auto simp: list_eq_iff_nth_eq)
  finally show ?thesis .
qed

lemma permit_of_iff: "length f = 13 \<Longrightarrow> permit_of f = Inr p \<longleftrightarrow> permit_valid p \<and> f = permit_values p"
proof -
  assume "length f = 13"
  then obtain a b c d e g h i j k l m n where f: "f = [a, b, c, d, e, g, h, i, j, k, l, m, n]"
    by (auto simp: length_Suc_conv numeral_eq_Suc)
  show ?thesis
  proof
    assume "permit_of f = Inr p"
    then show "permit_valid p \<and> f = permit_values p"
      by (auto simp: f permit_of_def permit_valid_def permit_values_def canonicalNumber_iff invalid_permit_def Let_def
          kMaximumCiDependencyPermitLifetimeSeconds_def split: option.splits if_splits)
  next
    assume p: "permit_valid p \<and> f = permit_values p"
    then have "dp_attempt p \<le> u64_max" "dp_issued_epoch p \<le> u64_max" "dp_expires_epoch p \<le> u64_max"
      by (auto simp: permit_valid_def u64_max_def)
    then have "canonicalNumber (to_dec (dp_attempt p)) = Some (dp_attempt p)" "canonicalNumber (to_dec (dp_issued_epoch p)) = Some (dp_issued_epoch p)"
      "canonicalNumber (to_dec (dp_expires_epoch p)) = Some (dp_expires_epoch p)" by (simp_all add: canonicalNumber_iff)
    then show "permit_of f = Inr p" using p
      by (cases p) (auto simp: permit_of_def permit_valid_def permit_values_def Let_def kMaximumCiDependencyPermitLifetimeSeconds_def)
  qed
qed

lemma permit_lines_ok:
  assumes "permit_valid p"
  shows "\<forall>l \<in> set (map (\<lambda>(key, v). key @ v) (zip permit_keys (permit_values p))). newline \<notin> set l" "length (permit_text p) \<le> 4096"
proof -
  have v: "plain (dp_project p)" "plain (dp_commit p)" "plain (dp_lock_sha256 p)" "plain (dp_inventory_sha256 p)" "plain (dp_lease_sha256 p)"
    "plain (dp_abi p)" "plain (dp_job_id p)" "newline \<notin> set (dp_nonce p)"
    "newline \<notin> set (dp_platform p)" "newline \<notin> set (dp_architecture p)"
    using assms lease_token_plain
    by (auto simp: permit_valid_def permit_names_valid_def isLeaseToken_eq intro: plain_project plain_object plain_sha256 plain_label plain_ci_id)
  then show "\<forall>l \<in> set (map (\<lambda>(key, v). key @ v) (zip permit_keys (permit_values p))). newline \<notin> set l"
    by (simp add: permit_keys_def permit_values_def)
  have "length (dp_project p) \<le> 64" "length (dp_commit p) \<le> 64" "length (dp_lock_sha256 p) = 64" "length (dp_inventory_sha256 p) = 64"
    "length (dp_lease_sha256 p) = 64" "length (dp_abi p) \<le> 32" "length (dp_job_id p) \<le> 64" "length (dp_nonce p) = 32"
    "length (dp_platform p) \<le> 7" "length (dp_architecture p) \<le> 5"
    using assms isValidProjectName_bounds [of "dp_project p"]
    by (auto simp: permit_valid_def permit_names_valid_def isValidObjectId_def isValidSha256Hex_def isValidCiLabel_def kMaximumCiLabelBytes_def
        isValidCiId_def kMaximumCiIdBytes_def isLeaseToken_def split: if_splits)
  moreover have "length (to_dec (dp_attempt p)) \<le> 20" "length (to_dec (dp_issued_epoch p)) \<le> 20" "length (to_dec (dp_expires_epoch p)) \<le> 20"
    using assms by (auto simp: permit_valid_def u64_max_def intro!: length_to_dec_u64)
  ultimately show "length (permit_text p) \<le> 4096" by (simp add: permit_text_def permit_keys_def permit_values_def)
qed

text \<open>
  A dependency permit is accepted exactly when it is the text of a valid permit; so a permit has one text, and no text
  carries a lifetime of more than two minutes or a number in a second spelling.
\<close>

theorem parseCiDependencyStartPermit_iff:
  "parseCiDependencyStartPermit payload = Inr p \<longleftrightarrow> permit_valid p \<and> payload = permit_text p"
proof
  assume "parseCiDependencyStartPermit payload = Inr p"
  then obtain items f where i: "payload = unlines items" "length items = 14" "items ! 0 = ''dependency-permit-v1''"
    "permit_fields (drop 1 items) = Inr f" "permit_of f = Inr p"
    by (auto simp: parseCiDependencyStartPermit_def protocol_lines_iff elim!: bindE_InrE split: if_splits)
  have f: "length f = 13" "drop 1 items = map (\<lambda>(key, v). key @ v) (zip permit_keys f)" using i(2,4) by (simp_all add: permit_fields_iff)
  moreover have "items = items ! 0 # drop 1 items" using i(2) by (cases items) auto
  ultimately show "permit_valid p \<and> payload = permit_text p" using i(1,3,5) by (auto simp: permit_of_iff permit_text_def)
next
  assume p: "permit_valid p \<and> payload = permit_text p"
  let ?fields = "map (\<lambda>(key, v). key @ v) (zip permit_keys (permit_values p))"
  have "protocol_lines payload = Inr (''dependency-permit-v1'' # ?fields)"
    using p permit_lines_ok(1) [of p] by (auto simp: protocol_lines_iff permit_text_def)
  moreover have n: "length (permit_values p) = 13" "length ?fields = 13" by (simp_all add: permit_keys_def permit_values_def)
  moreover have "permit_fields ?fields = Inr (permit_values p)" using n by (simp add: permit_fields_iff)
  moreover have "permit_of (permit_values p) = Inr p" using n p by (simp add: permit_of_iff)
  moreover have "payload \<noteq> []" "length payload \<le> 4096" using p permit_lines_ok(2) [of p] by (auto simp: permit_text_def)
  ultimately show "parseCiDependencyStartPermit payload = Inr p" by (simp add: parseCiDependencyStartPermit_def)
qed

section \<open>The final report\<close>

definition kMaximumCiFinishPayloadBytes :: nat where "kMaximumCiFinishPayloadBytes = 512 * 1024"

record CiDeclaredOutput =
  do_name :: string
  do_release :: bool
  do_retention_days :: nat
  do_note :: string

record CiFinishReport =
  fr_status :: CiRunStatus
  fr_started_epoch_seconds :: nat
  fr_detail :: string
  fr_steps :: "CiStepResult list"
  fr_outputs :: "CiDeclaredOutput list"
  fr_execution :: "CiExecutionReport option"

definition finish_step_line :: "CiStepResult \<Rightarrow> string" where
  "finish_step_line step = ''step='' @ join CHR '','' [int_to_dec (sr_exit_code step), bool01 (sr_timed_out step),
     bool01 (sr_output_truncated step), hexOrDash (sr_name step)]"

definition finish_output_line :: "CiDeclaredOutput \<Rightarrow> string" where
  "finish_output_line d = ''output='' @ join CHR '','' [do_name d, bool01 (do_release d), to_dec (do_retention_days d), hexOrDash (do_note d)]"

definition execution_lines :: "CiExecutionReport option \<Rightarrow> string list result" where
  "execution_lines execution = (case execution of None \<Rightarrow> Inr []
     | Some e \<Rightarrow> bindE (formatCiExecutionReport e) (\<lambda>t. Inr [''execution='' @ t]))"

definition formatCiFinishReport :: "CiFinishReport \<Rightarrow> string result" where
  "formatCiFinishReport report =
     bindE (execution_lines (fr_execution report)) (\<lambda>execution.
     Inr (unlines ([''status='' @ ciRunStatusName (fr_status report), ''started_epoch='' @ to_dec (fr_started_epoch_seconds report),
       ''detail_hex='' @ hexEncode (fr_detail report)] @ execution
       @ map finish_step_line (fr_steps report) @ map finish_output_line (fr_outputs report))))"

definition bad_report :: "string \<Rightarrow> 'a result" where
  "bad_report m = Inl (Invalid_Argument m)"

definition read_exit_code :: "string \<Rightarrow> int result" where
  "read_exit_code t =
     (let negative = t \<noteq> [] \<and> hd t = CHR ''-'' in
      bindE (protocol_number (if negative then tl t else t) ''exit code'') (\<lambda>magnitude.
      if magnitude > 1000 then bad_report ''malformed exit code'' else Inr (if negative then - int magnitude else int magnitude)))"

definition read_finish_step :: "nat \<Rightarrow> string \<Rightarrow> CiStepResult result" where
  "read_finish_step held t =
     (let parts = split_on CHR '','' t in
      if length parts \<noteq> 4 \<or> held \<ge> kMaximumCiSteps then bad_report ''malformed step''
      else bindE (read_exit_code (parts ! 0)) (\<lambda>code.
      case fromHexOrDash (parts ! 3) 256 of None \<Rightarrow> bad_report ''malformed step name''
      | Some name \<Rightarrow> Inr \<lparr>sr_name = name, sr_exit_code = code, sr_timed_out = (parts ! 1 = ''1''), sr_output_truncated = (parts ! 2 = ''1'')\<rparr>))"

text \<open>The retention is cast to 32 bits before it is compared with its cap.\<close>

definition read_finish_output :: "nat \<Rightarrow> string \<Rightarrow> CiDeclaredOutput result" where
  "read_finish_output held t =
     (let parts = split_on CHR '','' t in
      if length parts \<noteq> 4 \<or> held \<ge> kMaximumCiJobs then bad_report ''malformed output''
      else bindE (protocol_number (parts ! 2) ''retention'') (\<lambda>days.
      case fromHexOrDash (parts ! 3) 256 of None \<Rightarrow> bad_report ''invalid output''
      | Some note \<Rightarrow>
          if \<not> isValidCiArtifactName (parts ! 0) \<or> to_u32 days > kMaximumCiRetentionDaysCap then bad_report ''invalid output''
          else Inr \<lparr>do_name = parts ! 0, do_release = (parts ! 1 = ''1''), do_retention_days = to_u32 days, do_note = note\<rparr>))"

definition finish_line :: "CiFinishReport \<Rightarrow> string \<Rightarrow> CiFinishReport result" where
  "finish_line report line =
     (if starts_with line ''execution='' then
        (if fr_execution report \<noteq> None then bad_report ''duplicate execution report''
         else bindE (parseCiExecutionReport (drop 10 line)) (\<lambda>e. Inr (report\<lparr>fr_execution := Some e\<rparr>)))
      else if starts_with line ''step='' then
        bindE (read_finish_step (length (fr_steps report)) (drop 5 line)) (\<lambda>step. Inr (report\<lparr>fr_steps := fr_steps report @ [step]\<rparr>))
      else if starts_with line ''output='' then
        bindE (read_finish_output (length (fr_outputs report)) (drop 7 line)) (\<lambda>d. Inr (report\<lparr>fr_outputs := fr_outputs report @ [d]\<rparr>))
      else bad_report ''unknown finish field'')"

definition parseCiFinishReport :: "string \<Rightarrow> CiFinishReport result" where
  "parseCiFinishReport payload =
     (if length payload > kMaximumCiFinishPayloadBytes then bad_report ''finish payload too large''
      else bindE (protocol_lines payload) (\<lambda>lines.
      if length lines < 3 then bad_report ''malformed finish payload''
      else bindE (protocol_field (lines ! 0) ''status='') (\<lambda>name.
      case ciRunStatusFromName name of None \<Rightarrow> bad_report ''invalid final status''
      | Some status \<Rightarrow>
      if ciRunStatusIsActive status then bad_report ''invalid final status''
      else bindE (protocol_field (lines ! 1) ''started_epoch='') (\<lambda>started_text.
      bindE (protocol_number started_text ''start time'') (\<lambda>started.
      bindE (protocol_field (lines ! 2) ''detail_hex='') (\<lambda>hex.
      bindE (decodeHex hex kMaximumCiDetailBytes ''detail'') (\<lambda>detail.
      foldE finish_line \<lparr>fr_status = status, fr_started_epoch_seconds = started, fr_detail = detail, fr_steps = [], fr_outputs = [],
        fr_execution = None\<rparr> (drop 3 lines))))))))"

text \<open>A report whose values the reader takes.\<close>

definition step_sendable :: "CiStepResult \<Rightarrow> bool" where
  "step_sendable s \<longleftrightarrow> \<bar>sr_exit_code s\<bar> \<le> 1000 \<and> length (sr_name s) \<le> 256"

definition output_sendable :: "CiDeclaredOutput \<Rightarrow> bool" where
  "output_sendable d \<longleftrightarrow> isValidCiArtifactName (do_name d) \<and> do_retention_days d \<le> 3650 \<and> length (do_note d) \<le> 256"

definition report_sendable :: "CiFinishReport \<Rightarrow> bool" where
  "report_sendable r \<longleftrightarrow> \<not> ciRunStatusIsActive (fr_status r) \<and> fr_started_epoch_seconds r \<le> u64_max \<and> length (fr_detail r) \<le> 512
     \<and> list_all step_sendable (fr_steps r) \<and> length (fr_steps r) \<le> 4096
     \<and> list_all output_sendable (fr_outputs r) \<and> length (fr_outputs r) \<le> 64
     \<and> (case fr_execution r of None \<Rightarrow> True
        | Some e \<Rightarrow> er_memory_bytes e \<le> u64_max \<and> er_process_limit e \<le> u32_max \<and> er_timeout_seconds e \<le> u32_max)"

lemma hexOrDash_no [simp]: "CHR '','' \<notin> set (hexOrDash t)" "newline \<notin> set (hexOrDash t)"
  by (simp_all add: hexOrDash_def)

lemma fromHexOrDash_hexOrDash [simp]: "length t \<le> cap \<Longrightarrow> fromHexOrDash (hexOrDash t) cap = Some t"
proof -
  assume "length t \<le> cap"
  moreover have "hexEncode t \<noteq> ''-''"
  proof
    assume e: "hexEncode t = ''-''"
    then have "is_lower_hex (CHR ''-'')" using set_hexEncode [of t] by simp
    then show False by (simp add: char_class)
  qed
  ultimately show ?thesis by (simp add: fromHexOrDash_def hexOrDash_def)
qed

lemma read_exit_code_written [simp]:
  "\<bar>i\<bar> \<le> 1000 \<Longrightarrow> read_exit_code (int_to_dec i) = Inr i"
  "1000 < \<bar>i\<bar> \<Longrightarrow> \<bar>i\<bar> \<le> 2147483648 \<Longrightarrow> read_exit_code (int_to_dec i) = bad_report ''malformed exit code''"
proof -
  have d: "hd (to_dec n) \<noteq> CHR ''-''" for n by (metis to_dec_nonempty hd_in_set to_dec_no(4))
  show "\<bar>i\<bar> \<le> 1000 \<Longrightarrow> read_exit_code (int_to_dec i) = Inr i"
    using d by (cases "i < 0"; simp add: read_exit_code_def int_to_dec_def Let_def protocol_number_def u64_max_def nat_le_iff zless_nat_eq_int_zless)
  show "1000 < \<bar>i\<bar> \<Longrightarrow> \<bar>i\<bar> \<le> 2147483648 \<Longrightarrow> read_exit_code (int_to_dec i) = bad_report ''malformed exit code''"
    using d by (cases "i < 0") (simp_all add: read_exit_code_def int_to_dec_def Let_def protocol_number_def u64_max_def nat_le_iff zless_nat_eq_int_zless)
qed

lemma four_parts:
  assumes "CHR '','' \<notin> set a" "CHR '','' \<notin> set b" "CHR '','' \<notin> set c" "CHR '','' \<notin> set d"
  shows "split_on CHR '','' (join CHR '','' [a, b, c, d]) = [a, b, c, d]"
  using assms by (intro split_on_join) auto

lemma bool01_no [simp]: "CHR '','' \<notin> set (bool01 b)" "newline \<notin> set (bool01 b)" "bool01 b = ''1'' \<longleftrightarrow> b"
  by (simp_all add: bool01_def)

lemma read_step_written:
  "length (sr_name s) \<le> 256 \<Longrightarrow> held < kMaximumCiSteps \<Longrightarrow>
   read_finish_step held (drop 5 (finish_step_line s)) = bindE (read_exit_code (int_to_dec (sr_exit_code s))) (\<lambda>code. Inr (s\<lparr>sr_exit_code := code\<rparr>))"
  unfolding read_finish_step_def Let_def finish_step_line_def by (cases s) (simp add: four_parts del: join.simps)

lemma read_output_written:
  assumes "output_sendable d" "held < kMaximumCiJobs"
  shows "read_finish_output held (drop 7 (finish_output_line d)) = Inr d"
proof -
  have "CHR '','' \<notin> set (do_name d)" "do_retention_days d \<le> u64_max" "to_u32 (do_retention_days d) = do_retention_days d"
    using assms(1) plain_artifact_name by (auto simp: output_sendable_def u64_max_def u32_max_def)
  then show ?thesis using assms unfolding read_finish_output_def Let_def finish_output_line_def
    by (cases d) (simp add: four_parts protocol_number_def output_sendable_def kMaximumCiRetentionDaysCap_def del: join.simps)
qed

lemma steps_read:
  "list_all step_sendable ss \<Longrightarrow> length (fr_steps r) + length ss \<le> kMaximumCiSteps \<Longrightarrow>
   foldE finish_line r (map finish_step_line ss) = Inr (r\<lparr>fr_steps := fr_steps r @ ss\<rparr>)"
proof (induction ss arbitrary: r)
  case (Cons s ss)
  have "finish_line r (finish_step_line s) = bindE (read_finish_step (length (fr_steps r)) (drop 5 (finish_step_line s)))
      (\<lambda>step. Inr (r\<lparr>fr_steps := fr_steps r @ [step]\<rparr>))"
    by (simp add: finish_line_def finish_step_line_def starts_with_def)
  also have "\<dots> = Inr (r\<lparr>fr_steps := fr_steps r @ [s]\<rparr>)"
    using Cons.prems by (simp add: read_step_written step_sendable_def)
  finally show ?case using Cons.IH [of "r\<lparr>fr_steps := fr_steps r @ [s]\<rparr>"] Cons.prems by simp
qed simp

lemma outputs_read:
  "list_all output_sendable ds \<Longrightarrow> length (fr_outputs r) + length ds \<le> kMaximumCiJobs \<Longrightarrow>
   foldE finish_line r (map finish_output_line ds) = Inr (r\<lparr>fr_outputs := fr_outputs r @ ds\<rparr>)"
proof (induction ds arbitrary: r)
  case (Cons d ds)
  have "finish_line r (finish_output_line d) = bindE (read_finish_output (length (fr_outputs r)) (drop 7 (finish_output_line d)))
      (\<lambda>d. Inr (r\<lparr>fr_outputs := fr_outputs r @ [d]\<rparr>))"
    by (simp add: finish_line_def finish_output_line_def starts_with_def)
  also have "\<dots> = Inr (r\<lparr>fr_outputs := fr_outputs r @ [d]\<rparr>)"
    using Cons.prems by (simp add: read_output_written)
  finally show ?case using Cons.IH [of "r\<lparr>fr_outputs := fr_outputs r @ [d]\<rparr>"] Cons.prems by simp
qed simp

lemma execution_read:
  assumes "execution_lines e = Inr ls" "fr_execution r = None"
    and "case e of None \<Rightarrow> True | Some x \<Rightarrow> er_memory_bytes x \<le> u64_max \<and> er_process_limit x \<le> u32_max \<and> er_timeout_seconds x \<le> u32_max"
  shows "foldE finish_line r ls = Inr (r\<lparr>fr_execution := e\<rparr>) \<and> (\<forall>l \<in> set ls. newline \<notin> set l)"
proof (cases e)
  case None
  then show ?thesis using assms by (cases r) (auto simp: execution_lines_def)
next
  case (Some x)
  with assms(1) obtain t where t: "formatCiExecutionReport x = Inr t" "ls = [''execution='' @ t]"
    by (auto simp: execution_lines_def elim!: bindE_InrE)
  from report_roundtrip [OF t(1)] assms(3) Some have "parseCiExecutionReport t = Inr x" by simp
  moreover from this have "newline \<notin> set t" by (rule execution_report_chars)
  ultimately show ?thesis using t(2) assms(2) Some by (simp add: finish_line_def starts_with_def)
qed

lemma finish_lines_plain:
  "newline \<notin> set (finish_step_line s)" "output_sendable d \<Longrightarrow> newline \<notin> set (finish_output_line d)"
proof -
  show "newline \<notin> set (finish_step_line s)" by (simp add: finish_step_line_def)
  assume "output_sendable d"
  then have "newline \<notin> set (do_name d)" using plain_artifact_name plain_no(3) by (auto simp: output_sendable_def)
  then show "newline \<notin> set (finish_output_line d)" by (simp add: finish_output_line_def)
qed

text \<open>What the reader makes of a report, as far as it comes before the steps.\<close>

lemma finish_prefix_read:
  assumes "formatCiFinishReport r = Inr payload" "report_sendable (r\<lparr>fr_steps := []\<rparr>)" "length payload \<le> kMaximumCiFinishPayloadBytes"
  shows "parseCiFinishReport payload = foldE finish_line (r\<lparr>fr_steps := [], fr_outputs := []\<rparr>)
    (map finish_step_line (fr_steps r) @ map finish_output_line (fr_outputs r))"
proof -
  from assms(1) obtain ls where ls: "execution_lines (fr_execution r) = Inr ls" and
    payload: "payload = unlines ([''status='' @ ciRunStatusName (fr_status r), ''started_epoch='' @ to_dec (fr_started_epoch_seconds r),
       ''detail_hex='' @ hexEncode (fr_detail r)] @ ls @ map finish_step_line (fr_steps r) @ map finish_output_line (fr_outputs r))"
    (is "payload = unlines ([?a, ?b, ?c] @ ls @ ?rest)")
    by (auto simp: formatCiFinishReport_def elim!: bindE_InrE)
  note ok = assms(2) [unfolded report_sendable_def]
  let ?r0 = "\<lparr>fr_status = fr_status r, fr_started_epoch_seconds = fr_started_epoch_seconds r, fr_detail = fr_detail r, fr_steps = [],
    fr_outputs = [], fr_execution = None\<rparr>"
  have e: "foldE finish_line ?r0 ls = Inr (?r0\<lparr>fr_execution := fr_execution r\<rparr>)" "\<forall>l \<in> set ls. newline \<notin> set l"
    using execution_read [OF ls, of ?r0] ok by simp_all
  have "?r0\<lparr>fr_execution := fr_execution r\<rparr> = r\<lparr>fr_steps := [], fr_outputs := []\<rparr>" by (cases r) simp
  with e(1) have "foldE finish_line ?r0 ls = Inr (r\<lparr>fr_steps := [], fr_outputs := []\<rparr>)" by (simp only:)
  then have "foldE finish_line ?r0 (ls @ ?rest) = foldE finish_line (r\<lparr>fr_steps := [], fr_outputs := []\<rparr>) ?rest"
    by (simp only: foldE_append bindE_Inr)
  moreover have "newline \<notin> set (ciRunStatusName (fr_status r))" using plain_status plain_no(3) by blast
  then have "protocol_lines payload = Inr ([?a, ?b, ?c] @ ls @ ?rest)"
    using e(2) finish_lines_plain ok by (auto simp: protocol_lines_iff payload list_all_iff)
  ultimately show ?thesis using assms(3) ok
    by (simp add: parseCiFinishReport_def protocol_field_def starts_with_def protocol_number_def decodeHex_def kMaximumCiDetailBytes_def)
qed

text \<open>
  C37: the report a runner sends at the end of a run is the report the main host reads, with the status, the steps, the
  outputs and the execution record, when the exit codes are between -1000 and 1000 and the other values within their bounds.
\<close>

theorem finish_report_delivered:
  assumes "formatCiFinishReport r = Inr payload" "report_sendable r" "length payload \<le> kMaximumCiFinishPayloadBytes"
  shows "parseCiFinishReport payload = Inr r"
proof -
  note ok = assms(2) [unfolded report_sendable_def]
  have "report_sendable (r\<lparr>fr_steps := []\<rparr>)" using ok by (simp add: report_sendable_def)
  from finish_prefix_read [OF assms(1) this assms(3)] show ?thesis
    using ok steps_read [of "fr_steps r" "r\<lparr>fr_steps := [], fr_outputs := []\<rparr>"]
      outputs_read [of "fr_outputs r" "r\<lparr>fr_outputs := []\<rparr>"]
    by (simp add: foldE_append kMaximumCiSteps_def kMaximumCiJobs_def)
qed

definition sample_report :: CiFinishReport where
  "sample_report = \<lparr>fr_status = Failure, fr_started_epoch_seconds = 17, fr_detail = ''step test'',
     fr_steps = [\<lparr>sr_name = ''test'', sr_exit_code = -1, sr_timed_out = True, sr_output_truncated = False\<rparr>],
     fr_outputs = [\<lparr>do_name = ''dist'', do_release = False, do_retention_days = 30, do_note = []\<rparr>], fr_execution = None\<rparr>"

theorem finish_report_delivered_witness:
  "parseCiFinishReport (concat (map (\<lambda>l. l @ [newline]) [''status=failure'', ''started_epoch=17'', ''detail_hex=737465702074657374'',
     ''step=-1,1,0,74657374'', ''output=dist,0,30,-''])) = Inr sample_report" (is "parseCiFinishReport ?payload = _")
proof (rule finish_report_delivered)
  show "formatCiFinishReport sample_report = Inr ?payload" by code_simp
  show "report_sendable sample_report"
    by (simp add: report_sendable_def sample_report_def step_sendable_def output_sendable_def u64_max_def ciRunStatusIsActive_def
        isValidCiArtifactName_def kMaximumCiArtifactNameBytes_def char_class)
  show "length ?payload \<le> kMaximumCiFinishPayloadBytes" by (simp add: kMaximumCiFinishPayloadBytes_def)
qed

text \<open>
  A report with a step whose exit code is above 1000 or below -1000 (a Windows process that ends with an exception code
  has such a code) is printed by the runner without complaint, and the main host refuses the whole report.
\<close>

definition step_in_range :: "CiStepResult \<Rightarrow> bool" where
  "step_in_range s \<longleftrightarrow> -2147483648 \<le> sr_exit_code s \<and> sr_exit_code s \<le> 2147483647 \<and> length (sr_name s) \<le> 256"

theorem finish_exit_code_refused:
  assumes "formatCiFinishReport r = Inr payload" "report_sendable (r\<lparr>fr_steps := []\<rparr>)" "length payload \<le> kMaximumCiFinishPayloadBytes"
    and "list_all step_in_range (fr_steps r)" "length (fr_steps r) \<le> 4096"
    and "s \<in> set (fr_steps r)" "1000 < \<bar>sr_exit_code s\<bar>"
  shows "parseCiFinishReport payload = bad_report ''malformed exit code''"
proof -
  have "\<exists>x \<in> set (fr_steps r). 1000 < \<bar>sr_exit_code x\<bar>" using assms(6,7) by blast
  then obtain xs bad ys where steps: "fr_steps r = xs @ bad # ys" "1000 < \<bar>sr_exit_code bad\<bar>" "\<forall>x \<in> set xs. \<not> 1000 < \<bar>sr_exit_code x\<bar>"
    by (rule split_list_first_propE)
  have range: "step_in_range bad" "\<forall>x \<in> set xs. step_in_range x" using assms(4) steps(1) by (auto simp: list_all_iff)
  let ?r0 = "r\<lparr>fr_steps := [], fr_outputs := []\<rparr>"
  have "list_all step_sendable xs" using range(2) steps(3) by (auto simp: list_all_iff step_sendable_def step_in_range_def not_less)
  then have "foldE finish_line ?r0 (map finish_step_line xs) = Inr (?r0\<lparr>fr_steps := xs\<rparr>)"
    using steps_read [of xs ?r0] assms(5) steps(1) by (simp add: kMaximumCiSteps_def)
  moreover have "\<bar>sr_exit_code bad\<bar> \<le> 2147483648" using range(1) by (auto simp: step_in_range_def)
  then have "finish_line (?r0\<lparr>fr_steps := xs\<rparr>) (finish_step_line bad) = bad_report ''malformed exit code''"
    using read_step_written [of bad "length xs"] read_exit_code_written(2) [OF steps(2)] range(1) assms(5) steps(1)
    by (simp add: finish_line_def finish_step_line_def starts_with_def step_in_range_def kMaximumCiSteps_def bad_report_def bindE_def)
  ultimately show ?thesis using finish_prefix_read [OF assms(1-3)] steps(1) by (simp add: foldE_append bad_report_def bindE_def)
qed

definition crashed_report :: CiFinishReport where
  "crashed_report = sample_report\<lparr>fr_steps := [\<lparr>sr_name = ''test'', sr_exit_code = -1073741819, sr_timed_out = False, sr_output_truncated = False\<rparr>]\<rparr>"

theorem finish_exit_code_refused_witness:
  "\<exists>payload. formatCiFinishReport crashed_report = Inr payload \<and> parseCiFinishReport payload = bad_report ''malformed exit code''"
proof -
  have f: "formatCiFinishReport crashed_report = Inr (unlines ([''status=failure'', ''started_epoch='' @ to_dec 17, ''detail_hex='' @ hexEncode ''step test'']
      @ map finish_step_line (fr_steps crashed_report) @ map finish_output_line (fr_outputs crashed_report)))" (is "_ = Inr ?payload")
    by (simp add: formatCiFinishReport_def crashed_report_def sample_report_def execution_lines_def)
  moreover have "parseCiFinishReport ?payload = bad_report ''malformed exit code''"
  proof (rule finish_exit_code_refused [OF f])
    show "report_sendable (crashed_report\<lparr>fr_steps := []\<rparr>)"
      by (simp add: crashed_report_def report_sendable_def sample_report_def output_sendable_def u64_max_def ciRunStatusIsActive_def
          isValidCiArtifactName_def kMaximumCiArtifactNameBytes_def char_class)
    show "length ?payload \<le> kMaximumCiFinishPayloadBytes"
      by (simp add: crashed_report_def sample_report_def kMaximumCiFinishPayloadBytes_def finish_step_line_def finish_output_line_def
          int_to_dec_def bool01_def hexOrDash_def length_hexEncode decimal_eval)
    show "1000 < \<bar>sr_exit_code (hd (fr_steps crashed_report))\<bar>" by (simp add: crashed_report_def)
  qed (simp_all add: crashed_report_def step_in_range_def)
  ultimately show ?thesis by blast
qed

end
