(* ===== verification/Ck_Ci_Claim_Answer.thy ===== *)
theory Ck_Ci_Claim_Answer
  imports Ck_Ci_Runner_Protocol
begin

text \<open>
  The answer to a runner's claim: \<open>formatCiClaimResponse\<close> and \<open>parseCiClaimResponse\<close> of
  \<open>src/common/ci_runner_protocol.cpp\<close>. The answer carries the prepared job, its lease token and the policy of the main
  host, and the workflow as text; the reader checks every name, reads the workflow again and selects the assigned job.
  Shown here: what a runner can rely on after it accepted an answer, and that an answer for a valid preparation is accepted
  as it was sent.
\<close>

section \<open>Prepared jobs and policies\<close>

record CiResolvedSister =
  rs_name :: string
  rs_commit :: string
  rs_checkout :: CiCheckout

record CiPreparedJob =
  pj_job :: CiJobRequest
  pj_workflow_text :: string
  pj_workflow :: CiWorkflow
  pj_is_release :: bool
  pj_release_tag :: string
  pj_is_default_branch :: bool
  pj_sisters :: "CiResolvedSister list"

record CiRemotePolicy =
  rp_timeout_seconds :: nat
  rp_max_log_bytes :: nat
  rp_artifact_max_bytes :: nat
  rp_allow_network :: bool
  rp_lease_seconds :: nat

record CiRemoteJob =
  rj_prepared :: CiPreparedJob
  rj_token :: string
  rj_policy :: CiRemotePolicy

definition kMaximumCiClaimResponseBytes :: nat where "kMaximumCiClaimResponseBytes = 256 * 1024"
definition kMaximumCiWorkflowBytes :: nat where "kMaximumCiWorkflowBytes = 64 * 1024"

section \<open>The printer\<close>

definition claim_fields :: "CiPreparedJob \<Rightarrow> CiLease \<Rightarrow> CiRemotePolicy \<Rightarrow> string list" where
  "claim_fields p lease policy =
     [''job_id='' @ jb_job_id (pj_job p), ''project='' @ jb_project_name (pj_job p), ''ref_hex='' @ hexEncode (jb_ref (pj_job p)),
      ''commit='' @ jb_commit_id (pj_job p), ''attempt='' @ to_dec (jb_attempt (pj_job p)), ''token='' @ ls_token lease,
      ''lease_seconds='' @ to_dec (rp_lease_seconds policy), ''release_tag='' @ (if pj_is_release p then pj_release_tag p else []),
      ''default_branch='' @ bool01 (pj_is_default_branch p), ''timeout_seconds='' @ to_dec (rp_timeout_seconds policy),
      ''max_log_bytes='' @ to_dec (rp_max_log_bytes policy), ''artifact_max_bytes='' @ to_dec (rp_artifact_max_bytes policy),
      ''allow_network='' @ bool01 (rp_allow_network policy), ''sister_count='' @ to_dec (length (pj_sisters p))]"

definition sister_line :: "CiResolvedSister \<Rightarrow> string" where
  "sister_line s = ''sister='' @ rs_name s @ '' '' @ rs_commit s"

definition formatCiClaimResponse :: "CiPreparedJob \<Rightarrow> CiLease \<Rightarrow> CiRemotePolicy \<Rightarrow> nat \<Rightarrow> string result" where
  "formatCiClaimResponse p lease policy version =
     (if version \<noteq> 1 \<and> version \<noteq> 2 then Inl (Invalid_Argument ''unsupported runner claim protocol'')
      else if version = 1 \<and> jb_parent_run_id (pj_job p) \<noteq> [] then Inl (Invalid_Argument ''protocol 1 cannot carry a child assignment'')
      else Inr (unlines ((if version = 2 then ''job2'' else ''job'') # claim_fields p lease policy @ map sister_line (pj_sisters p)
        @ [''workflow_hex='' @ hexEncode (pj_workflow_text p)]
        @ (if version = 2 then [''parent_run_id='' @ jb_parent_run_id (pj_job p), ''workflow_job='' @ jb_workflow_job (pj_job p)] else []))))"

section \<open>The reader\<close>

definition claim_number :: "string \<Rightarrow> string \<Rightarrow> string \<Rightarrow> nat result" where
  "claim_number line key what = bindE (protocol_field line key) (\<lambda>t. protocol_number t what)"

text \<open>The attempt, the lease and the time limit are cast to 32 bits.\<close>

definition claim_job :: "string list \<Rightarrow> CiJobRequest result" where
  "claim_job lines =
     bindE (protocol_field (lines ! 1) ''job_id='') (\<lambda>ident.
     bindE (protocol_field (lines ! 2) ''project='') (\<lambda>project.
     bindE (protocol_field (lines ! 3) ''ref_hex='') (\<lambda>hex.
     bindE (decodeHex hex 512 ''ref'') (\<lambda>ref.
     bindE (protocol_field (lines ! 4) ''commit='') (\<lambda>commit.
     bindE (claim_number (lines ! 5) ''attempt='' ''attempt'') (\<lambda>attempt.
     Inr \<lparr>jb_job_id = ident, jb_project_name = project, jb_ref = ref, jb_commit_id = commit, jb_client_id = ''remote'',
       jb_queued_epoch_seconds = 0, jb_attempt = to_u32 attempt, jb_runs_on = [], jb_auto_cancel = True, jb_parent_run_id = [],
       jb_workflow_job = [], jb_needs = [], jb_dependency_lock_sha256 = []\<rparr>))))))"

definition claim_policy_lines :: "string list \<Rightarrow> (string \<times> string \<times> bool \<times> CiRemotePolicy) result" where
  "claim_policy_lines lines =
     bindE (protocol_field (lines ! 6) ''token='') (\<lambda>token.
     bindE (claim_number (lines ! 7) ''lease_seconds='' ''lease'') (\<lambda>lease.
     bindE (protocol_field (lines ! 8) ''release_tag='') (\<lambda>tag.
     bindE (protocol_field (lines ! 9) ''default_branch='') (\<lambda>default.
     bindE (claim_number (lines ! 10) ''timeout_seconds='' ''timeout'') (\<lambda>timeout.
     bindE (claim_number (lines ! 11) ''max_log_bytes='' ''log cap'') (\<lambda>log_cap.
     bindE (claim_number (lines ! 12) ''artifact_max_bytes='' ''artifact cap'') (\<lambda>artifact_cap.
     bindE (protocol_field (lines ! 13) ''allow_network='') (\<lambda>network.
     Inr (token, tag, default = ''1'', \<lparr>rp_timeout_seconds = to_u32 timeout, rp_max_log_bytes = log_cap,
       rp_artifact_max_bytes = artifact_cap, rp_allow_network = (network = ''1''), rp_lease_seconds = to_u32 lease\<rparr>)))))))))"

definition claim_sister :: "string \<Rightarrow> CiResolvedSister result" where
  "claim_sister line =
     bindE (protocol_field line ''sister='') (\<lambda>v.
     case after CHR '' '' v of None \<Rightarrow> Inl (Invalid_Argument ''malformed sister'')
     | Some commit \<Rightarrow>
         if \<not> isValidProjectName (before CHR '' '' v) \<or> \<not> isValidObjectId commit then Inl (Invalid_Argument ''invalid sister'')
         else Inr \<lparr>rs_name = before CHR '' '' v, rs_commit = commit, rs_checkout = fresh_checkout\<rparr>)"

definition claim_sisters :: "nat \<Rightarrow> string list \<Rightarrow> CiResolvedSister list result" where
  "claim_sisters base lines =
     bindE (claim_number (lines ! 14) ''sister_count='' ''sister count'') (\<lambda>sisters.
     if sisters > kMaximumCiSisters \<or> length lines \<noteq> base + sisters then Inl (Invalid_Argument ''malformed sister list'')
     else mapE claim_sister (take sisters (drop 15 lines)))"

definition claim_child :: "bool \<Rightarrow> string list \<Rightarrow> CiJobRequest \<Rightarrow> CiJobRequest result" where
  "claim_child v2 lines job =
     (if v2 then
        bindE (protocol_field (lines ! 0) ''parent_run_id='') (\<lambda>parent.
        bindE (protocol_field (lines ! 1) ''workflow_job='') (\<lambda>name.
        Inr (job\<lparr>jb_parent_run_id := parent, jb_workflow_job := name\<rparr>)))
      else Inr job)"

definition claim_workflow :: "bool \<Rightarrow> CiJobRequest \<Rightarrow> CiWorkflow \<Rightarrow> (CiJobRequest \<times> CiWorkflow) result" where
  "claim_workflow v2 job w =
     (if wf_version w = 2 then
        (if \<not> v2 \<or> \<not> isValidCiId (jb_parent_run_id job) \<or> jb_parent_run_id job = jb_job_id job \<or> jb_workflow_job job = []
         then Inl (Invalid_Argument ''distributed workflow requires a protocol-2 child assignment'')
         else bindE (selectCiWorkflowJob w (jb_workflow_job job)) (\<lambda>w'. Inr (job\<lparr>jb_runs_on := wf_runs_on w'\<rparr>, w')))
      else if jb_parent_run_id job \<noteq> [] \<or> jb_workflow_job job \<noteq> [] then
        Inl (Invalid_Argument ''legacy workflow cannot carry a child assignment'')
      else Inr (job, w))"

definition with_history :: "CiSister list \<Rightarrow> CiResolvedSister \<Rightarrow> CiResolvedSister" where
  "with_history declared sister =
     foldl (\<lambda>s d. if si_name d = rs_name s then s\<lparr>rs_checkout := si_checkout d\<rparr> else s) sister declared"

definition lifted :: "'a result \<Rightarrow> 'a parsed" where
  "lifted r = (case r of Inl e \<Rightarrow> Inl (Thrown e) | Inr x \<Rightarrow> Inr x)"

definition invalid_claim :: "CiJobRequest \<Rightarrow> string \<Rightarrow> string \<Rightarrow> bool" where
  "invalid_claim job token tag \<longleftrightarrow>
     \<not> isValidCiId (jb_job_id job) \<or> \<not> isValidProjectName (jb_project_name job) \<or> \<not> isValidObjectId (jb_commit_id job)
     \<or> \<not> isLeaseToken token \<or> (tag \<noteq> [] \<and> \<not> isValidReleaseTag tag)"

definition claim_body :: "bool \<Rightarrow> string list \<Rightarrow> CiRemoteJob parsed" where
  "claim_body v2 lines =
     bindE (lifted (claim_job lines)) (\<lambda>job.
     bindE (lifted (claim_policy_lines lines)) (\<lambda>(token, tag, default, policy).
     bindE (lifted (claim_sisters (if v2 then 18 else 16) lines)) (\<lambda>resolved.
     bindE (lifted (protocol_field (lines ! (15 + length resolved)) ''workflow_hex='')) (\<lambda>hex.
     bindE (lifted (decodeHex hex kMaximumCiWorkflowBytes ''workflow'')) (\<lambda>workflow_text.
     if invalid_claim job token tag then Inl (Thrown (Invalid_Argument ''claim response contains invalid data''))
     else bindE (parseCiWorkflow workflow_text) (\<lambda>w.
     bindE (lifted (claim_child v2 (drop (16 + length resolved) lines) job)) (\<lambda>child.
     bindE (lifted (claim_workflow v2 child w)) (\<lambda>(assigned, selected).
     Inr \<lparr>rj_prepared = \<lparr>pj_job = assigned, pj_workflow_text = workflow_text, pj_workflow = selected, pj_is_release = (tag \<noteq> []),
            pj_release_tag = tag, pj_is_default_branch = default, pj_sisters = map (with_history (wf_sisters selected)) resolved\<rparr>,
          rj_token = token, rj_policy = policy\<rparr>))))))))"

definition parseCiClaimResponse :: "string \<Rightarrow> CiRemoteJob option parsed" where
  "parseCiClaimResponse response =
     (if response = ''none'' @ [newline] then Inr None
      else if length response > kMaximumCiClaimResponseBytes then Inl (Thrown (Invalid_Argument ''claim response too large''))
      else bindE (lifted (protocol_lines response)) (\<lambda>lines.
      let v2 = (lines \<noteq> [] \<and> lines ! 0 = ''job2'') in
      if length lines < (if v2 then 18 else 16) \<or> (\<not> v2 \<and> lines ! 0 \<noteq> ''job'') then Inl (Thrown (Invalid_Argument ''malformed claim response''))
      else bindE (claim_body v2 lines) (\<lambda>remote. Inr (Some remote))))"

section \<open>What a runner can rely on\<close>

definition sister_ok :: "CiResolvedSister \<Rightarrow> bool" where
  "sister_ok s \<longleftrightarrow> isValidProjectName (rs_name s) \<and> isValidObjectId (rs_commit s)"

text \<open>The assignment of a job agrees with the workflow: a job of a distributed workflow, or the whole of a legacy one.\<close>

definition assigned_from :: "CiWorkflow \<Rightarrow> CiJobRequest \<Rightarrow> CiWorkflow \<Rightarrow> bool" where
  "assigned_from w request selected \<longleftrightarrow>
     (if wf_version w = 2 then
        isValidCiId (jb_parent_run_id request) \<and> jb_parent_run_id request \<noteq> jb_job_id request
        \<and> (\<exists>job \<in> set (wf_jobs w). wj_name job = jb_workflow_job request \<and> wf_jobs selected = [job]
             \<and> jb_runs_on request = wj_runs_on job)
      else selected = w \<and> jb_parent_run_id request = [] \<and> jb_workflow_job request = [])"

definition claim_ok :: "CiRemoteJob \<Rightarrow> bool" where
  "claim_ok r \<longleftrightarrow> (let p = rj_prepared r; job = pj_job p in
     isValidCiId (jb_job_id job) \<and> isValidProjectName (jb_project_name job) \<and> isValidObjectId (jb_commit_id job)
     \<and> isLeaseToken (rj_token r) \<and> length (jb_ref job) \<le> 512
     \<and> (if pj_is_release p then isValidReleaseTag (pj_release_tag p) else pj_release_tag p = [])
     \<and> length (pj_sisters p) \<le> 16 \<and> list_all sister_ok (pj_sisters p)
     \<and> length (pj_workflow_text p) \<le> 64 * 1024
     \<and> (\<exists>w. parseCiWorkflow (pj_workflow_text p) = Inr w \<and> workflow_valid w \<and> assigned_from w job (pj_workflow p)))"

lemma lifted_Inr [simp]: "lifted r = Inr x \<longleftrightarrow> r = Inr x"
  by (cases r) (simp_all add: lifted_def)

lemma lifted_ran [simp]: "lifted r \<noteq> Inl Out_of_fuel"
  by (cases r) (simp_all add: lifted_def)

lemma with_history_kept [simp]: "rs_name (with_history ds s) = rs_name s" "rs_commit (with_history ds s) = rs_commit s"
proof -
  have "rs_name (foldl (\<lambda>s d. if si_name d = rs_name s then s\<lparr>rs_checkout := si_checkout d\<rparr> else s) s ds) = rs_name s
    \<and> rs_commit (foldl (\<lambda>s d. if si_name d = rs_name s then s\<lparr>rs_checkout := si_checkout d\<rparr> else s) s ds) = rs_commit s"
    by (induction ds arbitrary: s) simp_all
  then show "rs_name (with_history ds s) = rs_name s" "rs_commit (with_history ds s) = rs_commit s"
    by (simp_all add: with_history_def)
qed

lemma decodeHex_Inr: "decodeHex t cap what = Inr d \<Longrightarrow> length d \<le> cap"
  using hexDecode_Some by (auto simp: decodeHex_def split: option.splits)

lemma claim_job_Inr: "claim_job lines = Inr job \<Longrightarrow> length (jb_ref job) \<le> 512 \<and> jb_parent_run_id job = [] \<and> jb_workflow_job job = []"
  by (auto simp: claim_job_def elim!: bindE_InrE dest: decodeHex_Inr)

lemma claim_sister_Inr: "claim_sister line = Inr s \<Longrightarrow> sister_ok s"
  by (auto simp: claim_sister_def sister_ok_def elim!: bindE_InrE split: option.splits if_splits)

lemma claim_sisters_Inr:
  assumes "claim_sisters base lines = Inr ss"
  shows "length ss \<le> 16 \<and> list_all sister_ok ss"
proof -
  obtain n where n: "n \<le> 16" "mapE claim_sister (take n (drop 15 lines)) = Inr ss"
    using assms unfolding claim_sisters_def kMaximumCiSisters_def by (elim bindE_InrE guard_InrE) (auto simp: not_less)
  from mapE_Inr_all [OF n(2) claim_sister_Inr] n(1) show ?thesis by simp
qed

lemma claim_child_Inr:
  "claim_child v2 lines job = Inr c \<Longrightarrow> jb_job_id c = jb_job_id job \<and> jb_project_name c = jb_project_name job \<and> jb_ref c = jb_ref job
     \<and> jb_commit_id c = jb_commit_id job"
  by (auto simp: claim_child_def elim!: bindE_InrE split: if_splits)

lemma claim_workflow_Inr:
  assumes "claim_workflow v2 job w = Inr (job', w')" "workflow_valid w"
  shows "jb_job_id job' = jb_job_id job" "jb_project_name job' = jb_project_name job" "jb_ref job' = jb_ref job"
    "jb_commit_id job' = jb_commit_id job" "assigned_from w job' w'"
  using assms by (auto simp: claim_workflow_def assigned_from_def selected_job elim!: bindE_InrE split: if_splits)

text \<open>A reading that came to an end.\<close>

lemma ended_bind: "m \<noteq> Inl Out_of_fuel \<Longrightarrow> (\<And>x. f x \<noteq> Inl Out_of_fuel) \<Longrightarrow> bindE m f \<noteq> Inl Out_of_fuel"
  for m :: "'a parsed" and f :: "'a \<Rightarrow> 'b parsed"
  by (cases m) auto

lemma ended_cases:
  "m \<noteq> Inl Out_of_fuel \<Longrightarrow> m' \<noteq> Inl Out_of_fuel \<Longrightarrow> (if b then m else m') \<noteq> Inl Out_of_fuel"
  "(\<And>a c. g a c \<noteq> Inl Out_of_fuel) \<Longrightarrow> (case p of (a, c) \<Rightarrow> g a c) \<noteq> Inl Out_of_fuel"
  by (simp_all split: prod.split)

lemma claim_body_ended: "claim_body v2 lines \<noteq> Inl Out_of_fuel"
proof -
  have w: "parseCiWorkflow content \<noteq> Inl Out_of_fuel" for content using clean_workflow [of content] by (auto simp: reads_cleanly_def)
  show ?thesis unfolding claim_body_def by (intro ended_bind ended_cases w lifted_ran) simp_all
qed

lemma claim_body_ok:
  assumes "claim_body v2 lines = Inr remote"
  shows "claim_ok remote"
proof -
  from assms obtain job token tag default policy resolved text0 w child assigned selected where
    r: "claim_job lines = Inr job" "claim_sisters (if v2 then 18 else 16) lines = Inr resolved"
    "\<not> invalid_claim job token tag" "length text0 \<le> kMaximumCiWorkflowBytes" "parseCiWorkflow text0 = Inr w"
    "claim_child v2 (drop (16 + length resolved) lines) job = Inr child" "claim_workflow v2 child w = Inr (assigned, selected)"
    and remote: "remote = \<lparr>rj_prepared = \<lparr>pj_job = assigned, pj_workflow_text = text0, pj_workflow = selected, pj_is_release = (tag \<noteq> []),
          pj_release_tag = tag, pj_is_default_branch = default, pj_sisters = map (with_history (wf_sisters selected)) resolved\<rparr>,
        rj_token = token, rj_policy = policy\<rparr>"
    unfolding claim_body_def by (auto elim!: bindE_InrE guard_InrE) (blast dest: decodeHex_Inr)
  have "workflow_valid w" using r(5) by (rule workflow_Inr)
  note a = claim_workflow_Inr [OF r(7) this] claim_child_Inr [OF r(6)] claim_job_Inr [OF r(1)] claim_sisters_Inr [OF r(2)]
  have "list_all sister_ok (pj_sisters (rj_prepared remote))" using a(8) remote by (auto simp: list_all_iff sister_ok_def)
  with a r(3,4,5) \<open>workflow_valid w\<close> show ?thesis
    by (auto simp: claim_ok_def remote invalid_claim_def kMaximumCiWorkflowBytes_def)
qed

lemma claim_answer_ok: "parseCiClaimResponse response = Inr (Some remote) \<Longrightarrow> claim_ok remote"
  by (auto simp: parseCiClaimResponse_def Let_def elim!: bindE_InrE dest: claim_body_ok split: if_splits)

text \<open>
  C9: an answer to a claim that the runner accepts carries valid names, a valid lease token, and at most sixteen valid sister
  checkouts; its workflow is what its text says, and it assigns one job of a distributed workflow, whose labels it
  takes, or the whole of a legacy workflow. Everything else is rejected with an error; reading the answer always ends.
\<close>

theorem claim_answer_checked:
  "case parseCiClaimResponse response of
     Inr None \<Rightarrow> response = ''none'' @ [newline]
   | Inr (Some remote) \<Rightarrow> claim_ok remote
   | Inl stop \<Rightarrow> stop \<noteq> Out_of_fuel"
  using claim_body_ok claim_body_ended by (auto simp: parseCiClaimResponse_def bindE_def Let_def split: sum.split option.split if_splits)

section \<open>A sent answer is the answer that is read\<close>

text \<open>What the main host prepares: the bounds are those of the C++ types and of the reader.\<close>

definition policy_ok :: "CiRemotePolicy \<Rightarrow> bool" where
  "policy_ok policy \<longleftrightarrow> rp_timeout_seconds policy \<le> u32_max \<and> rp_lease_seconds policy \<le> u32_max
     \<and> rp_max_log_bytes policy \<le> u64_max \<and> rp_artifact_max_bytes policy \<le> u64_max"

definition prepared_ok :: "CiPreparedJob \<Rightarrow> bool" where
  "prepared_ok p \<longleftrightarrow> (let job = pj_job p in
     isValidCiId (jb_job_id job) \<and> isValidProjectName (jb_project_name job) \<and> isValidObjectId (jb_commit_id job)
     \<and> length (jb_ref job) \<le> 512 \<and> jb_attempt job \<le> u32_max
     \<and> (if pj_is_release p then isValidReleaseTag (pj_release_tag p) else pj_release_tag p = [])
     \<and> length (pj_sisters p) \<le> 16 \<and> list_all sister_ok (pj_sisters p) \<and> length (pj_workflow_text p) \<le> 64 * 1024)"

text \<open>Version 2 of the protocol for a job of a distributed workflow, either version for a legacy workflow.\<close>

definition assignment_ok :: "nat \<Rightarrow> CiWorkflow \<Rightarrow> CiJobRequest \<Rightarrow> bool" where
  "assignment_ok version w job \<longleftrightarrow>
     (if wf_version w = 2 then version = 2 \<and> isValidCiId (jb_parent_run_id job) \<and> jb_parent_run_id job \<noteq> jb_job_id job
        \<and> jb_workflow_job job \<in> wj_name ` set (wf_jobs w)
      else (version = 1 \<or> version = 2) \<and> jb_parent_run_id job = [] \<and> jb_workflow_job job = [])"

text \<open>The prepared job as the runner holds it: the request without what stays in the queue, and the workflow read again.\<close>

definition sent_job :: "CiJobRequest \<Rightarrow> CiJobRequest" where
  "sent_job job = \<lparr>jb_job_id = jb_job_id job, jb_project_name = jb_project_name job, jb_ref = jb_ref job,
     jb_commit_id = jb_commit_id job, jb_client_id = ''remote'', jb_queued_epoch_seconds = 0, jb_attempt = jb_attempt job,
     jb_runs_on = [], jb_auto_cancel = True, jb_parent_run_id = [], jb_workflow_job = [], jb_needs = [], jb_dependency_lock_sha256 = []\<rparr>"

definition received :: "CiPreparedJob \<Rightarrow> CiWorkflow \<Rightarrow> CiPreparedJob" where
  "received p selected = p\<lparr>pj_job := (sent_job (pj_job p))\<lparr>jb_parent_run_id := jb_parent_run_id (pj_job p),
       jb_workflow_job := jb_workflow_job (pj_job p), jb_runs_on := (if wf_version selected = 2 then wf_runs_on selected else [])\<rparr>,
     pj_workflow := selected,
     pj_sisters := map (\<lambda>s. with_history (wf_sisters selected) (s\<lparr>rs_checkout := fresh_checkout\<rparr>)) (pj_sisters p)\<rparr>"

lemma u32_le_u64: "n \<le> u32_max \<Longrightarrow> n \<le> u64_max"
  by (simp add: u32_max_def u64_max_def)

lemma claim_workflow_accepts:
  assumes "assignment_ok version w job" "workflow_valid w" "jb_runs_on job = []"
  shows "\<exists>selected. claim_workflow (version = 2) job w =
     Inr (job\<lparr>jb_runs_on := (if wf_version selected = 2 then wf_runs_on selected else [])\<rparr>, selected)"
proof (cases "wf_version w = 2")
  case True
  then obtain j where j: "j \<in> set (wf_jobs w)" "wj_name j = jb_workflow_job job" using assms(1) by (auto simp: assignment_ok_def)
  then have "jb_workflow_job job \<noteq> []"
    using assms(2) by (auto simp: workflow_valid_def jobs_valid_def list_all_iff job_valid_def isValidCiName_def)
  moreover have "\<exists>w'. selectCiWorkflowJob w (jb_workflow_job job) = Inr w' \<and> wf_version w' = 2"
    using j True by (auto simp: selected_job [OF assms(2)])
  ultimately show ?thesis using assms(1) True by (auto simp: claim_workflow_def assignment_ok_def)
next
  case False
  then show ?thesis using assms by (cases job) (auto simp: claim_workflow_def assignment_ok_def)
qed

lemma claim_job_written:
  assumes "prepared_ok p"
  shows "claim_job (l # claim_fields p lease policy @ rest) = Inr (sent_job (pj_job p))"
proof -
  have "length (jb_ref (pj_job p)) \<le> 512" "jb_attempt (pj_job p) \<le> u32_max" using assms by (simp_all add: prepared_ok_def Let_def)
  then show ?thesis using u32_le_u64
    by (simp add: claim_job_def claim_fields_def protocol_field_def starts_with_def decodeHex_def claim_number_def protocol_number_def sent_job_def)
qed

lemma claim_policy_written:
  assumes "policy_ok policy"
  shows "claim_policy_lines (l # claim_fields p lease policy @ rest)
    = Inr (ls_token lease, if pj_is_release p then pj_release_tag p else [], pj_is_default_branch p, policy)"
  using assms u32_le_u64
  by (cases policy) (simp add: policy_ok_def claim_policy_lines_def claim_fields_def protocol_field_def starts_with_def claim_number_def protocol_number_def)

lemma claim_sister_written: "sister_ok s \<Longrightarrow> claim_sister (sister_line s) = Inr (s\<lparr>rs_checkout := fresh_checkout\<rparr>)"
proof -
  assume s: "sister_ok s"
  then have "CHR '' '' \<notin> set (rs_name s)" using plain_project plain_no by (auto simp: sister_ok_def)
  then show ?thesis using s
    by (cases s) (simp add: claim_sister_def sister_line_def protocol_field_def starts_with_def sister_ok_def)
qed

lemma claim_sisters_written:
  assumes "prepared_ok p" "length rest = base - 15" "15 \<le> base"
  shows "claim_sisters base (l # claim_fields p lease policy @ map sister_line (pj_sisters p) @ rest)
    = Inr (map (\<lambda>s. s\<lparr>rs_checkout := fresh_checkout\<rparr>) (pj_sisters p))"
proof -
  have s: "length (pj_sisters p) \<le> 16" "\<forall>s \<in> set (pj_sisters p). sister_ok s"
    using assms(1) by (simp_all add: prepared_ok_def Let_def list_all_iff)
  have "mapE claim_sister (map sister_line ss) = Inr (map (\<lambda>s. s\<lparr>rs_checkout := fresh_checkout\<rparr>) ss)"
    if "\<forall>s \<in> set ss. sister_ok s" for ss using that by (induction ss) (simp_all add: claim_sister_written)
  with s assms(2,3) show ?thesis
    by (simp add: claim_sisters_def claim_fields_def claim_number_def protocol_field_def starts_with_def protocol_number_def u64_max_def
        kMaximumCiSisters_def)
qed

lemma assigned_text:
  assumes "assignment_ok version w job" "workflow_valid w"
  shows "newline \<notin> set (jb_parent_run_id job)" "newline \<notin> set (jb_workflow_job job)"
    "length (jb_parent_run_id job) \<le> 64" "length (jb_workflow_job job) \<le> 64"
proof -
  have n: "newline \<notin> set n" "length n \<le> 64" if "isValidCiName n" for n
    using that by (auto simp: isValidCiName_def name_char_def kMaximumCiNameBytes_def list_all_iff char_class)
  have "isValidCiId (jb_parent_run_id job) \<or> jb_parent_run_id job = []" "isValidCiName (jb_workflow_job job) \<or> jb_workflow_job job = []"
    using assms by (auto simp: assignment_ok_def workflow_valid_def jobs_valid_def list_all_iff job_valid_def split: if_splits)
  then show "newline \<notin> set (jb_parent_run_id job)" "newline \<notin> set (jb_workflow_job job)"
    "length (jb_parent_run_id job) \<le> 64" "length (jb_workflow_job job) \<le> 64"
    using n plain_ci_id plain_no(3) by (auto simp: isValidCiId_def kMaximumCiIdBytes_def)
qed

lemma claim_text_ok:
  assumes "prepared_ok p" "policy_ok policy" "isLeaseToken (ls_token lease)"
  shows "\<forall>l \<in> set (claim_fields p lease policy @ map sister_line (pj_sisters p)). newline \<notin> set l"
    "length (unlines (claim_fields p lease policy @ map sister_line (pj_sisters p))) \<le> 5000"
proof -
  let ?job = "pj_job p"
  have v: "isValidCiId (jb_job_id ?job)" "isValidProjectName (jb_project_name ?job)" "isValidObjectId (jb_commit_id ?job)"
    "length (jb_ref ?job) \<le> 512" "jb_attempt ?job \<le> u32_max" "if pj_is_release p then isValidReleaseTag (pj_release_tag p) else pj_release_tag p = []"
    "length (pj_sisters p) \<le> 16" "list_all sister_ok (pj_sisters p)"
    using assms(1) by (simp_all add: prepared_ok_def Let_def)
  have ids: "length n \<le> 64" "newline \<notin> set n" "CHR '' '' \<notin> set n" if "isValidProjectName n \<or> isValidObjectId n \<or> isValidCiId n" for n
    using that isValidProjectName_bounds [of n] plain_project [of n] plain_object [of n] plain_ci_id [of n]
    by (auto simp: isValidObjectId_def isValidCiId_def kMaximumCiIdBytes_def split: if_splits)
  have tag: "length (if pj_is_release p then pj_release_tag p else []) \<le> 128" "newline \<notin> set (if pj_is_release p then pj_release_tag p else [])"
    using v(6) plain_release_tag plain_no(3) by (auto simp: isValidReleaseTag_def kMaximumReleaseTagBytes_def)
  have token: "length (ls_token lease) = 32" "newline \<notin> set (ls_token lease)"
    using assms(3) by (auto simp: isLeaseToken_def list_all_iff char_class)
  have "newline \<notin> set (sister_line s) \<and> length (sister_line s) \<le> 136" if "s \<in> set (pj_sisters p)" for s
  proof -
    have "sister_ok s" using v(8) that by (simp add: list_all_iff)
    then show ?thesis using ids [of "rs_name s"] ids [of "rs_commit s"] by (simp add: sister_line_def sister_ok_def)
  qed
  then have s: "\<forall>s \<in> set (pj_sisters p). newline \<notin> set (sister_line s)" "\<forall>s \<in> set (pj_sisters p). length (sister_line s) \<le> 136" by blast+
  show "\<forall>l \<in> set (claim_fields p lease policy @ map sister_line (pj_sisters p)). newline \<notin> set l"
    using s(1) ids v(1-3) tag(2) token(2) by (auto simp: claim_fields_def)
  have u: "length (unlines (map sister_line ss)) \<le> 137 * length ss" if "\<forall>s \<in> set ss. length (sister_line s) \<le> 136" for ss
    using that by (induction ss) auto
  have n: "length (to_dec k) \<le> 20" if "k \<le> u64_max" for k using that by (rule length_to_dec_u64)
  have nums: "length (to_dec (jb_attempt ?job)) \<le> 20" "length (to_dec (rp_lease_seconds policy)) \<le> 20" "length (to_dec (rp_timeout_seconds policy)) \<le> 20"
    "length (to_dec (rp_max_log_bytes policy)) \<le> 20" "length (to_dec (rp_artifact_max_bytes policy)) \<le> 20"
    "length (to_dec (length (pj_sisters p))) \<le> 20" "length (bool01 b) = 1" for b
    using v(5,7) assms(2) u32_le_u64 by (auto simp: policy_ok_def u64_max_def bool01_def intro!: n [unfolded u64_max_def])
  have "length (unlines (claim_fields p lease policy)) \<le> 2000"
    using ids(1) [of "jb_job_id ?job"] ids(1) [of "jb_project_name ?job"] ids(1) [of "jb_commit_id ?job"] v(1-4) tag(1) token(1) nums
    by (simp add: claim_fields_def)
  moreover have "length (unlines (map sister_line (pj_sisters p))) \<le> 2192" using u [OF s(2)] v(7) by simp
  ultimately show "length (unlines (claim_fields p lease policy @ map sister_line (pj_sisters p))) \<le> 5000" by simp
qed

lemma at_split:
  assumes "length (l # xs @ ys) = k"
  shows "(l # xs @ ys @ x # r) ! k = x" "drop (Suc k) (l # xs @ ys @ x # r) = r"
  using assms by (auto simp: nth_append)

lemma claim_body_written:
  assumes ok: "prepared_ok p" "policy_ok policy" "isLeaseToken (ls_token lease)"
    and w: "parseCiWorkflow (pj_workflow_text p) = Inr w" "assignment_ok version w (pj_job p)"
    and rest: "rest = (''workflow_hex='' @ hexEncode (pj_workflow_text p))
      # (if version = 2 then [''parent_run_id='' @ jb_parent_run_id (pj_job p), ''workflow_job='' @ jb_workflow_job (pj_job p)] else [])"
  shows "\<exists>selected. assigned_from w (pj_job (received p selected)) selected \<and>
    claim_body (version = 2) (l # claim_fields p lease policy @ map sister_line (pj_sisters p) @ rest)
      = Inr \<lparr>rj_prepared = received p selected, rj_token = ls_token lease, rj_policy = policy\<rparr>" (is "\<exists>selected. _ \<and> claim_body _ ?lines = _")
proof -
  let ?child = "(sent_job (pj_job p))\<lparr>jb_parent_run_id := jb_parent_run_id (pj_job p), jb_workflow_job := jb_workflow_job (pj_job p)\<rparr>"
  have v: "workflow_valid w" using w(1) by (rule workflow_Inr)
  have "assignment_ok version w ?child" using w(2) by (simp add: assignment_ok_def sent_job_def split: if_splits)
  then obtain selected where s: "claim_workflow (version = 2) ?child w =
      Inr (?child\<lparr>jb_runs_on := (if wf_version selected = 2 then wf_runs_on selected else [])\<rparr>, selected)"
    using claim_workflow_accepts [OF _ v, of version ?child] by (auto simp: sent_job_def)
  let ?request = "?child\<lparr>jb_runs_on := (if wf_version selected = 2 then wf_runs_on selected else [])\<rparr>"
  have a: "assigned_from w ?request selected" using claim_workflow_Inr(5) [OF s v] .
  have len: "length (claim_fields p lease policy) = 14" by (simp add: claim_fields_def)
  have "length rest = (if version = 2 then 18 else 16) - 15" by (simp add: rest)
  then have sisters: "claim_sisters (if version = 2 then 18 else 16) ?lines = Inr (map (\<lambda>s. s\<lparr>rs_checkout := fresh_checkout\<rparr>) (pj_sisters p))"
    using claim_sisters_written [OF ok(1), of rest] by simp
  have at: "?lines ! (15 + length (pj_sisters p)) = ''workflow_hex='' @ hexEncode (pj_workflow_text p)"
    "drop (16 + length (pj_sisters p)) ?lines = tl rest"
    using len at_split [of l "claim_fields p lease policy" "map sister_line (pj_sisters p)" "15 + length (pj_sisters p)" "hd rest" "tl rest"]
    by (simp_all add: rest)
  have child: "claim_child (version = 2) (tl rest) (sent_job (pj_job p)) = Inr ?child"
    using w(2) by (auto simp: claim_child_def rest protocol_field_def starts_with_def assignment_ok_def sent_job_def split: if_splits)
  have hex: "protocol_field (''workflow_hex='' @ hexEncode t) ''workflow_hex='' = Inr (hexEncode t)" for t
    by (simp add: protocol_field_def starts_with_def)
  have dec: "decodeHex (hexEncode (pj_workflow_text p)) kMaximumCiWorkflowBytes ''workflow'' = Inr (pj_workflow_text p)"
    using ok(1) by (simp add: decodeHex_def prepared_ok_def Let_def kMaximumCiWorkflowBytes_def)
  have inv: "\<not> invalid_claim (sent_job (pj_job p)) (ls_token lease) (if pj_is_release p then pj_release_tag p else [])"
    using ok(1,3) by (auto simp: invalid_claim_def sent_job_def prepared_ok_def Let_def)
  have lift: "lifted (Inr x) = Inr x" for x :: 'x by (simp add: lifted_def)
  have "claim_body (version = 2) ?lines = Inr \<lparr>rj_prepared = \<lparr>pj_job = ?request, pj_workflow_text = pj_workflow_text p, pj_workflow = selected,
      pj_is_release = ((if pj_is_release p then pj_release_tag p else []) \<noteq> []), pj_release_tag = (if pj_is_release p then pj_release_tag p else []),
      pj_is_default_branch = pj_is_default_branch p,
      pj_sisters = map (with_history (wf_sisters selected)) (map (\<lambda>s. s\<lparr>rs_checkout := fresh_checkout\<rparr>) (pj_sisters p))\<rparr>,
    rj_token = ls_token lease, rj_policy = policy\<rparr>"
    unfolding claim_body_def claim_job_written [OF ok(1)] claim_policy_written [OF ok(2)] sisters length_map at hex lift bindE_Inr prod.case dec
      w(1) child s using inv by (simp only: if_False)
  moreover have "(if pj_is_release p then pj_release_tag p else []) = pj_release_tag p" "pj_is_release p \<longleftrightarrow> pj_release_tag p \<noteq> []"
    using ok(1) by (auto simp: prepared_ok_def Let_def isValidReleaseTag_def split: if_splits)
  moreover have "pj_job (received p selected) = ?request" by (simp add: received_def)
  ultimately show ?thesis using a by (intro exI [of _ selected]) (simp add: received_def comp_def)
qed

lemma claim_answer_read:
  assumes "prepared_ok p" "policy_ok policy" "isLeaseToken (ls_token lease)"
    and "parseCiWorkflow (pj_workflow_text p) = Inr w" "assignment_ok version w (pj_job p)"
  shows "\<exists>answer selected. formatCiClaimResponse p lease policy version = Inr answer \<and>
    parseCiClaimResponse answer = Inr (Some \<lparr>rj_prepared = received p selected, rj_token = ls_token lease, rj_policy = policy\<rparr>) \<and>
    assigned_from w (pj_job (received p selected)) selected"
proof -
  let ?tail = "if version = 2 then [''parent_run_id='' @ jb_parent_run_id (pj_job p), ''workflow_job='' @ jb_workflow_job (pj_job p)] else []"
  let ?rest = "(''workflow_hex='' @ hexEncode (pj_workflow_text p)) # ?tail"
  let ?head = "if version = 2 then ''job2'' else ''job''"
  let ?lines = "?head # claim_fields p lease policy @ map sister_line (pj_sisters p) @ ?rest"
  have v: "workflow_valid w" using assms(4) by (rule workflow_Inr)
  note t = assigned_text [OF assms(5) v] and c = claim_text_ok [OF assms(1-3)]
  have "formatCiClaimResponse p lease policy version = Inr (unlines ?lines)"
    using assms(5) by (auto simp: formatCiClaimResponse_def assignment_ok_def split: if_splits)
  moreover have "protocol_lines (unlines ?lines) = Inr ?lines"
    using c(1) t(1,2) by (auto simp: protocol_lines_iff)
  moreover have "length (pj_workflow_text p) \<le> 65536" using assms(1) by (simp add: prepared_ok_def Let_def)
  then have "length (unlines ?lines) \<le> kMaximumCiClaimResponseBytes"
    using c(2) t(3,4) by (simp add: kMaximumCiClaimResponseBytes_def)
  moreover have "unlines ?lines \<noteq> ''none'' @ [newline]" by simp
  moreover have "length ?lines \<ge> (if version = 2 then 18 else 16)" by (simp add: claim_fields_def)
  moreover obtain selected where "assigned_from w (pj_job (received p selected)) selected"
    "claim_body (version = 2) ?lines = Inr \<lparr>rj_prepared = received p selected, rj_token = ls_token lease, rj_policy = policy\<rparr>"
    using claim_body_written [OF assms refl] by blast
  ultimately show ?thesis by (auto simp: parseCiClaimResponse_def lifted_def Let_def split: if_splits)
qed

text \<open>
  C10: the answer the main host writes for a prepared job is one the runner accepts, and the runner then holds the same job,
  with the same commit, attempt, release tag, sisters, token and policy, and with the workflow reduced to the job that was
  assigned. It never exceeds the size the runner reads.
\<close>

theorem claim_answer_delivered:
  assumes "prepared_ok p" "policy_ok policy" "isLeaseToken (ls_token lease)"
    and "parseCiWorkflow (pj_workflow_text p) = Inr w" "assignment_ok version w (pj_job p)"
  shows "\<exists>answer selected. formatCiClaimResponse p lease policy version = Inr answer \<and>
    parseCiClaimResponse answer = Inr (Some \<lparr>rj_prepared = received p selected, rj_token = ls_token lease, rj_policy = policy\<rparr>) \<and>
    assigned_from w (pj_job (received p selected)) selected"
  using assms by (rule claim_answer_read)

definition sample_prepared :: CiPreparedJob where
  "sample_prepared = \<lparr>pj_job = \<lparr>jb_job_id = ''c2'', jb_project_name = ''demo'', jb_ref = ''refs/heads/main'', jb_commit_id = replicate 40 (CHR ''a''),
       jb_client_id = ''dev'', jb_queued_epoch_seconds = 5, jb_attempt = 2, jb_runs_on = [], jb_auto_cancel = True, jb_parent_run_id = ''c1'',
       jb_workflow_job = ''build'', jb_needs = [], jb_dependency_lock_sha256 = []\<rparr>,
     pj_workflow_text = sample_file, pj_workflow = sample_workflow, pj_is_release = False, pj_release_tag = [],
     pj_is_default_branch = True,
     pj_sisters = [\<lparr>rs_name = ''lib'', rs_commit = replicate 40 (CHR ''b''), rs_checkout = fresh_checkout\<rparr>]\<rparr>"

definition sample_policy :: CiRemotePolicy where
  "sample_policy = \<lparr>rp_timeout_seconds = 1800, rp_max_log_bytes = 1048576, rp_artifact_max_bytes = 268435456, rp_allow_network = False,
     rp_lease_seconds = 120\<rparr>"

definition sample_lease :: CiLease where
  "sample_lease = \<lparr>ls_runner = ''r1'', ls_token = replicate 32 (CHR ''7''), ls_expires_epoch_seconds = 100\<rparr>"

lemma sample_prepared_ok: "prepared_ok sample_prepared"
proof -
  have "length sample_file \<le> 250" by (simp add: sample_file_def)
  moreover have "isValidProjectName ''demo''" "isValidProjectName ''lib''" "isValidCiId ''c2''" by code_simp+
  ultimately show ?thesis
    by (simp add: prepared_ok_def sample_prepared_def sister_ok_def isValidObjectId_def isLowercaseHex_def u32_max_def char_class)
qed

lemma sample_policy_ok: "policy_ok sample_policy"
  by (simp add: policy_ok_def sample_policy_def u32_max_def u64_max_def)

lemma sample_prepared_read: "parseCiWorkflow (pj_workflow_text sample_prepared) = Inr sample_workflow"
  by (simp add: sample_prepared_def sample_read)

lemma sample_assignment_ok: "assignment_ok 2 sample_workflow (pj_job sample_prepared)"
proof -
  have "isValidCiId ''c1''" by code_simp
  then show ?thesis by (simp add: assignment_ok_def sample_prepared_def sample_workflow_def sample_jobs_def)
qed

theorem claim_answer_delivered_witness:
  "\<exists>answer selected. formatCiClaimResponse sample_prepared sample_lease sample_policy 2 = Inr answer \<and>
    parseCiClaimResponse answer = Inr (Some \<lparr>rj_prepared = received sample_prepared selected, rj_token = ls_token sample_lease,
      rj_policy = sample_policy\<rparr>) \<and>
    assigned_from sample_workflow (pj_job (received sample_prepared selected)) selected"
proof (rule claim_answer_delivered [OF sample_prepared_ok sample_policy_ok _ sample_prepared_read sample_assignment_ok])
  show "isLeaseToken (ls_token sample_lease)" by (simp add: isLeaseToken_def sample_lease_def list_all_iff char_class)
qed

end
