(* ===== verification/Ck_Ci_Vm_Protocol.thy ===== *)
theory Ck_Ci_Vm_Protocol
  imports Ck_Ci_Claim_Answer
begin

text \<open>
  The channel between the host of a build VM and the guest in it, \<open>src/common/ci_vm_protocol.cpp\<close>: the frames with their
  decoder, the assignment without credentials, the checkout requests, and the accounting of what the guest sends.
  A read of the socket is the chunk of bytes it returned; the list of the chunks is an argument, and it ends where the
  peer closed the socket. Timeouts and cancellation only end a channel and are left out. Shown here: frames arrive as they
  were sent whatever chunks the socket makes of them, an assignment arrives without network access, a guest can only
  check out what its assignment names, and an accepted stream of output keeps every limit.
\<close>

section \<open>Frames\<close>

datatype CiVmFrameType = VmHello | VmAssignment | VmRequest | VmEvent | VmChunk | VmDone | VmCancel | VmError

record CiVmFrame =
  vf_type :: CiVmFrameType
  vf_payload :: string

fun frame_number :: "CiVmFrameType \<Rightarrow> nat" where
  "frame_number VmHello = 1"
| "frame_number VmAssignment = 2"
| "frame_number VmRequest = 3"
| "frame_number VmEvent = 4"
| "frame_number VmChunk = 5"
| "frame_number VmDone = 6"
| "frame_number VmCancel = 7"
| "frame_number VmError = 8"

definition frame_type :: "nat \<Rightarrow> CiVmFrameType option" where
  "frame_type n = map_of [(1, VmHello), (2, VmAssignment), (3, VmRequest), (4, VmEvent), (5, VmChunk), (6, VmDone), (7, VmCancel), (8, VmError)] n"

definition kCiVmControlPayloadMax :: nat where "kCiVmControlPayloadMax = 256 * 1024"
definition kCiVmChunkPayloadMax :: nat where "kCiVmChunkPayloadMax = 64 * 1024"
definition kCiVmInputBufferMax :: nat where "kCiVmInputBufferMax = 512 * 1024"

definition frame_limit :: "CiVmFrameType \<Rightarrow> nat" where
  "frame_limit t = (if t = VmChunk then kCiVmChunkPayloadMax else kCiVmControlPayloadMax)"

definition encodeCiVmFrame :: "CiVmFrameType \<Rightarrow> string \<Rightarrow> string result" where
  "encodeCiVmFrame t payload =
     (if length payload > frame_limit t then Inl (Invalid_Argument ''invalid VM frame'')
      else Inr (''CKV1'' @ [char_of (frame_number t)] @ map (\<lambda>shift. char_of (length payload div 2 ^ shift)) [24, 16, 8, 0] @ payload))"

section \<open>The decoder\<close>

record CiVmFrameDecoder =
  fd_input :: string
  fd_failed :: bool

definition fresh_decoder :: CiVmFrameDecoder where
  "fresh_decoder = \<lparr>fd_input = [], fd_failed = False\<rparr>"

definition poisoned :: CiVmFrameDecoder where
  "poisoned = \<lparr>fd_input = [], fd_failed = True\<rparr>"

definition already_failed :: "'a result" where
  "already_failed = Inl (Invalid_Argument ''VM frame decoder already failed'')"

definition decoder_feed :: "CiVmFrameDecoder \<Rightarrow> string \<Rightarrow> CiVmFrameDecoder \<times> unit result" where
  "decoder_feed d bytes =
     (if fd_failed d then (d, already_failed)
      else if length bytes > kCiVmInputBufferMax - length (fd_input d) then (poisoned, Inl (Invalid_Argument ''VM frame input buffer exceeded''))
      else (d\<lparr>fd_input := fd_input d @ bytes\<rparr>, Inr ()))"

text \<open>The length is four bytes, highest first; the shifted value has eight zero bits for the next one.\<close>

definition frame_size :: "string \<Rightarrow> nat" where
  "frame_size header = foldl (\<lambda>size c. size * 256 + byte c) 0 (take 4 (drop 5 header))"

definition decoder_next :: "CiVmFrameDecoder \<Rightarrow> CiVmFrameDecoder \<times> CiVmFrame option result" where
  "decoder_next d =
     (let input = fd_input d; reject = (poisoned, Inl (Invalid_Argument ''malformed or oversized VM frame'')) in
      if fd_failed d then (d, already_failed)
      else if length input < 9 then (d, Inr None)
      else if take 4 input \<noteq> ''CKV1'' then reject
      else case frame_type (byte (input ! 4)) of
        None \<Rightarrow> reject
      | Some t \<Rightarrow>
          if frame_size input > frame_limit t then reject
          else if length input - 9 < frame_size input then (d, Inr None)
          else (d\<lparr>fd_input := drop (9 + frame_size input) input\<rparr>,
                Inr (Some \<lparr>vf_type = t, vf_payload = take (frame_size input) (drop 9 input)\<rparr>)))"

definition decoder_finish :: "CiVmFrameDecoder \<Rightarrow> CiVmFrameDecoder \<times> unit result" where
  "decoder_finish d =
     (if fd_failed d then (d, already_failed)
      else if fd_input d \<noteq> [] then (poisoned, Inl (Invalid_Argument ''truncated VM frame at EOF''))
      else (d, Inr ()))"

section \<open>The channel\<close>

record CiVmChannel =
  ch_decoder :: CiVmFrameDecoder
  ch_failed :: bool

definition fresh_channel :: CiVmChannel where
  "fresh_channel = \<lparr>ch_decoder = fresh_decoder, ch_failed = False\<rparr>"

text \<open>The loop of \<open>receive\<close>: a frame that is complete, or more bytes of the socket.\<close>

fun receive_loop :: "CiVmFrameDecoder \<Rightarrow> string list \<Rightarrow> CiVmFrameDecoder \<times> string list \<times> CiVmFrame result" where
  "receive_loop d chunks =
     (case decoder_next d of
        (d', Inl e) \<Rightarrow> (d', chunks, Inl e)
      | (d', Inr (Some f)) \<Rightarrow> (d', chunks, Inr f)
      | (d', Inr None) \<Rightarrow>
          (case chunks of
             [] \<Rightarrow> (case decoder_finish d' of
                      (d'', Inl e) \<Rightarrow> (d'', [], Inl e)
                    | (d'', Inr _) \<Rightarrow> (d'', [], Inl (Runtime_Error ''VM socket closed'')))
           | chunk # chunks' \<Rightarrow> (case decoder_feed d' chunk of
                      (d'', Inl e) \<Rightarrow> (d'', chunks', Inl e)
                    | (d'', Inr _) \<Rightarrow> receive_loop d'' chunks')))"

declare receive_loop.simps [simp del]

definition channel_receive :: "CiVmChannel \<Rightarrow> string list \<Rightarrow> CiVmChannel \<times> string list \<times> CiVmFrame result" where
  "channel_receive ch chunks =
     (if ch_failed ch then (ch, chunks, Inl (Runtime_Error ''VM channel already failed''))
      else case receive_loop (ch_decoder ch) chunks of
        (d, chunks', Inl e) \<Rightarrow> (\<lparr>ch_decoder = d, ch_failed = True\<rparr>, chunks', Inl e)
      | (d, chunks', Inr f) \<Rightarrow> (ch\<lparr>ch_decoder := d\<rparr>, chunks', Inr f))"

text \<open>The next \<open>n\<close> frames of a channel, as its owner receives them.\<close>

fun receive_frames :: "nat \<Rightarrow> CiVmChannel \<Rightarrow> string list \<Rightarrow> CiVmChannel \<times> string list \<times> CiVmFrame list result" where
  "receive_frames 0 ch chunks = (ch, chunks, Inr [])"
| "receive_frames (Suc n) ch chunks =
     (case channel_receive ch chunks of
        (ch', chunks', Inl e) \<Rightarrow> (ch', chunks', Inl e)
      | (ch', chunks', Inr f) \<Rightarrow>
          (case receive_frames n ch' chunks' of
             (ch'', chunks'', Inl e) \<Rightarrow> (ch'', chunks'', Inl e)
           | (ch'', chunks'', Inr frames) \<Rightarrow> (ch'', chunks'', Inr (f # frames))))"

section \<open>Frames arrive as they were sent\<close>

definition frame_sendable :: "CiVmFrame \<Rightarrow> bool" where
  "frame_sendable f \<longleftrightarrow> length (vf_payload f) \<le> frame_limit (vf_type f)"

definition frame_bytes :: "CiVmFrame \<Rightarrow> string" where
  "frame_bytes f = ''CKV1'' @ [char_of (frame_number (vf_type f))]
     @ map (\<lambda>shift. char_of (length (vf_payload f) div 2 ^ shift)) [24, 16, 8, 0] @ vf_payload f"

lemma encode_frame: "frame_sendable f \<Longrightarrow> encodeCiVmFrame (vf_type f) (vf_payload f) = Inr (frame_bytes f)"
  by (simp add: encodeCiVmFrame_def frame_sendable_def frame_bytes_def)

lemma frame_type_number [simp]: "frame_type (frame_number t) = Some t"
  by (cases t) (simp_all add: frame_type_def)

lemma frame_number_small: "frame_number t < 256"
  by (cases t) simp_all

lemma length_frame_bytes: "length (frame_bytes f) = 9 + length (vf_payload f)"
  by (simp add: frame_bytes_def)

lemma frame_limit_small: "frame_limit t \<le> 262144"
  by (simp add: frame_limit_def kCiVmChunkPayloadMax_def kCiVmControlPayloadMax_def)

lemma four_bytes:
  assumes "(n::nat) < 2 ^ 32"
  shows "((n div 2 ^ 24 mod 256 * 256 + n div 2 ^ 16 mod 256) * 256 + n div 2 ^ 8 mod 256) * 256 + n mod 256 = n"
proof -
  have "n div 2 ^ 24 mod 256 = n div 2 ^ 16 div 256" using assms by (simp add: div_mult2_eq [symmetric] less_mult_imp_div_less)
  moreover have "n div 2 ^ 16 = n div 2 ^ 8 div 256" "n div 2 ^ 8 = n div 256" by (simp_all add: div_mult2_eq [symmetric])
  ultimately show ?thesis by (metis div_mult_mod_eq)
qed

lemma frame_size_sent:
  assumes "frame_sendable f"
  shows "frame_size (frame_bytes f @ ahead) = length (vf_payload f)"
proof -
  have "length (vf_payload f) < 2 ^ 32" using assms frame_limit_small [of "vf_type f"] by (simp add: frame_sendable_def)
  then show ?thesis using four_bytes [of "length (vf_payload f)"] by (simp add: frame_size_def frame_bytes_def of_char_of)
qed

text \<open>The first bytes of a frame are enough to read its header.\<close>

lemma header_prefix:
  assumes "input @ ahead = frame_bytes f @ rest" "9 \<le> length input"
  shows "take 4 input = ''CKV1''" "byte (input ! 4) = frame_number (vf_type f)" "frame_size input = frame_size (frame_bytes f @ rest)"
proof -
  have t: "take 9 input = take 9 (frame_bytes f @ rest)" using assms by (metis append_take_drop_id diff_is_0_eq take0 take_append append_Nil2)
  have "take 4 input = take 4 (take 9 input)" by simp
  then show "take 4 input = ''CKV1''" unfolding t by (simp add: frame_bytes_def)
  have "input ! 4 = take 9 input ! 4" by simp
  then show "byte (input ! 4) = frame_number (vf_type f)"
    unfolding t using frame_number_small [of "vf_type f"] by (simp add: frame_bytes_def of_char_of)
  have "take 4 (drop 5 x) = drop 5 (take 9 x)" for x :: string by (simp add: drop_take)
  then show "frame_size input = frame_size (frame_bytes f @ rest)" by (simp only: frame_size_def t)
qed

lemma decoder_next_sent:
  assumes "fd_input d @ ahead = frame_bytes f @ rest" "frame_sendable f" "\<not> fd_failed d"
  shows "if length (fd_input d) < length (frame_bytes f) then decoder_next d = (d, Inr None)
    else decoder_next d = (d\<lparr>fd_input := drop (length (frame_bytes f)) (fd_input d)\<rparr>, Inr (Some f))"
proof (cases "length (fd_input d) < 9")
  case True
  then show ?thesis using assms(3) by (simp add: decoder_next_def Let_def length_frame_bytes)
next
  case False
  let ?n = "length (vf_payload f)"
  from False have h: "take 4 (fd_input d) = ''CKV1''" "byte (fd_input d ! 4) = frame_number (vf_type f)" "frame_size (fd_input d) = ?n"
    using header_prefix [OF assms(1)] frame_size_sent [OF assms(2), of rest] by simp_all
  have small: "\<not> ?n > frame_limit (vf_type f)" using assms(2) by (simp add: frame_sendable_def)
  show ?thesis
  proof (cases "length (fd_input d) - 9 < ?n")
    case True
    then show ?thesis using False h small assms(3) by (simp add: decoder_next_def Let_def length_frame_bytes)
  next
    case whole: False
    have "take (9 + ?n) (fd_input d) = frame_bytes f"
      using assms(1) whole False length_frame_bytes [of f] by (metis append_eq_append_conv_if append_take_drop_id le_add_diff_inverse not_less nat_add_left_cancel_le)
    then have "drop 9 (take (9 + ?n) (fd_input d)) = vf_payload f" by (simp add: frame_bytes_def)
    then have "take ?n (drop 9 (fd_input d)) = vf_payload f" by (simp add: drop_take)
    then show ?thesis using False whole h small assms(3) by (cases f) (simp add: decoder_next_def Let_def length_frame_bytes)
  qed
qed

lemma receive_loop_sent:
  assumes "frame_sendable f"
  shows "\<not> fd_failed d \<Longrightarrow> fd_input d @ concat chunks = frame_bytes f @ rest \<Longrightarrow> list_all (\<lambda>c. length c \<le> 65536) chunks \<Longrightarrow>
    \<exists>d' chunks'. receive_loop d chunks = (d', chunks', Inr f) \<and> \<not> fd_failed d' \<and> fd_input d' @ concat chunks' = rest
      \<and> list_all (\<lambda>c. length c \<le> 65536) chunks'"
proof (induction chunks arbitrary: d)
  case Nil
  then have "\<not> length (fd_input d) < length (frame_bytes f)" by simp
  then have "decoder_next d = (d\<lparr>fd_input := drop (length (frame_bytes f)) (fd_input d)\<rparr>, Inr (Some f))"
    using decoder_next_sent [OF _ assms Nil(1), of "[]" rest] Nil(2) by simp
  then show ?case using Nil by (subst receive_loop.simps) simp
next
  case (Cons chunk chunks)
  note sent = decoder_next_sent [OF Cons.prems(2) assms Cons.prems(1)]
  show ?case
  proof (cases "length (fd_input d) < length (frame_bytes f)")
    case True
    have "length (fd_input d) \<le> 9 + 262144"
      using True assms frame_limit_small [of "vf_type f"] by (simp add: length_frame_bytes frame_sendable_def)
    then have "decoder_feed d chunk = (d\<lparr>fd_input := fd_input d @ chunk\<rparr>, Inr ())"
      using Cons.prems(1,3) by (simp add: decoder_feed_def kCiVmInputBufferMax_def not_less) linarith
    moreover have "decoder_next d = (d, Inr None)" using sent True by simp
    moreover have "\<exists>d' chunks'. receive_loop (d\<lparr>fd_input := fd_input d @ chunk\<rparr>) chunks = (d', chunks', Inr f) \<and> \<not> fd_failed d'
        \<and> fd_input d' @ concat chunks' = rest \<and> list_all (\<lambda>c. length c \<le> 65536) chunks'"
      using Cons.IH [of "d\<lparr>fd_input := fd_input d @ chunk\<rparr>"] Cons.prems by simp
    ultimately show ?thesis by (subst receive_loop.simps) simp
  next
    case False
    then have "decoder_next d = (d\<lparr>fd_input := drop (length (frame_bytes f)) (fd_input d)\<rparr>, Inr (Some f))" using sent by simp
    moreover have "drop (length (frame_bytes f)) (fd_input d) @ concat (chunk # chunks) = rest"
      using Cons.prems(2) False by (metis append_eq_append_conv_if drop_append append_eq_conv_conj diff_is_0_eq drop0 not_less)
    ultimately show ?thesis using Cons.prems by (subst receive_loop.simps) simp
  qed
qed

text \<open>
  C13: whatever pieces the socket makes of the bytes, as long as a read returns at most 64 KiB, the frames that were sent are
  the frames that are received, in the same order, with nothing left over; the buffer of the decoder never overflows.
\<close>

theorem vm_frames_delivered:
  assumes "list_all frame_sendable frames" "concat chunks = concat (map frame_bytes frames)" "list_all (\<lambda>c. length c \<le> 65536) chunks"
  shows "\<exists>ch chunks'. receive_frames (length frames) fresh_channel chunks = (ch, chunks', Inr frames)
    \<and> fd_input (ch_decoder ch) @ concat chunks' = [] \<and> \<not> ch_failed ch"
proof -
  have "\<exists>ch' chunks'. receive_frames (length fs) ch chunks = (ch', chunks', Inr fs)
      \<and> fd_input (ch_decoder ch') @ concat chunks' = [] \<and> \<not> ch_failed ch'"
    if "list_all frame_sendable fs" "fd_input (ch_decoder ch) @ concat chunks = concat (map frame_bytes fs)"
      "list_all (\<lambda>c. length c \<le> 65536) chunks" "\<not> ch_failed ch" "\<not> fd_failed (ch_decoder ch)" for fs ch chunks
    using that
  proof (induction fs arbitrary: ch chunks)
    case (Cons f fs)
    have "\<exists>d' chunks'. receive_loop (ch_decoder ch) chunks = (d', chunks', Inr f) \<and> \<not> fd_failed d'
        \<and> fd_input d' @ concat chunks' = concat (map frame_bytes fs) \<and> list_all (\<lambda>c. length c \<le> 65536) chunks'"
      using Cons.prems by (intro receive_loop_sent) simp_all
    then obtain d' chunks' where r: "receive_loop (ch_decoder ch) chunks = (d', chunks', Inr f)" "\<not> fd_failed d'"
      "fd_input d' @ concat chunks' = concat (map frame_bytes fs)" "list_all (\<lambda>c. length c \<le> 65536) chunks'" by blast
    then have "channel_receive ch chunks = (ch\<lparr>ch_decoder := d'\<rparr>, chunks', Inr f)" using Cons.prems(4) by (simp add: channel_receive_def)
    then show ?case using Cons.IH [of "ch\<lparr>ch_decoder := d'\<rparr>" chunks'] Cons.prems r by auto
  qed simp
  from this [OF assms(1) _ assms(3), of fresh_channel] assms(2) show ?thesis by (simp add: fresh_channel_def fresh_decoder_def)
qed

text \<open>Two frames that arrive in three pieces, cut inside the header of the second.\<close>

theorem vm_frames_delivered_witness:
  "\<exists>ch chunks'. receive_frames 2 fresh_channel
      [''CKV1'', CHR 0x01 # CHR 0x00 # CHR 0x00 # CHR 0x00 # CHR 0x02 # ''hiCKV'', CHR ''1'' # [CHR 0x06, CHR 0x00, CHR 0x00, CHR 0x00, CHR 0x00]]
      = (ch, chunks', Inr [\<lparr>vf_type = VmHello, vf_payload = ''hi''\<rparr>, \<lparr>vf_type = VmDone, vf_payload = []\<rparr>])
    \<and> fd_input (ch_decoder ch) @ concat chunks' = [] \<and> \<not> ch_failed ch"
proof -
  have c: "char_of (0::nat) = CHR 0x00" "char_of (1::nat) = CHR 0x01" "char_of (Suc 0) = CHR 0x01" "char_of (Suc (Suc 0)) = CHR 0x02"
    "char_of (6::nat) = CHR 0x06" by code_simp+
  have b: "frame_bytes \<lparr>vf_type = VmHello, vf_payload = ''hi''\<rparr> = ''CKV1'' @ CHR 0x01 # CHR 0x00 # CHR 0x00 # CHR 0x00 # CHR 0x02 # ''hi''"
    "frame_bytes \<lparr>vf_type = VmDone, vf_payload = []\<rparr> = ''CKV1'' @ [CHR 0x06, CHR 0x00, CHR 0x00, CHR 0x00, CHR 0x00]"
    by (simp_all add: frame_bytes_def c)
  let ?frames = "[\<lparr>vf_type = VmHello, vf_payload = ''hi''\<rparr>, \<lparr>vf_type = VmDone, vf_payload = []\<rparr>]"
  let ?chunks = "[''CKV1'', CHR 0x01 # CHR 0x00 # CHR 0x00 # CHR 0x00 # CHR 0x02 # ''hiCKV'', CHR ''1'' # [CHR 0x06, CHR 0x00, CHR 0x00, CHR 0x00, CHR 0x00]]"
  have "list_all frame_sendable ?frames"
    by (simp add: frame_sendable_def frame_limit_def kCiVmControlPayloadMax_def)
  moreover have "concat ?chunks = concat (map frame_bytes ?frames)" by (simp add: b)
  moreover have "list_all (\<lambda>c. length c \<le> 65536) ?chunks" by simp
  moreover have "length ?frames = 2" by simp
  ultimately show ?thesis using vm_frames_delivered [of ?frames ?chunks] by metis
qed

section \<open>Assignments\<close>

record CiVmAssignment =
  va_prepared :: CiPreparedJob
  va_policy :: CiRemotePolicy

definition unusable_lease :: CiLease where
  "unusable_lease = \<lparr>ls_runner = [], ls_token = replicate 32 (CHR ''0''), ls_expires_epoch_seconds = 0\<rparr>"

definition safe_policy :: "CiRemotePolicy \<Rightarrow> CiRemotePolicy" where
  "safe_policy policy = policy\<lparr>rp_allow_network := False, rp_lease_seconds := 1\<rparr>"

definition formatCiVmAssignment :: "CiPreparedJob \<Rightarrow> CiRemotePolicy \<Rightarrow> string result" where
  "formatCiVmAssignment prepared policy =
     bindE (formatCiClaimResponse prepared unusable_lease (safe_policy policy) 2) (\<lambda>payload.
     if length payload > kCiVmControlPayloadMax then Inl (Invalid_Argument ''VM assignment too large'') else Inr payload)"

definition bad_assignment :: "'a parsed" where
  "bad_assignment = Inl (Thrown (Invalid_Argument ''invalid or noncanonical VM assignment''))"

definition parseCiVmAssignment :: "string \<Rightarrow> CiVmAssignment parsed" where
  "parseCiVmAssignment payload =
     (if length payload > kCiVmControlPayloadMax then Inl (Thrown (Invalid_Argument ''VM assignment too large''))
      else bindE (parseCiClaimResponse payload) (\<lambda>parsed.
      case parsed of None \<Rightarrow> bad_assignment
      | Some remote \<Rightarrow>
          if rj_token remote \<noteq> replicate 32 (CHR ''0'') \<or> rp_allow_network (rj_policy remote) \<or> rp_lease_seconds (rj_policy remote) \<noteq> 1
          then bad_assignment
          else bindE (lifted (formatCiVmAssignment (rj_prepared remote) (rj_policy remote))) (\<lambda>canonical.
            if canonical \<noteq> payload then bad_assignment
            else Inr \<lparr>va_prepared = rj_prepared remote, va_policy = rj_policy remote\<rparr>)))"

text \<open>The text depends on nothing the reader drops.\<close>

lemma format_received:
  assumes "prepared_ok p"
  shows "formatCiClaimResponse (received p selected) lease policy version = formatCiClaimResponse p lease policy version"
proof -
  have "map sister_line (pj_sisters (received p selected)) = map sister_line (pj_sisters p)" by (simp add: received_def sister_line_def)
  moreover have "claim_fields (received p selected) lease policy = claim_fields p lease policy"
    by (simp add: claim_fields_def received_def sent_job_def)
  ultimately show ?thesis by (simp add: formatCiClaimResponse_def) (simp add: received_def sent_job_def)
qed

lemma vm_assignment_sent:
  assumes "prepared_ok p" "policy_ok policy" "parseCiWorkflow (pj_workflow_text p) = Inr w" "assignment_ok 2 w (pj_job p)"
  shows "\<exists>payload selected. formatCiVmAssignment p policy = Inr payload
    \<and> parseCiVmAssignment payload = Inr \<lparr>va_prepared = received p selected, va_policy = safe_policy policy\<rparr>
    \<and> assigned_from w (pj_job (received p selected)) selected"
proof -
  have "policy_ok (safe_policy policy)" using assms(2) by (simp add: policy_ok_def safe_policy_def u32_max_def)
  moreover have "isLeaseToken (ls_token unusable_lease)" by (simp add: isLeaseToken_def unusable_lease_def list_all_iff char_class)
  ultimately obtain answer selected where a: "formatCiClaimResponse p unusable_lease (safe_policy policy) 2 = Inr answer"
    "parseCiClaimResponse answer = Inr (Some \<lparr>rj_prepared = received p selected, rj_token = ls_token unusable_lease, rj_policy = safe_policy policy\<rparr>)"
    "assigned_from w (pj_job (received p selected)) selected"
    using claim_answer_read [OF assms(1) _ _ assms(3,4)] by blast
  have len: "length answer \<le> kCiVmControlPayloadMax"
    using a(2) by (auto simp: parseCiClaimResponse_def kMaximumCiClaimResponseBytes_def kCiVmControlPayloadMax_def split: if_splits)
  have f: "formatCiVmAssignment p policy = Inr answer" using a(1) len by (simp add: formatCiVmAssignment_def)
  have "safe_policy (safe_policy policy) = safe_policy policy" by (simp add: safe_policy_def)
  then have "formatCiVmAssignment (received p selected) (safe_policy policy) = Inr answer"
    using f by (simp add: formatCiVmAssignment_def format_received [OF assms(1)])
  then have "parseCiVmAssignment answer = Inr \<lparr>va_prepared = received p selected, va_policy = safe_policy policy\<rparr>"
    using a(2) len by (simp add: parseCiVmAssignment_def unusable_lease_def lifted_def) (simp add: safe_policy_def)
  then show ?thesis using f a(3) by blast
qed

section \<open>The handshake\<close>

text \<open>What is sent goes out whole, or the channel fails.\<close>

definition channel_send :: "CiVmChannel \<Rightarrow> CiVmFrameType \<Rightarrow> string \<Rightarrow> CiVmChannel \<times> string result" where
  "channel_send ch t payload =
     (if ch_failed ch then (ch, Inl (Runtime_Error ''VM channel already failed''))
      else case encodeCiVmFrame t payload of
        Inl e \<Rightarrow> (ch\<lparr>ch_failed := True\<rparr>, Inl e)
      | Inr bytes \<Rightarrow> (ch, Inr bytes))"

definition greeting :: string where "greeting = ''ckgit-vm-guest-v1''"

definition invalidated :: "CiVmChannel \<Rightarrow> CiVmChannel" where
  "invalidated ch = ch\<lparr>ch_failed := True\<rparr>"

text \<open>The host reads the greeting and sends the assignment: the bytes it sends, or the error.\<close>

definition ciVmHostHandshake :: "CiVmChannel \<Rightarrow> string list \<Rightarrow> CiPreparedJob \<Rightarrow> CiRemotePolicy \<Rightarrow> CiVmChannel \<times> string result" where
  "ciVmHostHandshake ch chunks a policy =
     (case channel_receive ch chunks of
        (ch', _, Inl e) \<Rightarrow> (invalidated ch', Inl e)
      | (ch', _, Inr hello) \<Rightarrow>
          if vf_type hello \<noteq> VmHello \<or> vf_payload hello \<noteq> greeting
          then (invalidated ch', Inl (Invalid_Argument ''unexpected VM guest greeting''))
          else case formatCiVmAssignment a policy of
            Inl e \<Rightarrow> (invalidated ch', Inl e)
          | Inr payload \<Rightarrow>
              (case channel_send ch' VmAssignment payload of
                 (ch'', Inl e) \<Rightarrow> (invalidated ch'', Inl e)
               | (ch'', Inr bytes) \<Rightarrow> (ch'', Inr bytes)))"

text \<open>The guest sends its greeting and reads the assignment.\<close>

definition ciVmGuestHandshake :: "CiVmChannel \<Rightarrow> string list \<Rightarrow> CiVmChannel \<times> CiVmAssignment parsed" where
  "ciVmGuestHandshake ch chunks =
     (case channel_send ch VmHello greeting of
        (ch', Inl e) \<Rightarrow> (invalidated ch', Inl (Thrown e))
      | (ch', Inr _) \<Rightarrow>
          (case channel_receive ch' chunks of
             (ch'', _, Inl e) \<Rightarrow> (invalidated ch'', Inl (Thrown e))
           | (ch'', _, Inr f) \<Rightarrow>
               if vf_type f \<noteq> VmAssignment then (invalidated ch'', Inl (Thrown (Invalid_Argument ''unexpected VM host assignment'')))
               else case parseCiVmAssignment (vf_payload f) of
                 Inl stop \<Rightarrow> (invalidated ch'', Inl stop)
               | Inr a \<Rightarrow> (ch'', Inr a)))"

lemma channel_receive_one:
  assumes "frame_sendable f" "concat chunks = frame_bytes f" "list_all (\<lambda>c. length c \<le> 65536) chunks"
  shows "\<exists>ch chunks'. channel_receive fresh_channel chunks = (ch, chunks', Inr f) \<and> \<not> ch_failed ch"
proof -
  have "\<exists>d' chunks'. receive_loop fresh_decoder chunks = (d', chunks', Inr f) \<and> \<not> fd_failed d' \<and> fd_input d' @ concat chunks' = []
      \<and> list_all (\<lambda>c. length c \<le> 65536) chunks'"
    using assms(2,3) by (intro receive_loop_sent [OF assms(1)]) (simp_all add: fresh_decoder_def)
  then show ?thesis by (auto simp: channel_receive_def fresh_channel_def)
qed

text \<open>
  C11: the handshake between host and guest: whatever chunks the two sockets make of the bytes, the host recognises the
  greeting and sends an assignment, and the guest that reads it holds the same job with the workflow reduced to the job that
  was assigned, without network access and without a lease it could use; neither channel has failed.
\<close>

theorem vm_handshake:
  assumes "prepared_ok p" "policy_ok policy" "parseCiWorkflow (pj_workflow_text p) = Inr w" "assignment_ok 2 w (pj_job p)"
    and "encodeCiVmFrame VmHello greeting = Inr (concat to_host)" "list_all (\<lambda>c. length c \<le> 65536) to_host"
  shows "\<exists>bytes selected ch. ciVmHostHandshake fresh_channel to_host p policy = (ch, Inr bytes) \<and> \<not> ch_failed ch
    \<and> assigned_from w (pj_job (received p selected)) selected
    \<and> (\<forall>to_guest. concat to_guest = bytes \<longrightarrow> list_all (\<lambda>c. length c \<le> 65536) to_guest \<longrightarrow>
         (\<exists>ch'. ciVmGuestHandshake fresh_channel to_guest = (ch', Inr \<lparr>va_prepared = received p selected, va_policy = safe_policy policy\<rparr>)
           \<and> \<not> ch_failed ch'))"
proof -
  obtain payload selected where a: "formatCiVmAssignment p policy = Inr payload"
    "parseCiVmAssignment payload = Inr \<lparr>va_prepared = received p selected, va_policy = safe_policy policy\<rparr>"
    "assigned_from w (pj_job (received p selected)) selected"
    using vm_assignment_sent [OF assms(1-4)] by blast
  let ?hello = "\<lparr>vf_type = VmHello, vf_payload = greeting\<rparr>" and ?f = "\<lparr>vf_type = VmAssignment, vf_payload = payload\<rparr>"
  have hello: "frame_sendable ?hello" by (simp add: frame_sendable_def frame_limit_def kCiVmControlPayloadMax_def greeting_def)
  have f: "frame_sendable ?f"
    using a(1) by (auto simp: frame_sendable_def frame_limit_def formatCiVmAssignment_def elim!: bindE_InrE split: if_splits)
  have "concat to_host = frame_bytes ?hello" using assms(5) encode_frame [OF hello] by simp
  from channel_receive_one [OF hello this assms(6)] obtain ch rest where
    r: "channel_receive fresh_channel to_host = (ch, rest, Inr ?hello)" "\<not> ch_failed ch" by blast
  have host: "ciVmHostHandshake fresh_channel to_host p policy = (ch, Inr (frame_bytes ?f))"
    using r a(1) encode_frame [OF f] by (simp add: ciVmHostHandshake_def channel_send_def)
  have "\<exists>ch'. ciVmGuestHandshake fresh_channel to_guest = (ch', Inr \<lparr>va_prepared = received p selected, va_policy = safe_policy policy\<rparr>)
      \<and> \<not> ch_failed ch'" if to_guest: "concat to_guest = frame_bytes ?f" "list_all (\<lambda>c. length c \<le> 65536) to_guest" for to_guest
  proof -
    from channel_receive_one [OF f to_guest] obtain ch' rest' where "channel_receive fresh_channel to_guest = (ch', rest', Inr ?f)" "\<not> ch_failed ch'"
      by blast
    then show ?thesis using a(2) encode_frame [OF hello] by (simp add: ciVmGuestHandshake_def channel_send_def) (simp add: fresh_channel_def)
  qed
  then show ?thesis using host r(2) a(3) by blast
qed

theorem vm_handshake_witness:
  "\<exists>bytes selected ch. ciVmHostHandshake fresh_channel
        [''CKV1'', CHR 0x01 # CHR 0x00 # CHR 0x00 # CHR 0x00 # CHR 0x11 # ''ckgit-vm'', ''-guest-v1''] sample_prepared sample_policy = (ch, Inr bytes)
    \<and> \<not> ch_failed ch \<and> assigned_from sample_workflow (pj_job (received sample_prepared selected)) selected"
proof -
  let ?chunks = "[''CKV1'', CHR 0x01 # CHR 0x00 # CHR 0x00 # CHR 0x00 # CHR 0x11 # ''ckgit-vm'', ''-guest-v1'']"
  have c: "char_of (0::nat) = CHR 0x00" "char_of (1::nat) = CHR 0x01" "char_of (17::nat) = CHR 0x11" by code_simp+
  have l: "length greeting = 17" by (simp add: greeting_def)
  have "encodeCiVmFrame VmHello greeting
      = Inr (''CKV1'' @ CHR 0x01 # CHR 0x00 # CHR 0x00 # CHR 0x00 # CHR 0x11 # greeting)"
    by (simp add: encodeCiVmFrame_def frame_limit_def kCiVmControlPayloadMax_def l c flip: One_nat_def)
  then have "encodeCiVmFrame VmHello greeting = Inr (concat ?chunks)" by (simp add: greeting_def)
  from vm_handshake [OF sample_prepared_ok sample_policy_ok sample_prepared_read sample_assignment_ok this] show ?thesis
    by (simp, blast)
qed

text \<open>Whatever the guest accepts names valid things and has no network access.\<close>

lemma vm_assignment_checked:
  assumes "parseCiVmAssignment payload = Inr a"
  shows "\<not> rp_allow_network (va_policy a) \<and> rp_lease_seconds (va_policy a) = 1
    \<and> claim_ok \<lparr>rj_prepared = va_prepared a, rj_token = replicate 32 (CHR ''0''), rj_policy = va_policy a\<rparr>"
proof -
  from assms obtain remote where r: "parseCiClaimResponse payload = Inr (Some remote)" "rj_token remote = replicate 32 (CHR ''0'')"
    "\<not> rp_allow_network (rj_policy remote)" "rp_lease_seconds (rj_policy remote) = 1"
    "a = \<lparr>va_prepared = rj_prepared remote, va_policy = rj_policy remote\<rparr>"
    by (auto simp: parseCiVmAssignment_def bad_assignment_def elim!: bindE_InrE split: if_splits option.splits)
  then show ?thesis using claim_answer_ok [OF r(1)] by (cases remote) simp
qed

section \<open>Checkout requests\<close>

record CiCheckoutRequest =
  cr_project :: string
  cr_commit :: string
  cr_spec :: CiCheckout
  cr_ref :: string

definition request_matches :: "CiCheckoutRequest \<Rightarrow> string \<Rightarrow> string \<Rightarrow> CiCheckout \<Rightarrow> string \<Rightarrow> bool" where
  "request_matches r project commit spec ref \<longleftrightarrow>
     cr_project r = project \<and> cr_commit r = commit \<and> cr_ref r = ref \<and> cc_depth (cr_spec r) = cc_depth spec
     \<and> cc_since (cr_spec r) = cc_since spec \<and> cc_tags (cr_spec r) = cc_tags spec \<and> cc_archive (cr_spec r) = cc_archive spec"

definition ciVmCheckoutAllowed :: "CiPreparedJob \<Rightarrow> CiCheckoutRequest \<Rightarrow> bool" where
  "ciVmCheckoutAllowed a r \<longleftrightarrow>
     request_matches r (jb_project_name (pj_job a)) (jb_commit_id (pj_job a)) (wf_checkout (pj_workflow a)) (jb_ref (pj_job a))
     \<or> list_ex (\<lambda>s. request_matches r (rs_name s) (rs_commit s) (rs_checkout s) []) (pj_sisters a)"

definition formatCiVmCheckoutRequest :: "nat \<Rightarrow> string" where
  "formatCiVmCheckoutRequest ordinal = ''checkout '' @ to_dec ordinal"

definition parseCiVmCheckoutRequest :: "string \<Rightarrow> CiPreparedJob \<Rightarrow> CiCheckoutRequest result" where
  "parseCiVmCheckoutRequest payload a =
     (if \<not> starts_with payload ''checkout '' then Inl (Invalid_Argument ''invalid VM checkout request'')
      else let digits = drop 9 payload in
      if digits = [] \<or> (length digits > 1 \<and> hd digits = CHR ''0'') then Inl (Invalid_Argument ''invalid VM checkout ordinal'')
      else case whole_number u64_max digits of
        None \<Rightarrow> Inl (Invalid_Argument ''invalid VM checkout ordinal'')
      | Some ordinal \<Rightarrow>
          if ordinal = 0 then Inr \<lparr>cr_project = jb_project_name (pj_job a), cr_commit = jb_commit_id (pj_job a),
            cr_spec = wf_checkout (pj_workflow a), cr_ref = jb_ref (pj_job a)\<rparr>
          else if ordinal > length (pj_sisters a) then Inl (Invalid_Argument ''VM checkout ordinal out of range'')
          else let s = pj_sisters a ! (ordinal - 1) in
            Inr \<lparr>cr_project = rs_name s, cr_commit = rs_commit s, cr_spec = rs_checkout s, cr_ref = []\<rparr>)"

text \<open>A request that is read is one the assignment allows, whatever the guest wrote.\<close>

lemma checkout_confined:
  assumes "parseCiVmCheckoutRequest payload a = Inr r"
  shows "ciVmCheckoutAllowed a r"
proof -
  have sister: "ciVmCheckoutAllowed a \<lparr>cr_project = rs_name s, cr_commit = rs_commit s, cr_spec = rs_checkout s, cr_ref = []\<rparr>"
    if "s \<in> set (pj_sisters a)" for s
    using that by (auto simp: ciVmCheckoutAllowed_def request_matches_def list_ex_iff)
  obtain k where k: "k = 0 \<and> r = \<lparr>cr_project = jb_project_name (pj_job a), cr_commit = jb_commit_id (pj_job a),
        cr_spec = wf_checkout (pj_workflow a), cr_ref = jb_ref (pj_job a)\<rparr>
      \<or> 0 < k \<and> k \<le> length (pj_sisters a) \<and> r = (let s = pj_sisters a ! (k - 1) in
          \<lparr>cr_project = rs_name s, cr_commit = rs_commit s, cr_spec = rs_checkout s, cr_ref = []\<rparr>)"
    using assms by (auto simp: parseCiVmCheckoutRequest_def Let_def not_less split: if_splits option.splits)
  then show ?thesis
  proof
    assume "k = 0 \<and> r = \<lparr>cr_project = jb_project_name (pj_job a), cr_commit = jb_commit_id (pj_job a),
        cr_spec = wf_checkout (pj_workflow a), cr_ref = jb_ref (pj_job a)\<rparr>"
    then show ?thesis by (simp add: ciVmCheckoutAllowed_def request_matches_def)
  next
    assume "0 < k \<and> k \<le> length (pj_sisters a) \<and> r = (let s = pj_sisters a ! (k - 1) in
        \<lparr>cr_project = rs_name s, cr_commit = rs_commit s, cr_spec = rs_checkout s, cr_ref = []\<rparr>)"
    moreover from this have "pj_sisters a ! (k - 1) \<in> set (pj_sisters a)" by (intro nth_mem) linarith
    ultimately show ?thesis using sister by (simp add: Let_def)
  qed
qed

section \<open>Accounting of the output\<close>

record CiVmOutputGuard =
  og_jobs :: "CiJob list"
  og_max_log :: nat
  og_max_artifact :: nat
  og_logs :: "nat list"
  og_artifacts :: "bool list"
  og_remaining :: nat
  og_open :: bool

definition new_guard :: "CiPreparedJob \<Rightarrow> CiRemotePolicy \<Rightarrow> CiVmOutputGuard result" where
  "new_guard a policy =
     (let jobs = wf_jobs (pj_workflow a) in
      if length jobs > kMaximumCiJobs then Inl (Invalid_Argument ''too many VM jobs'')
      else if list_ex (\<lambda>job. length (wj_steps job) > kMaximumCiStepsPerJob) jobs then Inl (Invalid_Argument ''too many VM steps'')
      else Inr \<lparr>og_jobs = jobs, og_max_log = rp_max_log_bytes policy, og_max_artifact = rp_artifact_max_bytes policy,
        og_logs = replicate (sum_list (map (\<lambda>job. length (wj_steps job)) jobs)) 0, og_artifacts = replicate (length jobs) False,
        og_remaining = 0, og_open = False\<rparr>)"

definition guard_log :: "CiVmOutputGuard \<Rightarrow> nat \<Rightarrow> nat \<Rightarrow> CiVmOutputGuard result" where
  "guard_log g step bytes =
     (if step \<ge> length (og_logs g) \<or> bytes > kCiVmChunkPayloadMax \<or> bytes > og_max_log g - og_logs g ! step
      then Inl (Invalid_Argument ''VM log exceeds assigned step or limit'')
      else Inr (g\<lparr>og_logs := (og_logs g)[step := og_logs g ! step + bytes]\<rparr>))"

definition beginArtifact :: "CiVmOutputGuard \<Rightarrow> nat \<Rightarrow> nat \<Rightarrow> (CiVmOutputGuard \<times> CiArtifact) result" where
  "beginArtifact g job declared =
     (if og_open g \<or> job \<ge> length (og_artifacts g) \<or> og_artifacts g ! job then Inl (Invalid_Argument ''invalid or oversized VM artifact'')
      else case wj_artifact (og_jobs g ! job) of
        None \<Rightarrow> Inl (Invalid_Argument ''invalid or oversized VM artifact'')
      | Some artifact \<Rightarrow>
          if declared > og_max_artifact g then Inl (Invalid_Argument ''invalid or oversized VM artifact'')
          else Inr (g\<lparr>og_artifacts := (og_artifacts g)[job := True], og_remaining := declared, og_open := True\<rparr>, artifact))"

definition artifactChunk :: "CiVmOutputGuard \<Rightarrow> nat \<Rightarrow> CiVmOutputGuard result" where
  "artifactChunk g bytes =
     (if \<not> og_open g \<or> bytes = 0 \<or> bytes > kCiVmChunkPayloadMax \<or> bytes > og_remaining g then Inl (Invalid_Argument ''invalid VM artifact chunk'')
      else Inr (g\<lparr>og_remaining := og_remaining g - bytes\<rparr>))"

definition endArtifact :: "CiVmOutputGuard \<Rightarrow> CiVmOutputGuard result" where
  "endArtifact g =
     (if \<not> og_open g \<or> og_remaining g \<noteq> 0 then Inl (Invalid_Argument ''incomplete VM artifact'') else Inr (g\<lparr>og_open := False\<rparr>))"

text \<open>What the guest reports, one entry after the other.\<close>

datatype guest_report = LogBytes nat nat | BeginArtifact nat nat | ArtifactBytes nat | EndArtifact

fun guard_event :: "CiVmOutputGuard \<Rightarrow> guest_report \<Rightarrow> CiVmOutputGuard result" where
  "guard_event g (LogBytes step bytes) = guard_log g step bytes"
| "guard_event g (BeginArtifact job declared) = bindE (beginArtifact g job declared) (\<lambda>(g', _). Inr g')"
| "guard_event g (ArtifactBytes bytes) = artifactChunk g bytes"
| "guard_event g EndArtifact = endArtifact g"

fun log_bytes :: "nat \<Rightarrow> guest_report \<Rightarrow> nat" where
  "log_bytes step (LogBytes s bytes) = (if s = step then bytes else 0)"
| "log_bytes step _ = 0"

fun begun :: "guest_report \<Rightarrow> (nat \<times> nat) list" where
  "begun (BeginArtifact job declared) = [(job, declared)]"
| "begun _ = []"

fun artifact_bytes :: "guest_report \<Rightarrow> nat" where
  "artifact_bytes (ArtifactBytes bytes) = bytes"
| "artifact_bytes _ = 0"

definition log_total :: "nat \<Rightarrow> guest_report list \<Rightarrow> nat" where
  "log_total step events = sum_list (map (log_bytes step) events)"

definition artifacts_begun :: "guest_report list \<Rightarrow> (nat \<times> nat) list" where
  "artifacts_begun events = concat (map begun events)"

definition bytes_received :: "guest_report list \<Rightarrow> nat" where
  "bytes_received events = sum_list (map artifact_bytes events)"

lemma event_totals [simp]:
  "log_total step [] = 0" "log_total step (events @ [e]) = log_total step events + log_bytes step e"
  "artifacts_begun [] = []" "artifacts_begun (events @ [e]) = artifacts_begun events @ begun e"
  "bytes_received [] = 0" "bytes_received (events @ [e]) = bytes_received events + artifact_bytes e"
  by (simp_all add: log_total_def artifacts_begun_def bytes_received_def)

text \<open>The counters of the guard are the totals of what was accepted.\<close>

definition accounted :: "CiVmOutputGuard \<Rightarrow> guest_report list \<Rightarrow> CiVmOutputGuard \<Rightarrow> bool" where
  "accounted g0 events g \<longleftrightarrow>
     og_jobs g = og_jobs g0 \<and> og_max_log g = og_max_log g0 \<and> og_max_artifact g = og_max_artifact g0
     \<and> length (og_logs g) = length (og_logs g0) \<and> length (og_artifacts g) = length (og_artifacts g0)
     \<and> (\<forall>step < length (og_logs g). og_logs g ! step = log_total step events \<and> log_total step events \<le> og_max_log g)
     \<and> (\<forall>step \<ge> length (og_logs g). log_total step events = 0)
     \<and> (\<forall>job < length (og_artifacts g). og_artifacts g ! job \<longleftrightarrow> job \<in> fst ` set (artifacts_begun events))
     \<and> distinct (map fst (artifacts_begun events))
     \<and> list_all (\<lambda>(job, declared). job < length (og_artifacts g) \<and> wj_artifact (og_jobs g ! job) \<noteq> None \<and> declared \<le> og_max_artifact g)
         (artifacts_begun events)
     \<and> sum_list (map snd (artifacts_begun events)) = bytes_received events + og_remaining g \<and> (\<not> og_open g \<longrightarrow> og_remaining g = 0)"

lemma accounted_event:
  assumes "accounted g0 events g" "guard_event g e = Inr g'"
  shows "accounted g0 (events @ [e]) g'"
proof (cases e)
  case (LogBytes step bytes)
  then have g': "step < length (og_logs g)" "bytes \<le> og_max_log g - og_logs g ! step" "g' = g\<lparr>og_logs := (og_logs g)[step := og_logs g ! step + bytes]\<rparr>"
    using assms(2) by (auto simp: guard_log_def split: if_splits)
  have "\<forall>s < length (og_logs g). og_logs g ! s = log_total s events \<and> log_total s events \<le> og_max_log g"
    using assms(1) unfolding accounted_def by blast
  then have old: "og_logs g ! step = log_total step events" "log_total step events \<le> og_max_log g" using g'(1) by blast+
  show ?thesis using assms(1) g' old LogBytes unfolding accounted_def by (auto simp: nth_list_update)
next
  case (BeginArtifact job declared)
  then obtain artifact where g': "\<not> og_open g" "job < length (og_artifacts g)" "\<not> og_artifacts g ! job" "wj_artifact (og_jobs g ! job) = Some artifact"
    "declared \<le> og_max_artifact g" "g' = g\<lparr>og_artifacts := (og_artifacts g)[job := True], og_remaining := declared, og_open := True\<rparr>"
    using assms(2) by (auto simp: beginArtifact_def split: if_splits option.splits)
  then have "job \<notin> fst ` set (artifacts_begun events)" "og_remaining g = 0" using assms(1) by (simp_all add: accounted_def)
  then show ?thesis using assms(1) g' BeginArtifact unfolding accounted_def by (auto simp: nth_list_update)
next
  case (ArtifactBytes bytes)
  then have "og_open g" "bytes \<le> og_remaining g" "g' = g\<lparr>og_remaining := og_remaining g - bytes\<rparr>"
    using assms(2) by (auto simp: artifactChunk_def split: if_splits)
  then show ?thesis using assms(1) ArtifactBytes unfolding accounted_def by auto
next
  case EndArtifact
  then have "og_remaining g = 0" "g' = g\<lparr>og_open := False\<rparr>" using assms(2) by (auto simp: endArtifact_def split: if_splits)
  then show ?thesis using assms(1) EndArtifact unfolding accounted_def by auto
qed

lemma accounted_events: "foldE guard_event g0 events = Inr g \<Longrightarrow> accounted g0 [] g0 \<Longrightarrow> accounted g0 events g"
proof (induction events arbitrary: g rule: rev_induct)
  case (snoc e events)
  from snoc.prems(1) obtain g1 where "foldE guard_event g0 events = Inr g1" "guard_event g1 e = Inr g"
    by (auto simp: foldE_append elim!: bindE_InrE)
  then show ?case using snoc.IH snoc.prems(2) accounted_event by blast
qed simp

text \<open>
  C12: of whatever a guest sends, what the host accepts stays within the limits of the assignment: no step logs more than its
  cap and no step beyond the assigned ones logs anything, every artifact is one the workflow declares for its job, is begun
  once and declared within the cap, and never more bytes arrive than were declared; when no artifact is open all of them arrived.
\<close>

theorem vm_output_bounded:
  assumes "new_guard a policy = Inr g0" "foldE guard_event g0 events = Inr g"
  shows "log_total step events \<le> rp_max_log_bytes policy
    \<and> (log_total step events = 0 \<or> step < sum_list (map (\<lambda>job. length (wj_steps job)) (wf_jobs (pj_workflow a))))
    \<and> distinct (map fst (artifacts_begun events))
    \<and> list_all (\<lambda>(job, declared). job < length (wf_jobs (pj_workflow a)) \<and> wj_artifact (wf_jobs (pj_workflow a) ! job) \<noteq> None
        \<and> declared \<le> rp_artifact_max_bytes policy) (artifacts_begun events)
    \<and> bytes_received events + og_remaining g = sum_list (map snd (artifacts_begun events)) \<and> (og_open g \<or> og_remaining g = 0)"
proof -
  from assms(1) have g0: "g0 = \<lparr>og_jobs = wf_jobs (pj_workflow a), og_max_log = rp_max_log_bytes policy, og_max_artifact = rp_artifact_max_bytes policy,
        og_logs = replicate (sum_list (map (\<lambda>job. length (wj_steps job)) (wf_jobs (pj_workflow a)))) 0,
        og_artifacts = replicate (length (wf_jobs (pj_workflow a))) False, og_remaining = 0, og_open = False\<rparr>"
    by (auto simp: new_guard_def Let_def split: if_splits)
  then have "accounted g0 [] g0" by (simp add: accounted_def)
  from accounted_events [OF assms(2) this] show ?thesis
    using g0 unfolding accounted_def by (cases "step < length (og_logs g)") (auto simp: not_less)
qed

text \<open>
  The guard as a machine: a report that is refused throws and leaves it as it was. Under whatever sequence of reports,
  accepted or refused, no step outgrows its cap and nothing that was counted is forgotten.
\<close>

definition guard_step :: "guest_report \<Rightarrow> CiVmOutputGuard \<Rightarrow> CiVmOutputGuard" where
  "guard_step e g = (case guard_event g e of Inl _ \<Rightarrow> g | Inr g' \<Rightarrow> g')"

definition logs_capped :: "CiVmOutputGuard \<Rightarrow> bool" where
  "logs_capped g \<longleftrightarrow> list_all (\<lambda>n. n \<le> og_max_log g) (og_logs g)"

lemma logged_step:
  assumes "guard_log g step bytes = Inr g'" "logs_capped g"
  shows "logs_capped g' \<and> sum_list (og_logs g') = sum_list (og_logs g) + bytes"
proof -
  have g': "step < length (og_logs g)" "bytes \<le> og_max_log g - og_logs g ! step" "g' = g\<lparr>og_logs := (og_logs g)[step := og_logs g ! step + bytes]\<rparr>"
    using assms(1) by (auto simp: guard_log_def split: if_splits)
  then have "og_logs g ! step + bytes \<le> og_max_log g" "og_logs g ! step \<le> sum_list (og_logs g)"
    using assms(2) by (auto simp: logs_capped_def list_all_length elem_le_sum_list)
  then show ?thesis using assms(2) g' by (auto simp: logs_capped_def list_all_length nth_list_update sum_list_update)
qed

lemma guard_step_logs:
  assumes "logs_capped g"
  shows "logs_capped (guard_step e g) \<and> sum_list (og_logs g) \<le> sum_list (og_logs (guard_step e g))"
proof (cases "guard_event g e")
  case (Inr g')
  then show ?thesis using assms logged_step
    by (cases e) (force simp: guard_step_def beginArtifact_def artifactChunk_def endArtifact_def logs_capped_def split: if_splits option.splits)+
qed (simp add: guard_step_def assms)

interpretation guard: monotone_machine guard_step logs_capped "sum_list \<circ> og_logs"
  by unfold_locales (simp_all add: guard_step_logs)

lemma guard_run_logs:
  assumes "new_guard a policy = Inr g"
  shows "logs_capped (fold guard_step events g)
    \<and> sum_list (og_logs (fold guard_step earlier g)) \<le> sum_list (og_logs (fold guard_step (earlier @ events) g))"
proof -
  have g: "logs_capped g" using assms by (auto simp: new_guard_def Let_def logs_capped_def list_all_length split: if_splits)
  have "logs_capped (fold guard_step earlier g)" using g by (rule guard.run_inv)
  then show ?thesis using g guard.run_inv [OF g] guard.run_level [of "fold guard_step earlier g" events] by simp
qed

definition sample_events :: "guest_report list" where
  "sample_events = [LogBytes 0 5, BeginArtifact 0 3, ArtifactBytes 2, LogBytes 0 4, ArtifactBytes 1, EndArtifact]"

definition sample_producer :: CiPreparedJob where
  "sample_producer = sample_prepared\<lparr>pj_workflow := sample_workflow\<lparr>wf_jobs :=
     [(sample_jobs ! 1)\<lparr>wj_artifact := Some \<lparr>wa_name = ''dist'', wa_paths = [''out''], wa_retention_days = 0\<rparr>\<rparr>]\<rparr>\<rparr>"

theorem vm_output_bounded_witness:
  "log_total 0 sample_events \<le> 1048576 \<and> bytes_received sample_events = 3"
proof -
  obtain g0 where g0: "new_guard sample_producer sample_policy = Inr g0"
    "g0 = \<lparr>og_jobs = wf_jobs (pj_workflow sample_producer), og_max_log = 1048576, og_max_artifact = 268435456,
        og_logs = [0], og_artifacts = [False], og_remaining = 0, og_open = False\<rparr>"
    by (simp add: new_guard_def sample_producer_def sample_jobs_def sample_policy_def kMaximumCiJobs_def kMaximumCiStepsPerJob_def)
  then obtain g where g: "foldE guard_event g0 sample_events = Inr g" "og_remaining g = 0"
    by (simp add: sample_events_def guard_log_def beginArtifact_def artifactChunk_def endArtifact_def kCiVmChunkPayloadMax_def
        sample_producer_def sample_jobs_def)
  have "sum_list (map snd (artifacts_begun sample_events)) = 3" by (simp add: sample_events_def artifacts_begun_def)
  then show ?thesis using vm_output_bounded [OF g0(1) g(1), of 0] g(2) by (simp add: sample_policy_def)
qed

end
