(* ===== verification/Ck_Metadata_Store.thy ===== *)
theory Ck_Metadata_Store
  imports Ck_Ci_Store Ck_Checkout_Path
begin

text \<open>
  The metadata that the daemon keeps beside the repositories, \<open>src/common/metadata_store.cpp\<close>: the checkouts that clients
  report, and the event log with its monthly archives. The state root is the path \<open>[]\<close> of the world. Shown here: an event
  that was appended is the newest one that is read, what a torn append does to the log, and what is left when the metadata
  of a project was removed.
\<close>

section \<open>Private directories and files\<close>

definition kMaximumRecordBytes :: nat where "kMaximumRecordBytes = 2048"
definition kMaximumEventLogBytes :: nat where "kMaximumEventLogBytes = 64 * 1024"
definition kMaximumEventLineBytes :: nat where "kMaximumEventLineBytes = 256"

abbreviation stopM :: "string \<Rightarrow> 'a io" where
  "stopM m \<equiv> throwM (Runtime_Error m)"

definition isValidEventKind :: "string \<Rightarrow> bool" where
  "isValidEventKind k \<longleftrightarrow> k \<noteq> [] \<and> length k \<le> 48 \<and> list_all (\<lambda>c. is_lower c \<or> c = CHR ''-'') k"

text \<open>\<open>openPrivateDirectory(validatedMetadataRoot(...))\<close>: the root is opened and checked twice.\<close>

definition openMetadataRoot :: "unit io" where
  "openMetadataRoot = thenM validatedMetadataRoot validatedMetadataRoot"

definition lockMetadata :: "unit io" where
  "lockMetadata = bindM (askM (\<lambda>w. w_faults w Locking [])) (\<lambda>failed.
     if failed then stopM ''could not lock metadata state'' else returnM ())"

definition ensurePrivateDirectoryAt :: "path \<Rightarrow> string \<Rightarrow> path io" where
  "ensurePrivateDirectoryAt parent name = bindM (callM (sys_mkdir (parent @ [name]))) (\<lambda>e.
     if e \<noteq> OK \<and> e \<noteq> EEXIST then stopM ''could not create metadata directory''
     else bindM (askM (sys_open_dir (parent @ [name]))) (\<lambda>r.
       case r of Inl _ \<Rightarrow> stopM ''could not open metadata directory''
       | Inr n \<Rightarrow> if \<not> nd_private n then stopM ''metadata directory is not private and daemon-owned''
                 else returnM (parent @ [name])))"

definition openPrivateDirectoryAt :: "path \<Rightarrow> string \<Rightarrow> path option io" where
  "openPrivateDirectoryAt parent name = bindM (askM (sys_open_dir (parent @ [name]))) (\<lambda>r.
     case r of Inl e \<Rightarrow> if e = ENOENT then returnM None else stopM ''could not open metadata directory''
     | Inr n \<Rightarrow> if \<not> nd_private n then stopM ''metadata directory is not private and daemon-owned''
               else returnM (Some (parent @ [name])))"

definition readRecordAt :: "path \<Rightarrow> string \<Rightarrow> string io" where
  "readRecordAt d name = bindM (askM (sys_open (d @ [name]))) (\<lambda>r.
     case r of Inl _ \<Rightarrow> stopM ''could not open checkout metadata record''
     | Inr n \<Rightarrow>
         if \<not> is_regular n \<or> \<not> nd_private n \<or> length (node_bytes n) > kMaximumRecordBytes
         then stopM ''checkout metadata record is unsafe''
         else bindM (askM (\<lambda>w. w_faults w Reading (d @ [name]))) (\<lambda>failed.
           if failed \<and> node_bytes n \<noteq> [] then stopM ''could not read checkout metadata record'' else returnM (node_bytes n)))"

definition readPrivateFileAt :: "path \<Rightarrow> string \<Rightarrow> nat \<Rightarrow> string \<Rightarrow> string io" where
  "readPrivateFileAt d name maximum description = bindM (askM (sys_open (d @ [name]))) (\<lambda>r.
     case r of Inl _ \<Rightarrow> stopM (''could not open '' @ description)
     | Inr n \<Rightarrow>
         if \<not> is_regular n \<or> \<not> nd_private n \<or> length (node_bytes n) > maximum
         then stopM (description @ '' is unsafe'')
         else bindM (askM (\<lambda>w. w_faults w Reading (d @ [name]))) (\<lambda>failed.
           if failed \<and> node_bytes n \<noteq> [] then stopM (''could not read '' @ description) else returnM (node_bytes n)))"

definition directoryNames :: "path \<Rightarrow> string list io" where
  "directoryNames d = bindM (askM (\<lambda>w. if w_faults w Listing d then None else Some (names_in w d))) (\<lambda>r.
     case r of None \<Rightarrow> stopM ''could not list metadata directory'' | Some names \<Rightarrow> returnM names)"

section \<open>Events\<close>

record StateEvent =
  se_epoch_seconds :: nat
  se_kind :: string
  se_project_name :: string
  se_client_id :: string

definition serializeEvent :: "StateEvent \<Rightarrow> string" where
  "serializeEvent e = to_dec (se_epoch_seconds e) @ [tab] @ se_kind e @ [tab] @ se_project_name e @ [tab] @ se_client_id e @ [newline]"

definition parse_event :: "string \<Rightarrow> StateEvent result" where
  "parse_event line =
     (if line = [] \<or> length line > kMaximumEventLineBytes then Inl (Runtime_Error ''server event log has invalid framing'')
      else case split_on tab line of
        [epoch, kind, project, client] \<Rightarrow>
          (case whole_number u64_max epoch of
             None \<Rightarrow> Inl (Runtime_Error ''server event log contains invalid data'')
           | Some seconds \<Rightarrow>
               if \<not> isValidEventKind kind \<or> \<not> isValidProjectName project \<or> \<not> isValidClientId client
               then Inl (Runtime_Error ''server event log contains invalid data'')
               else Inr \<lparr>se_epoch_seconds = seconds, se_kind = kind, se_project_name = project, se_client_id = client\<rparr>)
      | _ \<Rightarrow> Inl (Runtime_Error ''server event log has invalid schema''))"

text \<open>The text after the last newline, an append that a crash cut off, is not looked at.\<close>

definition parseEvents :: "string \<Rightarrow> StateEvent list result" where
  "parseEvents content = mapE parse_event (butlast (split_on newline content))"

text \<open>The names of the logs, the live one last.\<close>

definition event_log_key :: "string \<Rightarrow> string" where
  "event_log_key name =
     (if name = ''events.log'' then ''~''
      else if length name = length ''events.2026-09.log'' then take (length name - 4) name @ ''.000000.log''
      else name)"

definition is_event_log :: "string \<Rightarrow> bool" where
  "is_event_log name \<longleftrightarrow> name = ''events.log'' \<or> starts_with name ''events.'' \<and> ends_with name ''.log''"

definition check_event_log :: "path \<Rightarrow> string \<Rightarrow> unit io" where
  "check_event_log d name = bindM (askM (\<lambda>w. node_at w (d @ [name]))) (\<lambda>r.
     case r of None \<Rightarrow> stopM ''server event archive is unsafe''
     | Some n \<Rightarrow> if is_regular n \<and> nd_private n then returnM () else stopM ''server event archive is unsafe'')"

definition eventLogNames :: "path \<Rightarrow> string list io" where
  "eventLogNames d = bindM (directoryNames d) (\<lambda>names.
     let logs = filter is_event_log names in
     thenM (forM logs (check_event_log d)) (returnM (sort_key event_log_key logs)))"

section \<open>Appending an event\<close>

text \<open>\<open>gmtime_r\<close> with \<open>strftime(\"%Y-%m\")\<close> into eight bytes: the civil calendar counted in eras of 400 years that begin in March.\<close>

definition civil_month :: "nat \<Rightarrow> nat \<times> nat" where
  "civil_month seconds =
     (let z = seconds div 86400 + 719468;
          era = z div 146097;
          day = z mod 146097;
          year_of_era = (day - day div 1460 + day div 36524 - day div 146096) div 365;
          day_of_year = day - (365 * year_of_era + year_of_era div 4 - year_of_era div 100);
          m = (5 * day_of_year + 2) div 153;
          month = (if m < 10 then m + 3 else m - 9)
      in (year_of_era + era * 400 + (if month \<le> 2 then 1 else 0), month))"

definition two_digits :: "nat \<Rightarrow> string" where
  "two_digits n = (if n < 10 then CHR ''0'' # to_dec n else to_dec n)"

definition month_text :: "nat \<Rightarrow> string option" where
  "month_text seconds =
     (case civil_month seconds of (year, month) \<Rightarrow>
        let t = to_dec year @ CHR ''-'' # two_digits month in if length t < 8 then Some t else None)"

definition archive_name :: "string \<Rightarrow> nat \<Rightarrow> string" where
  "archive_name month sequence =
     ''events.'' @ month @
     (if sequence = 0 then [] else CHR ''.'' # replicate (6 - length (to_dec sequence)) CHR ''0'' @ to_dec sequence) @ ''.log''"

text \<open>The loop over the sequence numbers; \<open>n\<close> of them are left.\<close>

fun rotate_from :: "path \<Rightarrow> string \<Rightarrow> nat \<Rightarrow> nat \<Rightarrow> unit io" where
  "rotate_from d month 0 sequence = stopM ''server event archive sequence exhausted''"
| "rotate_from d month (Suc n) sequence =
     bindM (callM (sys_link (d @ [''events.log'']) (d @ [archive_name month sequence]))) (\<lambda>e.
     if e = OK then
       bindM (askM (sys_sync d)) (\<lambda>s1.
       if s1 \<noteq> OK then stopM ''could not finish server event rotation''
       else bindM (callM (sys_unlink (d @ [''events.log'']))) (\<lambda>u.
       if u \<noteq> OK then stopM ''could not finish server event rotation''
       else bindM (askM (sys_sync d)) (\<lambda>s2.
       if s2 \<noteq> OK then stopM ''could not finish server event rotation'' else returnM ())))
     else if e = EEXIST then rotate_from d month n (Suc sequence)
     else stopM ''could not archive server event log'')"

definition rotateEvents :: "path \<Rightarrow> unit io" where
  "rotateEvents d = bindM currentEpoch (\<lambda>now.
     case month_text now of None \<Rightarrow> stopM ''could not determine event archive month''
     | Some month \<Rightarrow> rotate_from d month 1000000 0)"

definition events_dir :: path where "events_dir = [''events'']"
definition events_log :: path where "events_log = events_dir @ [''events.log'']"

text \<open>The log is opened or created, checked, and archived first when the event does not fit. A new log is created exclusively.\<close>

definition append_event :: "string \<Rightarrow> unit io" where
  "append_event entry =
     bindM (callM (sys_create events_log)) (\<lambda>e.
     if e \<noteq> OK then stopM ''could not open server event log''
     else bindM (askM (\<lambda>w. node_at w events_log)) (\<lambda>r.
     case r of None \<Rightarrow> stopM ''server event log is unsafe''
     | Some n \<Rightarrow>
         if \<not> is_regular n \<or> \<not> nd_private n \<or> length (node_bytes n) > kMaximumEventLogBytes then stopM ''server event log is unsafe''
         else thenM (if length (node_bytes n) + length entry > kMaximumEventLogBytes then
                       thenM (rotateEvents events_dir)
                         (bindM (askM (\<lambda>w. node_at w events_log)) (\<lambda>old.
                          if old \<noteq> None then stopM ''could not create rotated server event log''
                          else bindM (callM (sys_create events_log)) (\<lambda>c.
                            if c \<noteq> OK then stopM ''could not create rotated server event log'' else returnM ())))
                     else returnM ())
             (bindM (callM (sys_append events_log entry)) (\<lambda>a.
              if a \<noteq> OK then stopM ''could not write checkout metadata''
              else bindM (askM (\<lambda>w. sys_sync events_log w = OK \<and> sys_sync events_dir w = OK)) (\<lambda>synced.
                if \<not> synced then stopM ''could not sync server event log'' else returnM ())))))"

definition appendStateEvent :: "string \<Rightarrow> string \<Rightarrow> string \<Rightarrow> unit io" where
  "appendStateEvent kind project_name client_id =
     (if \<not> isValidEventKind kind \<or> \<not> isValidProjectName project_name \<or> \<not> isValidClientId client_id
      then throwM (Invalid_Argument ''invalid server event'')
      else bindM currentEpoch (\<lambda>now.
        let entry = serializeEvent \<lparr>se_epoch_seconds = now, se_kind = kind, se_project_name = project_name, se_client_id = client_id\<rparr> in
        if length entry > kMaximumEventLineBytes then throwM (Invalid_Argument ''server event is too large'')
        else thenM openMetadataRoot (thenM lockMetadata (
          bindM (ensurePrivateDirectoryAt [] ''events'') (\<lambda>_. append_event entry)))))"

section \<open>Reading events\<close>

text \<open>The events of a project in the given logs, in order.\<close>

definition collect_events :: "string \<Rightarrow> StateEvent list \<Rightarrow> string \<Rightarrow> StateEvent list io" where
  "collect_events project found name =
     bindM (readPrivateFileAt events_dir name kMaximumEventLogBytes ''server event log'') (\<lambda>content.
     bindM (liftE (parseEvents content)) (\<lambda>events.
     returnM (found @ filter (\<lambda>e. se_project_name e = project) events)))"

definition loadProjectEvents :: "string \<Rightarrow> nat \<Rightarrow> StateEvent list io" where
  "loadProjectEvents project_name maximum =
     (if \<not> isValidProjectName project_name \<or> maximum > 128 then throwM (Invalid_Argument ''invalid project event request'')
      else if maximum = 0 then returnM []
      else thenM openMetadataRoot (thenM lockMetadata (
        bindM (openPrivateDirectoryAt [] ''events'') (\<lambda>r.
        case r of None \<Rightarrow> returnM []
        | Some _ \<Rightarrow> bindM (eventLogNames events_dir) (\<lambda>names.
            bindM (foldM (collect_events project_name) [] (drop (length names - 2) names)) (\<lambda>found.
            returnM (drop (length found - maximum) found)))))))"

section \<open>Checkouts\<close>

record CheckoutMetadata =
  cm_client_id :: string
  cm_reported_path :: string
  cm_last_seen :: nat

record RegisteredCheckout =
  rc_project_name :: string
  rc_reported_path :: string
  rc_last_seen :: nat

definition checkout_lines :: "string \<Rightarrow> string \<Rightarrow> string \<Rightarrow> nat \<Rightarrow> string list" where
  "checkout_lines client project token now =
     [''schema_version=1'', ''client_id='' @ client, ''project='' @ project, ''path_hex='' @ token, ''last_seen_epoch='' @ to_dec now]"

definition parseRecord :: "string \<Rightarrow> string \<Rightarrow> string \<Rightarrow> CheckoutMetadata result" where
  "parseRecord content project expected_client =
     (case split_on newline content of
        l0 # l1 # l2 # l3 # l4 # r # rest \<Rightarrow>
          if r # rest \<noteq> [[]] \<or> l0 \<noteq> ''schema_version=1'' \<or> \<not> starts_with l1 ''client_id='' \<or> \<not> starts_with l2 ''project=''
             \<or> \<not> starts_with l3 ''path_hex='' \<or> \<not> starts_with l4 ''last_seen_epoch=''
          then Inl (Runtime_Error ''checkout metadata record has invalid schema'')
          else let client = drop 10 l1 in
            (case (decodeCheckoutPathToken (drop 9 l3), whole_number u64_max (drop 16 l4)) of
               (Some reported, Some seen) \<Rightarrow>
                 if \<not> isValidClientId client \<or> client \<noteq> expected_client \<or> drop 8 l2 \<noteq> project
                 then Inl (Runtime_Error ''checkout metadata record contains invalid data'')
                 else Inr \<lparr>cm_client_id = client, cm_reported_path = reported, cm_last_seen = seen\<rparr>
             | _ \<Rightarrow> Inl (Runtime_Error ''checkout metadata record contains invalid data''))
      | _ \<Rightarrow> Inl (Runtime_Error ''checkout metadata record has invalid framing''))"

definition load_checkout :: "path \<Rightarrow> string \<Rightarrow> CheckoutMetadata list \<Rightarrow> string \<Rightarrow> CheckoutMetadata list io" where
  "load_checkout d project records name =
     (if length name \<le> 4 \<or> \<not> ends_with name ''.ini'' then returnM records
      else let client = take (length name - 4) name in
        if \<not> isValidClientId client then stopM ''checkout metadata filename is invalid''
        else bindM (readRecordAt d name) (\<lambda>content.
             bindM (liftE (parseRecord content project client)) (\<lambda>m. returnM (records @ [m]))))"

definition scan_directory :: "path \<Rightarrow> string list io" where
  "scan_directory d = bindM (askM (\<lambda>w. if w_faults w Listing d then None else Some (names_in w d))) (\<lambda>r.
     case r of None \<Rightarrow> stopM ''could not scan checkout metadata'' | Some names \<Rightarrow> returnM names)"

definition loadCheckoutMetadata :: "string \<Rightarrow> CheckoutMetadata list io" where
  "loadCheckoutMetadata project_name =
     (if \<not> isValidProjectName project_name then throwM (Invalid_Argument ''invalid project name for checkout metadata'')
      else thenM openMetadataRoot (
        bindM (openPrivateDirectoryAt [] ''checkouts'') (\<lambda>c.
        case c of None \<Rightarrow> returnM []
        | Some checkouts \<Rightarrow> bindM (openPrivateDirectoryAt checkouts project_name) (\<lambda>p.
            case p of None \<Rightarrow> returnM []
            | Some project \<Rightarrow> bindM (scan_directory project) (\<lambda>names.
                bindM (foldM (load_checkout project project_name) [] names) (\<lambda>records.
                returnM (sort_key cm_client_id records)))))))"

text \<open>
  What a report of a client does to the path that is stored, one registered checkout after the other; the conflict is
  the exception class of its own that callers tell apart by its type.
\<close>

definition checkout_conflict :: "string \<Rightarrow> ck_error" where
  "checkout_conflict project = Runtime_Error (''this host already registered a different checkout for '' @ project)"

definition merge_report :: "string \<Rightarrow> string \<Rightarrow> string \<Rightarrow> string \<Rightarrow> CheckoutMetadata \<Rightarrow> string result" where
  "merge_report project client encoded stored existing =
     (case decodeCheckoutPathToken encoded of
        None \<Rightarrow> Inr stored
      | Some requested \<Rightarrow>
          if cm_client_id existing \<noteq> client then Inr stored
          else if \<not> sameReportedCheckout (cm_reported_path existing) requested then Inl (checkout_conflict project)
          else if CHR ''/'' \<notin> set requested \<and> CHR ''/'' \<in> set (cm_reported_path existing)
          then encodeCheckoutPath (cm_reported_path existing)
          else Inr stored)"

definition publish_record :: "path \<Rightarrow> string \<Rightarrow> string \<Rightarrow> unit io" where
  "publish_record d name content w =
     (if w_faults w Staging d then stopM ''could not create checkout metadata staging file'' w
      else if w_faults w Writing (d @ [name]) then stopM ''could not write checkout metadata'' w
      else if w_faults w Syncing (d @ [name]) then stopM ''could not sync checkout metadata staging file'' w
      else if w_faults w Renaming (d @ [name]) \<or> \<not> rename_allowed (private_file content (w_clock w)) (d @ [name]) w
        then stopM ''could not atomically publish checkout metadata'' w
      else let w' = set_node (d @ [name]) (private_file content (w_clock w)) w
           in if w_faults w Syncing d then stopM ''could not atomically publish checkout metadata'' w' else returnM () w')"

definition registerCheckout :: "string \<Rightarrow> string \<Rightarrow> string \<Rightarrow> bool \<Rightarrow> unit io" where
  "registerCheckout project_name client_id encoded_path replace =
     (if \<not> isValidProjectName project_name \<or> \<not> isValidClientId client_id \<or> \<not> isValidCheckoutPathToken encoded_path
      then throwM (Invalid_Argument ''invalid checkout metadata'')
      else bindM (if replace then returnM encoded_path
                  else bindM (loadCheckoutMetadata project_name) (\<lambda>records.
                    liftE (foldE (merge_report project_name client_id encoded_path) encoded_path records))) (\<lambda>stored_path.
        thenM openMetadataRoot (thenM lockMetadata (
        bindM (ensurePrivateDirectoryAt [] ''checkouts'') (\<lambda>checkouts.
        bindM (ensurePrivateDirectoryAt checkouts project_name) (\<lambda>project.
        bindM currentEpoch (\<lambda>now.
          publish_record project (client_id @ ''.ini'') (unlines (checkout_lines client_id project_name stored_path now)))))))))"

definition forgetCheckout :: "string \<Rightarrow> string \<Rightarrow> bool io" where
  "forgetCheckout project_name client_id =
     (if \<not> isValidProjectName project_name \<or> \<not> isValidClientId client_id then throwM (Invalid_Argument ''invalid checkout identity'')
      else thenM openMetadataRoot (thenM lockMetadata (
        bindM (openPrivateDirectoryAt [] ''checkouts'') (\<lambda>c.
        case c of None \<Rightarrow> returnM False
        | Some checkouts \<Rightarrow> bindM (openPrivateDirectoryAt checkouts project_name) (\<lambda>p.
            case p of None \<Rightarrow> returnM False
            | Some project \<Rightarrow>
                let f = project @ [client_id @ ''.ini''] in
                bindM (askM (\<lambda>w. if w_faults w Reading f then Inl () else Inr (node_at w f))) (\<lambda>s.
                case s of Inl _ \<Rightarrow> stopM ''could not inspect checkout report''
                | Inr None \<Rightarrow> returnM False
                | Inr (Some n) \<Rightarrow>
                    if \<not> is_regular n \<or> \<not> nd_private n then stopM ''checkout report is not a private regular file owned by this user''
                    else bindM (callM (sys_unlink f)) (\<lambda>u.
                      bindM (askM (sys_sync project)) (\<lambda>y.
                      if u \<noteq> OK \<or> y \<noteq> OK then stopM ''could not remove checkout report'' else returnM True))))))))"

definition client_checkouts :: "string \<Rightarrow> RegisteredCheckout list \<Rightarrow> string \<Rightarrow> RegisteredCheckout list io" where
  "client_checkouts client_id records project =
     bindM (loadCheckoutMetadata project) (\<lambda>checkouts.
     returnM (records @ map (\<lambda>c. \<lparr>rc_project_name = project, rc_reported_path = cm_reported_path c, rc_last_seen = cm_last_seen c\<rparr>)
       (filter (\<lambda>c. cm_client_id c = client_id) checkouts)))"

definition loadClientCheckouts :: "string \<Rightarrow> RegisteredCheckout list io" where
  "loadClientCheckouts client_id =
     (if \<not> isValidClientId client_id then throwM (Invalid_Argument ''invalid client for checkout metadata'')
      else thenM openMetadataRoot (
        bindM (openPrivateDirectoryAt [] ''checkouts'') (\<lambda>c.
        case c of None \<Rightarrow> returnM []
        | Some checkouts \<Rightarrow> bindM (scan_directory checkouts) (\<lambda>names.
            if \<not> list_all isValidProjectName names then stopM ''checkout metadata directory name is invalid''
            else foldM (client_checkouts client_id) [] (sort names)))))"

section \<open>Removing a project\<close>

text \<open>\<open>levels\<close> is how many levels of directories may still follow: 65 less the depth of the call.\<close>

fun removeEntryAt :: "nat \<Rightarrow> path \<Rightarrow> string \<Rightarrow> bool \<Rightarrow> unit io" where
  "removeEntryAt levels parent name dry_run =
     (let p = parent @ [name] in
      bindM (askM (\<lambda>w. if w_faults w Reading p then Inl () else Inr (node_at w p))) (\<lambda>s.
      case s of Inl _ \<Rightarrow> stopM ''could not inspect project metadata for removal''
      | Inr None \<Rightarrow> returnM ()
      | Inr (Some n) \<Rightarrow>
          if nd_kind n = Directory then
            (case levels of 0 \<Rightarrow> stopM ''project metadata exceeds maximum directory depth''
             | Suc deeper \<Rightarrow>
                 bindM (openPrivateDirectoryAt parent name) (\<lambda>d.
                 case d of None \<Rightarrow> returnM ()
                 | Some _ \<Rightarrow>
                     bindM (directoryNames p) (\<lambda>children.
                     thenM (forM children (\<lambda>child. removeEntryAt deeper p child dry_run)) (
                     if dry_run then returnM ()
                     else bindM (callM (sys_rmdir p)) (\<lambda>e.
                       if e \<noteq> OK then stopM ''could not remove project metadata directory'' else returnM ())))))
          else if dry_run then returnM ()
          else bindM (callM (sys_unlink p)) (\<lambda>e.
            if e \<noteq> OK then stopM ''could not remove project metadata entry'' else returnM ())))"

declare removeEntryAt.simps [simp del]

definition project_directories :: "string list" where
  "project_directories = [''checkouts'', ''projects'']"

definition logs_to_scrub :: "string \<Rightarrow> string list \<Rightarrow> string \<Rightarrow> string list io" where
  "logs_to_scrub project found name =
     bindM (readPrivateFileAt events_dir name kMaximumEventLogBytes ''server event log'') (\<lambda>content.
     bindM (liftE (parseEvents content)) (\<lambda>events.
     returnM (if \<exists>e \<in> set events. se_project_name e = project then found @ [name] else found)))"

definition scrub_log :: "string \<Rightarrow> string \<Rightarrow> unit io" where
  "scrub_log project name =
     (let p = events_dir @ [name] in
      bindM (readPrivateFileAt events_dir name kMaximumEventLogBytes ''server event log'') (\<lambda>content.
      bindM (liftE (parseEvents content)) (\<lambda>events.
      let retained = concat (map serializeEvent (filter (\<lambda>e. se_project_name e \<noteq> project) events)) in
      bindM (askM (sys_open p)) (\<lambda>r.
      case r of Inl _ \<Rightarrow> stopM ''could not open server event log for cleanup''
      | Inr n \<Rightarrow>
          if \<not> is_regular n \<or> \<not> nd_private n \<or> length (node_bytes n) > kMaximumEventLogBytes then stopM ''server event log is unsafe''
          else bindM (callM (sys_overwrite p retained)) (\<lambda>e.
            if e \<noteq> OK then stopM ''could not write checkout metadata''
            else bindM (callM (sys_truncate p (length retained))) (\<lambda>t.
              bindM (askM (sys_sync p)) (\<lambda>y.
              if t \<noteq> OK \<or> y \<noteq> OK then stopM ''could not scrub project events'' else returnM ())))))))"

definition remove_directory :: "string \<Rightarrow> bool \<Rightarrow> string \<Rightarrow> unit io" where
  "remove_directory project dry_run name =
     bindM (openPrivateDirectoryAt [] name) (\<lambda>r.
     case r of None \<Rightarrow> returnM ()
     | Some d \<Rightarrow> thenM (removeEntryAt 65 d project dry_run) (
         if dry_run then returnM ()
         else bindM (askM (sys_sync d)) (\<lambda>y.
           if y \<noteq> OK then stopM ''could not sync removed project metadata'' else returnM ())))"

definition remove_directories :: "string \<Rightarrow> bool \<Rightarrow> unit io" where
  "remove_directories project dry_run = forM project_directories (remove_directory project dry_run)"

definition removeProjectMetadata :: "string \<Rightarrow> bool \<Rightarrow> unit io" where
  "removeProjectMetadata project_name dry_run =
     (if \<not> isValidProjectName project_name then throwM (Invalid_Argument ''invalid project name for metadata removal'')
      else thenM openMetadataRoot (thenM lockMetadata (
        bindM (openPrivateDirectoryAt [] ''events'') (\<lambda>events.
        bindM (case events of None \<Rightarrow> returnM []
               | Some _ \<Rightarrow> bindM (eventLogNames events_dir) (\<lambda>names. foldM (logs_to_scrub project_name) [] names)) (\<lambda>replacements.
        thenM (remove_directories project_name True) (
        if dry_run then returnM ()
        else thenM (remove_directories project_name False) (
          thenM (forM replacements (scrub_log project_name)) (
          bindM (askM (\<lambda>w. events \<noteq> None \<and> sys_sync events_dir w \<noteq> OK)) (\<lambda>failed.
          if failed then stopM ''could not sync project event cleanup''
          else bindM (askM (sys_sync [])) (\<lambda>y.
            if y \<noteq> OK then stopM ''could not sync project metadata cleanup'' else returnM ()))))))))))"

text \<open>\<open>std::set\<close> of names, in its order.\<close>

definition events_projects :: "string list \<Rightarrow> string \<Rightarrow> string list io" where
  "events_projects found name =
     bindM (readPrivateFileAt events_dir name kMaximumEventLogBytes ''server event log'') (\<lambda>content.
     bindM (liftE (parseEvents content)) (\<lambda>events. returnM (found @ map se_project_name events)))"

definition directory_projects :: "string list \<Rightarrow> string \<Rightarrow> string list io" where
  "directory_projects found name =
     bindM (openPrivateDirectoryAt [] name) (\<lambda>r.
     case r of None \<Rightarrow> returnM found
     | Some d \<Rightarrow> bindM (directoryNames d) (\<lambda>names.
         if \<not> list_all isValidProjectName names then stopM ''project metadata directory name is invalid''
         else returnM (found @ names)))"

definition listProjectMetadataNames :: "string list io" where
  "listProjectMetadataNames =
     thenM openMetadataRoot (thenM lockMetadata (
       bindM (foldM directory_projects [] project_directories) (\<lambda>found.
       bindM (openPrivateDirectoryAt [] ''events'') (\<lambda>events.
       bindM (case events of None \<Rightarrow> returnM found
              | Some _ \<Rightarrow> bindM (eventLogNames events_dir) (\<lambda>names. foldM events_projects found names)) (\<lambda>all_names.
       returnM (sort (remdups all_names)))))))"


section \<open>The text of the log\<close>

text \<open>Events that can be in a log, and the text of a log without a torn tail.\<close>

definition event_ok :: "StateEvent \<Rightarrow> bool" where
  "event_ok e \<longleftrightarrow> se_epoch_seconds e \<le> u64_max \<and> isValidEventKind (se_kind e) \<and> isValidProjectName (se_project_name e)
     \<and> isValidClientId (se_client_id e) \<and> length (serializeEvent e) \<le> 257"

definition ends_lines :: "string \<Rightarrow> bool" where
  "ends_lines c \<longleftrightarrow> c = [] \<or> last c = newline"

definition event_line :: "StateEvent \<Rightarrow> string" where
  "event_line e = join tab [to_dec (se_epoch_seconds e), se_kind e, se_project_name e, se_client_id e]"

lemma serializeEvent_line: "serializeEvent e = event_line e @ [newline]"
  by (simp add: serializeEvent_def event_line_def)

lemma split_on_at: "split_on c (s @ c # r) = split_on c s @ split_on c r"
  by (induction s) (auto split: list.splits)

lemma lines_of_torn:
  assumes "ends_lines whole" "newline \<notin> set l"
  shows "butlast (split_on newline (whole @ l)) = butlast (split_on newline whole)"
    and "butlast (split_on newline (whole @ l @ [newline])) = butlast (split_on newline whole) @ [l]"
proof -
  have "\<exists>ls. split_on newline (whole @ r) = ls @ split_on newline r \<and> split_on newline whole = ls @ [[]]" for r
  proof (cases whole rule: rev_cases)
    case (snoc s c)
    with assms(1) have "whole = s @ [newline]" by (simp add: ends_lines_def)
    then show ?thesis by (simp add: split_on_at)
  qed simp
  from this [of l] this [of "l @ [newline]"]
  show "butlast (split_on newline (whole @ l)) = butlast (split_on newline whole)"
    and "butlast (split_on newline (whole @ l @ [newline])) = butlast (split_on newline whole) @ [l]"
    using assms(2) by (auto simp: butlast_append split_on_append)
qed

lemma mapE_append: "mapE f (xs @ ys) = bindE (mapE f xs) (\<lambda>a. bindE (mapE f ys) (\<lambda>b. Inr (a @ b)))"
  by (induction xs) (auto simp: bindE_def split: sum.splits)

lemma plain_fields:
  "isValidEventKind k \<Longrightarrow> tab \<notin> set k \<and> newline \<notin> set k" "isValidProjectName p \<Longrightarrow> tab \<notin> set p \<and> newline \<notin> set p"
  "isValidClientId c \<Longrightarrow> tab \<notin> set c \<and> newline \<notin> set c" "tab \<notin> set (to_dec n) \<and> newline \<notin> set (to_dec n)"
  by (auto simp: isValidEventKind_def list_all_iff char_class dest: isValidProjectName_chars isValidClientId_chars to_dec_digit)

lemma event_line_read:
  assumes "event_ok e"
  shows "newline \<notin> set (event_line e)" "parse_event (event_line e) = Inr e" "length (split_on tab (event_line e)) = 4"
proof -
  have parts: "tab \<notin> set x \<and> newline \<notin> set x" if "x \<in> set [to_dec (se_epoch_seconds e), se_kind e, se_project_name e, se_client_id e]" for x
    using that assms plain_fields by (auto simp: event_ok_def)
  then show "newline \<notin> set (event_line e)" by (auto simp: event_line_def)
  have split: "split_on tab (event_line e) = [to_dec (se_epoch_seconds e), se_kind e, se_project_name e, se_client_id e]"
    unfolding event_line_def using parts by (intro split_on_join) auto
  then show "length (split_on tab (event_line e)) = 4" by simp
  note split
  moreover have "event_line e \<noteq> []" by (simp add: event_line_def)
  moreover have "length (event_line e) \<le> kMaximumEventLineBytes"
    using assms by (simp add: event_ok_def serializeEvent_line kMaximumEventLineBytes_def)
  ultimately show "parse_event (event_line e) = Inr e"
    using assms by (simp add: parse_event_def event_ok_def)
qed

lemma parseEvents_append:
  "parseEvents whole = Inr es \<Longrightarrow> ends_lines whole \<Longrightarrow> event_ok e \<Longrightarrow>
   parseEvents (whole @ serializeEvent e) = Inr (es @ [e]) \<and> ends_lines (whole @ serializeEvent e)"
  by (simp add: parseEvents_def serializeEvent_line lines_of_torn event_line_read mapE_append) (simp add: ends_lines_def)

text \<open>A torn tail is not seen, and spoils the event that is appended to it once it holds a separator.\<close>

lemma torn_tail_unseen: "ends_lines whole \<Longrightarrow> newline \<notin> set torn \<Longrightarrow> parseEvents (whole @ torn) = parseEvents whole"
  by (simp add: parseEvents_def lines_of_torn)

lemma torn_line_refused:
  assumes "tab \<in> set torn" "event_ok e"
  shows "\<exists>x. parse_event (torn @ event_line e) = Inl x"
proof -
  have "count_list torn tab \<noteq> 0" using assms(1) by (simp add: count_list_0_iff)
  then have "length (split_on tab (torn @ event_line e)) > 4"
    using event_line_read(3) [OF assms(2)] by (simp add: length_split_on)
  then show ?thesis by (auto simp: parse_event_def split: list.splits)
qed

lemma torn_append_read:
  assumes "ends_lines whole" "newline \<notin> set torn" "tab \<in> set torn" "event_ok e"
  shows "\<exists>x. parseEvents (whole @ torn @ serializeEvent e) = Inl x"
proof -
  obtain x where "parse_event (torn @ event_line e) = Inl x" using torn_line_refused [OF assms(3,4)] ..
  moreover have "butlast (split_on newline (whole @ torn @ serializeEvent e)) = butlast (split_on newline whole) @ [torn @ event_line e]"
    using lines_of_torn(2) [OF assms(1), of "torn @ event_line e"] assms(2) event_line_read(1) [OF assms(4)] by (simp add: serializeEvent_line)
  ultimately show ?thesis by (simp add: parseEvents_def mapE_append bindE_def split: sum.splits)
qed

section \<open>What an append does to the log\<close>

lemma foldM_append: "foldM f s (xs @ ys) = bindM (foldM f s xs) (\<lambda>s'. foldM f s' ys)"
  by (induction xs arbitrary: s) (simp_all add: run_bind)

text \<open>A loop of writes that succeeded has changed the content of one file.\<close>

lemma write_with_OK:
  assumes "write_with place p bytes w = (OK, w')" "bytes \<noteq> []"
  obtains c where "file_at w p = Some c" "file_at w' p = Some (place c bytes)" "\<And>q. q \<noteq> p \<Longrightarrow> node_at w' q = node_at w q"
    "w_faults w' = w_faults w"
  using assms by (auto simp: write_with_def set_content_def file_at_def split: option.splits kind.splits if_splits prod.splits)

lemma sys_create_OK:
  assumes "sys_create p w = (OK, w')"
  shows "file_at w' p = Some (case file_at w p of None \<Rightarrow> [] | Some c \<Rightarrow> c)" "q \<noteq> p \<Longrightarrow> node_at w' q = node_at w q"
  using assms by (auto simp: sys_create_def file_at_def private_file_def split: option.splits kind.splits if_splits)

lemma rotate_from_Inr:
  assumes "rotate_from d month n s w = (Inr (), w')"
  shows "\<exists>k. node_at w (d @ [archive_name month k]) = None \<and> node_at w' (d @ [archive_name month k]) = node_at w (d @ [''events.log''])
    \<and> node_at w' (d @ [''events.log'']) = None \<and> node_at w (d @ [''events.log'']) \<noteq> None
    \<and> (\<forall>q. q \<noteq> d @ [archive_name month k] \<longrightarrow> q \<noteq> d @ [''events.log''] \<longrightarrow> node_at w' q = node_at w q)"
  using assms
proof (induction n arbitrary: s w)
  case 0
  then show ?case by (simp add: run_simps)
next
  case (Suc n)
  obtain e w1 where l: "sys_link (d @ [''events.log'']) (d @ [archive_name month s]) w = (e, w1)" by fastforce
  consider "e = OK" | "e = EEXIST" | "e \<noteq> OK" "e \<noteq> EEXIST" by blast
  then show ?case
  proof cases
    case 1
    then have w1: "node_at w (d @ [archive_name month s]) = None" "node_at w (d @ [''events.log'']) \<noteq> None"
      "w1 = set_node (d @ [archive_name month s]) (the (node_at w (d @ [''events.log'']))) w"
      using l by (auto simp: sys_link_def split: option.splits if_splits)
    then have other: "archive_name month s \<noteq> ''events.log''" by auto
    obtain u w2 where u: "sys_unlink (d @ [''events.log'']) w1 = (u, w2)" by fastforce
    have "u = OK" "w' = w2"
      using Suc.prems l 1 u by (auto simp: bindM_def callM_def askM_def throwM_def returnM_def split: if_splits)
    then have "w' = remove_node (d @ [''events.log'']) w1" using u by (auto simp: sys_unlink_def split: option.splits if_splits)
    then show ?thesis using w1 other by (intro exI [of _ s]) auto
  next
    case 2
    then have "w1 = w" using l by (auto simp: sys_link_def split: option.splits if_splits)
    then have "rotate_from d month n (Suc s) w = (Inr (), w')" using Suc.prems l 2 by (simp add: bindM_def callM_def)
    then show ?thesis by (rule Suc.IH)
  next
    case 3
    then show ?thesis using Suc.prems l by (simp add: bindM_def callM_def throwM_def)
  qed
qed

lemma archive_is_log: "is_event_log (archive_name month k)"
proof -
  have "\<exists>r. archive_name month k = ''events.'' @ r" by (simp add: archive_name_def)
  moreover have "\<exists>r. archive_name month k = r @ ''.log''" by (simp only: archive_name_def append_assoc [symmetric]) blast
  ultimately show ?thesis by (simp add: is_event_log_def starts_with_iff ends_with_iff)
qed


lemma metadata_root_unchanged: "openMetadataRoot w = (r, w') \<Longrightarrow> w' = w" "lockMetadata w = (s, w') \<Longrightarrow> w' = w"
proof -
  have "reads openMetadataRoot" "reads lockMetadata" unfolding openMetadataRoot_def lockMetadata_def by (intro reads_intro)+
  then show "openMetadataRoot w = (r, w') \<Longrightarrow> w' = w" "lockMetadata w = (s, w') \<Longrightarrow> w' = w" by (metis reads_iff snd_conv)+
qed

text \<open>The bytes of the live log; a missing log is an empty one.\<close>

definition log_content :: "world \<Rightarrow> string" where
  "log_content w = (case file_at w events_log of None \<Rightarrow> [] | Some c \<Rightarrow> c)"

text \<open>
  The two outcomes of an append that returns: the entry is at the end of the live log, or it is the live log, and what was the
  live log is under a name no log had.
\<close>

definition appended :: "world \<Rightarrow> string \<Rightarrow> world \<Rightarrow> bool" where
  "appended w entry w' \<longleftrightarrow>
     file_at w' events_log = Some (log_content w @ entry) \<and> length (log_content w) + length entry \<le> kMaximumEventLogBytes
       \<and> (\<forall>q. q \<noteq> events_log \<longrightarrow> node_at w' q = node_at w q)
   \<or> file_at w' events_log = Some entry \<and> length (log_content w) + length entry > kMaximumEventLogBytes
       \<and> (\<exists>n. is_event_log n \<and> node_at w (events_dir @ [n]) = None \<and> file_at w' (events_dir @ [n]) = Some (log_content w)
           \<and> (\<forall>q. q \<noteq> events_log \<longrightarrow> q \<noteq> events_dir @ [n] \<longrightarrow> node_at w' q = node_at w q))"

lemma file_at_node: "node_at w' p = node_at w q \<Longrightarrow> file_at w' p = file_at w q"
  by (simp add: file_at_def)

lemma append_event_appended:
  assumes "append_event entry w = (Inr (), w')" "entry \<noteq> []"
  shows "appended w entry w'"
proof -
  obtain w1 where c: "sys_create events_log w = (OK, w1)"
    using assms(1) by (auto simp: append_event_def bindM_def callM_def throwM_def split: prod.splits if_splits)
  have w1: "file_at w1 events_log = Some (log_content w)" "\<And>q. q \<noteq> events_log \<Longrightarrow> node_at w1 q = node_at w q"
    using sys_create_OK [OF c] by (simp_all add: log_content_def)
  then obtain n where n: "node_at w1 events_log = Some n" "node_bytes n = log_content w"
    by (auto simp: file_at_def node_bytes_def split: option.splits kind.splits)
  let ?full = "length (log_content w) + length entry > kMaximumEventLogBytes"
  let ?new = "bindM (askM (\<lambda>w. node_at w events_log)) (\<lambda>old.
      if old \<noteq> None then stopM ''could not create rotated server event log''
      else bindM (callM (sys_create events_log)) (\<lambda>c. if c \<noteq> OK then stopM ''could not create rotated server event log'' else returnM ()))"
  obtain w2 where w2: "(if ?full then thenM (rotateEvents events_dir) ?new else returnM ()) w1 = (Inr (), w2)"
    and a: "sys_append events_log entry w2 = (OK, w')"
    using assms(1) c n
    by (auto simp: append_event_def bindM_def callM_def throwM_def askM_def returnM_def split: prod.splits if_splits sum.splits)
  from a [unfolded sys_append_def] assms(2) obtain c' where a': "file_at w2 events_log = Some c'" "file_at w' events_log = Some (c' @ entry)"
    "\<And>q. q \<noteq> events_log \<Longrightarrow> node_at w' q = node_at w2 q" by (rule write_with_OK) (rule that)
  show ?thesis
  proof (cases ?full)
    case False
    then have "w2 = w1" using w2 by (simp add: returnM_def)
    then show ?thesis using a' w1 False by (auto simp: appended_def)
  next
    case True
    then obtain w3 where r: "rotateEvents events_dir w1 = (Inr (), w3)" "?new w3 = (Inr (), w2)"
      using w2 by (auto elim: bindM_InrE)
    from r(1) obtain month where "rotate_from events_dir month 1000000 0 w1 = (Inr (), w3)"
      by (auto simp: rotateEvents_def currentEpoch_def bindM_askM throwM_def simp del: rotate_from.simps split: option.splits)
    from rotate_from_Inr [OF this] obtain k where k: "node_at w1 (events_dir @ [archive_name month k]) = None"
      "node_at w3 (events_dir @ [archive_name month k]) = node_at w1 events_log" "node_at w3 events_log = None"
      "\<forall>q. q \<noteq> events_dir @ [archive_name month k] \<longrightarrow> q \<noteq> events_log \<longrightarrow> node_at w3 q = node_at w1 q"
      by (auto simp: events_log_def)
    have "sys_create events_log w3 = (OK, w2)"
      using r(2) k(3) by (auto simp: bindM_def askM_def callM_def throwM_def returnM_def split: prod.splits if_splits)
    from sys_create_OK [OF this] have w2': "file_at w2 events_log = Some []" "\<And>q. q \<noteq> events_log \<Longrightarrow> node_at w2 q = node_at w3 q"
      using k(3) by (simp_all add: file_at_def)
    have other: "events_dir @ [archive_name month k] \<noteq> events_log" using k(1) n(1) by auto
    have old: "file_at w' (events_dir @ [archive_name month k]) = Some (log_content w)"
      using file_at_node [OF trans [OF a'(3) [OF other] trans [OF w2'(2) [OF other] k(2)]]] w1(1) by simp
    have fresh: "node_at w (events_dir @ [archive_name month k]) = None" using k(1) w1(2) [OF other] by simp
    have rest: "\<forall>q. q \<noteq> events_log \<longrightarrow> q \<noteq> events_dir @ [archive_name month k] \<longrightarrow> node_at w' q = node_at w q"
      using a'(3) w2'(2) k(4) w1(2) by simp
    have "file_at w' events_log = Some entry" using a' w2'(1) by simp
    then show ?thesis using True old fresh rest archive_is_log unfolding appended_def by blast
  qed
qed


lemma reads_metadata [reads_intro]:
  "reads openMetadataRoot" "reads lockMetadata" "reads (openPrivateDirectoryAt d n)" "reads (readPrivateFileAt d n m t)"
  "reads (directoryNames d)" "reads (check_event_log d n)"
  unfolding openMetadataRoot_def lockMetadata_def openPrivateDirectoryAt_def readPrivateFileAt_def directoryNames_def check_event_log_def
  by (intro reads_intro)+

lemma reads_for [reads_intro]: "(\<And>x. reads (f x)) \<Longrightarrow> reads (forM xs f)"
  by (induction xs) (auto intro: reads_intro)

lemma reads_logs [reads_intro]: "reads (eventLogNames d)" "reads (collect_events p found n)"
  unfolding eventLogNames_def collect_events_def Let_def by (intro reads_intro)+

lemma reads_Inr: "reads m \<Longrightarrow> m w = (r, w') \<Longrightarrow> w' = w"
  by (metis reads_iff snd_conv)

text \<open>An append of an event creates the directory of the logs where it is missing and appends the event's line.\<close>

definition new_event :: "world \<Rightarrow> string \<Rightarrow> string \<Rightarrow> string \<Rightarrow> StateEvent" where
  "new_event w kind project client =
     \<lparr>se_epoch_seconds = w_clock w div 1000000000 mod 2 ^ 64, se_kind = kind, se_project_name = project, se_client_id = client\<rparr>"

lemma appendStateEvent_Inr:
  assumes "appendStateEvent kind project client w = (Inr (), w')"
  obtains w1 where "event_ok (new_event w kind project client)" "adds_dirs w w1" "log_content w1 = log_content w"
    "appended w1 (serializeEvent (new_event w kind project client)) w'"
    "\<exists>n. node_at w' events_dir = Some n \<and> nd_kind n = Directory"
proof -
  let ?e = "new_event w kind project client"
  have e: "isValidEventKind kind" "isValidProjectName project" "isValidClientId client" "length (serializeEvent ?e) \<le> 256"
    and run: "thenM openMetadataRoot (thenM lockMetadata (bindM (ensurePrivateDirectoryAt [] ''events'') (\<lambda>_. append_event (serializeEvent ?e)))) w = (Inr (), w')"
    using assms
    by (auto simp: appendStateEvent_def currentEpoch_def bindM_askM throwM_def Let_def new_event_def kMaximumEventLineBytes_def
        split: if_splits)
  have "w_clock w div 1000000000 mod 2 ^ 64 \<le> u64_max" using mod_less_divisor [of "2 ^ 64" "w_clock w div 1000000000"] by (simp add: u64_max_def)
  then have ok: "event_ok ?e" using e by (simp add: event_ok_def new_event_def)
  obtain d w1 where d: "ensurePrivateDirectoryAt [] ''events'' w = (Inr d, w1)" "append_event (serializeEvent ?e) w1 = (Inr (), w')"
    using run by (elim bindM_InrE) (auto dest: metadata_root_unchanged)
  obtain x where x: "sys_mkdir [''events''] w = (x, w1)" "\<exists>n. node_at w1 events_dir = Some n \<and> nd_kind n = Directory"
    using d(1)
    by (auto simp: ensurePrivateDirectoryAt_def bindM_def callM_def askM_def throwM_def returnM_def sys_open_dir_def events_dir_def
        split: prod.splits if_splits sum.splits option.splits)
  have "adds_dirs w (snd (callM (sys_mkdir [''events'']) w))" using adding_mkdir [of "[''events'']"] by (auto simp: keeps_def)
  then have adds: "adds_dirs w w1" using x(1) by (simp add: callM_def)
  have "serializeEvent ?e \<noteq> []" by (simp add: serializeEvent_line)
  from append_event_appended [OF d(2) this] have app: "appended w1 (serializeEvent ?e) w'" .
  have "node_at w' events_dir = node_at w1 events_dir"
    using app by (auto simp: appended_def events_log_def events_dir_def)
  then show ?thesis using that [OF ok adds _ app] x(2) adds_dirs_file [OF adds] by (simp add: log_content_def)
qed


section \<open>A torn append spoils the log\<close>

lemma bindM_stuck:
  "reads m \<Longrightarrow> (\<And>x. fst (m w) = Inr x \<Longrightarrow> \<exists>e. fst (f x w) = Inl e) \<Longrightarrow> \<exists>e. fst (bindM m f w) = Inl e"
  by (simp add: bindM_reads split: sum.split)

lemma bindM_stuck_first: "\<exists>e. fst (m w) = Inl e \<Longrightarrow> \<exists>e. fst (bindM m f w) = Inl e"
  by (auto simp: bindM_def split: prod.split)

lemma foldM_stuck:
  assumes "\<And>s y. reads (f s y)" "x \<in> set xs" "\<And>s. \<exists>e. fst (f s x w) = Inl e"
  shows "\<exists>e. fst (foldM f s xs w) = Inl e"
  using assms(2)
proof (induction xs arbitrary: s)
  case (Cons y ys)
  show ?case
  proof (cases "y = x")
    case True
    then show ?thesis using assms(3) [of s] by (simp add: bindM_reads assms(1) split: sum.split) (metis Inl_Inr_False)
  next
    case False
    with Cons have "x \<in> set ys" by simp
    then show ?thesis unfolding foldM.simps by (intro bindM_stuck assms(1) Cons.IH)
  qed
qed simp

lemma behind_lock: "\<exists>e. fst (k w) = Inl e \<Longrightarrow> \<exists>e. fst (thenM openMetadataRoot (thenM lockMetadata k) w) = Inl e"
  by (rule bindM_stuck [OF reads_metadata(1)], rule bindM_stuck [OF reads_metadata(2)])

lemma event_log_key_less:
  assumes "is_event_log n" "n \<noteq> ''events.log''"
  shows "event_log_key n < ''~''"
proof -
  from assms obtain r where n: "n = ''events.'' @ r" by (auto simp: is_event_log_def starts_with_iff)
  then obtain s where "event_log_key n = CHR ''e'' # s" using assms(2) by (cases "length n = 18") (auto simp: event_log_key_def)
  moreover have "CHR ''e'' < CHR ''~''" by (simp add: less_char_def)
  ultimately show ?thesis by simp
qed

lemma live_log_last:
  assumes "eventLogNames events_dir w = (Inr names, w')" "node_at w events_log \<noteq> None"
  shows "''events.log'' \<in> set (drop (length names - 2) names)"
proof -
  let ?logs = "filter is_event_log (names_in w events_dir)"
  have names: "names = sort_key event_log_key ?logs"
    using assms(1)
    by (auto simp: eventLogNames_def directoryNames_def bindM_def askM_def throwM_def returnM_def Let_def split: prod.splits sum.splits if_splits)
  have live: "''events.log'' \<in> set names"
    using assms(2) names_in_iff [of "''events.log''" w events_dir] by (simp add: names events_log_def is_event_log_def)
  then have "names \<noteq> []" by auto
  have "last names = ''events.log''"
  proof (rule ccontr)
    assume other: "last names \<noteq> ''events.log''"
    have "last names \<in> set names" using \<open>names \<noteq> []\<close> by simp
    then have "is_event_log (last names)" unfolding names by simp
    then have less: "event_log_key (last names) < ''~''" using other by (rule event_log_key_less)
    obtain i where i: "i < length names" "names ! i = ''events.log''" using live by (auto simp: in_set_conv_nth)
    have "sorted (map event_log_key names)" by (simp add: names)
    then have "event_log_key (names ! i) \<le> event_log_key (names ! (length names - 1))"
      using i(1) by (auto simp: sorted_iff_nth_mono)
    then have "event_log_key ''events.log'' \<le> event_log_key (last names)" using i(2) \<open>names \<noteq> []\<close> by (simp add: last_conv_nth)
    then show False using less by (simp add: event_log_key_def)
  qed
  moreover have "length names - 2 < length names" using \<open>names \<noteq> []\<close> by (simp add: length_greater_0_conv)
  ultimately show ?thesis by (metis drop_eq_Nil last_drop last_in_set not_less)
qed

lemma unreadable_log:
  assumes "file_at w events_log = Some c" "\<exists>x. parseEvents c = Inl x"
  shows "\<exists>e. fst (collect_events p found ''events.log'' w) = Inl e" "\<exists>e. fst (logs_to_scrub p names ''events.log'' w) = Inl e"
proof -
  have "fst (readPrivateFileAt events_dir ''events.log'' m t w) = Inr x \<Longrightarrow> x = c" for m t x
    using assms(1) unfolding readPrivateFileAt_def events_log_def file_at_def node_bytes_def
    by (auto simp: bindM_def askM_def throwM_def returnM_def sys_open_def split: sum.splits if_splits option.splits kind.splits)
  then show "\<exists>e. fst (collect_events p found ''events.log'' w) = Inl e" "\<exists>e. fst (logs_to_scrub p names ''events.log'' w) = Inl e"
    using assms(2) unfolding collect_events_def logs_to_scrub_def
    by (intro bindM_stuck reads_intro; auto simp: bindM_def liftE_def)+
qed



text \<open>A state directory with a log, on a disk that works.\<close>

definition metadata_world :: "string \<Rightarrow> world" where
  "metadata_world content =
     \<lparr>w_files = [([], private_dir 0), (events_dir, private_dir 0), (events_log, private_file content 0)], w_clock = 7000000000,
      w_faults = \<lambda>_ _. False, w_random = \<lambda>_. 0, w_drawn = 0\<rparr>"

definition sample_log :: string where
  "sample_log = ''3'' @ [tab] @ ''ci-claimed'' @ [tab] @ ''demo'' @ [tab] @ ''box'' @ [newline]"

lemma metadata_world_append:
  assumes "length content \<le> 65280"
  shows "\<exists>w'. appendStateEvent ''ci-finished'' ''demo'' ''box'' (metadata_world content) = (Inr (), w')"
proof -
  let ?e = "serializeEvent (new_event (metadata_world content) ''ci-finished'' ''demo'' ''box'')"
  have e: "length ?e = 23"
    by (simp add: serializeEvent_def new_event_def metadata_world_def to_dec.simps)
  have ok: "isValidEventKind ''ci-finished''" "isValidProjectName ''demo''" "isValidClientId ''box''" by code_simp+
  show ?thesis
    using assms e ok
    by (simp add: appendStateEvent_def currentEpoch_def bindM_askM Let_def new_event_def metadata_world_def kMaximumEventLineBytes_def
        openMetadataRoot_def validatedMetadataRoot_def lockMetadata_def ensurePrivateDirectoryAt_def append_event_def sys_open_dir_def
        sys_mkdir_def sys_create_def sys_append_def write_with_def sys_sync_def bindM_def askM_def callM_def returnM_def node_at_def
        events_dir_def events_log_def private_dir_def private_file_def is_regular_def node_bytes_def kMaximumEventLogBytes_def set_content_def)
qed

lemma metadata_world_log: "file_at (metadata_world content) events_log = Some content" "log_content (metadata_world content) = content"
  by (simp_all add: log_content_def file_at_def node_at_def metadata_world_def events_log_def events_dir_def private_file_def)

definition sample_event :: StateEvent where
  "sample_event = \<lparr>se_epoch_seconds = 3, se_kind = ''ci-claimed'', se_project_name = ''demo'', se_client_id = ''box''\<rparr>"

lemma sample_log_read: "parseEvents sample_log = Inr [sample_event]" "ends_lines sample_log" "length sample_log = 22"
proof -
  have "isValidEventKind ''ci-claimed''" "isValidProjectName ''demo''" "isValidClientId ''box''" by code_simp+
  then have "event_ok sample_event"
    by (simp add: event_ok_def sample_event_def serializeEvent_def u64_max_def to_dec.simps)
  moreover have "serializeEvent sample_event = sample_log"
    by (simp add: serializeEvent_def sample_event_def sample_log_def to_dec.simps digit_char_simps)
  ultimately show "parseEvents sample_log = Inr [sample_event]" "ends_lines sample_log"
    using parseEvents_append [of "[]" "[]" sample_event] by (simp_all add: parseEvents_def ends_lines_def)
  show "length sample_log = 22" by (simp add: sample_log_def)
qed



section \<open>What is left of a removed project\<close>

text \<open>Every event that was read can be written again.\<close>

lemma length_to_dec_value: "s \<noteq> [] \<Longrightarrow> \<forall>c \<in> set s. is_digit c \<Longrightarrow> length (to_dec (digits_value s)) \<le> length s"
proof (induction s rule: rev_induct)
  case (snoc c s)
  have d: "digit_value c < 10" using snoc.prems(2) by (simp add: digit_value_less)
  show ?case
  proof (cases "10 * digits_value s + digit_value c < 10")
    case True
    then show ?thesis by (subst to_dec.simps) simp
  next
    case False
    then have "s \<noteq> []" using d by auto
    then show ?thesis using snoc d False by (subst to_dec.simps) simp
  qed
qed simp

lemma parse_event_ok: "parse_event l = Inr e \<Longrightarrow> event_ok e"
proof -
  assume "parse_event l = Inr e"
  then obtain epoch kind project client where l: "split_on tab l = [epoch, kind, project, client]" "length l \<le> 256"
    "whole_number u64_max epoch = Some (se_epoch_seconds e)" "isValidEventKind kind" "isValidProjectName project" "isValidClientId client"
    "e = \<lparr>se_epoch_seconds = se_epoch_seconds e, se_kind = kind, se_project_name = project, se_client_id = client\<rparr>"
    by (auto simp: parse_event_def kMaximumEventLineBytes_def split: list.splits option.splits if_splits)
  have epoch: "se_epoch_seconds e \<le> u64_max" "length (to_dec (se_epoch_seconds e)) \<le> length epoch"
    using l(3) length_to_dec_value [of epoch] by (auto simp: whole_number_iff)
  have "l = join tab [epoch, kind, project, client]" using join_split_on [of tab l] l(1) by metis
  then have "length (serializeEvent e) \<le> 257"
    using l(2) epoch(2) by (subst l(7)) (simp add: serializeEvent_def)
  moreover have "se_kind e = kind" "se_project_name e = project" "se_client_id e = client" using l(7) by (metis StateEvent.select_convs)+
  ultimately show ?thesis using l epoch(1) by (simp add: event_ok_def)
qed

lemma parseEvents_ok: "parseEvents c = Inr es \<Longrightarrow> list_all event_ok es"
  by (auto simp: parseEvents_def mapE_eq_Inr list_all_iff in_set_conv_nth list_all2_conv_all_nth dest!: parse_event_ok)

lemma parse_serialized: "list_all event_ok es \<Longrightarrow> parseEvents (concat (map serializeEvent es)) = Inr es \<and> ends_lines (concat (map serializeEvent es))"
  by (induction es rule: rev_induct) (simp add: parseEvents_def ends_lines_def, simp add: parseEvents_append)

text \<open>What of a log is kept, and what the rewriting of one log does.\<close>

definition kept_events :: "string \<Rightarrow> StateEvent list \<Rightarrow> StateEvent list" where
  "kept_events project es = filter (\<lambda>e. se_project_name e \<noteq> project) es"

lemma read_private_Inr:
  assumes "readPrivateFileAt d n m t w = (Inr c, w')"
  shows "w' = w" "file_at w (d @ [n]) = Some c"
  using assms
  by (auto simp: readPrivateFileAt_def bindM_def askM_def throwM_def returnM_def sys_open_def file_at_def is_regular_def node_bytes_def
      split: sum.splits if_splits option.splits kind.splits)

lemma rewrite_OK:
  assumes "sys_overwrite p new w = (OK, w1)" "sys_truncate p (length new) w1 = (OK, w')" "file_at w p = Some c"
  shows "file_at w' p = Some new" "q \<noteq> p \<Longrightarrow> node_at w' q = node_at w q"
proof -
  have w1: "file_at w1 p = Some (new @ drop (length new) c)" "\<And>q. q \<noteq> p \<Longrightarrow> node_at w1 q = node_at w q"
    using assms(1,3)
    by (auto simp: sys_overwrite_def write_with_def set_content_def file_at_def split: option.splits kind.splits if_splits prod.splits)
  show "file_at w' p = Some new" "q \<noteq> p \<Longrightarrow> node_at w' q = node_at w q"
    using assms(2) w1 by (auto simp: sys_truncate_def set_content_def file_at_def split: option.splits kind.splits if_splits)
qed

lemma scrub_log_Inr:
  assumes "scrub_log project n w = (Inr (), w')"
  obtains c es where "file_at w (events_dir @ [n]) = Some c" "parseEvents c = Inr es"
    "file_at w' (events_dir @ [n]) = Some (concat (map serializeEvent (kept_events project es)))"
    "\<And>q. q \<noteq> events_dir @ [n] \<Longrightarrow> node_at w' q = node_at w q"
proof -
  let ?p = "events_dir @ [n]"
  obtain c es where c: "readPrivateFileAt events_dir n kMaximumEventLogBytes ''server event log'' w = (Inr c, w)" "parseEvents c = Inr es"
    using assms read_private_Inr(1) by (auto simp: scrub_log_def Let_def liftE_def bindM_def split: prod.splits sum.splits)
  note here = read_private_Inr(2) [OF c(1)]
  let ?new = "concat (map serializeEvent (kept_events project es))"
  obtain w1 where o: "sys_overwrite ?p ?new w = (OK, w1)" "sys_truncate ?p (length ?new) w1 = (OK, w')"
    using assms c
    by (auto simp: scrub_log_def Let_def liftE_def bindM_def callM_def askM_def throwM_def returnM_def kept_events_def
        split: prod.splits sum.splits if_splits)
  then show ?thesis using that [OF here c(2)] rewrite_OK [OF o here] by simp
qed

text \<open>The events of a log by its name.\<close>

definition log_events :: "world \<Rightarrow> string \<Rightarrow> StateEvent list option" where
  "log_events w n = (case file_at w (events_dir @ [n]) of None \<Rightarrow> None | Some c \<Rightarrow> ok_of (parseEvents c))"

lemma log_events_kept: "node_at w' (events_dir @ [n]) = node_at w (events_dir @ [n]) \<Longrightarrow> log_events w' n = log_events w n"
  by (simp add: log_events_def file_at_def)

lemma scrub_log_events:
  assumes "scrub_log project n w = (Inr (), w')"
  shows "\<exists>es. log_events w n = Some es \<and> log_events w' n = Some (kept_events project es)"
    "q \<noteq> events_dir @ [n] \<Longrightarrow> node_at w' q = node_at w q"
proof -
  obtain c es where c: "file_at w (events_dir @ [n]) = Some c" "parseEvents c = Inr es"
    "file_at w' (events_dir @ [n]) = Some (concat (map serializeEvent (kept_events project es)))"
    "\<And>q. q \<noteq> events_dir @ [n] \<Longrightarrow> node_at w' q = node_at w q"
    using scrub_log_Inr [OF assms] by metis
  have "list_all event_ok (kept_events project es)" using parseEvents_ok [OF c(2)] by (simp add: kept_events_def list_all_iff)
  then show "\<exists>es. log_events w n = Some es \<and> log_events w' n = Some (kept_events project es)"
    using c parse_serialized by (simp add: log_events_def)
  show "q \<noteq> events_dir @ [n] \<Longrightarrow> node_at w' q = node_at w q" by (rule c(4))
qed

lemma scrub_logs_events:
  assumes "forM names (scrub_log project) w = (Inr (), w')" "distinct names"
  shows "(\<forall>n \<in> set names. \<exists>es. log_events w n = Some es \<and> log_events w' n = Some (kept_events project es))
    \<and> (\<forall>q. q \<notin> (\<lambda>n. events_dir @ [n]) ` set names \<longrightarrow> node_at w' q = node_at w q)"
  using assms
proof (induction names arbitrary: w)
  case Nil
  then show ?case by (simp add: returnM_def)
next
  case (Cons n ns)
  from Cons.prems(1) obtain w1 where w1: "scrub_log project n w = (Inr (), w1)" "forM ns (scrub_log project) w1 = (Inr (), w')"
    by (auto elim: bindM_InrE)
  note first = scrub_log_events [OF w1(1)]
  have dist: "n \<notin> set ns" "distinct ns" using Cons.prems(2) by simp_all
  note rest = Cons.IH [OF w1(2) dist(2)]
  have "log_events w' n = log_events w1 n" using rest dist(1) by (intro log_events_kept) auto
  moreover have "log_events w1 m = log_events w m" if "m \<in> set ns" for m
    using first(2) that dist(1) by (intro log_events_kept) (metis last_snoc)
  ultimately show ?case using first rest by auto
qed

text \<open>The logs that are rewritten are those with an event of the project.\<close>

definition mentions :: "world \<Rightarrow> string \<Rightarrow> string \<Rightarrow> bool" where
  "mentions w project n \<longleftrightarrow> (\<exists>es. log_events w n = Some es \<and> kept_events project es \<noteq> es)"

lemma logs_to_scrub_Inr:
  "foldM (logs_to_scrub project) found names w = (Inr r, w') \<Longrightarrow>
   w' = w \<and> (\<forall>n \<in> set names. log_events w n \<noteq> None) \<and> r = found @ filter (mentions w project) names"
proof (induction names arbitrary: found)
  case Nil
  then show ?case by (simp add: returnM_def)
next
  case (Cons n ns)
  from Cons.prems obtain found' w1 where s: "logs_to_scrub project found n w = (Inr found', w1)" "foldM (logs_to_scrub project) found' ns w1 = (Inr r, w')"
    by (auto elim: bindM_InrE)
  obtain c es where c: "readPrivateFileAt events_dir n kMaximumEventLogBytes ''server event log'' w = (Inr c, w)" "parseEvents c = Inr es"
    and f: "found' = (if \<exists>e \<in> set es. se_project_name e = project then found @ [n] else found)" "w1 = w"
    using s(1) read_private_Inr(1) by (auto simp: logs_to_scrub_def liftE_def bindM_def returnM_def split: prod.splits sum.splits)
  have "log_events w n = Some es" using c read_private_Inr(2) [OF c(1)] by (simp add: log_events_def)
  moreover have "kept_events project es \<noteq> es \<longleftrightarrow> (\<exists>e \<in> set es. se_project_name e = project)"
    by (auto simp: kept_events_def filter_id_conv)
  ultimately show ?case using Cons.IH [OF s(2) [unfolded f(2)]] f(1) by (auto simp: mentions_def)
qed

text \<open>Removing an entry touches nothing outside it, and when it returns the entry is gone.\<close>

definition only_below :: "path \<Rightarrow> world \<Rightarrow> world \<Rightarrow> bool" where
  "only_below p w w' \<longleftrightarrow> (\<forall>q. \<not> prefix p q \<longrightarrow> node_at w' q = node_at w q)"

interpretation below_dir: discipline "\<lambda>_. True" "only_below p" for p
  by unfold_locales (auto simp: only_below_def)

lemma keeps_only_below: "reads m \<Longrightarrow> keeps (\<lambda>_. True) (only_below p) m (\<lambda>_. True)"
  by (simp add: reads_iff keeps_def only_below_def)

lemma keeps_deeper: "keeps (\<lambda>_. True) (only_below (p @ q)) m Q \<Longrightarrow> keeps (\<lambda>_. True) (only_below p) m Q"
  by (auto simp: keeps_def only_below_def dest: append_prefixD)

lemma unlink_only_below: "keeps (\<lambda>_. True) (only_below p) (callM (sys_unlink p)) (\<lambda>_. True)"
  "keeps (\<lambda>_. True) (only_below p) (callM (sys_rmdir p)) (\<lambda>_. True)"
  by (auto simp: keeps_def callM_def sys_unlink_def sys_rmdir_def only_below_def split: option.splits)

lemmas below_steps =
  below_dir.keeps_bind [OF unlink_only_below(1)] below_dir.keeps_bind [OF unlink_only_below(2)] below_dir.keeps_bind [OF keeps_only_below]
  below_dir.keeps_throw below_dir.keeps_return

lemma removeEntryAt_below: "keeps (\<lambda>_. True) (only_below (parent @ [name])) (removeEntryAt levels parent name dry_run) (\<lambda>_. True)"
proof (induction levels arbitrary: parent name dry_run)
  case 0
  show ?case
    by (subst removeEntryAt.simps) (auto simp: Let_def intro!: below_steps reads_intro split: sum.split option.split)
next
  case (Suc levels)
  show ?case
    by (subst removeEntryAt.simps)
      (auto simp: Let_def intro!: below_steps below_dir.keeps_bind [OF below_dir.keeps_for] reads_intro keeps_deeper [where q = "[c]" for c, OF Suc]
        split: sum.split option.split)
qed

lemma removeEntryAt_gone:
  assumes "removeEntryAt levels parent name False w = (Inr (), w')"
  shows "node_at w' (parent @ [name]) = None"
proof -
  let ?p = "parent @ [name]"
  show ?thesis
  proof (cases "node_at w ?p")
    case None
    then show ?thesis using assms
      by (subst (asm) removeEntryAt.simps) (auto simp: Let_def bindM_askM throwM_def returnM_def split: if_splits)
  next
    case (Some n)
    show ?thesis
    proof (cases "nd_kind n = Directory")
      case True
      obtain deeper where levels: "levels = Suc deeper"
        using assms Some True by (subst (asm) removeEntryAt.simps) (auto simp: Let_def bindM_askM throwM_def split: if_splits nat.splits)
      have "fst (openPrivateDirectoryAt parent name w) \<noteq> Inr None"
        using Some by (auto simp: openPrivateDirectoryAt_def bindM_def askM_def throwM_def returnM_def sys_open_dir_def split: if_splits)
      then obtain w1 where "sys_rmdir ?p w1 = (OK, w')"
        using assms Some True levels
        by (subst (asm) removeEntryAt.simps)
          (auto simp: Let_def askM_def throwM_def bindM_def callM_def returnM_def split: if_splits prod.splits sum.splits option.splits)
      then show ?thesis by (auto simp: sys_rmdir_def split: option.splits if_splits)
    next
      case False
      then have "sys_unlink ?p w = (OK, w')"
        using assms Some
        by (subst (asm) removeEntryAt.simps) (auto simp: Let_def askM_def throwM_def bindM_def callM_def returnM_def split: if_splits prod.splits)
      then show ?thesis by (auto simp: sys_unlink_def split: option.splits if_splits)
    qed
  qed
qed

lemma remove_directory_Inr:
  assumes "remove_directory project False name w = (Inr (), w')"
  shows "only_below [name, project] w w'" "node_at w [name] \<noteq> None \<Longrightarrow> node_at w' [name, project] = None"
proof -
  obtain r where r: "openPrivateDirectoryAt [] name w = (Inr r, w)"
    using assms reads_Inr [OF reads_metadata(3)] by (auto simp: remove_directory_def elim!: bindM_InrE)
  then have d: "r = None \<and> node_at w [name] = None \<or> r = Some [name]"
    by (auto simp: openPrivateDirectoryAt_def bindM_def askM_def throwM_def returnM_def sys_open_dir_def
        split: if_splits sum.splits option.splits)
  have "w' = w" if "r = None" using that assms r by (simp add: remove_directory_def bindM_def returnM_def)
  moreover have e: "removeEntryAt 65 [name] project False w = (Inr (), w')" if "r = Some [name]"
    using that assms r
    by (auto simp: remove_directory_def bindM_def askM_def throwM_def returnM_def split: prod.splits sum.splits if_splits)
  ultimately show "only_below [name, project] w w'" "node_at w [name] \<noteq> None \<Longrightarrow> node_at w' [name, project] = None"
    using d removeEntryAt_gone [OF e] keepsD [OF removeEntryAt_below _ e] by (auto simp: only_below_def)
qed

lemma remove_directories_Inr:
  assumes "remove_directories project False w = (Inr (), w')"
  shows "\<not> prefix [''checkouts'', project] q \<Longrightarrow> \<not> prefix [''projects'', project] q \<Longrightarrow> node_at w' q = node_at w q"
    "d \<in> {''checkouts'', ''projects''} \<Longrightarrow> node_at w [d] \<noteq> None \<Longrightarrow> node_at w' [d, project] = None"
proof -
  obtain w1 where w1: "remove_directory project False ''checkouts'' w = (Inr (), w1)" "remove_directory project False ''projects'' w1 = (Inr (), w')"
    using assms by (auto simp: remove_directories_def project_directories_def returnM_def elim!: bindM_InrE)
  note one = remove_directory_Inr [OF w1(1)] and two = remove_directory_Inr [OF w1(2)]
  show "\<not> prefix [''checkouts'', project] q \<Longrightarrow> \<not> prefix [''projects'', project] q \<Longrightarrow> node_at w' q = node_at w q"
    using one(1) two(1) by (simp add: only_below_def)
  have "node_at w' [''checkouts'', project] = node_at w1 [''checkouts'', project]" "node_at w1 [''projects''] = node_at w [''projects'']"
    using one(1) two(1) by (simp_all add: only_below_def)
  then show "d \<in> {''checkouts'', ''projects''} \<Longrightarrow> node_at w [d] \<noteq> None \<Longrightarrow> node_at w' [d, project] = None"
    using one(2) two(2) by auto
qed

lemma reads_removal [reads_intro]: "reads (removeEntryAt levels d n True)" "reads (remove_directories p True)" "reads (logs_to_scrub p found n)"
proof -
  have entry: "reads (removeEntryAt levels d n True)" for levels d n
    by (induction levels arbitrary: d n; subst removeEntryAt.simps) (auto simp: Let_def intro!: reads_intro split: sum.split option.split)
  then show "reads (removeEntryAt levels d n True)" .
  show "reads (remove_directories p True)"
    unfolding remove_directories_def remove_directory_def by (intro reads_intro entry)
  show "reads (logs_to_scrub p found n)" unfolding logs_to_scrub_def by (intro reads_intro)
qed

text \<open>A dry run changes nothing, whatever it finds.\<close>

lemma dry_run_reads: "reads (removeProjectMetadata project True)"
  unfolding removeProjectMetadata_def by (auto intro!: reads_intro split: option.split)

lemma eventLogNames_Inr:
  "eventLogNames d w = (Inr names, w') \<Longrightarrow> w' = w \<and> distinct names \<and> (\<forall>n. n \<in> set names \<longleftrightarrow> is_event_log n \<and> node_at w (d @ [n]) \<noteq> None)"
proof -
  assume a: "eventLogNames d w = (Inr names, w')"
  then have "names = sort_key event_log_key (filter is_event_log (names_in w d))"
    by (auto simp: eventLogNames_def directoryNames_def bindM_def askM_def throwM_def returnM_def Let_def split: prod.splits sum.splits if_splits)
  moreover have "distinct (names_in w d)" by (simp add: names_in_def)
  ultimately show ?thesis using reads_Inr [OF reads_logs(1) a] by (auto simp: names_in_iff)
qed

lemma read_stepE:
  assumes "bindM m f w = (Inr x, w')" "reads m"
  obtains a where "m w = (Inr a, w)" "f a w = (Inr x, w')"
  using assms by (elim bindM_InrE) (metis reads_Inr)

text \<open>The steps of a removal that returned: what it found before it began, and the two it made changes in.\<close>

lemma removal_steps:
  assumes "removeProjectMetadata project False w = (Inr (), w')" "node_at w events_dir \<noteq> None"
  obtains names replacements w1
  where "eventLogNames events_dir w = (Inr names, w)" "foldM (logs_to_scrub project) [] names w = (Inr replacements, w)"
    "remove_directories project False w = (Inr (), w1)" "forM replacements (scrub_log project) w1 = (Inr (), w')"
proof -
  from assms(1) have
    "thenM openMetadataRoot (thenM lockMetadata (
        bindM (openPrivateDirectoryAt [] ''events'') (\<lambda>events.
        bindM (case events of None \<Rightarrow> returnM []
               | Some _ \<Rightarrow> bindM (eventLogNames events_dir) (\<lambda>names. foldM (logs_to_scrub project) [] names)) (\<lambda>replacements.
        thenM (remove_directories project True) (
        thenM (remove_directories project False) (
          thenM (forM replacements (scrub_log project)) (
          bindM (askM (\<lambda>w. events \<noteq> None \<and> sys_sync events_dir w \<noteq> OK)) (\<lambda>failed.
          if failed then stopM ''could not sync project event cleanup''
          else bindM (askM (sys_sync [])) (\<lambda>y.
            if y \<noteq> OK then stopM ''could not sync project metadata cleanup'' else returnM ()))))))))) w = (Inr (), w')"
    unfolding removeProjectMetadata_def by (simp add: throwM_def split: if_splits)
  then obtain events where ev: "openPrivateDirectoryAt [] ''events'' w = (Inr events, w)"
    and run: "bindM (case events of None \<Rightarrow> returnM []
               | Some _ \<Rightarrow> bindM (eventLogNames events_dir) (\<lambda>names. foldM (logs_to_scrub project) [] names)) (\<lambda>replacements.
        thenM (remove_directories project True) (
        thenM (remove_directories project False) (
          thenM (forM replacements (scrub_log project)) (
          bindM (askM (\<lambda>w. events \<noteq> None \<and> sys_sync events_dir w \<noteq> OK)) (\<lambda>failed.
          if failed then stopM ''could not sync project event cleanup''
          else bindM (askM (sys_sync [])) (\<lambda>y.
            if y \<noteq> OK then stopM ''could not sync project metadata cleanup'' else returnM ())))))) w = (Inr (), w')"
    by (rule read_stepE [OF _ reads_metadata(1)]) (erule read_stepE [OF _ reads_metadata(2)], erule read_stepE [OF _ reads_metadata(3)], rule that)
  have "events \<noteq> None"
    using ev assms(2) by (auto simp: openPrivateDirectoryAt_def bindM_def askM_def throwM_def returnM_def sys_open_dir_def events_dir_def
        split: sum.splits if_splits option.splits)
  then have look: "(case events of None \<Rightarrow> returnM []
               | Some _ \<Rightarrow> bindM (eventLogNames events_dir) (\<lambda>names. foldM (logs_to_scrub project) [] names))
      = bindM (eventLogNames events_dir) (\<lambda>names. foldM (logs_to_scrub project) [] names)" by auto
  have looks: "reads (bindM (eventLogNames events_dir) (\<lambda>names. foldM (logs_to_scrub project) [] names))" by (intro reads_intro)
  from run [unfolded look] obtain replacements where found:
    "bindM (eventLogNames events_dir) (\<lambda>names. foldM (logs_to_scrub project) [] names) w = (Inr replacements, w)"
    and rest: "thenM (remove_directories project True) (thenM (remove_directories project False) (
          thenM (forM replacements (scrub_log project)) (
          bindM (askM (\<lambda>w. events \<noteq> None \<and> sys_sync events_dir w \<noteq> OK)) (\<lambda>failed.
          if failed then stopM ''could not sync project event cleanup''
          else bindM (askM (sys_sync [])) (\<lambda>y.
            if y \<noteq> OK then stopM ''could not sync project metadata cleanup'' else returnM ()))))) w = (Inr (), w')"
    by (rule read_stepE [OF _ looks])
  from found obtain names where names: "eventLogNames events_dir w = (Inr names, w)" "foldM (logs_to_scrub project) [] names w = (Inr replacements, w)"
    by (rule read_stepE [OF _ reads_logs(1)])
  from rest obtain u v w1 w2 where w1: "remove_directories project False w = (Inr u, w1)" "forM replacements (scrub_log project) w1 = (Inr v, w2)"
    and last: "bindM (askM (\<lambda>w. events \<noteq> None \<and> sys_sync events_dir w \<noteq> OK)) (\<lambda>failed.
          if failed then stopM ''could not sync project event cleanup''
          else bindM (askM (sys_sync [])) (\<lambda>y.
            if y \<noteq> OK then stopM ''could not sync project metadata cleanup'' else returnM ())) w2 = (Inr (), w')"
    by (rule read_stepE [OF _ reads_removal(2)]) (erule bindM_InrE, erule bindM_InrE, rule that)
  have "w' = w2" using last by (auto simp: bindM_def askM_def throwM_def returnM_def split: if_splits)
  with w1 show thesis by (intro that [OF names]) simp_all
qed

text \<open>
  C20: when the removal of a project's metadata returns, whatever system calls could have failed, nothing of the project is left:
  its directory of checkouts and its directory of derived data are gone, every event log that was there is readable, and reads as
  all its events before in their order but those of the project. Nothing else in the state directory has changed.
\<close>

theorem removed_project_scrubbed:
  assumes "removeProjectMetadata project False w = (Inr (), w')" "node_at w events_dir \<noteq> None"
  shows "(d \<in> {''checkouts'', ''projects''} \<and> node_at w [d] \<noteq> None \<longrightarrow> node_at w' [d, project] = None)
    \<and> (is_event_log n \<and> node_at w (events_dir @ [n]) \<noteq> None \<longrightarrow>
        (\<exists>es. log_events w n = Some es \<and> log_events w' n = Some (filter (\<lambda>e. se_project_name e \<noteq> project) es)))
    \<and> (\<not> prefix [''checkouts'', project] q \<and> \<not> prefix [''projects'', project] q \<and> q \<notin> (\<lambda>n. events_dir @ [n]) ` Collect is_event_log
        \<longrightarrow> node_at w' q = node_at w q)"
proof -
  from removal_steps [OF assms] obtain names replacements w1
    where names: "eventLogNames events_dir w = (Inr names, w)" "foldM (logs_to_scrub project) [] names w = (Inr replacements, w)"
      and w1: "remove_directories project False w = (Inr (), w1)" "forM replacements (scrub_log project) w1 = (Inr (), w')" .
  note logs = eventLogNames_Inr [OF names(1)] and found = logs_to_scrub_Inr [OF names(2)]
  note dirs = remove_directories_Inr [OF w1(1)]
  have "distinct replacements" using found logs by simp
  note scrubbed = scrub_logs_events [OF w1(2) this]
  have apart: "node_at w1 (events_dir @ [m]) = node_at w (events_dir @ [m])" for m by (rule dirs(1)) (simp_all add: events_dir_def)
  have "node_at w' [d, project] = node_at w1 [d, project]" if "d \<in> {''checkouts'', ''projects''}"
  proof -
    have "[d, project] \<notin> (\<lambda>n. events_dir @ [n]) ` set replacements" using that by (auto simp: events_dir_def)
    then show ?thesis using scrubbed by blast
  qed
  moreover have "\<exists>es. log_events w n = Some es \<and> log_events w' n = Some (kept_events project es)"
    if "is_event_log n" "node_at w (events_dir @ [n]) \<noteq> None"
  proof -
    from that have n: "n \<in> set names" using logs by simp
    then obtain es where es: "log_events w n = Some es" using found by auto
    have es1: "log_events w1 n = Some es" using es log_events_kept [OF apart] by simp
    show ?thesis
    proof (cases "n \<in> set replacements")
      case True
      then show ?thesis using scrubbed es es1 by auto
    next
      case False
      then have "kept_events project es = es" using found n es by (auto simp: mentions_def)
      moreover have "log_events w' n = log_events w1 n" using scrubbed False by (intro log_events_kept) auto
      ultimately show ?thesis using es es1 by simp
    qed
  qed
  moreover have "node_at w' q = node_at w q"
    if "\<not> prefix [''checkouts'', project] q" "\<not> prefix [''projects'', project] q" "q \<notin> (\<lambda>n. events_dir @ [n]) ` Collect is_event_log"
  proof -
    have "q \<notin> (\<lambda>n. events_dir @ [n]) ` set replacements" using that(3) found logs by auto
    then show ?thesis using scrubbed dirs(1) [OF that(1,2)] by simp
  qed
  ultimately show ?thesis using dirs(2) unfolding kept_events_def by simp
qed

text \<open>A state directory with one event and one checkout of the project; the removal returns on it.\<close>

definition removal_world :: world where
  "removal_world =
     \<lparr>w_files = [([], private_dir 0), (events_dir, private_dir 0), (events_log, private_file sample_log 0), ([''checkouts''], private_dir 0),
        ([''checkouts'', ''demo''], private_dir 0), ([''checkouts'', ''demo'', ''box.ini''], private_file [] 0)], w_clock = 7000000000,
      w_faults = \<lambda>_ _. False, w_random = \<lambda>_. 0, w_drawn = 0\<rparr>"

lemmas removal_run =
  removal_world_def bindM_def askM_def callM_def returnM_def throwM_def liftE_def Let_def events_dir_def events_log_def private_dir_def
  private_file_def node_at_def is_regular_def node_bytes_def sys_open_dir_def sys_open_def openPrivateDirectoryAt_def
  readPrivateFileAt_def directoryNames_def names_in_def kMaximumEventLogBytes_def

lemma removal_world_logs:
  "eventLogNames events_dir removal_world = (Inr [''events.log''], removal_world)"
  "logs_to_scrub ''demo'' [] ''events.log'' removal_world = (Inr [''events.log''], removal_world)"
proof -
  have "length sample_log = 22" "parseEvents sample_log = Inr [sample_event]" by (rule sample_log_read)+
  then show "eventLogNames events_dir removal_world = (Inr [''events.log''], removal_world)"
    "logs_to_scrub ''demo'' [] ''events.log'' removal_world = (Inr [''events.log''], removal_world)"
    by (simp_all add: eventLogNames_def logs_to_scrub_def is_event_log_def check_event_log_def removal_run sample_event_def)
qed

lemma removal_world_removal:
  "\<exists>w'. removeProjectMetadata ''demo'' False removal_world = (Inr (), w')"
proof -
  have len: "length sample_log = 22" and parsed: "parseEvents sample_log = Inr [sample_event]" by (rule sample_log_read)+
  have valid: "isValidProjectName ''demo''" by code_simp
  have root: "openMetadataRoot removal_world = (Inr (), removal_world)" "lockMetadata removal_world = (Inr (), removal_world)"
    by (simp_all add: openMetadataRoot_def validatedMetadataRoot_def lockMetadata_def removal_run)
  have events: "openPrivateDirectoryAt [] ''events'' removal_world = (Inr (Some events_dir), removal_world)"
    by (simp add: removal_run)
  have dry: "remove_directories ''demo'' True removal_world = (Inr (), removal_world)"
    by (simp add: remove_directories_def remove_directory_def project_directories_def removeEntryAt.simps removal_run)
  define w1 where "w1 = removal_world\<lparr>w_files := take 4 (w_files removal_world)\<rparr>"
  have w1: "remove_directories ''demo'' False removal_world = (Inr (), w1)"
    by (simp add: remove_directories_def remove_directory_def project_directories_def removeEntryAt.simps removal_run w1_def
        sys_unlink_def sys_rmdir_def sys_sync_def remove_node_def)
  have log: "node_at w1 events_log = Some (private_file sample_log 0)" and calm: "w_faults w1 = (\<lambda>_ _. False)"
    by (simp_all add: w1_def removal_run)
  have "\<exists>w'. scrub_log ''demo'' ''events.log'' w1 = (Inr (), w') \<and> w_faults w' = (\<lambda>_ _. False)"
    using log calm len parsed
    by (simp add: scrub_log_def removal_run sys_overwrite_def sys_truncate_def write_with_def set_content_def sys_sync_def sample_event_def)
  then obtain w2 where w2: "scrub_log ''demo'' ''events.log'' w1 = (Inr (), w2)" "w_faults w2 = (\<lambda>_ _. False)" by blast
  show ?thesis
    using valid root events dry w1 w2 removal_world_logs
    by (simp add: removeProjectMetadata_def bindM_def returnM_def askM_def throwM_def sys_sync_def)
qed

theorem removed_project_scrubbed_witness:
  "\<exists>w'. removeProjectMetadata ''demo'' False removal_world = (Inr (), w') \<and> node_at w' [''checkouts'', ''demo''] = None
     \<and> log_events w' ''events.log'' = Some []"
proof -
  obtain w' where w': "removeProjectMetadata ''demo'' False removal_world = (Inr (), w')" using removal_world_removal by blast
  have there: "node_at removal_world events_dir \<noteq> None" "node_at removal_world [''checkouts''] \<noteq> None"
    "node_at removal_world (events_dir @ [''events.log'']) \<noteq> None" "is_event_log ''events.log''"
    by (simp_all add: removal_run is_event_log_def)
  have "log_events removal_world ''events.log'' = Some [sample_event]"
    using sample_log_read(1) by (simp add: log_events_def file_at_def removal_run ok_of_def)
  then show ?thesis
    using removed_project_scrubbed [OF w' there(1), of "''checkouts''" "''events.log''"] there w'
    by (auto simp: sample_event_def)
qed

end
