(* ===== verification/Spec2Isabelle.thy ===== *)
theory Spec2Isabelle
  imports Ck_Ssh_Command Ck_Authorized_Keys Ck_Remote_Url Ck_Http_Request Ck_Ci_Retention Ck_Ci_Admin Ck_Ci_Dependency_Lock Ck_Ci_Vm_Protocol Ck_Metadata_Store
begin

text \<open>
  A verification library for CK Git Hosting, a self-hosted Git server in C++: repositories are served over SSH and a
  read-only dashboard over HTTP, and pushes are built by a CI system whose runners may be other hosts. The library models
  the code of \<open>src/common\<close> that decides what the program accepts, stores and hands out. Paths below are relative to
  \<open>src/\<close> of the repository.

  \<^bold>\<open>The program and its parts.\<close> A client speaks SSH. \<open>authorized_keys.cpp\<close> ties its key to the dispatcher, which reads the
  command with \<open>ssh_command.cpp\<close> and either runs Git on a repository or forwards a request to the control server as a line of
  \<open>control_rpc.cpp\<close>. The dashboard reads requests with \<open>http_request.cpp\<close> and routes with \<open>http_router.cpp\<close>. Everything a
  client names is checked by \<open>validation.cpp\<close>; free text travels in the hexadecimal of \<open>text.cpp\<close>. A push is turned into a
  job by \<open>ci_workflow.cpp\<close>, which reads the workflow file as a document of \<open>yaml_subset.cpp\<close>; \<open>ci_store.cpp\<close> keeps jobs,
  runs, logs, artifacts, leases and runners as text files and moves jobs through the queue. A runner on another host claims
  jobs and reports on them through \<open>ci_runner_protocol.cpp\<close>, and may run them in a virtual machine that it talks to through
  \<open>ci_vm_protocol.cpp\<close>. Dependencies are pinned by \<open>ci_dependency_lock.cpp\<close> with the digests of \<open>hash.cpp\<close>.

  \<^bold>\<open>Conventions.\<close> A \<open>std::string\<close> is a list of 8-bit chars, an exception is the left value of a sum (\<open>Ck_Prelude\<close>), an
  optional an option, a struct a record, an enum a datatype. Functions keep the names of the code; record fields have a
  prefix of two letters. Sizes and counters that cannot wrap are natural numbers; where the code casts or wraps it is written
  out (\<open>mod 2 ^ 32\<close>, \<open>mod 2 ^ 64\<close>, and 32-bit words in \<open>Ck_Hash\<close>). A lambda or the body of a loop that has no name in the
  code has a definition of its own, named after what it does.

  \<^bold>\<open>Theories.\<close>
  \<^item> \<open>Ck_Prelude\<close>: errors and their monad, strings, splitting and lines, and the locales \<open>codec\<close>, \<open>canonical_codec\<close>,
    \<open>machine\<close> and \<open>monotone_machine\<close>. \<open>Ck_Charconv\<close>: \<open>std::from_chars\<close> and \<open>std::to_string\<close>.
  \<^item> \<open>Ck_Text\<close> (\<open>text.cpp\<close>): the strict UTF-8 check is equivalent to the encoding of RFC 3629, the hexadecimal codec is
    canonical. \<open>Ck_Validation\<close> (\<open>validation.cpp\<close>): names, refs, paths and labels; an accepted path never leaves its directory.
    \<open>Ck_Checkout_Path\<close> (\<open>checkout_path.cpp\<close>). \<open>Ck_Hash\<close> (\<open>hash.cpp\<close>): the streaming digest is the standard's.
  \<^item> \<open>Ck_Control_Rpc\<close> (\<open>control_rpc.cpp\<close>, the framing of \<open>control_transport_posix.cpp\<close>), \<open>Ck_Ssh_Command\<close>
    (\<open>ssh_command.cpp\<close>), \<open>Ck_Authorized_Keys\<close> (\<open>authorized_keys.cpp\<close>), \<open>Ck_Remote_Url\<close> (\<open>remote_url.cpp\<close>): the languages
    of commands and requests are given in full, a command accepted over SSH reaches the control server as it was meant, and
    a forced command cannot be left.
  \<^item> \<open>Ck_Http_Router\<close> (\<open>http_router.cpp\<close>), \<open>Ck_Http_Request\<close> (\<open>http_request.cpp\<close>): what a route or a request that is
    accepted guarantees.
  \<^item> \<open>Ck_Yaml\<close> (\<open>yaml_subset.cpp\<close>), \<open>Ck_Ready\<close> (the ordering of items by their needs), \<open>Ck_Ci_Workflow\<close>
    (\<open>ci_workflow.cpp\<close>), \<open>Ck_Ci_Dependency_Lock\<close> (\<open>ci_dependency_lock.cpp\<close>): readers of files that users write. They
    always end, they keep the bounds of their dialect, and what they accept has everything their schema promises.
  \<^item> \<open>Ck_Fs\<close>: the world of the stores, with the locale \<open>discipline\<close>. \<open>Ck_Ci_Types\<close> (\<open>ci_types.cpp\<close>), \<open>Ck_Ci_Records\<close> (the
    text records), \<open>Ck_Ci_Store\<close> (runs, logs and cancel marks on disk), \<open>Ck_Ci_Groups\<close> (the journal of a distributed
    workflow), \<open>Ck_Ci_Queue\<close> (the queue), \<open>Ck_Ci_Retention\<close> (the sweep), \<open>Ck_Ci_Admin\<close> (ids, runners, opting in, removal),
    all of \<open>ci_store.cpp\<close>. \<open>Ck_Ci_Discipline\<close> states what a property must satisfy to be kept by the whole queue (locales
    \<open>run_discipline\<close>, \<open>queue_discipline\<close>); \<open>Ck_Ci_Queue_Safety\<close>, \<open>Ck_Ci_Leases\<close> and \<open>Ck_Ci_Claims\<close> interpret it: the queue
    stays in its directory, jobs stay filed under their ids, a stale runner changes nothing, a job that is put back is never
    lost, only eligible jobs are handed out.
  \<^item> \<open>Ck_Metadata_Store\<close> (\<open>metadata_store.cpp\<close>): the checkouts that clients report and the event log with its archives;
    an appended event is kept, a torn append spoils the log once another follows it, and the removal of a project leaves nothing of it.
  \<^item> \<open>Ck_Ci_Runner_Protocol\<close>, \<open>Ck_Ci_Claim_Answer\<close> (\<open>ci_runner_protocol.cpp\<close>), \<open>Ck_Ci_Vm_Protocol\<close>
    (\<open>ci_vm_protocol.cpp\<close>): commands, permits, claim answers and finish reports with their printers and parsers, and the
    framed channel to a guest: what is sent is what is read, and what is read from a peer is checked.

  \<^bold>\<open>State.\<close> The stores act on a \<open>world\<close>: a tree of files with kinds, privacy and times, a clock, a random device and the
  set of system calls that fail. A store operation is a function from a world to a result and the world it leaves; every call
  may fail wherever the code can see it fail. A rename replaces its target at once, as POSIX promises, and the names of
  staging files are abstracted. The code holds a lock for every operation, so an operation is one atomic step and concurrency
  is the order of the steps. Theorems say whether they are about every world or about worlds in which calls succeed.

  \<^bold>\<open>Fuel.\<close> The YAML parser calls itself through several mutually recursive functions. It runs on \<open>yaml_fuel\<close> units, five for
  every line, two for every level of nesting and ten more; \<open>run_parser_serves\<close> shows that no document needs more, so that
  \<open>Out_of_fuel\<close> is never the result of a reader. The search of the dependency packages has one unit for every package and
  one more; \<open>check_graph_ends\<close> shows that this is enough, since a package that is being visited is never visited again. All
  other recursion is structural or has a termination proof.

  \<^bold>\<open>Properties.\<close> A property is marked C1, C2, and so on in the text before it, in the theory of its component. The
  witnesses apply the properties to concrete worlds, records and messages.

  \<^bold>\<open>Not modelled.\<close>
  \<^item> Programs and glue: the mains of client, server, dispatcher, runner and receive hook, processes, sockets, sandboxes and
    virtual machines of the platforms. They are system calls around the parts above.
  \<^item> Timeouts, cancellation callbacks and the waiting loops of sockets: they only end an operation with an error.
  \<^item> The documentation generator and its renderers (\<open>docs_site.cpp\<close>, \<open>markdown.cpp\<close>, \<open>math.cpp\<close>, \<open>highlight.cpp\<close>, the
    diagram libraries below \<open>src/ckdocs\<close>) and the HTML of the dashboard: presentation, which no other part relies on.
  \<^item> Git itself, libarchive, the compiler's standard library beyond what is used: the code only calls them.
  \<^item> The commit of a file's data to disk: a crash between two steps of an operation is not a state of the model, a failing
    call at every step is.
\<close>

end
